(* ===== verification/Prelude.thy ===== *)
theory Prelude
  imports Main "HOL-Library.Char_ord" "HOL-Library.List_Lexorder"
begin

text \<open>
  Shared vocabulary of the development: the C++ library operations the sources use
  (searches in \<open>std::string\<close>, character classes, decimal conversion, \<open>std::map\<close>
  iterated in key order), the error values that stand for thrown exceptions, and the two
  interfaces every component builds on: the ordered map and the transition system with
  an invariant.
\<close>

named_theorems str_simps \<open>equations of the string searches\<close>
named_theorems omap_simps \<open>laws of the ordered map\<close>

section \<open>Errors as values\<close>

text \<open>
  What a C++ function can do instead of returning. \<open>Undefined_behaviour\<close> marks the branches
  where the C++ standard gives the program no meaning (a write past a buffer, an integer
  conversion out of range, a null pointer); \<open>Out_of_fuel\<close> is the value of a model function whose
  bound was too small, which the theorems about it exclude.
\<close>

datatype exn =
    Logic_error string
  | Range_error string
  | Bad_cast
  | Invalid_path string
  | Not_found string
  | Undefined_behaviour
  | Out_of_fuel

type_synonym 'a result = "exn + 'a"

definition bind_result :: "'a result \<Rightarrow> ('a \<Rightarrow> 'b result) \<Rightarrow> 'b result" where
  "bind_result r f = (case r of Inl e \<Rightarrow> Inl e | Inr a \<Rightarrow> f a)"

lemma bind_result_simps [simp]:
  "bind_result (Inl e) f = Inl e"
  "bind_result (Inr a) f = f a"
  by (simp_all add: bind_result_def)

lemma bind_result_Inr_iff:
  "bind_result r f = Inr b \<longleftrightarrow> (\<exists>a. r = Inr a \<and> f a = Inr b)"
  by (cases r) auto

lemma bind_result_Inl_iff:
  "bind_result r f = Inl e \<longleftrightarrow> r = Inl e \<or> (\<exists>a. r = Inr a \<and> f a = Inl e)"
  by (cases r) auto

text \<open>\<open>what()\<close> of an exception.\<close>

definition exn_text :: "exn \<Rightarrow> string" where
  "exn_text x = (case x of Logic_error s \<Rightarrow> s | Range_error s \<Rightarrow> s | Invalid_path s \<Rightarrow> s | Not_found s \<Rightarrow> s | _ \<Rightarrow> [])"

section \<open>Characters\<close>

abbreviation code :: "char \<Rightarrow> nat" where
  "code c \<equiv> of_char c"

definition isdigit :: "char \<Rightarrow> bool" where
  "isdigit c \<longleftrightarrow> 48 \<le> code c \<and> code c \<le> 57"

definition isalnum :: "char \<Rightarrow> bool" where
  "isalnum c \<longleftrightarrow> isdigit c \<or> (65 \<le> code c \<and> code c \<le> 90) \<or> (97 \<le> code c \<and> code c \<le> 122)"

definition isspace :: "char \<Rightarrow> bool" where
  "isspace c \<longleftrightarrow> code c = 32 \<or> (9 \<le> code c \<and> code c \<le> 13)"

text \<open>The value of a plain \<open>char\<close>, which is signed on the platforms the program is built for.\<close>

definition schar :: "char \<Rightarrow> int" where
  "schar c = (if code c < 128 then int (code c) else int (code c) - 256)"

definition char_of_int :: "int \<Rightarrow> char" where
  "char_of_int i = char_of (nat (i mod 256))"

lemma char_of_int_schar [simp]: "char_of_int (schar c) = c"
proof -
  have "nat ((int (code c) - 256) mod 256) = code c" if "\<not> code c < 128"
    using nat_of_char_less_256 [of c] that by (simp add: mod_diff_right_eq [symmetric])
  moreover have "nat (int (code c) mod 256) = code c"
    using nat_of_char_less_256 [of c] by simp
  ultimately show ?thesis
    by (auto simp: char_of_int_def schar_def)
qed

lemma list_length_ge2: "2 \<le> length xs \<Longrightarrow> \<exists>a b r. xs = a # b # r"
  by (cases xs; cases "tl xs") auto

text \<open>A text between single quotation marks, as the error messages print it.\<close>

definition quote :: "string \<Rightarrow> string" where
  "quote s = [CHR 0x27] @ s @ [CHR 0x27]"

text \<open>What a C function sees of \<open>s.c_str()\<close>.\<close>

definition c_str :: "string \<Rightarrow> string" where
  "c_str s = takeWhile (\<lambda>c. c \<noteq> CHR 0x00) s"

section \<open>Searches in strings\<close>

text \<open>Positions are \<^typ>\<open>nat\<close>; \<open>std::string::npos\<close> is \<^const>\<open>None\<close>.\<close>

fun find_idx :: "('a \<Rightarrow> bool) \<Rightarrow> 'a list \<Rightarrow> nat option" where
  "find_idx P [] = None"
| "find_idx P (x # xs) = (if P x then Some 0 else map_option Suc (find_idx P xs))"

definition find_idx_from :: "('a \<Rightarrow> bool) \<Rightarrow> 'a list \<Rightarrow> nat \<Rightarrow> nat option" where
  "find_idx_from P xs i = map_option (\<lambda>j. i + j) (find_idx P (drop i xs))"

definition find_last_idx :: "('a \<Rightarrow> bool) \<Rightarrow> 'a list \<Rightarrow> nat option" where
  "find_last_idx P xs = map_option (\<lambda>j. length xs - 1 - j) (find_idx P (rev xs))"

text \<open>\<open>str.find(pat)\<close> and \<open>str.find(pat, i)\<close>.\<close>

fun find_sub :: "'a list \<Rightarrow> 'a list \<Rightarrow> nat option" where
  "find_sub p [] = (if p = [] then Some 0 else None)"
| "find_sub p (x # xs) =
     (if take (length p) (x # xs) = p then Some 0 else map_option Suc (find_sub p xs))"

definition find_sub_from :: "'a list \<Rightarrow> 'a list \<Rightarrow> nat \<Rightarrow> nat option" where
  "find_sub_from p xs i =
     (if i \<le> length xs then map_option (\<lambda>j. i + j) (find_sub p (drop i xs)) else None)"

text \<open>\<open>str.erase(pos, n)\<close>, \<open>str.substr(pos, n)\<close>, \<open>str.replace(pos, n, with)\<close>.\<close>

definition str_erase :: "'a list \<Rightarrow> nat \<Rightarrow> nat \<Rightarrow> 'a list" where
  "str_erase xs pos n = take pos xs @ drop (pos + n) xs"

definition str_substr :: "'a list \<Rightarrow> nat \<Rightarrow> nat \<Rightarrow> 'a list" where
  "str_substr xs pos n = take n (drop pos xs)"

definition str_replace :: "'a list \<Rightarrow> nat \<Rightarrow> nat \<Rightarrow> 'a list \<Rightarrow> 'a list" where
  "str_replace xs pos n w = take pos xs @ w @ drop (pos + n) xs"

lemma find_idx_None [str_simps]: "find_idx P xs = None \<longleftrightarrow> (\<forall>x \<in> set xs. \<not> P x)"
  by (induction xs) auto

lemma find_idx_Some [str_simps]:
  "find_idx P xs = Some i \<longleftrightarrow>
     i < length xs \<and> P (xs ! i) \<and> takeWhile (\<lambda>x. \<not> P x) xs = take i xs"
proof (induction xs arbitrary: i)
  case Nil
  then show ?case by simp
next
  case (Cons x xs)
  then show ?case by (cases i) auto
qed

lemma find_idx_length: "find_idx P xs = Some i \<Longrightarrow> i = length (takeWhile (\<lambda>x. \<not> P x) xs)"
  by (auto simp: find_idx_Some)

lemma find_idx_dropWhile: "find_idx P xs = Some i \<Longrightarrow> drop i xs = dropWhile (\<lambda>x. \<not> P x) xs"
  by (metis dropWhile_eq_drop find_idx_length)

lemma find_idx_takeWhile: "find_idx P xs = Some i \<Longrightarrow> take i xs = takeWhile (\<lambda>x. \<not> P x) xs"
  by (simp add: find_idx_Some)

lemma find_idx_append:
  "find_idx P (xs @ ys) =
     (case find_idx P xs of Some i \<Rightarrow> Some i | None \<Rightarrow> map_option (\<lambda>j. length xs + j) (find_idx P ys))"
proof (induction xs)
  case Nil
  then show ?case by (cases "find_idx P ys") auto
next
  case (Cons x xs)
  then show ?case by (cases "find_idx P ys") (auto split: option.splits)
qed

lemma find_sub_Some: "find_sub p xs = Some i \<Longrightarrow> i + length p \<le> length xs \<and> take (length p) (drop i xs) = p"
proof (induction xs arbitrary: i)
  case Nil
  then show ?case by (simp split: if_splits)
next
  case (Cons x xs)
  show ?case
  proof (cases "take (length p) (x # xs) = p")
    case True
    then have "length p \<le> length (x # xs)" by (metis length_take min.cobounded1)
    with True Cons.prems show ?thesis by simp
  next
    case False
    with Cons.prems obtain j where "find_sub p xs = Some j" "i = Suc j" by auto
    with Cons.IH show ?thesis by simp
  qed
qed

lemma find_sub_None: "find_sub p xs = None \<Longrightarrow> take (length p) (drop i xs) \<noteq> p \<or> length xs < i + length p"
proof (induction xs arbitrary: i)
  case Nil
  then show ?case by (auto split: if_splits)
next
  case (Cons x xs)
  then show ?case by (cases i) (auto split: if_splits)
qed

text \<open>The library's \<^const>\<open>find\<close>, for the loops that stop at the first element they want.\<close>

lemma find_SomeD: "find P xs = Some x \<Longrightarrow> x \<in> set xs \<and> P x"
  by (auto simp: find_Some_iff)

lemma find_None_all: "find P xs = None \<longleftrightarrow> (\<forall>x \<in> set xs. \<not> P x)"
  by (auto simp: find_None_iff)

lemma find_append: "find P (xs @ ys) = (case find P xs of None \<Rightarrow> find P ys | Some x \<Rightarrow> Some x)"
  by (induction xs) auto

section \<open>Decimal numbers\<close>

definition int_min :: int where "int_min = - (2 ^ 31)"
definition int_max :: int where "int_max = 2 ^ 31 - 1"

definition in_int :: "int \<Rightarrow> bool" where
  "in_int i \<longleftrightarrow> int_min \<le> i \<and> i \<le> int_max"

definition digit_val :: "char \<Rightarrow> nat" where
  "digit_val c = code c - 48"

definition digit_char :: "nat \<Rightarrow> char" where
  "digit_char d = char_of (48 + d)"

text \<open>The number a string of digits denotes, read left to right as the C library does.\<close>

definition digits_val :: "string \<Rightarrow> nat" where
  "digits_val s = foldl (\<lambda>a c. 10 * a + digit_val c) 0 s"

text \<open>\<open>ost << n\<close> for a non-negative and for any integer.\<close>

fun dec_nat :: "nat \<Rightarrow> string" where
  "dec_nat n = (if n < 10 then [digit_char n] else dec_nat (n div 10) @ [digit_char (n mod 10)])"

declare dec_nat.simps [simp del]

definition dec_int :: "int \<Rightarrow> string" where
  "dec_int i = (if i < 0 then CHR ''-'' # dec_nat (nat (- i)) else dec_nat (nat i))"

lemma isdigit_digit_char [simp]: "d < 10 \<Longrightarrow> isdigit (digit_char d)"
  by (simp add: isdigit_def digit_char_def)

lemma digit_val_digit_char [simp]: "d < 10 \<Longrightarrow> digit_val (digit_char d) = d"
  by (simp add: digit_val_def digit_char_def)

lemma digits_val_snoc [simp]: "digits_val (s @ [c]) = 10 * digits_val s + digit_val c"
  by (simp add: digits_val_def)

lemma dec_nat_nonempty [simp]: "dec_nat n \<noteq> []"
  by (subst dec_nat.simps) simp

lemma dec_nat_digits: "\<forall>c \<in> set (dec_nat n). isdigit c"
proof (induction n rule: dec_nat.induct)
  case (1 n)
  then show ?case by (cases "n < 10") (auto simp: dec_nat.simps [of n])
qed

lemma digits_val_dec_nat [simp]: "digits_val (dec_nat n) = n"
proof (induction n rule: dec_nat.induct)
  case (1 n)
  show ?case
  proof (cases "n < 10")
    case True
    then show ?thesis by (simp add: dec_nat.simps [of n] digits_val_def)
  next
    case False
    with 1 show ?thesis by (simp add: dec_nat.simps [of n])
  qed
qed

text \<open>
  \<open>sscanf(s, "%d", &n)\<close>: leading white space, an optional sign, then the longest run of
  digits. A value outside \<open>int\<close> has undefined behaviour.
\<close>

datatype scan = No_match | Scanned int | Scan_overflow

definition scan_digits :: "bool \<Rightarrow> string \<Rightarrow> scan" where
  "scan_digits neg s =
     (let ds = takeWhile isdigit s; v = int (digits_val ds); w = (if neg then - v else v)
      in if ds = [] then No_match else if in_int w then Scanned w else Scan_overflow)"

definition sscanf_d :: "string \<Rightarrow> scan" where
  "sscanf_d s =
     (case dropWhile isspace s of
        [] \<Rightarrow> No_match
      | c # cs \<Rightarrow>
          if c = CHR ''-'' then scan_digits True cs
          else if c = CHR ''+'' then scan_digits False cs
          else scan_digits False (c # cs))"

text \<open>\<open>atoi\<close>: as above, and 0 where nothing can be converted.\<close>

definition atoi :: "string \<Rightarrow> int option" where
  "atoi s = (case sscanf_d s of No_match \<Rightarrow> Some 0 | Scanned v \<Rightarrow> Some v | Scan_overflow \<Rightarrow> None)"

lemma sscanf_d_digits:
  assumes "s \<noteq> []" "\<forall>c \<in> set s. isdigit c" "int (digits_val s) \<le> int_max"
  shows "sscanf_d s = Scanned (int (digits_val s))"
proof -
  obtain c cs where s: "s = c # cs" using assms(1) by (cases s) auto
  from assms(2) s have "isdigit c" by simp
  then have c: "\<not> isspace c" "c \<noteq> CHR ''-''" "c \<noteq> CHR ''+''"
    by (auto simp: isdigit_def isspace_def)
  have "takeWhile isdigit s = s" using assms(2) by (simp add: takeWhile_eq_all_conv)
  with assms(3) c s show ?thesis
    by (simp add: sscanf_d_def scan_digits_def in_int_def int_min_def Let_def)
qed

lemma atoi_dec_nat: "int n \<le> int_max \<Longrightarrow> atoi (dec_nat n) = Some (int n)"
  using sscanf_d_digits [of "dec_nat n"] by (simp add: atoi_def dec_nat_digits)

section \<open>The ordered map\<close>

text \<open>
  \<open>std::map\<close> as the sources use it: look up, store, erase, and iterate in the order of the
  keys. The interface is a locale; its client lemmas are about storing a whole list of pairs,
  which is what every parser and configuration reader of the program does.
\<close>

locale std_map =
  fixes empty :: "'m"
    and find :: "'m \<Rightarrow> 'k::linorder \<Rightarrow> 'v option"
    and put :: "'k \<Rightarrow> 'v \<Rightarrow> 'm \<Rightarrow> 'm"
    and erase :: "'k \<Rightarrow> 'm \<Rightarrow> 'm"
    and entries :: "'m \<Rightarrow> ('k \<times> 'v) list"
    and wf :: "'m \<Rightarrow> bool"
  assumes find_empty: "find empty = Map.empty"
    and wf_empty: "wf empty"
    and find_put: "find (put k v m) = (find m)(k \<mapsto> v)"
    and wf_put: "wf m \<Longrightarrow> wf (put k v m)"
    and find_erase: "wf m \<Longrightarrow> find (erase k m) = (find m)(k := None)"
    and wf_erase: "wf m \<Longrightarrow> wf (erase k m)"
    and find_entries: "find m = map_of (entries m)"
    and entries_sorted: "wf m \<Longrightarrow> sorted_wrt (<) (map fst (entries m))"
    and extensional: "wf m \<Longrightarrow> wf m' \<Longrightarrow> find m = find m' \<Longrightarrow> m = m'"
begin

lemma find_put_same [simp]: "find (put k v m) k = Some v"
  by (simp add: find_put)

lemma find_put_other [simp]: "k \<noteq> k' \<Longrightarrow> find (put k v m) k' = find m k'"
  by (simp add: find_put)

definition put_all :: "('k \<times> 'v) list \<Rightarrow> 'm \<Rightarrow> 'm" where
  "put_all kvs m = fold (\<lambda>(k, v). put k v) kvs m"

lemma wf_put_all: "wf m \<Longrightarrow> wf (put_all kvs m)"
  unfolding put_all_def by (induction kvs arbitrary: m) (auto simp: wf_put)

lemma find_put_all: "find (put_all kvs m) = find m ++ map_of (rev kvs)"
  unfolding put_all_def by (induction kvs arbitrary: m) (auto simp: find_put)

lemma keys_distinct: "wf m \<Longrightarrow> distinct (map fst (entries m))"
  using entries_sorted strict_sorted_iff by blast

text \<open>Storing the entries of a map one after the other rebuilds it.\<close>

lemma put_all_entries: "wf m \<Longrightarrow> put_all (entries m) empty = m"
proof (rule extensional)
  assume wf: "wf m"
  show "wf (put_all (entries m) empty)" by (rule wf_put_all [OF wf_empty])
  have "map_of (rev (entries m)) = map_of (entries m)"
    using keys_distinct [OF wf] by (intro map_of_inject_set [THEN iffD2]) (auto simp: rev_map [symmetric])
  then have "map_of (rev (entries m)) = find m" by (simp only: find_entries)
  then show "find (put_all (entries m) empty) = find m"
    by (simp add: find_put_all find_empty)
qed

lemma put_absent_entries:
  "wf m \<Longrightarrow> find m k = None \<Longrightarrow> set (entries (put k v m)) = insert (k, v) (set (entries m))"
proof (rule set_eqI)
  fix x :: "'k \<times> 'v"
  assume wf: "wf m" and absent: "find m k = None"
  obtain a b where x: "x = (a, b)" by (cases x)
  have "x \<in> set (entries (put k v m)) \<longleftrightarrow> find (put k v m) a = Some b"
    using keys_distinct [OF wf_put [OF wf]] by (simp add: x find_entries)
  also have "\<dots> \<longleftrightarrow> (a = k \<and> b = v) \<or> find m a = Some b"
    using absent by (auto simp: find_put)
  also have "find m a = Some b \<longleftrightarrow> x \<in> set (entries m)"
    using keys_distinct [OF wf] by (simp add: x find_entries)
  finally show "x \<in> set (entries (put k v m)) \<longleftrightarrow> x \<in> insert (k, v) (set (entries m))"
    by (simp add: x)
qed

end

type_synonym ('k, 'v) omap = "('k \<times> 'v) list"

fun om_put :: "'k::linorder \<Rightarrow> 'v \<Rightarrow> ('k, 'v) omap \<Rightarrow> ('k, 'v) omap" where
  "om_put k v [] = [(k, v)]"
| "om_put k v ((a, b) # m) =
     (if k < a then (k, v) # (a, b) # m
      else if k = a then (k, v) # m
      else (a, b) # om_put k v m)"

definition om_erase :: "'k \<Rightarrow> ('k, 'v) omap \<Rightarrow> ('k, 'v) omap" where
  "om_erase k m = filter (\<lambda>(a, b). a \<noteq> k) m"

definition om_wf :: "('k::linorder, 'v) omap \<Rightarrow> bool" where
  "om_wf m \<longleftrightarrow> sorted_wrt (<) (map fst m)"

lemma map_of_om_put [simp, omap_simps]: "map_of (om_put k v m) = (map_of m)(k \<mapsto> v)"
  by (induction k v m rule: om_put.induct) auto

lemma fst_om_put [simp, omap_simps]: "fst ` set (om_put k v m) = insert k (fst ` set m)"
  by (induction k v m rule: om_put.induct) auto

lemma om_wf_Nil [simp]: "om_wf []"
  by (simp add: om_wf_def)

lemma om_wf_put [simp, intro]: "om_wf m \<Longrightarrow> om_wf (om_put k v m)"
proof (induction k v m rule: om_put.induct)
  case (2 k v a b m)
  then have "om_wf (om_put k v m)" if "\<not> k < a" "k \<noteq> a"
    using that by (simp add: om_wf_def)
  with 2 show ?case
    by (auto simp: om_wf_def image_iff)
qed (simp add: om_wf_def)

lemma map_of_om_erase [simp, omap_simps]: "map_of (om_erase k m) = (map_of m)(k := None)"
  by (induction m) (auto simp: om_erase_def)

lemma om_wf_erase [simp, intro]: "om_wf m \<Longrightarrow> om_wf (om_erase k m)"
  by (induction m) (auto simp: om_wf_def om_erase_def)

lemma om_extensional:
  assumes "om_wf m" "om_wf m'" "map_of m = map_of m'"
  shows "m = m'"
proof -
  have d: "distinct (map fst m)" "distinct (map fst m')" "sorted (map fst m)" "sorted (map fst m')"
    using assms(1,2) by (auto simp: om_wf_def strict_sorted_iff)
  have "set m = set m'"
    using assms(3) d(1,2) by (simp add: map_of_inject_set)
  moreover from this have "inj_on fst (set m \<union> set m')"
    using d(1) by (simp add: distinct_map)
  ultimately show ?thesis
    using d by (simp add: map_sorted_distinct_set_unique)
qed

interpretation omap: std_map "[]" map_of om_put om_erase "\<lambda>m. m" om_wf
proof unfold_locales
  show "om_wf m \<Longrightarrow> om_wf m' \<Longrightarrow> map_of m = map_of m' \<Longrightarrow> m = m'" for m m' :: "('a, 'b) omap"
    by (rule om_extensional)
qed (auto simp: om_wf_def [symmetric])

section \<open>Transition systems\<close>

text \<open>
  The shared-state components (locks, queues, pools) are step relations over a record. The
  locale states once what makes a predicate an invariant of every reachable state.
\<close>

inductive reach :: "('s \<Rightarrow> bool) \<Rightarrow> ('s \<Rightarrow> 's \<Rightarrow> bool) \<Rightarrow> 's \<Rightarrow> bool" for start stp where
  reach_start: "start s \<Longrightarrow> reach start stp s"
| reach_step: "reach start stp s \<Longrightarrow> stp s t \<Longrightarrow> reach start stp t"

inductive steps :: "('s \<Rightarrow> 's \<Rightarrow> bool) \<Rightarrow> 's \<Rightarrow> 's \<Rightarrow> bool" for stp where
  steps_refl: "steps stp s s"
| steps_step: "steps stp s t \<Longrightarrow> stp t u \<Longrightarrow> steps stp s u"

locale invariant_system =
  fixes start :: "'s \<Rightarrow> bool"
    and stp :: "'s \<Rightarrow> 's \<Rightarrow> bool"
    and inv :: "'s \<Rightarrow> bool"
  assumes inv_start: "start s \<Longrightarrow> inv s"
    and inv_step: "inv s \<Longrightarrow> stp s t \<Longrightarrow> inv t"
begin

lemma inv_reach: "reach start stp s \<Longrightarrow> inv s"
  by (induction rule: reach.induct) (auto intro: inv_start inv_step)

lemma inv_steps: "steps stp s t \<Longrightarrow> inv s \<Longrightarrow> inv t"
  by (induction rule: steps.induct) (auto intro: inv_step)

end

section \<open>Counting\<close>

text \<open>How many elements of a list satisfy a predicate, and how an update changes that.\<close>

definition cnt :: "('a \<Rightarrow> bool) \<Rightarrow> 'a list \<Rightarrow> int" where
  "cnt P xs = int (length (filter P xs))"

lemma cnt_nonneg [simp]: "0 \<le> cnt P xs"
  by (simp add: cnt_def)

lemma cnt_pos_neq: "0 < cnt P xs \<longleftrightarrow> cnt P xs \<noteq> 0"
  using cnt_nonneg [of P xs] by linarith

lemma cnt_Nil [simp]: "cnt P [] = 0"
  by (simp add: cnt_def)

lemma cnt_Cons [simp]: "cnt P (x # xs) = (if P x then 1 else 0) + cnt P xs"
  by (simp add: cnt_def)

lemma cnt_append [simp]: "cnt P (xs @ ys) = cnt P xs + cnt P ys"
  by (simp add: cnt_def)

lemma cnt_update:
  "i < length xs \<Longrightarrow>
   cnt P (xs[i := x]) = cnt P xs - (if P (xs ! i) then 1 else 0) + (if P x then 1 else 0)"
proof (induction xs arbitrary: i)
  case (Cons y ys)
  then show ?case by (cases i) auto
qed simp

lemma cnt_pos_iff: "0 < cnt P xs \<longleftrightarrow> (\<exists>x \<in> set xs. P x)"
  by (auto simp: cnt_def filter_empty_conv)

lemma cnt_zero_iff: "cnt P xs = 0 \<longleftrightarrow> (\<forall>x \<in> set xs. \<not> P x)"
  by (auto simp: cnt_def filter_empty_conv)

lemma cnt_two:
  "i < length xs \<Longrightarrow> j < length xs \<Longrightarrow> i \<noteq> j \<Longrightarrow> P (xs ! i) \<Longrightarrow> P (xs ! j) \<Longrightarrow> 2 \<le> cnt P xs"
proof -
  assume ij: "i < length xs" "j < length xs" "i \<noteq> j" and P: "P (xs ! i)" "P (xs ! j)"
  have "card {i, j} \<le> card {k. k < length xs \<and> P (xs ! k)}"
    using ij P by (intro card_mono) auto
  with ij show ?thesis by (simp add: cnt_def length_filter_conv_card)
qed

end
