(* ===== verification/StringUtil.thy ===== *)
theory StringUtil
  imports Prelude
begin

text \<open>
  The string helpers of \<open>src/src/miutil\<close>: \<open>trimstr\<close>, \<open>splitstr\<close>, \<open>replaceString\<close>,
  \<open>compresSpace\<close> and \<open>compres\<close>. Each is modelled with the positions and the in-place
  edits of the source, and is then shown equal to a reference definition without positions,
  which is what the parsers built on them reason with.
\<close>

section \<open>trimstr\<close>

datatype trim_where = TRIMFRONT | TRIMBACK | TRIMBOTH

definition trim_set :: string where
  "trim_set = [CHR '' '', CHR 0x09, CHR 0x0D, CHR 0x0A]"

definition trim_front :: "string \<Rightarrow> string \<Rightarrow> string" where
  "trim_front W s =
     (case find_idx (\<lambda>c. c \<notin> set W) s of
        None \<Rightarrow> []
      | Some pos \<Rightarrow> if pos > 0 then str_erase s 0 pos else s)"

definition trim_back :: "string \<Rightarrow> string \<Rightarrow> string" where
  "trim_back W s =
     (case find_last_idx (\<lambda>c. c \<notin> set W) s of
        None \<Rightarrow> []
      | Some pos \<Rightarrow>
          if pos < length s - 1 then str_erase s (pos + 1) (length s - pos - 1) else s)"

definition trimstr_gen :: "trim_where \<Rightarrow> string \<Rightarrow> string \<Rightarrow> string" where
  "trimstr_gen wh W s =
     (if s = [] then s
      else let s1 = (if wh = TRIMFRONT \<or> wh = TRIMBOTH then trim_front W s else s)
           in if length s1 > 0 \<and> (wh = TRIMBACK \<or> wh = TRIMBOTH) then trim_back W s1 else s1)"

text \<open>The call with the default arguments, as nearly every caller writes it.\<close>

definition trimstr :: "string \<Rightarrow> string" where
  "trimstr s = trimstr_gen TRIMBOTH trim_set s"

definition strip :: "string \<Rightarrow> string \<Rightarrow> string" where
  "strip W s = rev (dropWhile (\<lambda>c. c \<in> set W) (rev (dropWhile (\<lambda>c. c \<in> set W) s)))"

lemma trim_front_eq: "trim_front W s = dropWhile (\<lambda>c. c \<in> set W) s"
proof (cases "find_idx (\<lambda>c. c \<notin> set W) s")
  case None
  then have "\<forall>c \<in> set s. c \<in> set W" by (simp add: find_idx_None)
  with None show ?thesis by (simp add: trim_front_def dropWhile_eq_Nil_conv [THEN iffD2])
next
  case (Some pos)
  then have "drop pos s = dropWhile (\<lambda>c. c \<in> set W) s"
    using find_idx_dropWhile [OF Some] by simp
  with Some show ?thesis by (cases "pos = 0") (simp_all add: trim_front_def str_erase_def)
qed

lemma trim_back_eq: "trim_back W s = rev (dropWhile (\<lambda>c. c \<in> set W) (rev s))"
proof (cases "find_idx (\<lambda>c. c \<notin> set W) (rev s)")
  case None
  then have "\<forall>c \<in> set (rev s). c \<in> set W" by (simp add: find_idx_None)
  with None show ?thesis
    by (simp add: trim_back_def find_last_idx_def dropWhile_eq_Nil_conv [THEN iffD2])
next
  case (Some j)
  then have j: "j < length s" by (simp add: find_idx_Some)
  have "drop j (rev s) = dropWhile (\<lambda>c. c \<in> set W) (rev s)"
    using find_idx_dropWhile [OF Some] by simp
  then have "rev (dropWhile (\<lambda>c. c \<in> set W) (rev s)) = take (length s - j) s"
    by (metis rev_drop rev_rev_ident length_rev)
  moreover have "Suc (length s - Suc j) = length s - j" using j by simp
  moreover have "take (length s - j) s = s" if "\<not> length s - Suc j < length s - Suc 0"
    using that j by simp
  ultimately show ?thesis using Some j
    by (simp add: trim_back_def find_last_idx_def str_erase_def)
qed

lemma trimstr_gen_both: "trimstr_gen TRIMBOTH W s = strip W s"
proof (cases "dropWhile (\<lambda>c. c \<in> set W) s")
  case Nil
  then show ?thesis
    unfolding trimstr_gen_def strip_def trim_front_eq trim_back_eq Let_def Nil by auto
next
  case (Cons c t)
  then have "s \<noteq> []" by auto
  with Cons show ?thesis
    unfolding trimstr_gen_def strip_def trim_front_eq trim_back_eq Let_def Cons by simp
qed

lemma trimstr_strip: "trimstr s = strip trim_set s"
  by (simp add: trimstr_def trimstr_gen_both)

lemma strip_no_ends:
  assumes "s \<noteq> []" "hd s \<notin> set W" "last s \<notin> set W"
  shows "strip W s = s"
proof -
  have "dropWhile (\<lambda>c. c \<in> set W) s = s" using assms(1,2) by (cases s) auto
  moreover have "dropWhile (\<lambda>c. c \<in> set W) (rev s) = rev s"
    using assms(1,3) by (cases s rule: rev_cases) auto
  ultimately show ?thesis by (simp add: strip_def)
qed

lemma strip_Nil [simp]: "strip W [] = []"
  by (simp add: strip_def)

lemma strip_no_trim: "\<forall>c \<in> set s. c \<notin> set W \<Longrightarrow> strip W s = s"
  by (cases "s = []") (auto intro: strip_no_ends)

lemma hd_dropWhile_not: "dropWhile P s \<noteq> [] \<Longrightarrow> \<not> P (hd (dropWhile P s))"
  by (induction s) auto

lemma strip_ends:
  assumes "strip W s \<noteq> []"
  shows "hd (strip W s) \<notin> set W \<and> last (strip W s) \<notin> set W"
proof -
  let ?P = "\<lambda>c. c \<in> set W"
  define t where "t = dropWhile ?P s"
  define u where "u = dropWhile ?P (rev t)"
  have s: "strip W s = rev u" by (simp add: strip_def t_def u_def)
  with assms have "u \<noteq> []" by auto
  then have "t \<noteq> []" by (auto simp: u_def)
  have "last (rev u) \<notin> set W"
    using hd_dropWhile_not [of ?P "rev t"] \<open>u \<noteq> []\<close> by (simp add: u_def last_rev)
  moreover obtain v where "rev t = v @ u"
    by (metis takeWhile_dropWhile_id u_def)
  then have "t = rev u @ rev v" by (metis rev_append rev_rev_ident)
  then have "hd t = hd (rev u)" using \<open>u \<noteq> []\<close> by simp
  then have "hd (rev u) \<notin> set W"
    using hd_dropWhile_not [of ?P s] \<open>t \<noteq> []\<close> by (simp add: t_def)
  ultimately show ?thesis by (simp add: s)
qed

lemma strip_idem: "strip W (strip W s) = strip W s"
  by (cases "strip W s = []") (auto intro: strip_no_ends dest: strip_ends)

section \<open>splitstr\<close>

text \<open>The number of separators outside protected strings: \<open>count\<close> of the source.\<close>

fun split_count :: "char \<Rightarrow> char \<Rightarrow> char \<Rightarrow> bool \<Rightarrow> string \<Rightarrow> nat" where
  "split_count sep prot ch ins [] = 0"
| "split_count sep prot ch ins (c # cs) =
     (if c = prot \<and> ch \<noteq> CHR 0x5C then split_count sep prot c (\<not> ins) cs
      else (if c = sep \<and> \<not> ins then 1 else 0) + split_count sep prot c ins cs)"

text \<open>
  The loop of \<open>splitstr\<close>: \<open>ost\<close> collects the current element, \<open>i\<close> is the next
  position of \<open>data\<close>, which was sized from the count. A write outside \<open>data\<close> would be
  undefined; the model returns \<^const>\<open>None\<close> for it.
\<close>

definition data_set :: "string list \<Rightarrow> nat \<Rightarrow> string \<Rightarrow> string list option" where
  "data_set d i x = (if i < length d then Some (d[i := x]) else None)"

fun split_loop ::
  "char \<Rightarrow> char \<Rightarrow> string \<Rightarrow> char \<Rightarrow> bool \<Rightarrow> string \<Rightarrow> nat \<Rightarrow> string list \<Rightarrow> string list option"
where
  "split_loop sep prot [] ch ins ost i d = data_set d i (trimstr ost)"
| "split_loop sep prot (c # cs) ch ins ost i d =
     (if c = prot \<and> ch \<noteq> CHR 0x5C then split_loop sep prot cs c (\<not> ins) (ost @ [c]) i d
      else if ins then split_loop sep prot cs c ins (ost @ [c]) i d
      else if c \<noteq> sep then split_loop sep prot cs c ins (ost @ [c]) i d
      else (case data_set d i (trimstr ost) of
              None \<Rightarrow> None
            | Some d' \<Rightarrow> split_loop sep prot cs c ins [] (i + 1) d'))"

definition splitstr :: "string \<Rightarrow> char \<Rightarrow> char \<Rightarrow> string list option" where
  "splitstr s sep prot =
     split_loop sep prot s (CHR 0x00) False [] 0
       (replicate (split_count sep prot (CHR 0x00) False s + 1) [])"

abbreviation dquote :: char where "dquote \<equiv> CHR 0x22"

text \<open>Reference: the raw fields, and \<open>splitstr\<close> as a total function.\<close>

fun raw_fields :: "char \<Rightarrow> char \<Rightarrow> char \<Rightarrow> bool \<Rightarrow> string \<Rightarrow> string list" where
  "raw_fields sep prot ch ins [] = [[]]"
| "raw_fields sep prot ch ins (c # cs) =
     (if c = prot \<and> ch \<noteq> CHR 0x5C
      then (case raw_fields sep prot c (\<not> ins) cs of [] \<Rightarrow> [] | f # fs \<Rightarrow> (c # f) # fs)
      else if \<not> ins \<and> c = sep then [] # raw_fields sep prot c ins cs
      else (case raw_fields sep prot c ins cs of [] \<Rightarrow> [] | f # fs \<Rightarrow> (c # f) # fs))"

definition split_fields :: "string \<Rightarrow> char \<Rightarrow> char \<Rightarrow> string list" where
  "split_fields s sep prot = map trimstr (raw_fields sep prot (CHR 0x00) False s)"

lemma fields_nonempty [simp]: "raw_fields sep prot ch ins s \<noteq> []"
  by (induction sep prot ch ins s rule: raw_fields.induct) (auto split: list.splits)

lemma length_fields: "length (raw_fields sep prot ch ins s) = split_count sep prot ch ins s + 1"
  by (induction sep prot ch ins s rule: raw_fields.induct) (auto split: list.splits simp: neq_Nil_conv)

lemma split_loop_fields:
  "length d = i + length (raw_fields sep prot ch ins s) \<Longrightarrow>
   split_loop sep prot s ch ins ost i d =
     Some (take i d @ (case raw_fields sep prot ch ins s of
                         [] \<Rightarrow> [] | f # fs \<Rightarrow> trimstr (ost @ f) # map trimstr fs))"
proof (induction sep prot s ch ins ost i d rule: split_loop.induct)
  case (1 sep prot ch ins ost i d)
  then show ?case
    by (simp add: data_set_def upd_conv_take_nth_drop)
next
  case (2 sep prot c cs ch ins ost i d)
  obtain f fs where F: "raw_fields sep prot c ins cs = f # fs"
    using fields_nonempty by (metis neq_Nil_conv)
  obtain g gs where G: "raw_fields sep prot c (\<not> ins) cs = g # gs"
    using fields_nonempty by (metis neq_Nil_conv)
  show ?case
  proof (cases "\<not> (c = prot \<and> ch \<noteq> CHR 0x5C) \<and> \<not> ins \<and> c = sep")
    case False
    with 2 F G show ?thesis by (auto split: if_splits)
  next
    case True
    with 2 F have len: "i < length d" by auto
    have "take (Suc i) (d[i := trimstr ost]) = take i d @ [trimstr ost]"
      using len by (simp add: take_Suc_conv_app_nth)
    with True 2 F len show ?thesis by (auto simp: data_set_def)
  qed
qed

lemma splitstr_eq: "splitstr s sep prot = Some (split_fields s sep prot)"
proof -
  obtain f fs where "raw_fields sep prot (CHR 0x00) False s = f # fs"
    using fields_nonempty by (metis neq_Nil_conv)
  moreover from this have "split_count sep prot (CHR 0x00) False s = length fs"
    using length_fields [of sep prot "CHR 0x00" False s] by simp
  ultimately show ?thesis
    using split_loop_fields [of "replicate (split_count sep prot (CHR 0x00) False s + 1) []" 0
        sep prot "CHR 0x00" False s "[]"]
    by (simp add: splitstr_def split_fields_def length_fields del: replicate_Suc)
qed

text \<open>The fields, glued together with the separator, are the input again.\<close>

fun join :: "char \<Rightarrow> string list \<Rightarrow> string" where
  "join sep [] = []"
| "join sep [f] = f"
| "join sep (f # g # fs) = f @ sep # join sep (g # fs)"

lemma join_cons_head: "join sep ((c # f) # fs) = c # join sep (f # fs)"
  by (cases fs) auto

lemma join_Nil_head: "fs \<noteq> [] \<Longrightarrow> join sep ([] # fs) = sep # join sep fs"
  by (cases fs) auto

lemma join_fields: "join sep (raw_fields sep prot ch ins s) = s"
  by (induction sep prot ch ins s rule: raw_fields.induct)
    (auto split: list.splits simp: join_cons_head join_Nil_head)

text \<open>
  Without a protector in the input, the fields of an input that is itself a join are the
  joined pieces; and fields never hold an unprotected separator.
\<close>

lemma fields_no_special:
  "sep \<notin> set f \<Longrightarrow> prot \<notin> set f \<Longrightarrow> raw_fields sep prot ch False f = [f]"
  by (induction f arbitrary: ch) auto

lemma fields_append_sep:
  "sep \<notin> set f \<Longrightarrow> prot \<notin> set f \<Longrightarrow> sep \<noteq> prot \<Longrightarrow>
   raw_fields sep prot ch False (f @ sep # s) = f # raw_fields sep prot sep False s"
  by (induction f arbitrary: ch) auto

lemma fields_join:
  "fs \<noteq> [] \<Longrightarrow> \<forall>f \<in> set fs. sep \<notin> set f \<and> prot \<notin> set f \<Longrightarrow> sep \<noteq> prot \<Longrightarrow>
   raw_fields sep prot ch False (join sep fs) = fs"
  by (induction sep fs arbitrary: ch rule: join.induct)
    (auto simp: fields_no_special fields_append_sep)

lemma fields_no_sep:
  "prot \<notin> set s \<Longrightarrow> f \<in> set (raw_fields sep prot ch False s) \<Longrightarrow> sep \<notin> set f"
proof (induction s arbitrary: ch f)
  case Nil
  then show ?case by simp
next
  case (Cons c s)
  obtain g gs where "raw_fields sep prot c False s = g # gs"
    using fields_nonempty by (metis neq_Nil_conv)
  with Cons.IH [where ch = c] Cons.prems show ?case by (auto split: if_splits)
qed

section \<open>replaceString\<close>

text \<open>
  The loop runs over the position of the next occurrence. With an empty \<open>what\<close> and no limit
  the source never stops; the model then has the value \<^const>\<open>None\<close>.
\<close>

partial_function (option) replace_loop ::
  "int \<Rightarrow> int \<Rightarrow> string \<Rightarrow> string \<Rightarrow> string \<Rightarrow> nat option \<Rightarrow> string option"
where
  "replace_loop nToReplace nCount what w str pos =
     (case pos of
        None \<Rightarrow> Some str
      | Some p \<Rightarrow>
          if nToReplace > 0 \<and> nCount = 0 then Some str
          else replace_loop nToReplace (nCount - 1) what w (str_replace str p (length what) w)
                 (find_sub_from what (str_replace str p (length what) w) (p + length w)))"

definition replaceString :: "string \<Rightarrow> string \<Rightarrow> string \<Rightarrow> int \<Rightarrow> string option" where
  "replaceString str what w nToReplace =
     replace_loop nToReplace nToReplace what w str (find_sub_from what str 0)"

text \<open>Reference: left to right, non-overlapping, at most \<open>k\<close> times when a limit is given.\<close>

function replace_ref :: "string \<Rightarrow> string \<Rightarrow> nat option \<Rightarrow> string \<Rightarrow> string" where
  "replace_ref what w k s =
     (if what = [] \<or> k = Some 0 then s
      else case find_sub what s of
             None \<Rightarrow> s
           | Some p \<Rightarrow>
               take p s @ w @ replace_ref what w (map_option (\<lambda>n. n - 1) k) (drop (p + length what) s))"
  by pat_completeness auto
termination
  by (relation "measure (\<lambda>(what, w, k, s). length s)")
    (auto dest!: find_sub_Some simp flip: length_greater_0_conv)

declare replace_ref.simps [simp del]

lemma find_sub_from_append:
  "find_sub_from p (a @ b) (length a) = map_option (\<lambda>j. length a + j) (find_sub p b)"
  by (simp add: find_sub_from_def)

lemma replace_loop_ref:
  "what \<noteq> [] \<Longrightarrow> k = (if n > 0 then Some (nat c) else None) \<Longrightarrow> (n > 0 \<longrightarrow> 0 \<le> c) \<Longrightarrow>
   replace_loop n c what w (a @ s) (map_option (\<lambda>j. length a + j) (find_sub what s)) =
     Some (a @ replace_ref what w k s)"
proof (induction what w k s arbitrary: a c rule: replace_ref.induct)
  case (1 what w k s)
  show ?case
  proof (cases "find_sub what s")
    case None
    then show ?thesis
      by (subst replace_loop.simps) (simp add: replace_ref.simps [of what w k s])
  next
    case (Some p)
    have p: "p + length what \<le> length s" using find_sub_Some [OF Some] by simp
    show ?thesis
    proof (cases "n > 0 \<and> c = 0")
      case True
      with Some 1 show ?thesis
        by (subst replace_loop.simps) (simp add: replace_ref.simps [of what w "Some 0" s])
    next
      case False
      let ?a = "a @ take p s @ w"
      let ?s = "drop (p + length what) s"
      have split: "str_replace (a @ s) (length a + p) (length what) w = ?a @ ?s"
        using p by (simp add: str_replace_def)
      have pos: "length a + p + length w = length ?a" using p by simp
      have k: "map_option (\<lambda>n. n - 1) k = (if n > 0 then Some (nat (c - 1)) else None)"
        using 1 by (auto simp: nat_diff_distrib')
      have "k \<noteq> Some 0" using False 1 by auto
      have IH: "replace_loop n (c - 1) what w (?a @ ?s)
          (map_option (\<lambda>j. length ?a + j) (find_sub what ?s)) =
        Some (?a @ replace_ref what w (map_option (\<lambda>n. n - 1) k) ?s)"
        by (rule "1.IH" [OF _ Some]) (use "1.prems" False \<open>k \<noteq> Some 0\<close> k in auto)
      have "find_sub_from what (?a @ ?s) (length a + p + length w) =
          map_option (\<lambda>j. length ?a + j) (find_sub what ?s)"
        unfolding pos by (rule find_sub_from_append)
      then have "replace_loop n c what w (a @ s) (map_option (\<lambda>j. length a + j) (find_sub what s)) =
          replace_loop n (c - 1) what w (?a @ ?s) (map_option (\<lambda>j. length ?a + j) (find_sub what ?s))"
        using False by (subst replace_loop.simps) (simp only: Some option.map option.case split if_False)
      moreover have "replace_ref what w k s =
          take p s @ w @ replace_ref what w (map_option (\<lambda>n. n - 1) k) ?s"
        using \<open>what \<noteq> []\<close> Some \<open>k \<noteq> Some 0\<close> by (subst replace_ref.simps) simp
      ultimately show ?thesis using IH by simp
    qed
  qed
qed

lemma replaceString_ref:
  assumes "what \<noteq> []"
  shows "replaceString s what w n =
    Some (replace_ref what w (if n > 0 then Some (nat n) else None) s)"
  using replace_loop_ref [of what "if n > 0 then Some (nat n) else None" n n w "[]" s] assms
  by (cases "find_sub what s") (simp_all add: replaceString_def find_sub_from_def)

section \<open>compresSpace and compres\<close>

abbreviation LF :: char where "LF \<equiv> CHR 0x0A"

definition space_set :: "bool \<Rightarrow> string" where
  "space_set newlineAsSpace =
     (if newlineAsSpace then [CHR '' '', CHR 0x09, CHR 0x0D, LF] else [CHR '' '', CHR 0x09, CHR 0x0D])"

text \<open>One round of the loop: \<open>n1\<close> is a space, \<open>n2\<close> the next character that is none.\<close>

definition compres_edit :: "string \<Rightarrow> nat \<Rightarrow> nat \<Rightarrow> string" where
  "compres_edit buf n1 n2 =
     (if buf ! n2 = LF \<or> (n1 > 0 \<and> buf ! (n1 - 1) = LF) \<or> n1 = 0
      then str_erase buf n1 (n2 - n1)
      else let b = (if n2 - n1 > 1 then str_erase buf (n1 + 1) (n2 - n1 - 1) else buf)
           in if b ! n1 \<noteq> CHR '' '' then b[n1 := CHR '' ''] else b)"

lemma length_compres_edit: "length (compres_edit buf n1 n2) \<le> length buf"
  by (auto simp: compres_edit_def str_erase_def Let_def)

function compres_loop :: "string \<Rightarrow> string \<Rightarrow> nat option \<Rightarrow> string" where
  "compres_loop space buf None = buf"
| "compres_loop space buf (Some n1) =
     (case find_idx_from (\<lambda>c. c \<notin> set space) buf n1 of
        None \<Rightarrow> str_erase buf n1 (length buf - n1)
      | Some n2 \<Rightarrow>
          compres_loop space (compres_edit buf n1 n2)
            (find_idx_from (\<lambda>c. c \<in> set space) (compres_edit buf n1 n2) (n1 + 1)))"
  by pat_completeness auto
termination
proof (relation "measure (\<lambda>(space, buf, n). case n of None \<Rightarrow> 0 | Some n1 \<Rightarrow> Suc (length buf - n1))")
  fix space buf :: string and n1 n2 :: nat
  assume "find_idx_from (\<lambda>c. c \<notin> set space) buf n1 = Some n2"
  show "((space, compres_edit buf n1 n2,
          find_idx_from (\<lambda>c. c \<in> set space) (compres_edit buf n1 n2) (n1 + 1)), space, buf, Some n1)
      \<in> measure (\<lambda>(space, buf, n). case n of None \<Rightarrow> 0 | Some n1 \<Rightarrow> Suc (length buf - n1))"
    using length_compres_edit [of buf n1 n2]
    by (auto simp: find_idx_from_def find_idx_Some split: option.splits)
qed simp

definition compresSpace :: "string \<Rightarrow> bool \<Rightarrow> string" where
  "compresSpace buf newlineAsSpace =
     (if buf = [] then buf
      else compres_loop (space_set newlineAsSpace) buf
             (find_idx (\<lambda>c. c \<in> set (space_set newlineAsSpace)) buf))"

text \<open>The same, one character at a time; \<open>p\<close> is the character written before.\<close>

function squeeze :: "string \<Rightarrow> char option \<Rightarrow> string \<Rightarrow> string" where
  "squeeze W p [] = []"
| "squeeze W p (c # s) =
     (if c \<notin> set W then c # squeeze W (Some c) s
      else case dropWhile (\<lambda>x. x \<in> set W) s of
             [] \<Rightarrow> []
           | d # r \<Rightarrow>
               if d = LF \<or> p = Some LF \<or> p = None then d # squeeze W (Some d) r
               else CHR '' '' # d # squeeze W (Some d) r)"
  by pat_completeness auto
termination
proof (relation "measure (\<lambda>(W, p, s). length s)")
  fix W :: string and p :: "char option" and c d :: char and s r :: string
  assume "dropWhile (\<lambda>x. x \<in> set W) s = d # r"
  then have "length (d # r) \<le> length s" by (metis length_dropWhile_le)
  then show "((W, Some d, r), W, p, c # s) \<in> measure (\<lambda>(W, p, s). length s)"
    and "((W, Some d, r), W, p, c # s) \<in> measure (\<lambda>(W, p, s). length s)" by simp_all
qed simp_all

text \<open>The words of a line, and the lines of a text.\<close>

function words :: "string \<Rightarrow> string \<Rightarrow> string list" where
  "words W s =
     (case dropWhile (\<lambda>c. c \<in> set W) s of
        [] \<Rightarrow> []
      | c # t \<Rightarrow> (c # takeWhile (\<lambda>c. c \<notin> set W) t) # words W (dropWhile (\<lambda>c. c \<notin> set W) t))"
  by pat_completeness auto
termination
proof (relation "measure (\<lambda>(W, s). length s)")
  fix W s :: string and c :: char and t :: string
  assume "dropWhile (\<lambda>c. c \<in> set W) s = c # t"
  then have "length (c # t) \<le> length s" by (metis length_dropWhile_le)
  then show "((W, dropWhile (\<lambda>c. c \<notin> set W) t), W, s) \<in> measure (\<lambda>(W, s). length s)"
    using length_dropWhile_le [of "\<lambda>c. c \<notin> set W" t] by simp
qed simp

declare words.simps [simp del]

lemma squeeze_prefix:
  "\<forall>c \<in> set a. c \<notin> set W \<Longrightarrow>
   squeeze W p (a @ s) = a @ squeeze W (if a = [] then p else Some (last a)) s"
  by (induction a arbitrary: p) auto

lemma squeeze_space_end:
  assumes "c \<in> set W" "dropWhile (\<lambda>x. x \<in> set W) s = []"
  shows "squeeze W p (c # s) = []"
  using assms by (simp del: dropWhile_eq_Nil_conv)

lemma squeeze_space_word:
  assumes "c \<in> set W" "dropWhile (\<lambda>x. x \<in> set W) s = d # r"
  shows "squeeze W p (c # s) =
    (if d = LF \<or> p = Some LF \<or> p = None then d # squeeze W (Some d) r
     else CHR '' '' # d # squeeze W (Some d) r)"
  using assms by simp

lemma squeeze_no_space: "c \<notin> set W \<Longrightarrow> squeeze W p (c # s) = c # squeeze W (Some c) s"
  by simp

declare squeeze.simps(2) [simp del]

lemmas squeeze_simps = squeeze_space_end squeeze_space_word squeeze_no_space

lemma words_end: "dropWhile (\<lambda>c. c \<in> set W) s = [] \<Longrightarrow> words W s = []" for W s
  by (subst words.simps) (simp del: dropWhile_eq_Nil_conv)

lemma words_word:
  "dropWhile (\<lambda>c. c \<in> set W) s = c # t \<Longrightarrow>
   words W s = (c # takeWhile (\<lambda>c. c \<notin> set W) t) # words W (dropWhile (\<lambda>c. c \<notin> set W) t)"
  by (subst words.simps) simp

lemma compres_edit_eq:
  "compres_edit (b @ c # w @ d # r) (length b) (length b + 1 + length w) =
     (if d = LF \<or> (b \<noteq> [] \<and> last b = LF) \<or> b = [] then b @ d # r else b @ CHR '' '' # d # r)"
proof -
  let ?buf = "b @ c # w @ d # r"
  have d: "?buf ! (length b + 1 + length w) = d"
    by (simp add: nth_append)
  have l: "b \<noteq> [] \<Longrightarrow> ?buf ! (length b - 1) = last b"
    by (simp add: nth_append last_conv_nth)
  have e: "str_erase ?buf (length b) (length b + 1 + length w - length b) = b @ d # r"
    by (simp add: str_erase_def)
  have f: "str_erase ?buf (length b + 1) (length b + 1 + length w - length b - 1) = b @ c # d # r"
    by (simp add: str_erase_def)
  show ?thesis
    unfolding compres_edit_def d e f using l by (cases "w = []") (auto simp: nth_append list_update_append Let_def)
qed

lemma find_idx_split:
  "find_idx P s = Some j \<Longrightarrow> \<exists>u c v. s = u @ c # v \<and> length u = j \<and> P c \<and> (\<forall>x \<in> set u. \<not> P x)"
proof -
  assume f: "find_idx P s = Some j"
  then have "j < length s" "P (s ! j)" "takeWhile (\<lambda>x. \<not> P x) s = take j s"
    by (simp_all add: find_idx_Some)
  then have "s = take j s @ s ! j # drop (Suc j) s" "length (take j s) = j"
    "\<forall>x \<in> set (take j s). \<not> P x"
    by (simp_all add: id_take_nth_drop) (metis set_takeWhileD)
  with \<open>P (s ! j)\<close> show ?thesis by blast
qed

lemma find_idx_skip: "\<forall>x \<in> set u. \<not> P x \<Longrightarrow> find_idx P (u @ v) = map_option (\<lambda>j. length u + j) (find_idx P v)"
  by (simp add: find_idx_append find_idx_None [THEN iffD2])

lemma compres_loop_squeeze:
  "compres_loop W (a @ s) (map_option (\<lambda>j. length a + j) (find_idx (\<lambda>c. c \<in> set W) s)) =
     a @ squeeze W (if a = [] then None else Some (last a)) s"
proof (induction "length s" arbitrary: a s rule: less_induct)
  case less
  show ?case
  proof (cases "find_idx (\<lambda>c. c \<in> set W) s")
    case None
    then have "\<forall>c \<in> set s. c \<notin> set W" by (simp add: find_idx_None)
    with None show ?thesis using squeeze_prefix [of s W _ "[]"] by simp
  next
    case (Some j)
    then obtain u c v where s: "s = u @ c # v" "length u = j" "c \<in> set W" "\<forall>x \<in> set u. x \<notin> set W"
      using find_idx_split by blast
    define b where "b = a @ u"
    define p where "p = (if b = [] then None else Some (last b))"
    have n1: "length a + j = length b" and buf: "a @ s = b @ c # v" using s by (simp_all add: b_def)
    have sq: "a @ squeeze W (if a = [] then None else Some (last a)) s = b @ squeeze W p (c # v)"
      unfolding s(1) b_def p_def
      by (cases "a = []"; cases "u = []") (simp_all add: squeeze_prefix [OF s(4)] del: squeeze.simps)
    show ?thesis
    proof (cases "find_idx (\<lambda>c. c \<notin> set W) v")
      case None
      then have "squeeze W p (c # v) = []"
        by (intro squeeze_space_end [OF s(3)] dropWhile_eq_Nil_conv [THEN iffD2])
          (simp add: find_idx_None)
      with None s show ?thesis
        unfolding sq Some option.map n1 buf by (simp add: find_idx_from_def str_erase_def)
    next
      case v: (Some m)
      then obtain w d r where w: "v = w @ d # r" "length w = m" "d \<notin> set W" "\<forall>x \<in> set w. x \<in> set W"
        using find_idx_split by fastforce
      then have dw: "dropWhile (\<lambda>x. x \<in> set W) v = d # r" by (simp add: dropWhile_append2)
      have "find_idx_from (\<lambda>c. c \<notin> set W) (b @ c # v) (length b) = Some (length b + 1 + length w)"
        using v w s by (simp add: find_idx_from_def)
      then have step: "compres_loop W (b @ c # v) (Some (length b)) =
        (let buf = compres_edit (b @ c # v) (length b) (length b + 1 + length w)
         in compres_loop W buf (find_idx_from (\<lambda>c. c \<in> set W) buf (length b + 1)))"
        by (simp add: Let_def)
      have len: "length r < length s" using s w by simp
      show ?thesis
      proof (cases "d = LF \<or> (b \<noteq> [] \<and> last b = LF) \<or> b = []")
        case True
        then have sp: "squeeze W p (c # v) = d # squeeze W (Some d) r"
          using squeeze_space_word [OF s(3) dw, of p] by (simp add: p_def split: if_splits)
        have ed: "compres_edit (b @ c # v) (length b) (length b + 1 + length w) = (b @ [d]) @ r"
          using True compres_edit_eq [of b c w d r] by (auto simp: w(1))
        have "find_idx_from (\<lambda>c. c \<in> set W) ((b @ [d]) @ r) (length b + 1) =
            map_option (\<lambda>j. length (b @ [d]) + j) (find_idx (\<lambda>c. c \<in> set W) r)"
          by (simp add: find_idx_from_def)
        with less [OF len, of "b @ [d]"] show ?thesis
          unfolding sq sp Some option.map n1 buf step Let_def ed by (simp flip: add_Suc)
      next
        case False
        then have sp: "squeeze W p (c # v) = CHR '' '' # d # squeeze W (Some d) r"
          using squeeze_space_word [OF s(3) dw, of p] by (simp add: p_def split: if_splits)
        have ed: "compres_edit (b @ c # v) (length b) (length b + 1 + length w) =
            (b @ [CHR '' '', d]) @ r"
          using False compres_edit_eq [of b c w d r] by (auto simp: w(1))
        have "find_idx_from (\<lambda>c. c \<in> set W) ((b @ [CHR '' '', d]) @ r) (length b + 1) =
            map_option (\<lambda>j. length (b @ [CHR '' '', d]) + j) (find_idx (\<lambda>c. c \<in> set W) r)"
          using w(3) by (cases "find_idx (\<lambda>c. c \<in> set W) r") (simp_all add: find_idx_from_def)
        with less [OF len, of "b @ [CHR '' '', d]"] show ?thesis
          unfolding sq sp Some option.map n1 buf step Let_def ed by (simp flip: add_Suc)
      qed
    qed
  qed
qed

lemma compresSpace_squeeze: "compresSpace buf nl = squeeze (space_set nl) None buf"
  using compres_loop_squeeze [of "space_set nl" "[]" buf]
  by (cases "find_idx (\<lambda>c. c \<in> set (space_set nl)) buf") (auto simp: compresSpace_def)

fun lines :: "string \<Rightarrow> string list" where
  "lines [] = [[]]"
| "lines (c # s) =
     (if c = LF then [] # lines s else (case lines s of [] \<Rightarrow> [] | l # ls \<Rightarrow> (c # l) # ls))"

lemma lines_nonempty [simp]: "lines s \<noteq> []"
  by (induction s) (auto split: list.splits)

definition unwords :: "string list \<Rightarrow> string" where
  "unwords ws = join (CHR '' '') ws"

lemma unwords_Cons: "unwords (w # ws) = w @ concat (map (\<lambda>v. CHR '' '' # v) ws)"
  unfolding unwords_def by (induction ws arbitrary: w) auto

lemma squeeze_in_line:
  "\<forall>c \<in> set s. c \<notin> set W \<longrightarrow> c \<noteq> LF \<Longrightarrow> x \<noteq> LF \<Longrightarrow>
   squeeze W (Some x) s =
     takeWhile (\<lambda>c. c \<notin> set W) s @
     concat (map (\<lambda>v. CHR '' '' # v) (words W (dropWhile (\<lambda>c. c \<notin> set W) s)))"
proof (induction W "Some x" s arbitrary: x rule: squeeze.induct)
  case (1 W)
  then show ?case by (simp add: words_end)
next
  case (2 W c s)
  show ?case
  proof (cases "c \<in> set W")
    case False
    with 2 show ?thesis by (simp add: squeeze_no_space)
  next
    case True
    show ?thesis
    proof (cases "dropWhile (\<lambda>x. x \<in> set W) s")
      case Nil
      with True squeeze_space_end [OF True Nil] words_end [of W "c # s"] show ?thesis
        by (simp del: dropWhile_eq_Nil_conv)
    next
      case (Cons d r)
      then have d: "d \<notin> set W" by (metis hd_dropWhile list.distinct(1) list.sel(1))
      have sub: "set (d # r) \<subseteq> set s" using Cons by (metis set_dropWhileD subsetI)
      with d "2.prems" have "d \<noteq> LF" "\<forall>c \<in> set r. c \<notin> set W \<longrightarrow> c \<noteq> LF" by auto
      with 2 True Cons show ?thesis
        by (simp add: squeeze_space_word words_word [of W "c # s"])
    qed
  qed
qed

lemma squeeze_line:
  assumes ok: "\<forall>c \<in> set s. c \<notin> set W \<longrightarrow> c \<noteq> LF" and p: "p = None \<or> p = Some LF"
  shows "squeeze W p s = unwords (words W s)"
proof (cases "dropWhile (\<lambda>c. c \<in> set W) s")
  case Nil
  then have "squeeze W p s = []"
    by (cases s) (auto simp: squeeze_space_end split: if_splits simp del: dropWhile_eq_Nil_conv)
  with words_end [OF Nil] show ?thesis by (simp add: unwords_def)
next
  case (Cons d r)
  then have d: "d \<notin> set W" by (metis hd_dropWhile list.distinct(1) list.sel(1))
  have sub: "set (d # r) \<subseteq> set s" using Cons by (metis set_dropWhileD subsetI)
  with d ok have *: "d \<noteq> LF" "\<forall>c \<in> set r. c \<notin> set W \<longrightarrow> c \<noteq> LF" by auto
  have "squeeze W p s = d # squeeze W (Some d) r"
    using Cons p d by (cases s) (auto simp: squeeze_space_word squeeze_no_space split: if_splits)
  with * words_word [OF Cons] show ?thesis
    by (simp add: unwords_Cons squeeze_in_line)
qed

lemma squeeze_newline:
  "LF \<notin> set W \<Longrightarrow> LF \<notin> set l \<Longrightarrow>
   squeeze W p (l @ LF # r) = squeeze W p l @ LF # squeeze W (Some LF) r"
proof (induction W p l rule: squeeze.induct)
  case (1 W p)
  then show ?case by (simp add: squeeze_no_space)
next
  case (2 W p c s)
  show ?case
  proof (cases "c \<in> set W")
    case False
    with 2 show ?thesis by (simp add: squeeze_no_space)
  next
    case True
    show ?thesis
    proof (cases "dropWhile (\<lambda>x. x \<in> set W) s")
      case Nil
      then have "dropWhile (\<lambda>x. x \<in> set W) (s @ LF # r) = LF # r"
        using "2.prems" by (simp add: dropWhile_append)
      with squeeze_space_end [OF True Nil] squeeze_space_word [OF True this] show ?thesis by simp
    next
      case (Cons d t)
      then have "dropWhile (\<lambda>x. x \<in> set W) (s @ LF # r) = d # t @ LF # r"
        by (metis append_Cons dropWhile_append dropWhile_eq_Nil_conv list.distinct(1))
      note app = squeeze_space_word [OF True this]
      have "LF \<notin> set (d # t)" using Cons "2.prems" by (metis list.set_intros(2) set_dropWhileD)
      with "2.IH" True Cons "2.prems" show ?thesis
        by (simp add: app squeeze_space_word [OF True Cons])
    qed
  qed
qed

lemma lines_no_newline: "LF \<notin> set s \<Longrightarrow> lines s = [s]"
  by (induction s) auto

lemma lines_newline: "LF \<notin> set l \<Longrightarrow> lines (l @ LF # r) = l # lines r"
  by (induction l) auto

lemma squeeze_lines:
  "LF \<notin> set W \<Longrightarrow> p = None \<or> p = Some LF \<Longrightarrow>
   squeeze W p s = join LF (map (\<lambda>l. unwords (words W l)) (lines s))"
proof (induction "length s" arbitrary: s p rule: less_induct)
  case less
  show ?case
  proof (cases "LF \<in> set s")
    case False
    with less show ?thesis using squeeze_line [of s W p] by (auto simp: lines_no_newline)
  next
    case True
    then obtain l r where s: "s = l @ LF # r" "LF \<notin> set l" by (meson split_list_first)
    have "squeeze W (Some LF) r = join LF (map (\<lambda>l. unwords (words W l)) (lines r))"
      using less s by simp
    moreover have "squeeze W p l = unwords (words W l)"
      using less s squeeze_line [of l W p] by auto
    moreover obtain g gs where "lines r = g # gs" by (metis lines_nonempty neq_Nil_conv)
    ultimately show ?thesis
      using less s by (simp add: squeeze_newline lines_newline)
  qed
qed

section \<open>compres\<close>

text \<open>Runs of one character of \<open>what\<close> shrink to a single one.\<close>

function compres_run :: "string \<Rightarrow> string \<Rightarrow> nat option \<Rightarrow> string" where
  "compres_run what buf None = buf"
| "compres_run what buf (Some n1) =
     (case find_idx_from (\<lambda>c. c \<noteq> buf ! n1) buf n1 of
        None \<Rightarrow> str_erase buf (n1 + 1) (length buf - (n1 + 1))
      | Some n2 \<Rightarrow>
          let b = (if n2 - n1 > 1 then str_erase buf (n1 + 1) (n2 - n1 - 1) else buf)
          in compres_run what b (find_idx_from (\<lambda>c. c \<in> set what) b (n1 + 1)))"
  by pat_completeness auto
termination
proof (relation "measure (\<lambda>(what, buf, n). case n of None \<Rightarrow> 0 | Some n1 \<Rightarrow> Suc (length buf - n1))")
  fix what buf b :: string and n1 n2 :: nat
  assume "b = (if n2 - n1 > 1 then str_erase buf (n1 + 1) (n2 - n1 - 1) else buf)"
  then have "length b \<le> length buf" by (cases "n1 \<le> length buf") (auto simp: str_erase_def)
  then show "((what, b, find_idx_from (\<lambda>c. c \<in> set what) b (n1 + 1)), what, buf, Some n1)
      \<in> measure (\<lambda>(what, buf, n). case n of None \<Rightarrow> 0 | Some n1 \<Rightarrow> Suc (length buf - n1))"
    by (auto simp: find_idx_from_def find_idx_Some split: option.splits)
qed simp

definition compres :: "string \<Rightarrow> string \<Rightarrow> string" where
  "compres buf what =
     (if buf = [] then buf else compres_run what buf (find_idx (\<lambda>c. c \<in> set what) buf))"

fun dedup :: "string \<Rightarrow> string \<Rightarrow> string" where
  "dedup W (a # b # s) = (if a = b \<and> a \<in> set W then dedup W (b # s) else a # dedup W (b # s))"
| "dedup W s = s"

lemma dedup_prefix: "\<forall>x \<in> set u. x \<notin> set W \<Longrightarrow> dedup W (u @ s) = u @ dedup W s"
proof (induction u)
  case (Cons x u)
  then show ?case by (cases "u @ s") auto
qed simp

lemma dedup_run: "c \<in> set W \<Longrightarrow> \<forall>x \<in> set w. x = c \<Longrightarrow> dedup W (c # w @ s) = dedup W (c # s)"
  by (induction w) auto

lemma compres_run_dedup:
  "compres_run W (a @ s) (map_option (\<lambda>j. length a + j) (find_idx (\<lambda>c. c \<in> set W) s)) =
     a @ dedup W s"
proof (induction "length s" arbitrary: a s rule: less_induct)
  case less
  show ?case
  proof (cases "find_idx (\<lambda>c. c \<in> set W) s")
    case None
    then have "\<forall>c \<in> set s. c \<notin> set W" by (simp add: find_idx_None)
    with None show ?thesis using dedup_prefix [of s W "[]"] by simp
  next
    case (Some j)
    then obtain u c v where s: "s = u @ c # v" "length u = j" "c \<in> set W" "\<forall>x \<in> set u. x \<notin> set W"
      using find_idx_split by blast
    define b where "b = a @ u"
    have n1: "length a + j = length b" and buf: "a @ s = b @ c # v" using s by (simp_all add: b_def)
    have dd: "a @ dedup W s = b @ dedup W (c # v)"
      unfolding s(1) b_def by (simp add: dedup_prefix [OF s(4)])
    have at: "(b @ c # v) ! length b = c" by simp
    show ?thesis
    proof (cases "find_idx (\<lambda>x. x \<noteq> c) v")
      case None
      then have "\<forall>x \<in> set v. x = c" by (simp add: find_idx_None)
      then have "dedup W (c # v) = [c]" using dedup_run [OF s(3), of v "[]"] by simp
      with None show ?thesis
        unfolding dd Some option.map n1 buf by (simp add: find_idx_from_def str_erase_def)
    next
      case v: (Some m)
      then obtain w d r where w: "v = w @ d # r" "length w = m" "d \<noteq> c" "\<forall>x \<in> set w. x = c"
        using find_idx_split [OF v] by blast
      have run: "dedup W (c # v) = c # dedup W (d # r)"
        using dedup_run [OF s(3) w(4), of "d # r"] w(3) by (simp add: w(1))
      have n2: "find_idx_from (\<lambda>x. x \<noteq> c) (b @ c # v) (length b) = Some (length b + 1 + length w)"
        using v w by (simp add: find_idx_from_def)
      have ed: "(if length b + 1 + length w - length b > 1
            then str_erase (b @ c # v) (length b + 1) (length b + 1 + length w - length b - 1)
            else b @ c # v) = (b @ [c]) @ d # r"
        by (auto simp: w(1) str_erase_def)
      have "find_idx_from (\<lambda>c. c \<in> set W) ((b @ [c]) @ d # r) (length b + 1) =
          map_option (\<lambda>j. length (b @ [c]) + j) (find_idx (\<lambda>c. c \<in> set W) (d # r))"
        by (simp add: find_idx_from_def)
      moreover have "length (d # r) < length s" using s w by simp
      ultimately show ?thesis
        using less [of "d # r" "b @ [c]"]
        unfolding dd run Some option.map n1 buf compres_run.simps(2) at n2 option.case ed Let_def
        by (simp only: append_assoc append_Cons append_Nil)
    qed
  qed
qed

lemma compres_dedup: "compres buf W = dedup W buf"
  using compres_run_dedup [of W "[]" buf]
  by (cases "find_idx (\<lambda>c. c \<in> set W) buf") (auto simp: compres_def)

section \<open>Properties\<close>

text \<open>
  \<open>splitstr\<close> never writes outside the vector it sized from the separator count, returns
  exactly the trimmed fields, and the fields before trimming, joined with the separator again,
  are the input string.
\<close>

theorem splitstr_correct:
  "splitstr s sep prot = Some (map trimstr (raw_fields sep prot (CHR 0x00) False s)) \<and>
   join sep (raw_fields sep prot (CHR 0x00) False s) = s"
  by (simp add: splitstr_eq split_fields_def join_fields)

text \<open>
  \<open>replaceString\<close> stops for every non-empty pattern and replaces the leftmost,
  non-overlapping occurrences, all of them or the first \<open>nToReplace\<close> when that is positive.
\<close>

theorem replaceString_correct:
  "what \<noteq> [] \<Longrightarrow>
   replaceString s what w n = Some (replace_ref what w (if n > 0 then Some (nat n) else None) s)"
  by (rule replaceString_ref)

theorem replaceString_correct_witness:
  "''ab'' \<noteq> [] \<and> replaceString ''xabyab'' ''ab'' ''Q'' 1 = Some ''xQyab''"
proof -
  have "replace_ref ''ab'' ''Q'' (Some 1) ''xabyab'' = ''xQyab''" by code_simp
  then show ?thesis using replaceString_correct [of "''ab''" "''xabyab''" "''Q''" 1] by simp
qed

text \<open>
  \<open>compresSpace\<close> leaves the words of every line separated by one blank, with no blank at
  the ends of a line; with \<open>newlineAsSpace\<close> the whole text is one such line.
\<close>

theorem compresSpace_correct:
  "compresSpace buf nl =
     (if nl then unwords (words (space_set True) buf)
      else join LF (map (\<lambda>l. unwords (words (space_set False) l)) (lines buf)))"
proof (cases nl)
  case True
  then show ?thesis
    using squeeze_line [of buf "space_set True" None] by (simp add: compresSpace_squeeze space_set_def)
next
  case False
  then show ?thesis
    using squeeze_lines [of "space_set False" None buf] by (simp add: compresSpace_squeeze space_set_def)
qed

end
