(* ===== verification/UrlQuery.thy ===== *)
theory UrlQuery
  imports StringUtil
begin

text \<open>
  The query part of a URL: \<open>webfw::UrlQuery\<close> of \<open>src/src/webFW/UrlQuery.cpp\<close>. A query is
  the map of its parameters, the separator character and the path. Conversions that belong
  to other libraries (\<open>boost::lexical_cast\<close>, the ISO time parser) are arguments of the
  accessors that call them.
\<close>

record url_query =
  params :: "(string, string) omap"
  seperator :: int
  path :: string

definition url_query_init :: url_query where
  "url_query_init = \<lparr>params = [], seperator = -1, path = []\<rparr>"

definition getParamSeparator :: "string \<Rightarrow> string \<Rightarrow> int" where
  "getParamSeparator urlQuery valid =
     (case find_idx (\<lambda>c. c \<in> set valid) urlQuery of
        Some i \<Rightarrow> schar (urlQuery ! i)
      | None \<Rightarrow> -1)"

definition setParamSeperator :: "url_query \<Rightarrow> int \<Rightarrow> bool \<Rightarrow> int \<times> url_query" where
  "setParamSeperator uq sep ifNotSet =
     (seperator uq,
      if ifNotSet then (if seperator uq \<le> 0 then uq\<lparr>seperator := sep\<rparr> else uq)
      else uq\<lparr>seperator := sep\<rparr>)"

section \<open>Percent encoding\<close>

definition hex_val :: "char \<Rightarrow> nat option" where
  "hex_val c =
     (if isdigit c then Some (code c - 48)
      else if 97 \<le> code c \<and> code c \<le> 102 then Some (code c - 87)
      else if 65 \<le> code c \<and> code c \<le> 70 then Some (code c - 55)
      else None)"

definition ishex :: "char \<Rightarrow> bool" where
  "ishex c \<longleftrightarrow> hex_val c \<noteq> None"

text \<open>
  \<open>strtol(buf, &end, 16)\<close> on a zero-terminated string: the value and the offset of \<open>end\<close>,
  which is 0 when nothing was converted.
\<close>

definition strtol16_digits :: "string \<Rightarrow> nat \<Rightarrow> bool \<Rightarrow> int \<times> nat" where
  "strtol16_digits s used neg =
     (let pre = (case s of a # b # c # r \<Rightarrow>
                   a = CHR ''0'' \<and> (b = CHR ''x'' \<or> b = CHR ''X'') \<and> ishex c | _ \<Rightarrow> False);
          ds = takeWhile ishex (if pre then drop 2 s else s);
          v = int (foldl (\<lambda>a c. 16 * a + the (hex_val c)) 0 ds)
      in if ds = [] then (0, 0)
         else (if neg then - v else v, used + (if pre then 2 else 0) + length ds))"

definition strtol16 :: "string \<Rightarrow> int \<times> nat" where
  "strtol16 buf =
     (let ws = length (takeWhile isspace buf)
      in case drop ws buf of
           [] \<Rightarrow> (0, 0)
         | c # cs \<Rightarrow>
             if c = CHR ''-'' then strtol16_digits cs (ws + 1) True
             else if c = CHR ''+'' then strtol16_digits cs (ws + 1) False
             else strtol16_digits (c # cs) ws False)"

definition unescape_short :: exn where
  "unescape_short =
     Range_error ''Format error: Expecting at least 2 chars after an % character.''"

definition unescape_bad :: "string \<Rightarrow> exn" where
  "unescape_bad buf =
     Logic_error (''Format error: Expecting an hexadecimal value on the form %xx. Given value '' @ quote buf @ ''.'')"

fun unescape :: "string \<Rightarrow> string result" where
  "unescape [] = Inr []"
| "unescape (c # cs) =
     (if c = CHR ''%'' then
        (case cs of
           a # b # r \<Rightarrow>
             (let buf = c_str [a, b]; (number, e) = strtol16 buf
              in if e < length buf then Inl (unescape_bad buf)
                 else bind_result (unescape r) (\<lambda>t. Inr (char_of_int number # t)))
         | _ \<Rightarrow> Inl unescape_short)
      else bind_result (unescape cs) (\<lambda>t. Inr (c # t)))"

definition hex_digit :: "nat \<Rightarrow> char" where
  "hex_digit n = char_of (if n < 10 then 48 + n else 87 + n)"

definition hex2 :: "nat \<Rightarrow> string" where
  "hex2 n = [hex_digit (n div 16), hex_digit (n mod 16)]"

text \<open>
  \<open>sprintf(buf, "%%%02x", ch)\<close> into \<open>char buf[4]\<close>: for a character from 128 on, \<open>ch\<close> is
  negative, prints as eight hexadecimal digits and overruns the buffer.
\<close>

definition escape_char :: "char \<Rightarrow> string result" where
  "escape_char ch =
     (if code ch \<ge> 128 then Inl Undefined_behaviour
      else if isalnum ch then Inr [ch]
      else Inr (CHR ''%'' # hex2 (code ch)))"

fun escape :: "string \<Rightarrow> string result" where
  "escape [] = Inr []"
| "escape (c # cs) =
     bind_result (escape_char c) (\<lambda>e. bind_result (escape cs) (\<lambda>t. Inr (e @ t)))"

section \<open>Decoding and encoding\<close>

abbreviation ok :: "unit result" where "ok \<equiv> Inr ()"

definition bad_keyval :: "string \<Rightarrow> nat \<Rightarrow> exn" where
  "bad_keyval p n =
     Logic_error (''Invalid key=val spec: '' @ p @ ''. Number of '' @ quote ''='' @ '' ''
                  @ (if n = 1 then ''0'' else dec_nat (n - 1)) @ ''.'')"

text \<open>One element of \<open>paramList\<close>; \<^const>\<open>None\<close> is \<open>continue\<close>.\<close>

definition decode_param :: "string \<Rightarrow> (string \<times> string) option result" where
  "decode_param p =
     (if length p = 0 then Inr None
      else case splitstr p (CHR ''='') dquote of
             None \<Rightarrow> Inl Undefined_behaviour
           | Some keyVal \<Rightarrow>
               if length keyVal = 0 then Inr None
               else bind_result (unescape (keyVal ! 0)) (\<lambda>key.
                      if length keyVal \<le> 2 then
                        (if length keyVal = 2
                         then bind_result (unescape (keyVal ! 1)) (\<lambda>val. Inr (Some (key, val)))
                         else Inr (Some (key, [])))
                      else Inl (bad_keyval p (length keyVal))))"

text \<open>The loop stores as it goes, so what was stored before an exception stays stored.\<close>

fun decode_params ::
  "string list \<Rightarrow> (string, string) omap \<Rightarrow> (string, string) omap \<times> unit result"
where
  "decode_params [] m = (m, ok)"
| "decode_params (p # ps) m =
     (case decode_param p of
        Inl e \<Rightarrow> (m, Inl e)
      | Inr None \<Rightarrow> decode_params ps m
      | Inr (Some (key, val)) \<Rightarrow> decode_params ps (om_put key val m))"

definition strip_path :: "string \<Rightarrow> string" where
  "strip_path p =
     (let q = trimstr p in if q \<noteq> [] \<and> last q = CHR ''/'' then butlast q else q)"

definition split_path :: "string \<Rightarrow> string \<times> string" where
  "split_path urlQuery =
     (case find_idx (\<lambda>c. c = CHR ''?'') urlQuery of
        Some i \<Rightarrow> (strip_path (take i urlQuery), str_erase urlQuery 0 (i + 1))
      | None \<Rightarrow> (urlQuery, []))"

definition decode_query :: "url_query \<Rightarrow> string \<Rightarrow> url_query \<times> unit result" where
  "decode_query uq urlQuery =
     (if urlQuery = [] then (uq, ok)
      else let sep = getParamSeparator urlQuery '';&'';
               pl = (if sep > 0 then splitstr urlQuery (char_of_int sep) dquote else Some [urlQuery])
           in case pl of
                None \<Rightarrow> (uq\<lparr>seperator := sep\<rparr>, Inl Undefined_behaviour)
              | Some paramList \<Rightarrow>
                  (let (m, r) = decode_params paramList (params uq)
                   in (uq\<lparr>seperator := sep, params := m\<rparr>, r)))"

definition decode :: "url_query \<Rightarrow> string \<Rightarrow> bool \<Rightarrow> url_query \<times> unit result" where
  "decode uq urlQuery withPath =
     (if withPath
      then (let (p, q) = split_path urlQuery in decode_query (uq\<lparr>path := p\<rparr>) q)
      else decode_query uq urlQuery)"

text \<open>
  \<open>encode\<close> declares \<open>char sep\<close> and sets it only when no separator is set: with a separator
  set and at least two parameters it reads an uninitialised variable.
\<close>

fun encode_params :: "char option \<Rightarrow> (string \<times> string) list \<Rightarrow> string result" where
  "encode_params sep [] = Inr []"
| "encode_params sep [(k, v)] =
     bind_result (escape k) (\<lambda>ek. bind_result (escape v) (\<lambda>ev. Inr (ek @ ''='' @ ev)))"
| "encode_params sep ((k, v) # kv # kvs) =
     bind_result (escape k) (\<lambda>ek. bind_result (escape v) (\<lambda>ev.
       case sep of
         None \<Rightarrow> Inl Undefined_behaviour
       | Some c \<Rightarrow>
           bind_result (encode_params sep (kv # kvs)) (\<lambda>t. Inr (ek @ ''='' @ ev @ c # t))))"

definition encode :: "url_query \<Rightarrow> string \<Rightarrow> string result" where
  "encode uq p =
     (if params uq = [] then Inr p
      else bind_result (encode_params (if seperator uq \<le> 0 then Some (CHR '';'') else None) (params uq))
             (\<lambda>t. Inr (p @ ''?'' @ t)))"

section \<open>Access\<close>

definition hasParam :: "url_query \<Rightarrow> string \<Rightarrow> bool" where
  "hasParam uq param \<longleftrightarrow> map_of (params uq) param \<noteq> None"

fun hasParams :: "url_query \<Rightarrow> string list \<Rightarrow> string" where
  "hasParams uq [] = []"
| "hasParams uq (p # ps) = (if map_of (params uq) p = None then p else hasParams uq ps)"

definition keys :: "url_query \<Rightarrow> string list" where
  "keys uq = map fst (params uq)"

definition asString :: "url_query \<Rightarrow> string \<Rightarrow> string result" where
  "asString uq name =
     (case map_of (params uq) name of
        None \<Rightarrow> Inl (Logic_error (''Param '' @ quote name @ '' missising in query.''))
      | Some v \<Rightarrow> Inr v)"

definition asString_def_val :: "url_query \<Rightarrow> string \<Rightarrow> string \<Rightarrow> string" where
  "asString_def_val uq name d = (case map_of (params uq) name of None \<Rightarrow> d | Some v \<Rightarrow> v)"

definition bad_value :: "string \<Rightarrow> string \<Rightarrow> string \<Rightarrow> exn" where
  "bad_value name val ty =
     Logic_error (''Param '' @ quote name @ '' value ('' @ val @ '') not convertibel to '' @ ty @ ''!'')"

text \<open>\<open>conv\<close> is \<open>boost::lexical_cast\<close> to the wanted type, \<^const>\<open>None\<close> where it throws.\<close>

definition asFloat :: "(string \<Rightarrow> 'f option) \<Rightarrow> url_query \<Rightarrow> string \<Rightarrow> 'f result" where
  "asFloat conv uq name =
     bind_result (asString uq name) (\<lambda>val.
       case conv val of Some f \<Rightarrow> Inr f | None \<Rightarrow> Inl (bad_value name val ''float''))"

definition asFloat_def_val :: "(string \<Rightarrow> 'f option) \<Rightarrow> url_query \<Rightarrow> string \<Rightarrow> 'f \<Rightarrow> 'f result" where
  "asFloat_def_val conv uq name d =
     (let val = asString_def_val uq name []
      in if val = [] then Inr d
         else case conv val of Some f \<Rightarrow> Inr f | None \<Rightarrow> Inl (bad_value name val ''float''))"

definition asInt :: "(string \<Rightarrow> int option) \<Rightarrow> url_query \<Rightarrow> string \<Rightarrow> int result" where
  "asInt conv uq name =
     bind_result (asString uq name) (\<lambda>val.
       case conv val of Some f \<Rightarrow> Inr f | None \<Rightarrow> Inl (bad_value name val ''int''))"

definition asInt_def_val :: "(string \<Rightarrow> int option) \<Rightarrow> url_query \<Rightarrow> string \<Rightarrow> int \<Rightarrow> int result" where
  "asInt_def_val conv uq name d =
     (let val = asString_def_val uq name []
      in if val = [] then Inr d
         else case conv val of Some f \<Rightarrow> Inr f | None \<Rightarrow> Inl (bad_value name val ''int''))"

definition bool_of_value :: "string \<Rightarrow> bool result" where
  "bool_of_value val =
     (if val = [] \<or> val = ''T'' \<or> val = ''t'' \<or> val = ''true'' \<or> val = ''TRUE'' \<or> val = ''1''
      then Inr True
      else if val = ''F'' \<or> val = ''f'' \<or> val = ''false'' \<or> val = ''FALSE'' \<or> val = ''0''
      then Inr False
      else Inl Bad_cast)"

definition asBool :: "url_query \<Rightarrow> string \<Rightarrow> bool result" where
  "asBool uq name = bind_result (asString uq name) bool_of_value"

definition asBool_def_val :: "url_query \<Rightarrow> string \<Rightarrow> bool \<Rightarrow> bool result" where
  "asBool_def_val uq name d =
     (let val = asString_def_val uq name ''__NO_PARAM__''
      in if val = ''__NO_PARAM__'' then Inr d else bool_of_value val)"

text \<open>\<open>isot\<close> is \<open>miutil::ptimeFromIsoString\<close>.\<close>

definition asPTime :: "(string \<Rightarrow> 't result) \<Rightarrow> url_query \<Rightarrow> string \<Rightarrow> 't result" where
  "asPTime isot uq name =
     bind_result (asString uq name) (\<lambda>val.
       if val = [] then Inl (Logic_error (''Param '' @ quote name @ '' no value.''))
       else case isot val of
              Inr t \<Rightarrow> Inr t
            | Inl (Logic_error w) \<Rightarrow>
                Inl (Logic_error (''Param '' @ quote name @ '' value ('' @ val @ '') not a valid time! ('' @ w @ '')''))
            | Inl _ \<Rightarrow> Inl (Logic_error (''Param '' @ quote name @ '' value ('' @ val @ '') not a valid time!'')))"

definition asPTime_def_val :: "(string \<Rightarrow> 't result) \<Rightarrow> url_query \<Rightarrow> string \<Rightarrow> 't \<Rightarrow> 't" where
  "asPTime_def_val isot uq name d = (case asPTime isot uq name of Inl _ \<Rightarrow> d | Inr t \<Rightarrow> t)"

definition setValue :: "url_query \<Rightarrow> string \<Rightarrow> string \<Rightarrow> url_query" where
  "setValue uq param val =
     (if param \<noteq> [] then uq\<lparr>params := om_put param val (params uq)\<rparr> else uq)"

definition setValue_int :: "url_query \<Rightarrow> string \<Rightarrow> int \<Rightarrow> url_query" where
  "setValue_int uq param v = setValue uq param (dec_int v)"

text \<open>
  The two other overloads print first: \<open>fmt\<close> is the stream's \<open>float\<close> output, or
  \<open>miutil::isotimeString\<close>.
\<close>

definition setValue_via :: "('t \<Rightarrow> string) \<Rightarrow> url_query \<Rightarrow> string \<Rightarrow> 't \<Rightarrow> url_query" where
  "setValue_via fmt uq param v = setValue uq param (fmt v)"


section \<open>Round trips\<close>

text \<open>For ASCII text \<open>escape\<close> is total; this is what it writes.\<close>

definition ascii :: "string \<Rightarrow> bool" where
  "ascii s \<longleftrightarrow> (\<forall>c \<in> set s. code c < 128)"

definition esc_char :: "char \<Rightarrow> string" where
  "esc_char c = (if isalnum c then [c] else CHR ''%'' # hex2 (code c))"

definition esc :: "string \<Rightarrow> string" where
  "esc s = concat (map esc_char s)"

lemma escape_ascii: "ascii s \<Longrightarrow> escape s = Inr (esc s)"
  by (induction s) (auto simp: ascii_def esc_def escape_char_def esc_char_def)

lemma escape_Inr_iff: "escape s = Inr t \<longleftrightarrow> ascii s \<and> t = esc s"
proof
  assume "escape s = Inr t"
  then show "ascii s \<and> t = esc s"
    by (induction s arbitrary: t)
      (auto simp: ascii_def esc_def escape_char_def esc_char_def bind_result_Inr_iff split: if_splits)
qed (simp add: escape_ascii)

lemma escape_not_ascii: "\<not> ascii s \<Longrightarrow> escape s = Inl Undefined_behaviour"
  by (induction s) (auto simp: ascii_def escape_char_def escape_ascii [unfolded ascii_def])

text \<open>The two hexadecimal digits of every ASCII code read back as that code.\<close>

lemma code_hex_digit: "n < 16 \<Longrightarrow> code (hex_digit n) = (if n < 10 then 48 + n else 87 + n)"
  by (simp add: hex_digit_def)

lemma hex_digit_props:
  assumes "n < 16"
  shows "hex_val (hex_digit n) = Some n" "\<not> isspace (hex_digit n)"
    "hex_digit n \<noteq> CHR ''-''" "hex_digit n \<noteq> CHR ''+''" "hex_digit n \<noteq> CHR 0x00"
    "isdigit (hex_digit n) \<or> (97 \<le> code (hex_digit n) \<and> code (hex_digit n) \<le> 102)"
  using code_hex_digit [OF assms] assms
  by (auto simp: hex_val_def isdigit_def isspace_def split: if_splits)

lemma hex2_props:
  assumes "n < 128"
  shows "c_str (hex2 n) = hex2 n" "strtol16 (hex2 n) = (int n, 2)" "length (hex2 n) = 2"
    "\<forall>c \<in> set (hex2 n). isdigit c \<or> (97 \<le> code c \<and> code c \<le> 102)"
proof -
  have d: "n div 16 < 16" and m: "n mod 16 < 16" using assms by auto
  note D = hex_digit_props [OF d] and M = hex_digit_props [OF m]
  show "c_str (hex2 n) = hex2 n" using D M by (simp add: c_str_def hex2_def)
  show "length (hex2 n) = 2" by (simp add: hex2_def)
  show "\<forall>c \<in> set (hex2 n). isdigit c \<or> (97 \<le> code c \<and> code c \<le> 102)"
    using D(6) M(6) by (simp add: hex2_def)
  have "16 * (n div 16) + n mod 16 = n" by simp
  then show "strtol16 (hex2 n) = (int n, 2)"
    using D M by (simp add: strtol16_def strtol16_digits_def hex2_def ishex_def Let_def)
qed

lemma char_of_int_code: "char_of_int (int (code c)) = c"
  by (simp add: char_of_int_def)

lemma unescape_esc_char:
  "code c < 128 \<Longrightarrow> unescape (esc_char c @ s) = bind_result (unescape s) (\<lambda>t. Inr (c # t))"
proof -
  assume c: "code c < 128"
  show ?thesis
  proof (cases "isalnum c")
    case True
    then have "c \<noteq> CHR ''%''" by (auto simp: isalnum_def isdigit_def)
    with True show ?thesis by (simp add: esc_char_def)
  next
    case False
    obtain a b where ab: "hex2 (code c) = [a, b]" by (simp add: hex2_def)
    with hex2_props [OF c] have "c_str [a, b] = [a, b]" "strtol16 [a, b] = (int (code c), 2)" by simp_all
    with False ab show ?thesis by (simp add: esc_char_def char_of_int_code)
  qed
qed

lemma unescape_esc: "ascii s \<Longrightarrow> unescape (esc s) = Inr s"
  by (induction s) (auto simp: esc_def ascii_def unescape_esc_char)

text \<open>The alphabet of escaped text: letters, digits and the percent sign.\<close>

lemma esc_alphabet: "ascii s \<Longrightarrow> \<forall>c \<in> set (esc s). isalnum c \<or> c = CHR ''%''"
proof (induction s)
  case (Cons c s)
  then have "\<forall>d \<in> set (esc_char c). isalnum d \<or> d = CHR ''%''"
    using hex2_props(4) [of "code c"]
    by (auto simp: esc_char_def ascii_def isalnum_def)
  with Cons show ?case by (auto simp: esc_def ascii_def)
qed (simp add: esc_def)

lemma alnum_not_special:
  "isalnum c \<or> c = CHR ''%'' \<Longrightarrow>
   c \<noteq> CHR '';'' \<and> c \<noteq> CHR ''&'' \<and> c \<noteq> CHR ''='' \<and> c \<noteq> dquote \<and> c \<notin> set trim_set"
  by (auto simp: isalnum_def isdigit_def trim_set_def)

definition enc_pair :: "string \<times> string \<Rightarrow> string" where
  "enc_pair kv = esc (fst kv) @ ''='' @ esc (snd kv)"

definition ascii_pairs :: "(string \<times> string) list \<Rightarrow> bool" where
  "ascii_pairs kvs \<longleftrightarrow> (\<forall>kv \<in> set kvs. ascii (fst kv) \<and> ascii (snd kv))"

lemma trimstr_esc: "ascii s \<Longrightarrow> trimstr (esc s) = esc s"
  using esc_alphabet [of s] alnum_not_special by (auto simp: trimstr_strip intro!: strip_no_trim)

lemma enc_pair_chars:
  assumes "ascii (fst kv)" "ascii (snd kv)" "c \<in> set (enc_pair kv)"
  shows "c \<noteq> CHR '';'' \<and> c \<noteq> CHR ''&'' \<and> c \<noteq> dquote \<and> c \<notin> set trim_set"
proof -
  from assms(3) consider "c = CHR ''=''" | "isalnum c \<or> c = CHR ''%''"
    using esc_alphabet [OF assms(1)] esc_alphabet [OF assms(2)] by (auto simp: enc_pair_def)
  then show ?thesis
  proof cases
    case 1
    then show ?thesis by (simp add: trim_set_def)
  next
    case 2
    then show ?thesis using alnum_not_special by blast
  qed
qed

lemma splitstr_enc_pair:
  assumes "ascii k" "ascii v"
  shows "splitstr (enc_pair (k, v)) (CHR ''='') dquote = Some [esc k, esc v]"
proof -
  have "enc_pair (k, v) = join (CHR ''='') [esc k, esc v]" by (simp add: enc_pair_def)
  moreover have "raw_fields (CHR ''='') dquote (CHR 0x00) False (join (CHR ''='') [esc k, esc v]) = [esc k, esc v]"
    using assms esc_alphabet alnum_not_special by (intro fields_join) auto
  ultimately show ?thesis
    using assms by (simp add: splitstr_eq split_fields_def trimstr_esc)
qed

lemma decode_param_enc_pair:
  "ascii k \<Longrightarrow> ascii v \<Longrightarrow> decode_param (enc_pair (k, v)) = Inr (Some (k, v))"
  by (simp add: decode_param_def splitstr_enc_pair unescape_esc) (simp add: enc_pair_def)

lemma decode_params_enc:
  "ascii_pairs kvs \<Longrightarrow> decode_params (map enc_pair kvs) m = (omap.put_all kvs m, ok)"
proof (induction kvs arbitrary: m)
  case Nil
  then show ?case by (simp add: omap.put_all_def)
next
  case (Cons kv kvs)
  obtain k v where kv: "kv = (k, v)" by (cases kv)
  with Cons show ?case
    by (simp add: ascii_pairs_def decode_param_enc_pair omap.put_all_def)
qed


lemma join_Cons: "join sep (f # fs) = f @ (if fs = [] then [] else sep # join sep fs)"
  by (cases fs) auto

lemma getParamSeparator_enc:
  assumes "ascii_pairs kvs" "sep = CHR '';'' \<or> sep = CHR ''&''"
  shows "getParamSeparator (join sep (map enc_pair kvs)) '';&'' =
    (if length kvs \<le> 1 then -1 else schar sep)"
proof (cases kvs)
  case Nil
  then show ?thesis by (simp add: getParamSeparator_def)
next
  case (Cons kv rest)
  with assms(1) have "ascii (fst kv)" "ascii (snd kv)" by (auto simp: ascii_pairs_def)
  then have "find_idx (\<lambda>c. c \<in> set '';&'') (enc_pair kv) = None"
    using enc_pair_chars by (auto simp: find_idx_None)
  moreover from this assms(2)
  have "find_idx (\<lambda>c. c \<in> set '';&'') (enc_pair kv @ sep # t) = Some (length (enc_pair kv))" for t
    unfolding find_idx_append by auto
  ultimately show ?thesis
    using Cons by (cases rest) (simp_all add: getParamSeparator_def join_Cons)
qed

lemma decode_query_enc:
  assumes "ascii_pairs kvs" "sep = CHR '';'' \<or> sep = CHR ''&''" "kvs \<noteq> []"
  shows "decode_query uq (join sep (map enc_pair kvs)) =
    (uq\<lparr>seperator := if length kvs \<le> 1 then -1 else schar sep,
        params := omap.put_all kvs (params uq)\<rparr>, ok)"
proof -
  let ?s = "join sep (map enc_pair kvs)"
  have ne: "?s \<noteq> []" using assms(3) by (cases kvs) (simp_all add: join_Cons enc_pair_def)
  have chars: "sep \<notin> set f \<and> dquote \<notin> set f" "trimstr f = f" if "f \<in> set (map enc_pair kvs)" for f
    using that assms(1,2) enc_pair_chars
    by (fastforce simp: ascii_pairs_def trimstr_strip intro!: strip_no_trim)+
  have sep: "sep \<noteq> dquote" "schar sep > 0" using assms(2) by (auto simp: schar_def)
  have "raw_fields sep dquote (CHR 0x00) False ?s = map enc_pair kvs"
    using chars(1) sep assms(3) by (intro fields_join) auto
  moreover have "map trimstr (map enc_pair kvs) = map enc_pair kvs"
    using chars(2) by (intro map_idI) simp
  ultimately have split: "splitstr ?s sep dquote = Some (map enc_pair kvs)"
    by (simp only: splitstr_eq split_fields_def)
  note G = getParamSeparator_enc [OF assms(1,2)]
  show ?thesis
  proof (cases "length kvs \<le> 1")
    case True
    with assms(3) obtain kv where kv: "kvs = [kv]" by (cases kvs) auto
    show ?thesis
      using ne G True decode_params_enc [OF assms(1), of "params uq"] by (simp add: decode_query_def kv)
  next
    case False
    then show ?thesis
      using ne G split sep decode_params_enc [OF assms(1), of "params uq"]
      by (simp add: decode_query_def char_of_int_schar Let_def)
  qed
qed

lemma encode_params_esc:
  "ascii_pairs kvs \<Longrightarrow> encode_params (Some c) kvs = Inr (join c (map enc_pair kvs))"
  by (induction "Some c" kvs rule: encode_params.induct)
    (auto simp: ascii_pairs_def escape_ascii enc_pair_def)

lemma split_path_query:
  "CHR ''?'' \<notin> set p \<Longrightarrow> split_path (p @ ''?'' @ q) = (strip_path p, q)"
proof -
  assume "CHR ''?'' \<notin> set p"
  then have "find_idx (\<lambda>c. c = CHR ''?'') p = None" unfolding find_idx_None by auto
  then have "find_idx (\<lambda>c. c = CHR ''?'') (p @ ''?'' @ q) = Some (length p)"
    unfolding find_idx_append by simp
  then show ?thesis by (simp add: split_path_def str_erase_def)
qed

lemma split_path_none: "CHR ''?'' \<notin> set p \<Longrightarrow> split_path p = (p, [])"
proof -
  assume "CHR ''?'' \<notin> set p"
  then have "find_idx (\<lambda>c. c = CHR ''?'') p = None" unfolding find_idx_None by auto
  then show ?thesis by (simp add: split_path_def)
qed

lemma encode_decode_query:
  assumes "om_wf (params uq)" "ascii_pairs (params uq)" "seperator uq \<le> 0" "CHR ''?'' \<notin> set p"
  shows "\<exists>t. encode uq p = Inr t \<and>
    decode url_query_init t True =
      (\<lparr>params = params uq,
        seperator = (if length (params uq) \<le> 1 then -1 else schar (CHR '';'')),
        path = (if params uq = [] then p else strip_path p)\<rparr>, ok)"
proof (cases "params uq = []")
  case True
  with split_path_none [OF assms(4)] show ?thesis
    by (simp add: encode_def decode_def decode_query_def url_query_init_def)
next
  case False
  have "encode uq p = Inr (p @ ''?'' @ join (CHR '';'') (map enc_pair (params uq)))"
    using False assms(2,3) by (simp add: encode_def encode_params_esc)
  moreover have "omap.put_all (params uq) [] = params uq"
    using assms(1) by (rule omap.put_all_entries)
  ultimately show ?thesis
    using False assms(2) split_path_query [OF assms(4)]
    by (simp add: decode_def decode_query_enc url_query_init_def)
qed

section \<open>Totality of decoding, and what encoding cannot do\<close>

lemma unescape_no_ub: "unescape s \<noteq> Inl Undefined_behaviour"
proof (induction s rule: unescape.induct)
  case (2 c cs)
  show ?case
  proof (cases "c = CHR ''%''")
    case False
    with "2.IH"(2) show ?thesis by (simp add: bind_result_Inl_iff)
  next
    case True
    show ?thesis
    proof (cases "length cs < 2")
      case True
      with \<open>c = CHR ''%''\<close> show ?thesis
        by (cases cs) (auto simp: unescape_short_def split: list.splits)
    next
      case False
      then obtain a b r where cs: "cs = a # b # r" using list_length_ge2 [of cs] by auto
      obtain n e where e: "strtol16 (c_str [a, b]) = (n, e)" by (cases "strtol16 (c_str [a, b])")
      show ?thesis
      proof (cases "e < length (c_str [a, b])")
        case True
        with cs e \<open>c = CHR ''%''\<close> show ?thesis by (simp add: unescape_bad_def)
      next
        case False
        from "2.IH"(1) [OF \<open>c = CHR ''%''\<close> cs refl refl refl] e False
        have "unescape r \<noteq> Inl Undefined_behaviour" by simp
        with False cs e \<open>c = CHR ''%''\<close> show ?thesis by (simp add: bind_result_Inl_iff)
      qed
    qed
  qed
qed simp

lemma decode_param_no_ub: "decode_param p \<noteq> Inl Undefined_behaviour"
proof -
  obtain u where "splitstr p (CHR ''='') dquote = Some u" by (simp add: splitstr_eq)
  then show ?thesis
    by (simp add: decode_param_def bind_result_Inl_iff unescape_no_ub bad_keyval_def)
qed

lemma decode_params_safe:
  "om_wf m \<Longrightarrow> om_wf (fst (decode_params ps m)) \<and> dom (map_of m) \<subseteq> dom (map_of (fst (decode_params ps m)))
     \<and> snd (decode_params ps m) \<noteq> Inl Undefined_behaviour"
proof (induction ps arbitrary: m)
  case (Cons p ps)
  show ?case
  proof (cases "decode_param p")
    case (Inl e)
    with Cons.prems decode_param_no_ub [of p] show ?thesis by simp
  next
    case (Inr r)
    show ?thesis
    proof (cases r)
      case None
      with Inr Cons.prems Cons.IH [of m] show ?thesis by simp
    next
      case (Some kv)
      obtain k v where "kv = (k, v)" by (cases kv)
      have "dom (map_of m) \<subseteq> dom (map_of (om_put k v m))" by auto
      with \<open>kv = (k, v)\<close> Inr Some Cons.prems Cons.IH [of "om_put k v m"] show ?thesis
        by (simp del: map_of_om_put) (blast intro: order_trans)
    qed
  qed
qed simp

lemma decode_query_safe:
  assumes "om_wf (params uq)"
  shows "om_wf (params (fst (decode_query uq q)))
    \<and> dom (map_of (params uq)) \<subseteq> dom (map_of (params (fst (decode_query uq q))))
    \<and> snd (decode_query uq q) \<noteq> Inl Undefined_behaviour"
proof (cases "q = []")
  case True
  with assms show ?thesis by (simp add: decode_query_def)
next
  case False
  let ?sep = "getParamSeparator q '';&''"
  obtain ps where ps: "(if ?sep > 0 then splitstr q (char_of_int ?sep) dquote else Some [q]) = Some ps"
    by (cases "?sep > 0") (auto simp: splitstr_eq)
  obtain m r where mr: "decode_params ps (params uq) = (m, r)" by (cases "decode_params ps (params uq)")
  with False ps have "decode_query uq q = (uq\<lparr>seperator := ?sep, params := m\<rparr>, r)"
    by (simp add: decode_query_def Let_def)
  with mr decode_params_safe [OF assms, of ps] show ?thesis by simp
qed

lemma decode_safe:
  assumes "om_wf (params uq)"
  shows "om_wf (params (fst (decode uq q withPath)))
    \<and> dom (map_of (params uq)) \<subseteq> dom (map_of (params (fst (decode uq q withPath))))
    \<and> snd (decode uq q withPath) \<noteq> Inl Undefined_behaviour"
proof -
  obtain p r where "split_path q = (p, r)" by (cases "split_path q")
  then show ?thesis
    using assms decode_query_safe [of uq q] decode_query_safe [of "uq\<lparr>path := p\<rparr>" r]
    by (simp add: decode_def)
qed

lemma encode_params_none:
  "2 \<le> length kvs \<Longrightarrow> encode_params None kvs = Inl Undefined_behaviour"
proof -
  assume "2 \<le> length kvs"
  then obtain k v kv r where kvs: "kvs = (k, v) # kv # r" by (metis list_length_ge2 surj_pair)
  have "escape k = Inl Undefined_behaviour \<or> (\<exists>t. escape k = Inr t)" for k
    using escape_ascii escape_not_ascii by blast
  then have "escape k = Inl Undefined_behaviour \<or> (\<exists>t. escape k = Inr t \<and>
      (escape v = Inl Undefined_behaviour \<or> (\<exists>u. escape v = Inr u)))" by blast
  then show ?thesis by (auto simp: kvs)
qed

lemma encode_params_none_one:
  "encode_params None [kv] = encode_params (Some c) [kv]"
  by (cases kv) simp

lemma encode_params_bad: "\<not> ascii_pairs kvs \<Longrightarrow> encode_params (Some c) kvs = Inl Undefined_behaviour"
proof (induction "Some c" kvs rule: encode_params.induct)
  case 1
  then show ?case by (simp add: ascii_pairs_def)
next
  case (2 k v)
  then show ?case by (cases "ascii k") (auto simp: ascii_pairs_def escape_ascii escape_not_ascii)
next
  case (3 k v kv kvs)
  show ?case
  proof (cases "ascii k \<and> ascii v")
    case True
    with "3.prems" have "\<not> ascii_pairs (kv # kvs)" by (auto simp: ascii_pairs_def)
    with "3.hyps" True show ?thesis by (simp add: escape_ascii)
  next
    case False
    then show ?thesis by (cases "ascii k") (simp_all add: escape_ascii escape_not_ascii)
  qed
qed

lemma encode_params_ub_iff:
  "encode_params (Some c) kvs = Inl Undefined_behaviour \<longleftrightarrow> \<not> ascii_pairs kvs"
  using encode_params_bad [of kvs c] encode_params_esc [of kvs c] by (cases "ascii_pairs kvs") simp_all

lemma encode_ub_iff:
  assumes "params uq \<noteq> []"
  shows "encode uq p = Inl Undefined_behaviour \<longleftrightarrow>
    \<not> ascii_pairs (params uq) \<or> (seperator uq > 0 \<and> 2 \<le> length (params uq))"
proof (cases "seperator uq \<le> 0")
  case True
  with assms show ?thesis
    by (simp add: encode_def bind_result_Inl_iff encode_params_ub_iff)
next
  case False
  show ?thesis
  proof (cases "2 \<le> length (params uq)")
    case True
    with False show ?thesis by (simp add: encode_def assms encode_params_none)
  next
    case small: False
    with assms have "length (params uq) = 1" by (cases "params uq") (auto simp: Suc_le_eq)
    then obtain kv where kv: "params uq = [kv]" by (auto simp: length_Suc_conv)
    with False show ?thesis
      by (simp add: encode_def bind_result_Inl_iff encode_params_none_one [of _ "CHR '';''"]
          encode_params_ub_iff)
  qed
qed

section \<open>Properties\<close>

text \<open>
  Escaping is undone by unescaping: whatever string \<open>UrlQuery::escape\<close> writes without
  overrunning its buffer, \<open>UrlQuery::unescape\<close> reads back; and \<open>escape\<close> writes past
  \<open>char buf[4]\<close> exactly when the string has a byte outside ASCII.
\<close>

theorem escape_unescape:
  "bind_result (escape s) unescape = (if ascii s then Inr s else Inl Undefined_behaviour)"
  by (simp add: escape_ascii escape_not_ascii unescape_esc)



text \<open>
  Decoding any text whatsoever keeps the parameter map well formed, never loses a
  parameter that was there, and ends either normally or in one of the exceptions the code
  throws: no field of the text is read or written out of bounds.
\<close>

theorem decode_total:
  assumes "om_wf (params uq)"
  shows "om_wf (params (fst (decode uq q withPath)))
    \<and> dom (map_of (params uq)) \<subseteq> dom (map_of (params (fst (decode uq q withPath))))
    \<and> snd (decode uq q withPath) \<noteq> Inl Undefined_behaviour"
  using assms by (rule decode_safe)

theorem decode_total_witness:
  "om_wf (params (fst (decode url_query_init ''a%2=b=%'' True)))"
  using decode_total [of url_query_init "''a%2=b=%''" True] by (simp add: url_query_init_def)

text \<open>
  The separator set by \<open>decode\<close> or \<open>setParamSeperator\<close> breaks \<open>encode\<close>: on a query with
  parameters it has undefined behaviour exactly when a key or value is not ASCII, or a
  separator is set and there are at least two parameters (the local \<open>sep\<close> is then never
  assigned).
\<close>

theorem encode_undefined:
  assumes "params uq \<noteq> []"
  shows "encode uq p = Inl Undefined_behaviour \<longleftrightarrow>
    \<not> ascii_pairs (params uq) \<or> (seperator uq > 0 \<and> 2 \<le> length (params uq))"
  using assms by (rule encode_ub_iff)

theorem encode_undefined_witness:
  "encode \<lparr>params = [(''a'', ''1''), (''b'', ''2'')], seperator = 59, path = []\<rparr> ''/p'' = Inl Undefined_behaviour"
  using encode_undefined [of "\<lparr>params = [(''a'', ''1''), (''b'', ''2'')], seperator = 59, path = []\<rparr>" "''/p''"]
  by simp

end
