(* ===== verification/HandlerManager.thy ===== *)
theory HandlerManager
  imports Prelude
begin

text \<open>
  Dispatch of a request path to a handler: \<open>webfw::RequestHandlerManager\<close> (decoding of the
  version part, search over the suffixes of the path) and its implementation
  \<open>DefaultRequestHandlerManager\<close> (the registry, a map from path to a map from version to
  handler). A registry operation runs under the registry's mutex, so it is one function on
  the registry. A handler is its identity together with the version it reports.
\<close>

section \<open>Versions\<close>

datatype hversion = HVersion (verMajor: int) (verMinor: int)

instantiation hversion :: linorder
begin

definition less_hversion :: "hversion \<Rightarrow> hversion \<Rightarrow> bool" where
  "less_hversion v w =
     (if verMajor v < verMajor w then True
      else if verMajor v = verMajor w \<and> verMinor v < verMinor w then True
      else False)"

definition less_eq_hversion :: "hversion \<Rightarrow> hversion \<Rightarrow> bool" where
  "less_eq_hversion v w \<longleftrightarrow> v < w \<or> v = w"

instance
  by standard (auto simp: less_hversion_def less_eq_hversion_def hversion.expand split: if_splits)

end

text \<open>The default constructor: version 0.0, which also names the default handler of a path.\<close>

definition version0 :: hversion where
  "version0 = HVersion 0 0"

record handler =
  hname :: string
  majorVersion :: int
  minorVersion :: int

definition version :: "handler \<Rightarrow> int \<times> int" where
  "version h = (majorVersion h, minorVersion h)"

definition isVersion :: "handler \<Rightarrow> int \<Rightarrow> int \<Rightarrow> bool" where
  "isVersion h ma mi \<longleftrightarrow> ma = majorVersion h \<and> mi = minorVersion h"

section \<open>Decoding a path\<close>

definition isNumber :: "string \<Rightarrow> bool" where
  "isNumber buf \<longleftrightarrow> dropWhile isdigit buf = []"

text \<open>\<^const>\<open>None\<close> is the result false; \<open>atoi\<close> outside the range of \<open>int\<close> is undefined.\<close>

definition number_part :: "string \<Rightarrow> int option result" where
  "number_part s =
     (if s = [] then Inr (Some 0)
      else if isNumber s then (case atoi s of None \<Rightarrow> Inl Undefined_behaviour | Some v \<Rightarrow> Inr (Some v))
      else Inr None)"

definition decodeVersion :: "string \<Rightarrow> (int \<times> int) option result" where
  "decodeVersion sVer =
     (if sVer = [] then Inr (Some (0, 0))
      else let i = (case find_idx (\<lambda>c. c = CHR ''.'') sVer of None \<Rightarrow> length sVer | Some i \<Rightarrow> i);
               sMajor = take i sVer;
               sMinor = (if i + 1 < length sVer then drop (i + 1) sVer else [])
           in if CHR ''.'' \<in> set sMinor then Inr None
              else bind_result (number_part sMajor) (\<lambda>ma.
                     case ma of
                       None \<Rightarrow> Inr None
                     | Some major \<Rightarrow>
                         bind_result (number_part sMinor) (\<lambda>mi.
                           case mi of None \<Rightarrow> Inr None | Some minor \<Rightarrow> Inr (Some (major, minor)))))"

abbreviation slash :: char where "slash \<equiv> CHR ''/''"

text \<open>The last component, the position it is cut at, and the path left by the first step.\<close>

definition last_part :: "string \<Rightarrow> string \<times> nat \<times> string" where
  "last_part myPath =
     (case find_last_idx (\<lambda>c. c = slash) myPath of
        Some i \<Rightarrow>
          if i + 1 < length myPath then (drop (i + 1) myPath, i, myPath)
          else ([], i, take i myPath)
      | None \<Rightarrow> (myPath, 0, myPath))"

definition root_path :: "string \<Rightarrow> string" where
  "root_path myPath =
     (if myPath = [] then ''/'' else if hd myPath \<noteq> slash then slash # myPath else myPath)"

definition decodePath :: "string \<Rightarrow> (string \<times> int \<times> int) result" where
  "decodePath path =
     (let (buf, i, myPath) = last_part path
      in if buf \<noteq> [] \<and> isdigit (hd buf)
         then bind_result (decodeVersion buf) (\<lambda>v.
                case v of
                  None \<Rightarrow> Inl (Invalid_path (path @ ''( version: '' @ buf @ '')''))
                | Some (major, minor) \<Rightarrow> Inr (root_path (take i myPath), major, minor))
         else Inr (root_path myPath, 0, 0))"

section \<open>The search\<close>

text \<open>
  \<open>impl\<close> is the virtual \<open>findRequestHandlerPathImpl\<close>. The loop drops the first component
  of the path in every round.
\<close>

function search_loop ::
  "(string \<Rightarrow> int \<Rightarrow> int \<Rightarrow> handler option) \<Rightarrow> string \<Rightarrow> string \<Rightarrow> int \<Rightarrow> int \<Rightarrow> handler result"
where
  "search_loop impl origPath path major minor =
     (case impl path major minor of
        Some req \<Rightarrow> Inr req
      | None \<Rightarrow>
          if length path = 1 then Inl (Not_found origPath)
          else (case find_idx_from (\<lambda>c. c = slash) path 1 of
                  None \<Rightarrow> Inl (Not_found origPath)
                | Some i \<Rightarrow> search_loop impl origPath (str_erase path 0 i) major minor))"
  by pat_completeness auto
termination
  by (relation "measure (\<lambda>(impl, origPath, path, major, minor). length path)")
    (auto simp: find_idx_from_def str_erase_def find_idx_Some)

declare search_loop.simps [simp del]

definition findRequestHandlerPath ::
  "(string \<Rightarrow> int \<Rightarrow> int \<Rightarrow> handler option) \<Rightarrow> string \<Rightarrow> handler result"
where
  "findRequestHandlerPath impl pathIn =
     (if length pathIn = 0 then Inl (Invalid_path ''Empty path!'')
      else bind_result (decodePath pathIn) (\<lambda>(path, major, minor).
             search_loop impl path path major minor))"

section \<open>The registry\<close>

type_synonym registry = "(string, (hversion, handler) omap) omap"

definition findRequestHandlerPathImpl :: "registry \<Rightarrow> string \<Rightarrow> int \<Rightarrow> int \<Rightarrow> handler option" where
  "findRequestHandlerPathImpl handlers path major minor =
     (case map_of handlers path of
        None \<Rightarrow> None
      | Some vs \<Rightarrow> map_of vs (HVersion major minor))"

text \<open>\<open>handlers[path]\<close>: the entry, created empty when it is missing.\<close>

definition versions_of :: "registry \<Rightarrow> string \<Rightarrow> (hversion, handler) omap" where
  "versions_of handlers path = (case map_of handlers path of None \<Rightarrow> [] | Some vs \<Rightarrow> vs)"

definition put_version :: "registry \<Rightarrow> string \<Rightarrow> hversion \<Rightarrow> handler \<Rightarrow> bool \<times> registry" where
  "put_version handlers path v h =
     (case map_of (versions_of handlers path) v of
        Some _ \<Rightarrow> (False, om_put path (versions_of handlers path) handlers)
      | None \<Rightarrow> (True, om_put path (om_put v h (versions_of handlers path)) handlers))"

definition addRequestHandler :: "registry \<Rightarrow> handler \<Rightarrow> string \<Rightarrow> bool \<times> registry" where
  "addRequestHandler handlers h path =
     (let (major, minor) = version h in put_version handlers path (HVersion major minor) h)"

definition removeRequestHandler :: "registry \<Rightarrow> string \<Rightarrow> int \<Rightarrow> int \<Rightarrow> bool \<times> registry" where
  "removeRequestHandler handlers path major minor =
     (case map_of handlers path of
        None \<Rightarrow> (False, handlers)
      | Some vs \<Rightarrow>
          (case map_of vs (HVersion major minor) of
             None \<Rightarrow> (False, handlers)
           | Some h \<Rightarrow>
               (let vs' = (if \<not> (major = 0 \<and> minor = 0)
                           then (case map_of vs version0 of
                                   None \<Rightarrow> vs
                                 | Some d \<Rightarrow> if version h = version d then om_erase version0 vs else vs)
                           else vs)
                in (True, om_put path (om_erase (HVersion major minor) vs') handlers))))"

definition setDefaultRequestHandler :: "registry \<Rightarrow> string \<Rightarrow> int \<Rightarrow> int \<Rightarrow> bool \<times> registry" where
  "setDefaultRequestHandler handlers path major minor =
     (case findRequestHandlerPathImpl handlers path major minor of
        None \<Rightarrow> (False, handlers)
      | Some h \<Rightarrow> put_version handlers path version0 h)"

section \<open>The search, as a specification\<close>

text \<open>The suffixes of a path that begin at a slash, longest first.\<close>

fun slash_suffixes :: "string \<Rightarrow> string list" where
  "slash_suffixes [] = []"
| "slash_suffixes (c # cs) = (if c = slash then [c # cs] else []) @ slash_suffixes cs"

fun first_some :: "('a \<Rightarrow> 'b option) \<Rightarrow> 'a list \<Rightarrow> 'b option" where
  "first_some f [] = None"
| "first_some f (x # xs) = (case f x of Some y \<Rightarrow> Some y | None \<Rightarrow> first_some f xs)"

lemma slash_suffixes_skip:
  "slash_suffixes s =
     (case find_idx (\<lambda>c. c = slash) s of None \<Rightarrow> [] | Some i \<Rightarrow> slash_suffixes (drop i s))"
  by (induction s) (auto split: option.splits)

lemma slash_suffixes_nonempty: "u \<in> set (slash_suffixes s) \<Longrightarrow> u \<noteq> []"
  by (induction s) (auto split: if_splits)

lemma search_loop_first:
  "path \<noteq> [] \<Longrightarrow> hd path = slash \<Longrightarrow>
   search_loop impl orig path major minor =
     (case first_some (\<lambda>s. impl s major minor) (slash_suffixes path) of
        Some h \<Rightarrow> Inr h | None \<Rightarrow> Inl (Not_found orig))"
proof (induction impl orig path major minor rule: search_loop.induct)
  case (1 impl orig path major minor)
  obtain cs where path: "path = slash # cs" using "1.prems" by (cases path) auto
  show ?case
  proof (cases "impl path major minor")
    case Some
    then show ?thesis by (subst search_loop.simps) (simp add: path)
  next
    case None
    show ?thesis
    proof (cases "find_idx (\<lambda>c. c = slash) cs")
      case None
      then show ?thesis
        using \<open>impl path major minor = None\<close> slash_suffixes_skip [of cs]
        by (subst search_loop.simps) (simp add: path find_idx_from_def)
    next
      case (Some i)
      then have i: "i < length cs" "cs ! i = slash" by (auto simp: find_idx_Some)
      then have d: "drop i cs \<noteq> []" "hd (drop i cs) = slash" by (auto simp: hd_drop_conv_nth)
      have pos: "find_idx_from (\<lambda>c. c = slash) path 1 = Some (Suc i)"
        by (simp add: path find_idx_from_def Some)
      have len: "length path \<noteq> 1" using i path by auto
      have erase: "str_erase path 0 (Suc i) = drop i cs" by (simp add: path str_erase_def)
      have "search_loop impl orig path major minor = search_loop impl orig (drop i cs) major minor"
        using None pos len erase by (subst search_loop.simps) simp
      also have "\<dots> = (case first_some (\<lambda>s. impl s major minor) (slash_suffixes (drop i cs)) of
          Some h \<Rightarrow> Inr h | None \<Rightarrow> Inl (Not_found orig))"
        using "1.IH" [OF None len pos] d erase by simp
      also have "slash_suffixes (drop i cs) = slash_suffixes cs"
        using slash_suffixes_skip [of cs] Some by simp
      finally show ?thesis using None by (simp add: path)
    qed
  qed
qed

lemma root_path_slash: "root_path p \<noteq> []" "hd (root_path p) = slash"
  by (auto simp: root_path_def)

lemma decodePath_slash: "decodePath p = Inr (q, ma, mi) \<Longrightarrow> q \<noteq> [] \<and> hd q = slash"
  using root_path_slash
  by (auto simp: decodePath_def bind_result_Inr_iff split: prod.splits if_splits option.splits)

lemma findRequestHandlerPath_first:
  assumes "p \<noteq> []"
  shows "findRequestHandlerPath impl p =
    bind_result (decodePath p) (\<lambda>(q, major, minor).
      case first_some (\<lambda>s. impl s major minor) (slash_suffixes q) of
        Some h \<Rightarrow> Inr h | None \<Rightarrow> Inl (Not_found q))"
proof (cases "decodePath p")
  case (Inr r)
  obtain q ma mi where "r = (q, ma, mi)" by (cases r)
  with Inr decodePath_slash [of p q ma mi] assms show ?thesis
    by (simp add: findRequestHandlerPath_def search_loop_first)
qed (simp add: findRequestHandlerPath_def assms)

section \<open>Round trip of the version part\<close>

lemma isNumber_iff: "isNumber s \<longleftrightarrow> (\<forall>c \<in> set s. isdigit c)"
  by (simp add: isNumber_def)

lemma number_part_dec_nat: "int n \<le> int_max \<Longrightarrow> number_part (dec_nat n) = Inr (Some (int n))"
  by (simp add: number_part_def isNumber_iff dec_nat_digits atoi_dec_nat del: dec_nat.simps)

definition version_text :: "nat \<Rightarrow> nat \<Rightarrow> string" where
  "version_text ma mi = dec_nat ma @ ''.'' @ dec_nat mi"

lemma dec_nat_no:
  assumes "\<not> isdigit c"
  shows "c \<notin> set (dec_nat n)"
  using assms dec_nat_digits by blast

lemma decodeVersion_text:
  assumes "int ma \<le> int_max" "int mi \<le> int_max"
  shows "decodeVersion (version_text ma mi) = Inr (Some (int ma, int mi))"
proof -
  have dot: "\<not> isdigit (CHR ''.'')" by (simp add: isdigit_def)
  have "find_idx (\<lambda>c. c = CHR ''.'') (dec_nat ma) = None"
    unfolding find_idx_None using dec_nat_no [OF dot] by blast
  then have "find_idx (\<lambda>c. c = CHR ''.'') (version_text ma mi) = Some (length (dec_nat ma))"
    unfolding version_text_def find_idx_append by simp
  moreover have "version_text ma mi \<noteq> []" by (simp add: version_text_def)
  moreover have "length (dec_nat ma) + 1 < length (version_text ma mi)"
    by (simp add: version_text_def)
  ultimately show ?thesis
    using dec_nat_no [OF dot, of mi] assms
    by (simp add: decodeVersion_def version_text_def number_part_dec_nat)
qed

lemma find_last_idx_append:
  "P c \<Longrightarrow> \<forall>x \<in> set t. \<not> P x \<Longrightarrow> find_last_idx P (s @ c # t) = Some (length s)"
proof -
  assume c: "P c" and t: "\<forall>x \<in> set t. \<not> P x"
  then have "find_idx P (rev t) = None" unfolding find_idx_None by simp
  then have "find_idx P (rev t @ c # rev s) = Some (length t)" unfolding find_idx_append using c by simp
  then show ?thesis by (simp add: find_last_idx_def)
qed

lemma decodePath_version_text:
  assumes "int ma \<le> int_max" "int mi \<le> int_max"
  shows "decodePath (p @ ''/'' @ version_text ma mi) = Inr (root_path p, int ma, int mi)"
proof -
  let ?v = "version_text ma mi"
  have ns: "\<forall>c \<in> set ?v. \<not> c = slash"
    using dec_nat_digits by (fastforce simp: version_text_def isdigit_def)
  obtain c cs where v: "?v = c # cs" by (cases ?v) (auto simp: version_text_def)
  moreover have "isdigit (hd ?v)"
    using dec_nat_digits [of ma] by (simp add: version_text_def hd_append)
  moreover have "last_part (p @ ''/'' @ ?v) = (?v, length p, p @ ''/'' @ ?v)"
    using find_last_idx_append [of "\<lambda>c. c = slash" slash ?v p] ns
    by (simp add: last_part_def v)
  ultimately show ?thesis
    using decodeVersion_text [OF assms] by (simp add: decodePath_def)
qed

section \<open>The registry as a map\<close>

definition reg_wf :: "registry \<Rightarrow> bool" where
  "reg_wf r \<longleftrightarrow> om_wf r \<and> (\<forall>(p, vs) \<in> set r. om_wf vs)"

text \<open>The abstract registry: a partial function of path and version.\<close>

definition reg_abs :: "registry \<Rightarrow> string \<times> hversion \<Rightarrow> handler option" where
  "reg_abs r = (\<lambda>(p, v). map_of (versions_of r p) v)"

lemma versions_of_put [simp]: "versions_of (om_put p vs r) q = (if q = p then vs else versions_of r q)"
  by (simp add: versions_of_def)

lemma findImpl_abs: "findRequestHandlerPathImpl r p ma mi = reg_abs r (p, HVersion ma mi)"
  by (simp add: findRequestHandlerPathImpl_def reg_abs_def versions_of_def split: option.splits)

lemma reg_abs_put: "reg_abs (om_put p vs r) = (\<lambda>(q, v). if q = p then map_of vs v else reg_abs r (q, v))"
  by (auto simp: reg_abs_def fun_eq_iff)

lemma reg_abs_same: "reg_abs (om_put p (versions_of r p) r) = reg_abs r"
  by (auto simp: reg_abs_def fun_eq_iff)

lemma put_version_abs:
  "fst (put_version r p v h) \<longleftrightarrow> reg_abs r (p, v) = None"
  "reg_abs (snd (put_version r p v h)) =
     (if reg_abs r (p, v) = None then (reg_abs r)((p, v) \<mapsto> h) else reg_abs r)"
  by (auto simp: put_version_def reg_abs_same reg_abs_def fun_eq_iff split: option.splits)

lemma set_om_put: "set (om_put k v m) \<subseteq> insert (k, v) (set m)"
  by (induction k v m rule: om_put.induct) auto

lemma reg_wf_put: "reg_wf r \<Longrightarrow> om_wf vs \<Longrightarrow> reg_wf (om_put p vs r)"
  using set_om_put [of p vs r] by (auto simp: reg_wf_def)

lemma reg_wf_versions: "reg_wf r \<Longrightarrow> om_wf (versions_of r p)"
  by (auto simp: reg_wf_def versions_of_def split: option.splits dest!: map_of_SomeD)

lemma put_version_wf: "reg_wf r \<Longrightarrow> reg_wf (snd (put_version r p v h))"
  by (auto simp: put_version_def reg_wf_put reg_wf_versions split: option.splits)

lemma add_abs:
  "addRequestHandler r h p = put_version r p (HVersion (majorVersion h) (minorVersion h)) h"
  by (simp add: addRequestHandler_def version_def)

lemma remove_wf: "reg_wf r \<Longrightarrow> reg_wf (snd (removeRequestHandler r p ma mi))"
  using reg_wf_versions [of r p]
  by (auto simp: removeRequestHandler_def Let_def versions_of_def intro!: reg_wf_put split: option.splits)

definition remove_spec :: "(string \<times> hversion \<Rightarrow> handler option) \<Rightarrow> string \<Rightarrow> hversion
    \<Rightarrow> string \<times> hversion \<Rightarrow> handler option" where
  "remove_spec a p v =
     (case a (p, v) of
        None \<Rightarrow> a
      | Some h \<Rightarrow>
          (\<lambda>x. if x = (p, v) then None
               else if x = (p, version0) \<and> map_option version (a x) = Some (version h) then None
               else a x))"

lemma remove_abs:
  "fst (removeRequestHandler r p ma mi) \<longleftrightarrow> reg_abs r (p, HVersion ma mi) \<noteq> None"
  "reg_abs (snd (removeRequestHandler r p ma mi)) = remove_spec (reg_abs r) p (HVersion ma mi)"
proof -
  show "fst (removeRequestHandler r p ma mi) \<longleftrightarrow> reg_abs r (p, HVersion ma mi) \<noteq> None"
    by (auto simp: removeRequestHandler_def reg_abs_def versions_of_def Let_def split: option.splits)
next
  show "reg_abs (snd (removeRequestHandler r p ma mi)) = remove_spec (reg_abs r) p (HVersion ma mi)"
  proof (cases "map_of r p")
    case None
    then show ?thesis
      by (simp add: removeRequestHandler_def remove_spec_def reg_abs_def versions_of_def)
  next
    case (Some vs)
    then have vs: "reg_abs r (p, v) = map_of vs v" for v by (simp add: reg_abs_def versions_of_def)
    show ?thesis
    proof (cases "map_of vs (HVersion ma mi)")
      case None
      with Some vs show ?thesis by (simp add: removeRequestHandler_def remove_spec_def)
    next
      case h: (Some h)
      show ?thesis
      proof (cases "map_of vs version0")
        case None
        with Some h vs show ?thesis
          by (auto simp: removeRequestHandler_def remove_spec_def reg_abs_put version0_def fun_eq_iff)
      next
        case (Some d)
        with \<open>map_of r p = Some vs\<close> h vs show ?thesis
          by (auto simp: removeRequestHandler_def remove_spec_def reg_abs_put version0_def fun_eq_iff)
      qed
    qed
  qed
qed

lemma set_default_abs:
  "reg_abs (snd (setDefaultRequestHandler r p ma mi)) =
     (case reg_abs r (p, HVersion ma mi) of
        None \<Rightarrow> reg_abs r
      | Some h \<Rightarrow> if reg_abs r (p, version0) = None then (reg_abs r)((p, version0) \<mapsto> h) else reg_abs r)"
  by (auto simp: setDefaultRequestHandler_def findImpl_abs put_version_abs split: option.splits)

section \<open>The interface between the search and the registry\<close>

text \<open>
  What the search needs of an implementation of \<open>RequestHandlerManager\<close>: a handler that was
  added is found under its path and version, and nothing else changes.
\<close>

locale request_handlers =
  fixes find :: "'r \<Rightarrow> string \<Rightarrow> int \<Rightarrow> int \<Rightarrow> handler option"
    and add :: "'r \<Rightarrow> handler \<Rightarrow> string \<Rightarrow> bool \<times> 'r"
  assumes add_accepts: "fst (add r h p) \<longleftrightarrow> find r p (fst (version h)) (snd (version h)) = None"
    and find_add: "find (snd (add r h p)) q ma mi =
      (if fst (add r h p) \<and> q = p \<and> version h = (ma, mi) then Some h else find r q ma mi)"
begin

lemma slash_suffixes_append: "slash_suffixes (s @ t) = map (\<lambda>u. u @ t) (slash_suffixes s) @ slash_suffixes t"
  by (induction s) auto

lemma first_some_append: "(\<And>x. x \<in> set xs \<Longrightarrow> f x = None) \<Longrightarrow> first_some f (xs @ ys) = first_some f ys"
  by (induction xs) auto

lemma dispatch_added:
  assumes "fst (add r h p)" "version h = (int ma, int mi)"
    and "p \<noteq> []" "hd p = slash" "pre = [] \<or> hd pre = slash"
    and "int ma \<le> int_max" "int mi \<le> int_max"
    and free: "\<And>s. s \<in> set (slash_suffixes pre) \<Longrightarrow> find r (s @ p) (int ma) (int mi) = None"
  shows "findRequestHandlerPath (find (snd (add r h p))) (pre @ p @ ''/'' @ version_text ma mi) = Inr h"
proof -
  let ?f = "\<lambda>s. find (snd (add r h p)) s (int ma) (int mi)"
  have root: "root_path (pre @ p) = pre @ p" using assms(3-5) by (auto simp: root_path_def hd_append)
  have dec: "decodePath (pre @ p @ ''/'' @ version_text ma mi) = Inr (pre @ p, int ma, int mi)"
    using decodePath_version_text [OF assms(6,7), of "pre @ p"] root by simp
  have found: "?f p = Some h" using assms(1,2) by (simp add: find_add)
  obtain cs where "p = slash # cs" using assms(3,4) by (cases p) auto
  then have "first_some ?f (slash_suffixes p) = Some h" using found by simp
  moreover have "?f x = None" if "x \<in> set (map (\<lambda>u. u @ p) (slash_suffixes pre))" for x
  proof -
    from that obtain u where u: "u \<in> set (slash_suffixes pre)" "x = u @ p" by auto
    with slash_suffixes_nonempty have "x \<noteq> p" by auto
    with free [OF u(1)] u(2) show ?thesis by (simp add: find_add)
  qed
  ultimately have "first_some ?f (slash_suffixes (pre @ p)) = Some h"
    by (simp only: slash_suffixes_append first_some_append)
  with dec assms(3) show ?thesis by (simp add: findRequestHandlerPath_first)
qed

end

interpretation reg: request_handlers findRequestHandlerPathImpl addRequestHandler
proof unfold_locales
  show "fst (addRequestHandler r h p) \<longleftrightarrow>
      findRequestHandlerPathImpl r p (fst (version h)) (snd (version h)) = None" for r h p
    by (simp add: add_abs put_version_abs findImpl_abs version_def)
  show "findRequestHandlerPathImpl (snd (addRequestHandler r h p)) q ma mi =
      (if fst (addRequestHandler r h p) \<and> q = p \<and> version h = (ma, mi) then Some h
       else findRequestHandlerPathImpl r q ma mi)" for r h p q ma mi
    by (auto simp: add_abs put_version_abs findImpl_abs version_def)
qed

section \<open>Properties\<close>

text \<open>
  The version at the end of a request path is decoded exactly: for every path \<open>p\<close> and
  every version that fits an \<open>int\<close>, \<open>decodePath\<close> of \<open>p/major.minor\<close> gives the version and
  the path \<open>p\<close>, with a leading slash.
\<close>

theorem decodePath_version:
  assumes "int ma \<le> int_max" "int mi \<le> int_max"
  shows "decodePath (p @ ''/'' @ version_text ma mi) = Inr (root_path p, int ma, int mi)"
  using assms by (rule decodePath_version_text)

theorem decodePath_version_witness:
  "decodePath (''/a/b'' @ ''/'' @ version_text 1 12) = Inr (''/a/b'', 1, 12)"
  using decodePath_version [of 1 12 "''/a/b''"] by (simp add: int_max_def root_path_def)

text \<open>
  The search always ends and returns the handler of the longest suffix of the path (cut
  at a slash) that has one for the decoded version, \<open>NotFound\<close> with the whole path if there
  is none, and \<open>InvalidPath\<close> for the empty path or a bad version; whatever implementation
  of \<open>findRequestHandlerPathImpl\<close> it is given.
\<close>

theorem findRequestHandlerPath_correct:
  "findRequestHandlerPath impl p =
     (if p = [] then Inl (Invalid_path ''Empty path!'')
      else bind_result (decodePath p) (\<lambda>(q, major, minor).
        case first_some (\<lambda>s. impl s major minor) (slash_suffixes q) of
          Some h \<Rightarrow> Inr h | None \<Rightarrow> Inl (Not_found q)))"
  using findRequestHandlerPath_first [of p impl] by (simp add: findRequestHandlerPath_def)


text \<open>
  C8: A handler that \<open>addRequestHandler\<close> accepted is the one a request for its path and
  version is dispatched to, also behind any prefix \<open>pre\<close> of path components, as long as no
  longer suffix of the request path has a handler of that version.
\<close>

theorem dispatch_after_add:
  assumes "fst (addRequestHandler r h p)" "version h = (int ma, int mi)"
    and "p \<noteq> []" "hd p = slash" "pre = [] \<or> hd pre = slash"
    and "int ma \<le> int_max" "int mi \<le> int_max"
    and "\<forall>s \<in> set (slash_suffixes pre). findRequestHandlerPathImpl r (s @ p) (int ma) (int mi) = None"
  shows "findRequestHandlerPath (findRequestHandlerPathImpl (snd (addRequestHandler r h p)))
    (pre @ p @ ''/'' @ version_text ma mi) = Inr h"
  using assms by (intro reg.dispatch_added) auto

theorem dispatch_after_add_witness:
  "findRequestHandlerPath
     (findRequestHandlerPathImpl (snd (addRequestHandler [] \<lparr>hname = ''p'', majorVersion = 1, minorVersion = 2\<rparr> ''/pf'')))
     (''/metno'' @ ''/pf'' @ ''/'' @ version_text 1 2) = Inr \<lparr>hname = ''p'', majorVersion = 1, minorVersion = 2\<rparr>"
  by (rule dispatch_after_add)
    (simp_all add: addRequestHandler_def put_version_def versions_of_def version_def
      findRequestHandlerPathImpl_def int_max_def)

end
