(* ===== verification/RWMutex.thy ===== *)
theory RWMutex
  imports Prelude
begin

text \<open>
  The reader/writer lock of \<open>src/src/webFW/RWMutex.cpp\<close>. Every method holds the internal
  mutex except while it waits on the condition variable, so a call is one or more atomic
  sections: the one from the call to the first wait, and one from each wake-up to the next
  wait. The system below is a list of threads that run these sections in any order; a waiting
  thread may wake at any time, which covers notification, time-out and spurious wake-ups.
\<close>

section \<open>The atomic sections\<close>

record rwmutex =
  readers :: int
  waitingWriters :: int
  writerIsActiv :: bool

definition rwmutex_init :: rwmutex where
  "rwmutex_init = \<lparr>readers = 0, waitingWriters = 0, writerIsActiv = False\<rparr>"

text \<open>What a section ends with: the result true or false, or a wait on the condition.\<close>

datatype outcome = Granted | Refused | Blocked

definition readLock_enter :: "rwmutex \<Rightarrow> outcome \<times> rwmutex" where
  "readLock_enter m =
     (if waitingWriters m > 0 \<or> writerIsActiv m then (Blocked, m)
      else (Granted, m\<lparr>readers := readers m + 1\<rparr>))"

definition readLock_wake :: "int \<Rightarrow> rwmutex \<Rightarrow> outcome \<times> rwmutex" where
  "readLock_wake timeout m =
     (if waitingWriters m > 0 \<or> writerIsActiv m
      then (if timeout = 0 then (Blocked, m) else (Refused, m))
      else (Granted, m\<lparr>readers := readers m + 1\<rparr>))"

definition tryReadLock :: "rwmutex \<Rightarrow> outcome \<times> rwmutex" where
  "tryReadLock m =
     (if waitingWriters m > 0 \<or> writerIsActiv m then (Refused, m)
      else (Granted, m\<lparr>readers := readers m + 1\<rparr>))"

definition readUnlock :: "rwmutex \<Rightarrow> rwmutex" where
  "readUnlock m = (if readers m > 0 then m\<lparr>readers := readers m - 1\<rparr> else m)"

definition writeLock_enter :: "rwmutex \<Rightarrow> outcome \<times> rwmutex" where
  "writeLock_enter m =
     (let m1 = m\<lparr>waitingWriters := waitingWriters m + 1\<rparr>
      in if readers m1 > 0 \<or> writerIsActiv m1 then (Blocked, m1)
         else (Granted, m1\<lparr>writerIsActiv := True, waitingWriters := waitingWriters m1 - 1\<rparr>))"

definition writeLock_wake :: "int \<Rightarrow> rwmutex \<Rightarrow> outcome \<times> rwmutex" where
  "writeLock_wake timeout m =
     (if readers m > 0 \<or> writerIsActiv m
      then (if timeout = 0 then (Blocked, m) else (Refused, m))
      else (Granted, m\<lparr>writerIsActiv := True, waitingWriters := waitingWriters m - 1\<rparr>))"

definition tryWriteLock :: "rwmutex \<Rightarrow> outcome \<times> rwmutex" where
  "tryWriteLock m =
     (if readers m > 0 \<or> writerIsActiv m then (Refused, m)
      else (Granted, m\<lparr>writerIsActiv := True\<rparr>))"

definition writeUnlock :: "rwmutex \<Rightarrow> rwmutex" where
  "writeUnlock m = m\<lparr>writerIsActiv := False\<rparr>"

section \<open>Threads\<close>

datatype tstate = Idle | Read_wait int | Write_wait int | Reading | Writing

text \<open>\<open>expired\<close> counts the calls of \<open>writeLock\<close> that returned false; the code keeps no such count.\<close>

record rwsys =
  mtx :: rwmutex
  thr :: "tstate list"
  expired :: nat

datatype rw_event =
    Read_lock nat int
  | Try_read_lock nat
  | Read_unlock nat
  | Write_lock nat int
  | Try_write_lock nat
  | Write_unlock nat
  | Wake nat

fun after_read :: "int \<Rightarrow> outcome \<Rightarrow> tstate" where
  "after_read timeout Granted = Reading"
| "after_read timeout Refused = Idle"
| "after_read timeout Blocked = Read_wait timeout"

fun after_write :: "int \<Rightarrow> outcome \<Rightarrow> tstate" where
  "after_write timeout Granted = Writing"
| "after_write timeout Refused = Idle"
| "after_write timeout Blocked = Write_wait timeout"

definition rw_put :: "rwsys \<Rightarrow> nat \<Rightarrow> rwmutex \<times> tstate \<Rightarrow> rwsys" where
  "rw_put s i r = s\<lparr>mtx := fst r, thr := (thr s)[i := snd r]\<rparr>"

definition rw_waiting_step :: "rwsys \<Rightarrow> nat \<Rightarrow> rwsys option" where
  "rw_waiting_step s i =
     (case thr s ! i of
        Read_wait t \<Rightarrow>
          (let (out, m) = readLock_wake t (mtx s) in Some (rw_put s i (m, after_read t out)))
      | Write_wait t \<Rightarrow>
          (let (out, m) = writeLock_wake t (mtx s)
           in Some ((rw_put s i (m, after_write t out))
                \<lparr>expired := expired s + (if out = Refused then 1 else 0)\<rparr>))
      | _ \<Rightarrow> None)"

text \<open>One section of one thread; \<^const>\<open>None\<close> when the thread is not in the state the event needs.\<close>

fun rw_exec :: "rw_event \<Rightarrow> rwsys \<Rightarrow> rwsys option" where
  "rw_exec (Read_lock i t) s =
     (if i < length (thr s) \<and> thr s ! i = Idle
      then (let (out, m) = readLock_enter (mtx s) in Some (rw_put s i (m, after_read t out))) else None)"
| "rw_exec (Try_read_lock i) s =
     (if i < length (thr s) \<and> thr s ! i = Idle
      then (let (out, m) = tryReadLock (mtx s) in Some (rw_put s i (m, after_read 0 out))) else None)"
| "rw_exec (Read_unlock i) s =
     (if i < length (thr s) \<and> thr s ! i = Reading
      then Some (rw_put s i (readUnlock (mtx s), Idle)) else None)"
| "rw_exec (Write_lock i t) s =
     (if i < length (thr s) \<and> thr s ! i = Idle
      then (let (out, m) = writeLock_enter (mtx s) in Some (rw_put s i (m, after_write t out))) else None)"
| "rw_exec (Try_write_lock i) s =
     (if i < length (thr s) \<and> thr s ! i = Idle
      then (let (out, m) = tryWriteLock (mtx s) in Some (rw_put s i (m, after_write 0 out))) else None)"
| "rw_exec (Write_unlock i) s =
     (if i < length (thr s) \<and> thr s ! i = Writing
      then Some (rw_put s i (writeUnlock (mtx s), Idle)) else None)"
| "rw_exec (Wake i) s = (if i < length (thr s) then rw_waiting_step s i else None)"

inductive rw_step :: "rwsys \<Rightarrow> rwsys \<Rightarrow> bool" where
  rw_step_exec: "rw_exec e s = Some t \<Longrightarrow> rw_step s t"

inductive_cases rw_stepE: "rw_step s t"

definition rw_start :: "rwsys \<Rightarrow> bool" where
  "rw_start s \<longleftrightarrow> mtx s = rwmutex_init \<and> set (thr s) \<subseteq> {Idle} \<and> expired s = 0"

fun rw_run :: "rw_event list \<Rightarrow> rwsys \<Rightarrow> rwsys option" where
  "rw_run [] s = Some s"
| "rw_run (e # es) s = (case rw_exec e s of None \<Rightarrow> None | Some t \<Rightarrow> rw_run es t)"

lemma rw_run_reach: "reach rw_start rw_step s \<Longrightarrow> rw_run es s = Some t \<Longrightarrow> reach rw_start rw_step t"
proof (induction es arbitrary: s)
  case (Cons e es)
  then obtain u where u: "rw_exec e s = Some u" "rw_run es u = Some t"
    by (auto split: option.splits)
  show ?case
    by (rule Cons.IH [OF reach_step [OF Cons.prems(1) rw_step_exec [OF u(1)]] u(2)])
qed simp

section \<open>The invariant\<close>

fun waits_to_write :: "tstate \<Rightarrow> bool" where
  "waits_to_write (Write_wait t) = True"
| "waits_to_write _ = False"

definition rw_inv :: "rwsys \<Rightarrow> bool" where
  "rw_inv s \<longleftrightarrow>
     readers (mtx s) = cnt (\<lambda>x. x = Reading) (thr s)
     \<and> cnt (\<lambda>x. x = Writing) (thr s) = (if writerIsActiv (mtx s) then 1 else 0)
     \<and> (writerIsActiv (mtx s) \<longrightarrow> readers (mtx s) = 0)
     \<and> waitingWriters (mtx s) = cnt waits_to_write (thr s) + int (expired s)"

lemmas rw_section_defs =
  readLock_enter_def readLock_wake_def tryReadLock_def readUnlock_def
  writeLock_enter_def writeLock_wake_def tryWriteLock_def writeUnlock_def rw_put_def Let_def

lemma rw_inv_exec:
  assumes "rw_inv s" "rw_exec e s = Some t"
  shows "rw_inv t"
proof (cases e)
  case (Wake i)
  with assms show ?thesis
    by (cases "thr s ! i")
      (auto simp: rw_inv_def rw_waiting_step_def rw_section_defs cnt_update cnt_pos_neq split: if_splits)
next
  case (Read_unlock i)
  with assms have i: "i < length (thr s)" "thr s ! i = Reading"
    and t: "t = rw_put s i (readUnlock (mtx s), Idle)" by (auto split: if_splits)
  have "0 < cnt (\<lambda>x. x = Reading) (thr s)" using i nth_mem by (fastforce simp: cnt_pos_iff)
  with assms(1) i t show ?thesis by (auto simp: rw_inv_def rw_section_defs cnt_update)
next
  case (Write_unlock i)
  with assms have i: "i < length (thr s)" "thr s ! i = Writing"
    and t: "t = rw_put s i (writeUnlock (mtx s), Idle)" by (auto split: if_splits)
  have "0 < cnt (\<lambda>x. x = Writing) (thr s)" using i nth_mem by (fastforce simp: cnt_pos_iff)
  with assms(1) i t show ?thesis by (auto simp: rw_inv_def rw_section_defs cnt_update split: if_splits)
qed (use assms in \<open>auto simp: rw_inv_def rw_section_defs cnt_update cnt_pos_neq split: if_splits\<close>)

interpretation rw: invariant_system rw_start rw_step rw_inv
proof unfold_locales
  show "rw_inv s" if "rw_start s" for s
  proof -
    from that have "x = Idle" if "x \<in> set (thr s)" for x using that by (auto simp: rw_start_def)
    then have "\<not> x = Reading \<and> \<not> x = Writing \<and> \<not> waits_to_write x" if "x \<in> set (thr s)" for x
      using that by fastforce
    then have "cnt (\<lambda>x. x = Reading) (thr s) = 0" "cnt (\<lambda>x. x = Writing) (thr s) = 0"
      "cnt waits_to_write (thr s) = 0" by (simp_all add: cnt_zero_iff)
    with that show ?thesis by (simp add: rw_inv_def rw_start_def rwmutex_init_def)
  qed
  show "rw_inv t" if "rw_inv s" "rw_step s t" for s t
    using that rw_inv_exec by (auto elim: rw_stepE)
qed

lemma expired_mono: "steps rw_step s t \<Longrightarrow> expired s \<le> expired t"
proof (induction rule: steps.induct)
  case (steps_step s t u)
  from steps_step(2) obtain e where "rw_exec e t = Some u" by (auto elim: rw_stepE)
  then have "expired t \<le> expired u"
    by (cases e) (auto simp: rw_waiting_step_def rw_put_def split: if_splits prod.splits tstate.splits)
  with steps_step show ?case by simp
qed simp

lemma no_reader_admitted:
  assumes "rw_inv s" "expired s > 0 \<or> (\<exists>x \<in> set (thr s). waits_to_write x)"
  shows "readLock_enter (mtx s) = (Blocked, mtx s)" "tryReadLock (mtx s) = (Refused, mtx s)"
    "fst (readLock_wake timeout (mtx s)) \<noteq> Granted"
proof -
  have "0 < waitingWriters (mtx s)"
    using assms cnt_pos_iff [of waits_to_write "thr s"] cnt_nonneg [of waits_to_write "thr s"]
    unfolding rw_inv_def by linarith
  then show "readLock_enter (mtx s) = (Blocked, mtx s)" "tryReadLock (mtx s) = (Refused, mtx s)"
    "fst (readLock_wake timeout (mtx s)) \<noteq> Granted"
    by (simp_all add: readLock_enter_def tryReadLock_def readLock_wake_def)
qed

section \<open>Properties\<close>

definition rw_threads :: "nat \<Rightarrow> rwsys" where
  "rw_threads n = \<lparr>mtx = rwmutex_init, thr = replicate n Idle, expired = 0\<rparr>"

lemma rw_start_threads: "reach rw_start rw_step (rw_threads n)"
  by (rule reach_start) (auto simp: rw_start_def rw_threads_def)


lemma rw_reach_run: "rw_run es (rw_threads n) = Some s \<Longrightarrow> reach rw_start rw_step s"
  by (rule rw_run_reach [OF rw_start_threads])

lemmas rw_eval = rw_threads_def rwmutex_init_def rw_section_defs rw_waiting_step_def


text \<open>
  Writers have priority, and a writer that gives up keeps it for ever: while a writer
  waits, and in every state that follows a \<open>writeLock\<close> that timed out, no call of \<open>readLock\<close>
  or \<open>tryReadLock\<close> and no woken reader is granted the lock, even when no thread holds it.
\<close>

theorem timed_out_writer_starves_readers:
  assumes "reach rw_start rw_step s" "steps rw_step s t"
    and "expired s > 0 \<or> (\<exists>x \<in> set (thr t). waits_to_write x)"
  shows "readLock_enter (mtx t) = (Blocked, mtx t) \<and> tryReadLock (mtx t) = (Refused, mtx t)
    \<and> fst (readLock_wake timeout (mtx t)) \<noteq> Granted"
proof -
  have "rw_inv t" using assms rw.inv_reach rw.inv_steps by blast
  moreover have "expired t > 0 \<or> (\<exists>x \<in> set (thr t). waits_to_write x)"
    using assms(3) expired_mono [OF assms(2)] by auto
  ultimately show ?thesis using no_reader_admitted by blast
qed

theorem timed_out_writer_starves_readers_witness:
  "\<exists>s. rw_run [Read_lock 0 0, Write_lock 1 5, Wake 1, Read_unlock 0] (rw_threads 2) = Some s
    \<and> thr s = [Idle, Idle] \<and> tryReadLock (mtx s) = (Refused, mtx s)"
proof -
  obtain s where s: "rw_run [Read_lock 0 0, Write_lock 1 5, Wake 1, Read_unlock 0] (rw_threads 2) = Some s"
    "thr s = [Idle, Idle]" "expired s = 1"
    by (simp add: rw_eval numeral_2_eq_2)
  with timed_out_writer_starves_readers [OF rw_reach_run [OF s(1)] steps_refl] show ?thesis by auto
qed

text \<open>
  C29: Writers make progress: in every reachable state in which no thread holds the lock, a
  waiting writer that wakes gets it, and so does a new caller of \<open>writeLock\<close> or
  \<open>tryWriteLock\<close>.
\<close>

theorem writers_progress:
  assumes "reach rw_start rw_step s" "Reading \<notin> set (thr s)" "Writing \<notin> set (thr s)"
  shows "fst (writeLock_wake timeout (mtx s)) = Granted \<and> fst (writeLock_enter (mtx s)) = Granted
    \<and> fst (tryWriteLock (mtx s)) = Granted"
proof -
  have "rw_inv s" using assms(1) by (rule rw.inv_reach)
  moreover have "cnt (\<lambda>x. x = Reading) (thr s) = 0" "cnt (\<lambda>x. x = Writing) (thr s) = 0"
    using assms(2,3) by (auto simp: cnt_zero_iff)
  ultimately have "readers (mtx s) = 0" "\<not> writerIsActiv (mtx s)"
    by (auto simp: rw_inv_def split: if_splits)
  then show ?thesis by (simp add: writeLock_wake_def writeLock_enter_def tryWriteLock_def)
qed

theorem writers_progress_witness:
  "fst (writeLock_enter (mtx (rw_threads 3))) = Granted"
  using writers_progress [OF rw_start_threads [of 3]] by (simp add: rw_threads_def)

end
