(* ===== verification/QueueMt.thy ===== *)
theory QueueMt
  imports Prelude
begin

text \<open>
  The thread-safe queue \<open>miutil::queuemt\<close> of
  \<open>src/src/miutil/queuemt.h\<close>. As for the reader/writer lock, each operation is cut at its
  waits on the condition variable into atomic sections. \<open>suspend(true)\<close> calls
  \<open>dataQueue.clear()\<close>, a member \<open>std::queue\<close> does not have, so only \<open>suspend(false)\<close>, the
  default, has a meaning to model.
\<close>

section \<open>The atomic sections\<close>

record 'a queue =
  dataQueue :: "'a list"
  suspended :: bool
  maxSize :: nat

text \<open>A section returns a value, throws \<open>QueueSuspended\<close>, or waits.\<close>

datatype 'r qout = Ret 'r | Throw_suspended | Wait_cond

definition queuemt :: "nat \<Rightarrow> 'a queue" where
  "queuemt maxQueSize = \<lparr>dataQueue = [], suspended = False, maxSize = maxQueSize\<rparr>"

definition q_full :: "'a queue \<Rightarrow> bool" where
  "q_full q \<longleftrightarrow> maxSize q > 0 \<and> length (dataQueue q) \<ge> maxSize q"

definition q_push :: "'a \<Rightarrow> 'a queue \<Rightarrow> 'a queue" where
  "q_push v q = q\<lparr>dataQueue := dataQueue q @ [v]\<rparr>"

definition q_pop :: "'a queue \<Rightarrow> 'a queue" where
  "q_pop q = q\<lparr>dataQueue := tl (dataQueue q)\<rparr>"

definition push_loop :: "'a \<Rightarrow> 'a queue \<Rightarrow> unit qout \<times> 'a queue" where
  "push_loop v q = (if q_full q then (Wait_cond, q) else (Ret (), q_push v q))"

definition push :: "'a \<Rightarrow> 'a queue \<Rightarrow> unit qout \<times> 'a queue" where
  "push v q = (if suspended q then (Throw_suspended, q) else push_loop v q)"

definition timedPush :: "'a \<Rightarrow> 'a queue \<Rightarrow> bool qout \<times> 'a queue" where
  "timedPush v q =
     (if suspended q then (Throw_suspended, q)
      else if q_full q then (Wait_cond, q)
      else (Ret True, q_push v q))"

text \<open>\<open>notified\<close> is the result of \<open>cond.timed_wait\<close>: false on time-out.\<close>

definition timedPush_wake :: "bool \<Rightarrow> 'a \<Rightarrow> 'a queue \<Rightarrow> bool qout \<times> 'a queue" where
  "timedPush_wake notified v q =
     (if \<not> notified then (Ret False, q)
      else if length (dataQueue q) \<ge> maxSize q then (Ret False, q)
      else (Ret True, q_push v q))"

text \<open>The loop of \<open>waitAndPop\<close>, entered by the call and again by each wake-up.\<close>

definition waitAndPop :: "'a queue \<Rightarrow> 'a qout \<times> 'a queue" where
  "waitAndPop q =
     (case dataQueue q of
        [] \<Rightarrow> (if suspended q then (Throw_suspended, q) else (Wait_cond, q))
      | x # xs \<Rightarrow> (Ret x, q_pop q))"

text \<open>The timed and the trying pop return false and leave \<open>value\<close> alone: \<^const>\<open>None\<close> here.\<close>

definition timedWaitAndPop :: "'a queue \<Rightarrow> 'a option qout \<times> 'a queue" where
  "timedWaitAndPop q =
     (case dataQueue q of
        [] \<Rightarrow> (if suspended q then (Throw_suspended, q) else (Wait_cond, q))
      | x # xs \<Rightarrow> (Ret (Some x), q_pop q))"

definition timedWaitAndPop_wake :: "bool \<Rightarrow> 'a queue \<Rightarrow> 'a option qout \<times> 'a queue" where
  "timedWaitAndPop_wake notified q =
     (if \<not> notified then (Ret None, q)
      else case dataQueue q of
             [] \<Rightarrow> (Ret None, q)
           | x # xs \<Rightarrow> (Ret (Some x), q_pop q))"

definition tryPop :: "'a queue \<Rightarrow> 'a option qout \<times> 'a queue" where
  "tryPop q =
     (case dataQueue q of
        [] \<Rightarrow> (if suspended q then (Throw_suspended, q) else (Ret None, q))
      | x # xs \<Rightarrow> (Ret (Some x), q_pop q))"

definition q_empty :: "'a queue \<Rightarrow> bool" where
  "q_empty q \<longleftrightarrow> dataQueue q = []"

definition suspend :: "'a queue \<Rightarrow> 'a queue" where
  "suspend q = (if suspended q then q else q\<lparr>suspended := True\<rparr>)"

definition resume :: "'a queue \<Rightarrow> 'a queue" where
  "resume q = (if \<not> suspended q then q else q\<lparr>suspended := False\<rparr>)"

section \<open>Producers and consumers\<close>

datatype 'a qthread = Q_idle | Q_pushing 'a | Q_timed_pushing 'a | Q_popping | Q_timed_popping

text \<open>\<open>accepted\<close> and \<open>delivered\<close> are the history: what pushes stored and what pops returned.\<close>

record 'a qsys =
  que :: "'a queue"
  qthr :: "'a qthread list"
  accepted :: "'a list"
  delivered :: "'a list"

datatype 'a q_event =
    Push nat 'a
  | Timed_push nat 'a
  | Pop nat
  | Timed_pop nat
  | Try_pop nat
  | Suspend
  | Resume
  | Qwake nat bool

text \<open>Record the result of a push, or of a pop, of thread \<open>i\<close>.\<close>

definition after_push :: "'a qsys \<Rightarrow> nat \<Rightarrow> 'a \<Rightarrow> 'a qthread \<Rightarrow> ('r \<Rightarrow> bool) \<Rightarrow> 'r qout \<times> 'a queue \<Rightarrow> 'a qsys" where
  "after_push s i v waiting stored r =
     s\<lparr>que := snd r,
       qthr := (qthr s)[i := (if fst r = Wait_cond then waiting else Q_idle)],
       accepted := accepted s @ (case fst r of Ret b \<Rightarrow> if stored b then [v] else [] | _ \<Rightarrow> [])\<rparr>"

definition after_pop :: "'a qsys \<Rightarrow> nat \<Rightarrow> 'a qthread \<Rightarrow> ('r \<Rightarrow> 'a list) \<Rightarrow> 'r qout \<times> 'a queue \<Rightarrow> 'a qsys" where
  "after_pop s i waiting got r =
     s\<lparr>que := snd r,
       qthr := (qthr s)[i := (if fst r = Wait_cond then waiting else Q_idle)],
       delivered := delivered s @ (case fst r of Ret x \<Rightarrow> got x | _ \<Rightarrow> [])\<rparr>"

fun opt_list :: "'a option \<Rightarrow> 'a list" where
  "opt_list None = []"
| "opt_list (Some x) = [x]"

definition q_wake :: "'a qsys \<Rightarrow> nat \<Rightarrow> bool \<Rightarrow> 'a qsys option" where
  "q_wake s i notified =
     (case qthr s ! i of
        Q_idle \<Rightarrow> None
      | Q_pushing v \<Rightarrow> Some (after_push s i v (Q_pushing v) (\<lambda>_. True) (push_loop v (que s)))
      | Q_timed_pushing v \<Rightarrow>
          Some (after_push s i v (Q_timed_pushing v) (\<lambda>b. b) (timedPush_wake notified v (que s)))
      | Q_popping \<Rightarrow> Some (after_pop s i Q_popping (\<lambda>x. [x]) (waitAndPop (que s)))
      | Q_timed_popping \<Rightarrow>
          Some (after_pop s i Q_timed_popping opt_list (timedWaitAndPop_wake notified (que s))))"

definition q_idle :: "'a qsys \<Rightarrow> nat \<Rightarrow> bool" where
  "q_idle s i \<longleftrightarrow> i < length (qthr s) \<and> (case qthr s ! i of Q_idle \<Rightarrow> True | _ \<Rightarrow> False)"

fun q_exec :: "'a q_event \<Rightarrow> 'a qsys \<Rightarrow> 'a qsys option" where
  "q_exec (Push i v) s =
     (if q_idle s i then Some (after_push s i v (Q_pushing v) (\<lambda>_. True) (push v (que s))) else None)"
| "q_exec (Timed_push i v) s =
     (if q_idle s i then Some (after_push s i v (Q_timed_pushing v) (\<lambda>b. b) (timedPush v (que s))) else None)"
| "q_exec (Pop i) s =
     (if q_idle s i then Some (after_pop s i Q_popping (\<lambda>x. [x]) (waitAndPop (que s))) else None)"
| "q_exec (Timed_pop i) s =
     (if q_idle s i then Some (after_pop s i Q_timed_popping opt_list (timedWaitAndPop (que s))) else None)"
| "q_exec (Try_pop i) s =
     (if q_idle s i then Some (after_pop s i Q_idle opt_list (tryPop (que s))) else None)"
| "q_exec Suspend s = Some (s\<lparr>que := suspend (que s)\<rparr>)"
| "q_exec Resume s = Some (s\<lparr>que := resume (que s)\<rparr>)"
| "q_exec (Qwake i notified) s = (if i < length (qthr s) then q_wake s i notified else None)"

inductive q_step :: "'a qsys \<Rightarrow> 'a qsys \<Rightarrow> bool" where
  q_step_exec: "q_exec e s = Some t \<Longrightarrow> q_step s t"

inductive_cases q_stepE: "q_step s t"

definition q_threads :: "nat \<Rightarrow> nat \<Rightarrow> 'a qsys" where
  "q_threads n m = \<lparr>que = queuemt m, qthr = replicate n Q_idle, accepted = [], delivered = []\<rparr>"

definition q_start :: "nat \<Rightarrow> 'a qsys \<Rightarrow> bool" where
  "q_start m s \<longleftrightarrow> (\<exists>n. s = q_threads n m)"

fun q_run :: "'a q_event list \<Rightarrow> 'a qsys \<Rightarrow> 'a qsys option" where
  "q_run [] s = Some s"
| "q_run (e # es) s = (case q_exec e s of None \<Rightarrow> None | Some t \<Rightarrow> q_run es t)"

lemma q_run_steps: "steps q_step s t \<Longrightarrow> q_run es t = Some u \<Longrightarrow> steps q_step s u"
proof (induction es arbitrary: t)
  case (Cons e es)
  then obtain v where v: "q_exec e t = Some v" "q_run es v = Some u"
    by (auto split: option.splits)
  show ?case by (rule Cons.IH [OF steps_step [OF Cons.prems(1) q_step_exec [OF v(1)]] v(2)])
qed simp

section \<open>The invariant\<close>

text \<open>
  Everything accepted has been delivered, in the same order, or is still queued; and a
  bounded queue never holds more than its bound. On an unbounded queue \<open>timedPush\<close> never
  waits.
\<close>

fun not_timed :: "'a qthread \<Rightarrow> bool" where
  "not_timed (Q_timed_pushing v) = False"
| "not_timed _ = True"

definition q_inv :: "nat \<Rightarrow> 'a qsys \<Rightarrow> bool" where
  "q_inv m s \<longleftrightarrow>
     accepted s = delivered s @ dataQueue (que s)
     \<and> maxSize (que s) = m
     \<and> (m > 0 \<longrightarrow> length (dataQueue (que s)) \<le> m)
     \<and> (m = 0 \<longrightarrow> (\<forall>x \<in> set (qthr s). not_timed x))"

lemmas q_push_defs = push_def push_loop_def timedPush_def timedPush_wake_def
lemmas q_pop_defs = waitAndPop_def timedWaitAndPop_def timedWaitAndPop_wake_def tryPop_def

lemma all_upd: "\<forall>x \<in> set xs. P x \<Longrightarrow> P y \<Longrightarrow> \<forall>x \<in> set (xs[i := y]). P x"
  using set_update_subset_insert [of xs i y] by blast

lemma not_timed_upd:
  "q_inv m s \<Longrightarrow> m = 0 \<Longrightarrow> not_timed w \<Longrightarrow> \<forall>x \<in> set ((qthr s)[i := w]). not_timed x"
  by (rule all_upd) (simp_all add: q_inv_def)

lemma q_inv_after_push:
  assumes "q_inv m s"
  shows "(m = 0 \<Longrightarrow> not_timed w) \<Longrightarrow> q_inv m (after_push s i v w st (Wait_cond, que s))"
    and "q_inv m (after_push s i v w st (Throw_suspended, que s))"
    and "\<not> st b \<Longrightarrow> q_inv m (after_push s i v w st (Ret b, que s))"
    and "st b \<Longrightarrow> m = 0 \<or> length (dataQueue (que s)) < m \<Longrightarrow>
      q_inv m (after_push s i v w st (Ret b, q_push v (que s)))"
proof -
  note T = not_timed_upd [OF assms] and T' = not_timed_upd [OF assms _ not_timed.simps(2) [THEN iffD2, OF TrueI]]
  show "q_inv m (after_push s i v w st (Wait_cond, que s))" if "m = 0 \<Longrightarrow> not_timed w"
    using assms T [OF _ that] unfolding q_inv_def after_push_def by simp
  show "q_inv m (after_push s i v w st (Throw_suspended, que s))"
    using assms T' unfolding q_inv_def after_push_def by simp
  show "q_inv m (after_push s i v w st (Ret b, que s))" if "\<not> st b"
    using assms T' that unfolding q_inv_def after_push_def by simp
  show "q_inv m (after_push s i v w st (Ret b, q_push v (que s)))"
    if "st b" "m = 0 \<or> length (dataQueue (que s)) < m"
    using assms T' that unfolding q_inv_def after_push_def q_push_def by auto
qed

lemma q_inv_after_pop:
  assumes "q_inv m s"
  shows "not_timed w \<Longrightarrow> q_inv m (after_pop s i w got (Wait_cond, que s))"
    and "q_inv m (after_pop s i w got (Throw_suspended, que s))"
    and "got b = [] \<Longrightarrow> q_inv m (after_pop s i w got (Ret b, que s))"
    and "got b = [x] \<Longrightarrow> dataQueue (que s) = x # xs \<Longrightarrow>
      q_inv m (after_pop s i w got (Ret b, q_pop (que s)))"
proof -
  note T = not_timed_upd [OF assms] and T' = not_timed_upd [OF assms _ not_timed.simps(2) [THEN iffD2, OF TrueI]]
  show "q_inv m (after_pop s i w got (Wait_cond, que s))" if "not_timed w"
    using assms T [OF _ that] unfolding q_inv_def after_pop_def by simp
  show "q_inv m (after_pop s i w got (Throw_suspended, que s))"
    using assms T' unfolding q_inv_def after_pop_def by simp
  show "q_inv m (after_pop s i w got (Ret b, que s))" if "got b = []"
    using assms T' that unfolding q_inv_def after_pop_def by simp
  show "q_inv m (after_pop s i w got (Ret b, q_pop (que s)))"
    if "got b = [x]" "dataQueue (que s) = x # xs"
    using assms T' that unfolding q_inv_def after_pop_def q_pop_def by auto
qed

lemma q_inv_room: "q_inv m s \<Longrightarrow> \<not> q_full (que s) \<Longrightarrow> m = 0 \<or> length (dataQueue (que s)) < m"
  by (auto simp: q_inv_def q_full_def)

lemma q_inv_unbounded: "q_inv 0 s \<Longrightarrow> \<not> q_full (que s)"
  by (auto simp: q_inv_def q_full_def)

lemma q_inv_push:
  assumes "q_inv m s"
  shows "q_inv m (after_push s i v (Q_pushing v) (\<lambda>_. True) (push v (que s)))"
    and "q_inv m (after_push s i v (Q_pushing v) (\<lambda>_. True) (push_loop v (que s)))"
    and "q_inv m (after_push s i v (Q_timed_pushing v) (\<lambda>b. b) (timedPush v (que s)))"
    and "m > 0 \<Longrightarrow> q_inv m (after_push s i v (Q_timed_pushing v) (\<lambda>b. b) (timedPush_wake n v (que s)))"
  using q_inv_room [OF assms] q_inv_unbounded [of s] assms
  by (auto simp: push_def push_loop_def timedPush_def timedPush_wake_def intro!: q_inv_after_push)
    (auto simp: q_inv_def)

lemma q_inv_pop:
  assumes "q_inv m s"
  shows "q_inv m (after_pop s i Q_popping (\<lambda>x. [x]) (waitAndPop (que s)))"
    and "q_inv m (after_pop s i Q_timed_popping opt_list (timedWaitAndPop (que s)))"
    and "q_inv m (after_pop s i Q_timed_popping opt_list (timedWaitAndPop_wake n (que s)))"
    and "q_inv m (after_pop s i Q_idle opt_list (tryPop (que s)))"
  using assms by (auto simp: q_pop_defs intro!: q_inv_after_pop split: list.split)

lemma q_inv_wake: "q_inv m s \<Longrightarrow> i < length (qthr s) \<Longrightarrow> q_wake s i b = Some t \<Longrightarrow> q_inv m t"
proof (cases "qthr s ! i")
  case (Q_timed_pushing v)
  assume inv: "q_inv m s" and i: "i < length (qthr s)" and t: "q_wake s i b = Some t"
  have "m > 0" using inv i Q_timed_pushing nth_mem [OF i] by (fastforce simp: q_inv_def)
  with inv t Q_timed_pushing show ?thesis by (auto simp: q_wake_def q_inv_push)
qed (auto simp: q_wake_def q_inv_push q_inv_pop)

lemma q_inv_exec: "q_inv m s \<Longrightarrow> q_exec e s = Some t \<Longrightarrow> q_inv m t"
  by (cases e) (auto simp: q_inv_push q_inv_pop split: if_splits intro: q_inv_wake,
      auto simp: q_inv_def suspend_def resume_def)

interpretation que: invariant_system "q_start m" q_step "q_inv m" for m
proof unfold_locales
  show "q_inv m s" if "q_start m s" for s :: "'a qsys"
    using that by (auto simp: q_start_def q_threads_def q_inv_def queuemt_def)
  show "q_inv m t" if "q_inv m s" "q_step s t" for s t :: "'a qsys"
    using that(2) q_inv_exec [OF that(1)] by (auto elim: q_stepE)
qed

section \<open>Suspension\<close>

text \<open>
  While the queue is suspended and no producer is inside a push, nothing more is accepted,
  and no consumer waits.
\<close>

fun is_pushing :: "'a qthread \<Rightarrow> bool" where
  "is_pushing (Q_pushing v) = True"
| "is_pushing (Q_timed_pushing v) = True"
| "is_pushing _ = False"

lemma not_pushing_nth: "\<forall>x \<in> set ts. \<not> is_pushing x \<Longrightarrow> i < length ts \<Longrightarrow> \<not> is_pushing (ts ! i)"
  by auto

definition quiet :: "'a list \<Rightarrow> 'a qsys \<Rightarrow> bool" where
  "quiet acc s \<longleftrightarrow> suspended (que s) \<and> (\<forall>x \<in> set (qthr s). \<not> is_pushing x) \<and> accepted s = acc"

lemma suspended_pops:
  assumes "suspended q"
  shows "fst (waitAndPop q) \<noteq> Wait_cond" "fst (timedWaitAndPop q) \<noteq> Wait_cond"
    "fst (timedWaitAndPop_wake n q) \<noteq> Wait_cond" "fst (tryPop q) \<noteq> Wait_cond"
    "suspended (snd (waitAndPop q))" "suspended (snd (timedWaitAndPop q))"
    "suspended (snd (timedWaitAndPop_wake n q))" "suspended (snd (tryPop q))"
  using assms by (auto simp: q_pop_defs q_pop_def split: list.split)

lemma quiet_pop:
  "quiet acc s \<Longrightarrow> suspended (snd r) \<Longrightarrow> fst r \<noteq> Wait_cond \<Longrightarrow> quiet acc (after_pop s i w got r)"
  by (auto simp: quiet_def after_pop_def dest: all_upd [where P = "\<lambda>x. \<not> is_pushing x" and y = Q_idle and i = i])

lemma quiet_throw: "quiet acc s \<Longrightarrow> quiet acc (after_push s i v w st (Throw_suspended, que s))"
  by (auto simp: quiet_def after_push_def dest: all_upd [where P = "\<lambda>x. \<not> is_pushing x" and y = Q_idle and i = i])

lemma quiet_wake:
  assumes "quiet acc s" "i < length (qthr s)" "q_wake s i b = Some t"
  shows "quiet acc t"
proof -
  have "\<not> is_pushing (qthr s ! i)" and susp: "suspended (que s)"
    using assms(1,2) by (auto simp: quiet_def)
  with assms susp show ?thesis
    by (cases "qthr s ! i") (auto simp: q_wake_def suspended_pops intro!: quiet_pop)
qed

lemma quiet_exec:
  assumes "quiet acc s" "q_exec e s = Some t" "e \<noteq> Resume"
  shows "quiet acc t"
proof -
  have susp: "suspended (que s)" using assms(1) by (simp add: quiet_def)
  show ?thesis
  proof (cases e)
    case (Qwake i b)
    with assms quiet_wake show ?thesis by (auto split: if_splits)
  next
    case Suspend
    with assms susp show ?thesis by (auto simp: suspend_def quiet_def)
  qed (use assms susp in
      \<open>auto simp: push_def timedPush_def suspended_pops intro!: quiet_pop quiet_throw split: if_splits\<close>)
qed

section \<open>Properties\<close>

lemma q_steps_run: "q_run es (q_threads n m) = Some s \<Longrightarrow> steps q_step (q_threads n m) s"
  by (rule q_run_steps [OF steps_refl])

text \<open>
  C32: First in, first out, and bounded. However many producers and consumers interleave on a
  queue, and however they are suspended and resumed, the values the pops returned are the
  accepted ones in the order of acceptance, none lost and none twice, the rest is still
  queued; and a queue with a bound never holds more than that.
\<close>

theorem queue_fifo_bounded:
  assumes "steps q_step (q_threads n m) s"
  shows "accepted s = delivered s @ dataQueue (que s)
    \<and> (m > 0 \<longrightarrow> length (dataQueue (que s)) \<le> m)"
proof -
  have "q_inv m (q_threads n m)" by (rule que.inv_start) (auto simp: q_start_def)
  with assms have "q_inv m s" by (rule que.inv_steps)
  then show ?thesis by (simp add: q_inv_def)
qed

theorem queue_fifo_bounded_witness:
  "\<exists>s. q_run [Push 0 (7::nat), Push 0 8, Pop 1, Qwake 0 True] (q_threads 2 1) = Some s
    \<and> accepted s = [7, 8] \<and> accepted s = delivered s @ dataQueue (que s)"
proof -
  obtain s where s: "q_run [Push 0 (7::nat), Push 0 8, Pop 1, Qwake 0 True] (q_threads 2 1) = Some s"
    "accepted s = [7, 8]"
    by (simp add: q_threads_def queuemt_def q_idle_def q_wake_def after_push_def after_pop_def
        q_push_defs q_pop_defs q_push_def q_pop_def q_full_def numeral_2_eq_2)
  with queue_fifo_bounded [OF q_steps_run [OF s(1)]] show ?thesis by auto
qed

text \<open>
  Once the queue is suspended and no producer is waiting inside a push, then until it is
  resumed nothing more is accepted and no operation waits: pops drain what is queued and
  then throw \<open>QueueSuspended\<close>, pushes throw. (A producer that was waiting for room when the
  queue was suspended is not stopped: \<open>push\<close> tests \<open>suspended\<close> only on entry.)
\<close>

theorem suspended_queue_drains:
  assumes "quiet acc s" "q_exec e s = Some t" "e \<noteq> Resume"
  shows "quiet acc t"
  using assms by (rule quiet_exec)

theorem suspended_queue_drains_witness:
  "quiet [] ((q_threads 1 0 :: nat qsys)\<lparr>que := suspend (queuemt 0)\<rparr>)
    \<and> (\<exists>t. q_exec (Push 0 (3::nat)) ((q_threads 1 0)\<lparr>que := suspend (queuemt 0)\<rparr>) = Some t \<and> quiet [] t)"
proof -
  let ?s = "(q_threads 1 0 :: nat qsys)\<lparr>que := suspend (queuemt 0)\<rparr>"
  have q: "quiet [] ?s" by (simp add: quiet_def q_threads_def suspend_def queuemt_def)
  obtain t where t: "q_exec (Push 0 3) ?s = Some t"
    by (simp add: q_threads_def q_idle_def)
  with suspended_queue_drains [OF q t] q show ?thesis by auto
qed

end
