(* ===== verification/PgParser.thy ===== *)
theory PgParser
  imports StringUtil
begin

text \<open>
  The reader of the database setup: \<open>miutil::pgpool\<close>'s \<open>TokenReader\<close>, \<open>Keys\<close> and
  \<open>parseKeysInSections\<close> (\<open>src/src/pgconpool/parser.cc\<close>) and \<open>parseDbSetup\<close>
  (\<open>src/src/pgconpool/dbSetup.cc\<close>). The reader's position \<open>next\<close> is represented by the rest
  of the buffer from there on.
\<close>

section \<open>TokenReader\<close>

record token_reader =
  rest :: string
  lineCount :: int

abbreviation TAB :: char where "TAB \<equiv> CHR 0x09"
abbreviation comment_char :: char where "comment_char \<equiv> CHR 0x23"

definition token_reader_init :: "string \<Rightarrow> token_reader" where
  "token_reader_init b = \<lparr>rest = b, lineCount = 0\<rparr>"

definition skip :: "string \<Rightarrow> token_reader \<Rightarrow> token_reader" where
  "skip skipset r = r\<lparr>rest := dropWhile (\<lambda>c. c \<in> set skipset) (rest r)\<rparr>"

definition skipComment :: "token_reader \<Rightarrow> token_reader" where
  "skipComment r =
     (if rest r \<noteq> [] \<and> hd (rest r) = comment_char
      then r\<lparr>rest := dropWhile (\<lambda>c. c \<noteq> LF) (rest r)\<rparr> else r)"

text \<open>The main loop of \<open>firstOf\<close>; the flag says that it returned from inside.\<close>

fun firstOf_scan :: "string \<Rightarrow> string \<Rightarrow> int \<Rightarrow> string \<Rightarrow> string \<times> bool \<times> token_reader" where
  "firstOf_scan chSet out lc [] = (out, False, \<lparr>rest = [], lineCount = lc\<rparr>)"
| "firstOf_scan chSet out lc (c # cs) =
     (if c = comment_char then (out, False, \<lparr>rest = c # cs, lineCount = lc\<rparr>)
      else let lc' = (if c = LF then lc + 1 else lc)
           in if c = LF \<and> LF \<in> set chSet then (out, True, \<lparr>rest = c # cs, lineCount = lc'\<rparr>)
              else if c \<in> set chSet then (out, True, \<lparr>rest = c # cs, lineCount = lc'\<rparr>)
              else firstOf_scan chSet (out @ [c]) lc' cs)"

text \<open>Result: whether the position is not \<open>npos\<close>, \<open>out\<close>, \<open>lastWasComment\<close>, the reader.\<close>

definition firstOf :: "string \<Rightarrow> token_reader \<Rightarrow> bool \<times> string \<times> bool \<times> token_reader" where
  "firstOf chSet r =
     (if rest r = [] then (False, [], False, r)
      else let blanks = takeWhile (\<lambda>c. c = CHR '' '' \<or> c = TAB) (rest r)
           in if blanks \<noteq> [] \<and> (CHR '' '' \<in> set chSet \<or> TAB \<in> set chSet) then (True, [], False, r)
              else let (out, returned, r1) =
                         firstOf_scan chSet blanks (lineCount r) (drop (length blanks) (rest r))
                   in if returned then (True, out, False, r1)
                      else let isComment = (rest r1 \<noteq> [] \<and> hd (rest r1) = comment_char);
                               r2 = (if isComment then skipComment r1 else r1)
                           in (rest r2 \<noteq> [], out, isComment \<and> LF \<notin> set chSet, r2))"

text \<open>The file-local \<open>replace\<close> and \<open>trimstr\<close>, the loops of their \<open>miutil\<close> namesakes.\<close>

definition pg_replace :: "string \<Rightarrow> string \<Rightarrow> string \<Rightarrow> string option" where
  "pg_replace str what w = replace_loop 0 0 what w str (find_sub_from what str 0)"

definition pg_trimstr :: "string \<Rightarrow> string" where
  "pg_trimstr s = trimstr_gen TRIMBOTH [CHR '' '', TAB, CHR 0x0D, LF] s"

definition clean_token :: "string \<Rightarrow> string" where
  "clean_token val = pg_trimstr (the (pg_replace val [LF] []))"

text \<open>Result: the return value, \<open>val\<close>, \<open>token\<close> (when true), \<open>lastWasComment\<close>, the reader.\<close>

definition getToken :: "string \<Rightarrow> token_reader \<Rightarrow> bool \<times> string \<times> char \<times> bool \<times> token_reader" where
  "getToken chFirstof r =
     (let (found, val, lastWasComment, r1) = firstOf chFirstof r
      in if found
         then (True, clean_token val, hd (rest r1), lastWasComment, r1\<lparr>rest := tl (rest r1)\<rparr>)
         else (False, clean_token val, CHR 0x00, lastWasComment, r1))"

section \<open>Keys\<close>

type_synonym pg_keys = "(string, string) omap"
type_synonym sections = "(string, pg_keys) omap"

definition addKey :: "string \<Rightarrow> string \<Rightarrow> pg_keys \<Rightarrow> pg_keys" where
  "addKey k v ks = om_put k v ks"

text \<open>\<open>key\<close> returns false for a missing key and for an empty value: \<^const>\<open>None\<close>.\<close>

definition key_string :: "pg_keys \<Rightarrow> string \<Rightarrow> string option" where
  "key_string ks k =
     (case map_of ks k of None \<Rightarrow> None | Some v \<Rightarrow> if v = [] then None else Some v)"

definition key_error :: "string \<Rightarrow> string \<Rightarrow> string \<Rightarrow> exn" where
  "key_error ty k v =
     Logic_error (''Conversion error ('' @ ty @ ''): key: '' @ quote k @ '' value: '' @ quote v @ ''.'')"

text \<open>The two floating-point versions; \<open>conv\<close> is \<open>sscanf\<close> with \<open>%f\<close> or \<open>%lf\<close>.\<close>

definition key_float :: "(string \<Rightarrow> 'f option) \<Rightarrow> pg_keys \<Rightarrow> string \<Rightarrow> 'f option result" where
  "key_float conv ks k =
     (case key_string ks k of
        None \<Rightarrow> Inr None
      | Some v \<Rightarrow> (case conv (c_str v) of None \<Rightarrow> Inl (key_error ''float'' k v) | Some f \<Rightarrow> Inr (Some f)))"

definition key_double :: "(string \<Rightarrow> 'f option) \<Rightarrow> pg_keys \<Rightarrow> string \<Rightarrow> 'f option result" where
  "key_double conv ks k =
     (case key_string ks k of
        None \<Rightarrow> Inr None
      | Some v \<Rightarrow> (case conv (c_str v) of None \<Rightarrow> Inl (key_error ''double'' k v) | Some f \<Rightarrow> Inr (Some f)))"

definition key_int :: "pg_keys \<Rightarrow> string \<Rightarrow> int option result" where
  "key_int ks k =
     (case key_string ks k of
        None \<Rightarrow> Inr None
      | Some v \<Rightarrow>
          (case sscanf_d (c_str v) of
             No_match \<Rightarrow> Inl (key_error ''int'' k v)
           | Scanned n \<Rightarrow> Inr (Some n)
           | Scan_overflow \<Rightarrow> Inl Undefined_behaviour))"

definition getKeys :: "pg_keys \<Rightarrow> string list" where
  "getKeys ks = map fst ks"

section \<open>parseKeysInSections\<close>

datatype pg_state = SECTION_ID | KEY | VALUE | KEY_OR_SECTION_ID | COMMENT | END

fun states_string :: "pg_state \<Rightarrow> string" where
  "states_string SECTION_ID = ''SECTION_ID''"
| "states_string KEY = ''KEY''"
| "states_string VALUE = ''VALUE''"
| "states_string KEY_OR_SECTION_ID = ''KEY_OR_SECTION_ID''"
| "states_string COMMENT = ''COMMENT''"
| "states_string END = ''END''"

record parser_state =
  pstate :: pg_state
  sStart :: bool
  currentSectionId :: string
  currentKey :: string
  nextTokens :: string
  psections :: sections

definition parser_init :: "sections \<Rightarrow> parser_state" where
  "parser_init secs =
     \<lparr>pstate = SECTION_ID, sStart = False, currentSectionId = [], currentKey = [],
      nextTokens = '':'', psections = secs\<rparr>"

abbreviation value_tokens :: string where
  "value_tokens \<equiv> [dquote, CHR '' '', TAB, LF]"

definition add_current :: "parser_state \<Rightarrow> string \<Rightarrow> sections" where
  "add_current p buf =
     om_put (currentSectionId p)
       (addKey (currentKey p) buf
          (case map_of (psections p) (currentSectionId p) of None \<Rightarrow> [] | Some ks \<Rightarrow> ks))
       (psections p)"

definition line_error :: "int \<Rightarrow> string \<Rightarrow> char \<Rightarrow> string" where
  "line_error line msg token = ''line: '' @ dec_int line @ msg @ [token, LF]"

text \<open>Resolving \<open>KEY_OR_SECTION_ID\<close> by the token just read.\<close>

definition resolve_state :: "parser_state \<Rightarrow> char \<Rightarrow> parser_state" where
  "resolve_state p token =
     (if pstate p = KEY_OR_SECTION_ID
      then if token = CHR '':'' then p\<lparr>pstate := SECTION_ID, currentSectionId := []\<rparr>
           else if token = CHR ''='' then p\<lparr>pstate := KEY, currentKey := []\<rparr>
           else p\<lparr>pstate := END\<rparr>
      else p)"

text \<open>
  The body of the loop after that: \<open>Inl\<close> is \<open>return false\<close> with the text written to
  \<open>errors\<close>.
\<close>

definition parse_step ::
  "parser_state \<Rightarrow> token_reader \<Rightarrow> string \<Rightarrow> char \<Rightarrow> string + parser_state \<times> token_reader"
where
  "parse_step p r buf token =
     (case pstate p of
        SECTION_ID \<Rightarrow>
          if token \<noteq> CHR '':''
          then Inl (line_error (lineCount r) ('' expecting id delimiter '' @ quote '':'' @ '', got '') token)
          else Inr (p\<lparr>currentSectionId := buf, nextTokens := '':='', pstate := KEY_OR_SECTION_ID\<rparr>, r)
      | KEY \<Rightarrow>
          if token \<noteq> CHR ''=''
          then Inl (line_error (lineCount r) ('' expecting key/val delimiter '' @ quote ''='' @ '', got '') token)
          else Inr (p\<lparr>currentKey := buf, nextTokens := value_tokens, pstate := VALUE\<rparr>,
                    skip [CHR '' '', TAB] r)
      | VALUE \<Rightarrow>
          if token \<in> {CHR '' '', TAB, LF} \<and> sStart p then Inr (p, r)
          else if token = dquote \<and> \<not> sStart p
          then Inr (p\<lparr>nextTokens := [dquote], sStart := True\<rparr>, r)
          else if token \<in> {CHR '' '', TAB, LF, dquote}
          then Inr (p\<lparr>sStart := False, psections := add_current p buf, pstate := KEY_OR_SECTION_ID,
                      currentKey := [], nextTokens := '':=''\<rparr>, r)
          else Inl (line_error (lineCount r)
                     ('' expecting '' @ quote (nextTokens p) @ '' , got '') token)
      | _ \<Rightarrow> Inr (p, r))"

definition parse_end :: "parser_state \<Rightarrow> token_reader \<Rightarrow> string \<Rightarrow> bool \<times> sections \<times> string" where
  "parse_end p r buf =
     (if buf \<noteq> []
      then if currentKey p \<noteq> [] then (True, add_current p buf, [])
           else (False, psections p,
                 ''line: '' @ dec_int (lineCount r) @ '' state: '' @ states_string (pstate p) @ [LF]
                 @ ''   expecting token(s) ['' @ nextTokens p @ '']'' @ [LF])
      else (True, psections p, []))"

lemma rest_firstOf_scan:
  "firstOf_scan chSet out lc s = (out', b, r') \<Longrightarrow> length (rest r') \<le> length s \<and> (b \<longrightarrow> rest r' \<noteq> [])"
  by (induction chSet out lc s rule: firstOf_scan.induct) (auto simp: Let_def split: if_splits)

lemma rest_firstOf:
  "firstOf chSet r = (found, out, cm, r') \<Longrightarrow>
   length (rest r') \<le> length (rest r) \<and> (found \<longrightarrow> rest r' \<noteq> [])"
proof -
  assume f: "firstOf chSet r = (found, out, cm, r')"
  let ?bl = "takeWhile (\<lambda>c. c = CHR '' '' \<or> c = TAB) (rest r)"
  obtain o1 b1 r1 where s: "firstOf_scan chSet ?bl (lineCount r) (drop (length ?bl) (rest r)) = (o1, b1, r1)"
    by (cases "firstOf_scan chSet ?bl (lineCount r) (drop (length ?bl) (rest r))")
  note R = rest_firstOf_scan [OF s]
  have "length (rest (skipComment r1)) \<le> length (rest r1)"
    by (simp add: skipComment_def length_dropWhile_le)
  with f s R show ?thesis
    by (auto simp: firstOf_def Let_def split: if_splits)
qed

lemma rest_getToken:
  "getToken ch r = (True, val, tok, cm, r') \<Longrightarrow> length (rest r') < length (rest r)"
proof -
  assume g: "getToken ch r = (True, val, tok, cm, r')"
  obtain found out c r1 where f: "firstOf ch r = (found, out, c, r1)" by (cases "firstOf ch r")
  with g have "found" "rest r' = tl (rest r1)" by (auto simp: getToken_def split: if_splits)
  with rest_firstOf [OF f] show ?thesis by (cases "rest r1") auto
qed

lemma rest_parse_step: "parse_step p r buf token = Inr (p', r') \<Longrightarrow> length (rest r') \<le> length (rest r)"
  by (auto simp: parse_step_def skip_def length_dropWhile_le split: pg_state.splits if_splits)

function parse_loop :: "parser_state \<Rightarrow> token_reader \<Rightarrow> bool \<times> sections \<times> string" where
  "parse_loop p r =
     (case getToken (nextTokens p) r of
        (found, buf, token, cm, r1) \<Rightarrow>
          if \<not> found then parse_end p r1 buf
          else if cm then parse_loop p r1
          else (case parse_step (resolve_state p token) r1 buf token of
                  Inl e \<Rightarrow> (False, psections p, e)
                | Inr (p', r2) \<Rightarrow> parse_loop p' r2))"
  by pat_completeness auto
termination
  by (relation "measure (\<lambda>(p, r). length (rest r))")
    (auto dest!: rest_parse_step dest: rest_getToken order.strict_trans1 dest!: sym [of "(True, _)"])

declare parse_loop.simps [simp del]

definition parseKeysInSections :: "string \<Rightarrow> sections \<Rightarrow> bool \<times> sections \<times> string" where
  "parseKeysInSections s secs = parse_loop (parser_init secs) (token_reader_init s)"

section \<open>parseDbSetup\<close>

record dbdef =
  host :: string
  port :: int
  dbname :: string
  user :: string
  password :: string
  wciuser :: string
  minpoolsize :: int
  maxpoolsize :: int
  maxusecount :: int
  defaultDbDef :: bool

definition dbdef_init :: dbdef where
  "dbdef_init =
     \<lparr>host = ''localhost'', port = 0, dbname = [], user = [], password = [], wciuser = [],
      minpoolsize = 0, maxpoolsize = 0, maxusecount = -1, defaultDbDef = False\<rparr>"

definition validParam :: "string list" where
  "validParam = [''default'', ''host'', ''port'', ''user'', ''dbname'', ''password'', ''wciuser'',
                 ''usecount'', ''poolsize'', ''minpoolsize'', ''maxpoolsize'']"

fun check_keys :: "string list \<Rightarrow> unit result" where
  "check_keys [] = Inr ()"
| "check_keys (k # ks) =
     (if k \<in> set validParam then check_keys ks else Inl (Logic_error (''Unknown key: '' @ k @ ''.'')))"

definition check_sections :: "sections \<Rightarrow> unit result" where
  "check_sections secs = check_keys (concat (map (\<lambda>(s, ks). getKeys ks) secs))"

definition set_string :: "pg_keys \<Rightarrow> string \<Rightarrow> (string \<Rightarrow> dbdef \<Rightarrow> dbdef) \<Rightarrow> dbdef \<Rightarrow> dbdef" where
  "set_string ks k upd d = (case key_string ks k of None \<Rightarrow> d | Some v \<Rightarrow> upd v d)"

definition set_int :: "pg_keys \<Rightarrow> string \<Rightarrow> (int \<Rightarrow> 'd \<Rightarrow> 'd) \<Rightarrow> 'd \<Rightarrow> 'd result" where
  "set_int ks k upd d =
     bind_result (key_int ks k) (\<lambda>r. case r of None \<Rightarrow> Inr d | Some v \<Rightarrow> Inr (upd v d))"

text \<open>The \<open>default\<close> key: the definition and the id of the default seen so far.\<close>

definition set_default :: "pg_keys \<Rightarrow> string \<Rightarrow> string \<Rightarrow> dbdef \<Rightarrow> (dbdef \<times> string) result" where
  "set_default ks sid defaultId d =
     (case key_string ks ''default'' of
        None \<Rightarrow> Inr (d, defaultId)
      | Some v \<Rightarrow>
          if v \<noteq> [] \<and> (hd v = CHR ''t'' \<or> hd v = CHR ''T'')
          then if defaultId \<noteq> []
               then Inl (Logic_error (''Default wdb id allready set to <'' @ defaultId @ ''>!''))
               else Inr (d\<lparr>defaultDbDef := True\<rparr>, sid)
          else Inr (d, defaultId))"

text \<open>The \<open>try\<close> block for one section, in the order of the source.\<close>

definition section_def :: "pg_keys \<Rightarrow> string \<Rightarrow> string \<Rightarrow> (dbdef \<times> string) result" where
  "section_def ks sid defaultId =
     (case key_string ks ''dbname'' of
        None \<Rightarrow> Inl (Logic_error ''Missing mandatory key <dbname>.'')
      | Some name \<Rightarrow>
          let d1 = set_string ks ''wciuser'' (\<lambda>v. wciuser_update (\<lambda>_. v))
                     (set_string ks ''user'' (\<lambda>v. user_update (\<lambda>_. v)) (dbdef_init\<lparr>dbname := name\<rparr>))
          in bind_result (set_int ks ''port'' (\<lambda>v. port_update (\<lambda>_. v)) d1) (\<lambda>d2.
             let d3 = set_string ks ''password'' (\<lambda>v. password_update (\<lambda>_. v))
                        (set_string ks ''host'' (\<lambda>v. host_update (\<lambda>_. v)) d2)
             in bind_result (set_int ks ''poolsize'' (\<lambda>v _. v) int_min) (\<lambda>poolsize.
                bind_result (set_int ks ''minpoolsize'' (\<lambda>v. minpoolsize_update (\<lambda>_. v)) d3) (\<lambda>d4.
                bind_result (set_int ks ''maxpoolsize'' (\<lambda>v (d, m). (d\<lparr>maxpoolsize := v\<rparr>, v)) (d4, int_min)) (\<lambda>(d5, maxp).
                bind_result (set_int ks ''usecount'' (\<lambda>v. maxusecount_update (\<lambda>_. v)) d5) (\<lambda>d6.
                bind_result (set_default ks sid defaultId d6) (\<lambda>(d7, defaultId').
                  let d8 = (if wciuser d7 = [] then d7\<lparr>wciuser := user d7\<rparr> else d7);
                      d9 = (if poolsize \<noteq> int_min \<and> maxp = int_min \<and> poolsize > -1
                            then d8\<lparr>maxpoolsize := poolsize\<rparr> else d8)
                  in Inr (d9, defaultId'))))))))"

definition invalid_value :: "exn \<Rightarrow> exn" where
  "invalid_value e =
     (case e of Logic_error w \<Rightarrow> Logic_error (''Invalid value: '' @ w @ ''.'') | _ \<Rightarrow> e)"

fun setup_sections ::
  "sections \<Rightarrow> string \<Rightarrow> (string, dbdef) omap \<Rightarrow> (string, dbdef) omap \<times> unit result"
where
  "setup_sections [] defaultId dbDefs = (dbDefs, Inr ())"
| "setup_sections ((sid, ks) # secs) defaultId dbDefs =
     (case section_def ks sid defaultId of
        Inl e \<Rightarrow> (dbDefs, Inl (invalid_value e))
      | Inr (dd, defaultId') \<Rightarrow> setup_sections secs defaultId' (om_put sid dd dbDefs))"

text \<open>\<open>dbDefs\<close> is an out parameter: what was stored before an exception stays stored.\<close>

definition parseDbSetup :: "string \<Rightarrow> (string, dbdef) omap \<times> unit result" where
  "parseDbSetup setupToParse =
     (case parseKeysInSections setupToParse [] of
        (good, secs, err) \<Rightarrow>
          if \<not> good then ([], Inl (Logic_error (''Error parsing the databasesetup: '' @ err)))
          else (case check_sections secs of
                  Inl e \<Rightarrow> ([], Inl e)
                | Inr _ \<Rightarrow> setup_sections secs [] []))"

section \<open>Reading back a rendered setup\<close>

lemma filter_absent: "x \<notin> set s \<Longrightarrow> filter (\<lambda>c. c \<noteq> x) s = s"
  by (induction s) auto

lemma pg_replace_newlines: "pg_replace s [LF] [] = Some (filter (\<lambda>c. c \<noteq> LF) s)"
proof -
  have "replace_ref [LF] [] None s = filter (\<lambda>c. c \<noteq> LF) s"
  proof (induction s rule: length_induct)
    case (1 s)
    show ?case
    proof (cases "find_sub [LF] s")
      case None
      then have "LF \<notin> set s"
      proof (induction s)
        case (Cons c s)
        then show ?case by (cases "c = LF") (auto split: if_splits)
      qed simp
      then have "filter (\<lambda>c. c \<noteq> LF) s = s" by (rule filter_absent)
      with None show ?thesis by (subst replace_ref.simps) simp
    next
      case (Some p)
      have no: "LF \<notin> set (take p s)" using Some
      proof (induction s arbitrary: p)
        case (Cons c s)
        then show ?case by (cases "c = LF") (auto split: if_splits)
      qed simp
      from find_sub_Some [OF Some] have p: "p < length s" "s ! p = LF"
        by (auto simp: take_Suc_conv_app_nth hd_drop_conv_nth take_Suc)
      then have s: "s = take p s @ LF # drop (Suc p) s" by (metis id_take_nth_drop)
      have "filter (\<lambda>c. c \<noteq> LF) (take p s @ LF # drop (Suc p) s) =
          take p s @ filter (\<lambda>c. c \<noteq> LF) (drop (Suc p) s)"
        using filter_absent [OF no] by simp
      then have "filter (\<lambda>c. c \<noteq> LF) s = take p s @ filter (\<lambda>c. c \<noteq> LF) (drop (Suc p) s)"
        using s by metis
      moreover have "replace_ref [LF] [] None s = take p s @ replace_ref [LF] [] None (drop (Suc p) s)"
        by (subst replace_ref.simps) (simp add: Some)
      moreover have "replace_ref [LF] [] None (drop (Suc p) s) = filter (\<lambda>c. c \<noteq> LF) (drop (Suc p) s)"
        using 1 p(1) by simp
      ultimately show ?thesis by simp
    qed
  qed
  then show ?thesis
    using replaceString_ref [of "[LF]" s "[]" 0] by (simp add: pg_replace_def replaceString_def)
qed

lemma clean_token_eq: "clean_token s = strip trim_set (filter (\<lambda>c. c \<noteq> LF) s)"
  by (simp add: clean_token_def pg_replace_newlines pg_trimstr_def trimstr_gen_both trim_set_def)

text \<open>A name or value that survives the reader's cleaning.\<close>

definition clean :: "string \<Rightarrow> bool" where
  "clean s \<longleftrightarrow> strip trim_set s = s \<and> LF \<notin> set s \<and> comment_char \<notin> set s"

definition name_ok :: "string \<Rightarrow> bool" where
  "name_ok s \<longleftrightarrow> clean s \<and> CHR '':'' \<notin> set s \<and> CHR ''='' \<notin> set s"

definition value_ok :: "string \<Rightarrow> bool" where
  "value_ok s \<longleftrightarrow> clean s \<and> dquote \<notin> set s"

lemma clean_token_clean: "clean s \<Longrightarrow> clean_token s = s" "clean s \<Longrightarrow> clean_token (LF # s) = s"
  by (auto simp: clean_token_eq clean_def filter_absent)

lemma firstOf_scan_skip:
  "\<forall>c \<in> set s. c \<notin> set ch \<and> c \<noteq> comment_char \<Longrightarrow> t \<in> set ch \<Longrightarrow> t \<noteq> comment_char \<Longrightarrow>
   \<exists>lc'. firstOf_scan ch out lc (s @ t # r) = (out @ s, True, \<lparr>rest = t # r, lineCount = lc'\<rparr>)"
proof (induction s arbitrary: out lc)
  case Nil
  then show ?case by (simp add: Let_def)
next
  case (Cons c s)
  have "c \<notin> set ch \<and> c \<noteq> comment_char" using Cons.prems(1) by simp
  then show ?case
    using Cons.IH [of "out @ [c]" "lc + 1"] Cons.IH [of "out @ [c]" lc] Cons.prems
    by (cases "c = LF") (auto simp: Let_def)
qed

lemma drop_takeWhile: "drop (length (takeWhile P s)) (s @ t) = dropWhile P s @ t"
  by (induction s) auto

lemma getToken_skip:
  assumes "\<forall>c \<in> set s. c \<notin> set ch \<and> c \<noteq> comment_char" "t \<in> set ch" "t \<noteq> comment_char"
    and "CHR '' '' \<notin> set ch" "TAB \<notin> set ch"
  shows "\<exists>lc'. getToken ch \<lparr>rest = s @ t # r, lineCount = lc\<rparr> =
    (True, clean_token s, t, False, \<lparr>rest = r, lineCount = lc'\<rparr>)"
proof -
  let ?P = "\<lambda>c. c = CHR '' '' \<or> c = TAB"
  have t: "\<not> ?P t" using assms by auto
  have bl: "takeWhile ?P (s @ t # r) = takeWhile ?P s"
    using t by (induction s) auto
  have dr: "drop (length (takeWhile ?P s)) (s @ t # r) = dropWhile ?P s @ t # r"
    by (rule drop_takeWhile)
  obtain lc' where "firstOf_scan ch (takeWhile ?P s) lc (dropWhile ?P s @ t # r) =
      (takeWhile ?P s @ dropWhile ?P s, True, \<lparr>rest = t # r, lineCount = lc'\<rparr>)"
    using firstOf_scan_skip [of "dropWhile ?P s" ch t] assms(1-3) set_dropWhileD by meson
  then have "firstOf ch \<lparr>rest = s @ t # r, lineCount = lc\<rparr> =
      (True, s, False, \<lparr>rest = t # r, lineCount = lc'\<rparr>)"
    using assms(4,5) by (simp add: firstOf_def bl dr Let_def del: drop_append)
  then show ?thesis by (simp add: getToken_def)
qed

lemma getToken_dquote:
  "getToken value_tokens \<lparr>rest = dquote # r, lineCount = lc\<rparr> =
     (True, [], dquote, False, \<lparr>rest = r, lineCount = lc\<rparr>)"
  by (simp add: getToken_def firstOf_def clean_token_eq)

definition store :: "string \<Rightarrow> string \<times> string \<Rightarrow> sections \<Rightarrow> sections" where
  "store sid kv secs =
     om_put sid (om_put (fst kv) (snd kv) (case map_of secs sid of None \<Rightarrow> [] | Some ks \<Rightarrow> ks)) secs"

definition between :: "string \<Rightarrow> sections \<Rightarrow> parser_state" where
  "between sid secs =
     \<lparr>pstate = KEY_OR_SECTION_ID, sStart = False, currentSectionId = sid, currentKey = [],
      nextTokens = '':='', psections = secs\<rparr>"

definition render_key :: "string \<times> string \<Rightarrow> string" where
  "render_key kv = LF # fst kv @ ''='' @ dquote # snd kv @ [dquote]"

definition render_section :: "string \<times> pg_keys \<Rightarrow> string" where
  "render_section sec = LF # fst sec @ '':'' @ concat (map render_key (snd sec))"

definition render :: "sections \<Rightarrow> string" where
  "render secs = concat (map render_section secs)"

lemma name_chars: "name_ok k \<Longrightarrow> \<forall>c \<in> set (LF # k). c \<notin> set '':='' \<and> c \<noteq> comment_char"
  by (auto simp: name_ok_def clean_def)

definition in_quotes :: "string \<Rightarrow> string \<Rightarrow> sections \<Rightarrow> parser_state" where
  "in_quotes sid k secs =
     \<lparr>pstate = VALUE, sStart = True, currentSectionId = sid, currentKey = k,
      nextTokens = [dquote], psections = secs\<rparr>"

lemma parse_key_open:
  assumes "name_ok k"
  shows "\<exists>lc'. parse_loop (between sid secs) \<lparr>rest = (LF # k) @ CHR ''='' # dquote # q, lineCount = lc\<rparr> =
    parse_loop (in_quotes sid k secs) \<lparr>rest = q, lineCount = lc'\<rparr>"
proof -
  let ?p1 = "(between sid secs)\<lparr>pstate := VALUE, currentKey := k, nextTokens := value_tokens\<rparr>"
  have "clean k" using assms by (auto simp: name_ok_def)
  obtain l1 where "getToken '':='' \<lparr>rest = (LF # k) @ CHR ''='' # dquote # q, lineCount = lc\<rparr> =
      (True, clean_token (LF # k), CHR ''='', False, \<lparr>rest = dquote # q, lineCount = l1\<rparr>)"
    using getToken_skip [OF name_chars [OF assms(1)], of "CHR ''=''" "dquote # q" lc] by auto
  then have "getToken '':='' \<lparr>rest = (LF # k) @ CHR ''='' # dquote # q, lineCount = lc\<rparr> =
      (True, k, CHR ''='', False, \<lparr>rest = dquote # q, lineCount = l1\<rparr>)"
    using \<open>clean k\<close> by (simp only: clean_token_clean)
  then have "parse_loop (between sid secs) \<lparr>rest = (LF # k) @ CHR ''='' # dquote # q, lineCount = lc\<rparr> =
      parse_loop ?p1 \<lparr>rest = dquote # q, lineCount = l1\<rparr>"
    by (subst parse_loop.simps) (simp add: between_def resolve_state_def parse_step_def skip_def)
  moreover have "parse_loop ?p1 \<lparr>rest = dquote # q, lineCount = l1\<rparr> =
      parse_loop (in_quotes sid k secs) \<lparr>rest = q, lineCount = l1\<rparr>"
    by (subst parse_loop.simps)
      (simp add: getToken_dquote between_def in_quotes_def resolve_state_def parse_step_def)
  ultimately show ?thesis by metis
qed

lemma parse_key:
  assumes "name_ok k" "value_ok v"
  shows "\<exists>lc'. parse_loop (between sid secs) \<lparr>rest = render_key (k, v) @ r, lineCount = lc\<rparr> =
    parse_loop (between sid (store sid (k, v) secs)) \<lparr>rest = r, lineCount = lc'\<rparr>"
proof -
  have "clean v" using assms by (auto simp: value_ok_def)
  have eq: "render_key (k, v) @ r = (LF # k) @ CHR ''='' # dquote # v @ dquote # r"
    by (simp add: render_key_def)
  obtain l1 where 1: "parse_loop (between sid secs) \<lparr>rest = render_key (k, v) @ r, lineCount = lc\<rparr> =
      parse_loop (in_quotes sid k secs) \<lparr>rest = v @ dquote # r, lineCount = l1\<rparr>"
    using parse_key_open [OF assms(1)] unfolding eq by blast
  obtain l2 where "getToken [dquote] \<lparr>rest = v @ dquote # r, lineCount = l1\<rparr> =
      (True, v, dquote, False, \<lparr>rest = r, lineCount = l2\<rparr>)"
    using getToken_skip [of v "[dquote]" dquote r l1] assms(2) \<open>clean v\<close> clean_token_clean
    by (auto simp: value_ok_def clean_def)
  then have "parse_loop (in_quotes sid k secs) \<lparr>rest = v @ dquote # r, lineCount = l1\<rparr> =
      parse_loop (between sid (store sid (k, v) secs)) \<lparr>rest = r, lineCount = l2\<rparr>"
    by (subst parse_loop.simps)
      (simp add: between_def in_quotes_def resolve_state_def parse_step_def add_current_def addKey_def store_def)
  with 1 show ?thesis by auto
qed

lemma parse_keys:
  "\<forall>kv \<in> set kvs. name_ok (fst kv) \<and> value_ok (snd kv) \<Longrightarrow>
   \<exists>lc'. parse_loop (between sid secs) \<lparr>rest = concat (map render_key kvs) @ r, lineCount = lc\<rparr> =
     parse_loop (between sid (fold (store sid) kvs secs)) \<lparr>rest = r, lineCount = lc'\<rparr>"
proof (induction kvs arbitrary: secs lc)
  case Nil
  then show ?case by auto
next
  case (Cons kv kvs)
  obtain k v where kv: "kv = (k, v)" by (cases kv)
  with Cons.prems have ok: "name_ok k" "value_ok v" by auto
  obtain l1 where "parse_loop (between sid secs)
      \<lparr>rest = render_key (k, v) @ concat (map render_key kvs) @ r, lineCount = lc\<rparr> =
      parse_loop (between sid (store sid (k, v) secs)) \<lparr>rest = concat (map render_key kvs) @ r, lineCount = l1\<rparr>"
    using parse_key [OF ok] by blast
  moreover obtain l2 where "parse_loop (between sid (store sid (k, v) secs))
      \<lparr>rest = concat (map render_key kvs) @ r, lineCount = l1\<rparr> =
      parse_loop (between sid (fold (store sid) kvs (store sid (k, v) secs))) \<lparr>rest = r, lineCount = l2\<rparr>"
    using Cons.IH [of "store sid (k, v) secs" l1] Cons.prems by auto
  ultimately show ?case by (auto simp: kv)
qed

lemma parse_section:
  assumes "name_ok sid" "\<forall>kv \<in> set kvs. name_ok (fst kv) \<and> value_ok (snd kv)"
    and "p = parser_init secs \<or> p = between old secs"
  shows "\<exists>lc'. parse_loop p \<lparr>rest = render_section (sid, kvs) @ r, lineCount = lc\<rparr> =
    parse_loop (between sid (fold (store sid) kvs secs)) \<lparr>rest = r, lineCount = lc'\<rparr>"
proof -
  let ?q = "concat (map render_key kvs) @ r"
  have "clean sid" using assms(1) by (simp add: name_ok_def)
  have "nextTokens p = '':'' \<or> nextTokens p = '':=''"
    using assms(3) by (auto simp: parser_init_def between_def)
  then have nt: "set (nextTokens p) \<subseteq> set '':=''" "CHR '':'' \<in> set (nextTokens p)" by auto
  have "CHR '' '' \<notin> set '':=''" "TAB \<notin> set '':=''" by simp_all
  with nt have ch: "\<forall>c \<in> set (LF # sid). c \<notin> set (nextTokens p) \<and> c \<noteq> comment_char"
      "CHR '':'' \<in> set (nextTokens p)" "CHR '' '' \<notin> set (nextTokens p)" "TAB \<notin> set (nextTokens p)"
    using name_chars [OF assms(1)] by blast+
  have eq: "render_section (sid, kvs) @ r = (LF # sid) @ CHR '':'' # ?q" by (simp add: render_section_def)
  have "CHR '':'' \<noteq> comment_char" by simp
  from getToken_skip [OF ch(1,2) this ch(3,4), of ?q lc]
  obtain l1 where "getToken (nextTokens p) \<lparr>rest = (LF # sid) @ CHR '':'' # ?q, lineCount = lc\<rparr> =
      (True, clean_token (LF # sid), CHR '':'', False, \<lparr>rest = ?q, lineCount = l1\<rparr>)" ..
  then have "getToken (nextTokens p) \<lparr>rest = render_section (sid, kvs) @ r, lineCount = lc\<rparr> =
      (True, sid, CHR '':'', False, \<lparr>rest = ?q, lineCount = l1\<rparr>)"
    by (simp only: eq clean_token_clean(2) [OF \<open>clean sid\<close>])
  then have "parse_loop p \<lparr>rest = render_section (sid, kvs) @ r, lineCount = lc\<rparr> =
      parse_loop (between sid secs) \<lparr>rest = ?q, lineCount = l1\<rparr>"
    using assms(3)
    by (subst parse_loop.simps) (auto simp: between_def parser_init_def resolve_state_def parse_step_def)
  moreover obtain l2 where "parse_loop (between sid secs) \<lparr>rest = ?q, lineCount = l1\<rparr> =
      parse_loop (between sid (fold (store sid) kvs secs)) \<lparr>rest = r, lineCount = l2\<rparr>"
    using parse_keys [OF assms(2)] by blast
  ultimately show ?thesis by auto
qed

definition store_section :: "string \<times> pg_keys \<Rightarrow> sections \<Rightarrow> sections" where
  "store_section sec secs = fold (store (fst sec)) (snd sec) secs"

definition section_ok :: "string \<times> pg_keys \<Rightarrow> bool" where
  "section_ok sec \<longleftrightarrow> name_ok (fst sec) \<and> om_wf (snd sec) \<and> snd sec \<noteq> []
     \<and> (\<forall>kv \<in> set (snd sec). name_ok (fst kv) \<and> value_ok (snd kv))"

lemma parse_sections:
  "\<forall>sec \<in> set ss. section_ok sec \<Longrightarrow> p = parser_init secs \<or> (\<exists>old. p = between old secs) \<Longrightarrow>
   parse_loop p \<lparr>rest = render ss @ [LF], lineCount = lc\<rparr> = (True, fold store_section ss secs, [])"
proof (induction ss arbitrary: p secs lc)
  case Nil
  then have "getToken (nextTokens p) \<lparr>rest = [LF], lineCount = lc\<rparr> =
      (False, [], CHR 0x00, False, \<lparr>rest = [], lineCount = lc + 1\<rparr>)"
    by (auto simp: getToken_def firstOf_def clean_token_eq parser_init_def between_def)
  with Nil show ?case
    by (subst parse_loop.simps) (auto simp: render_def parse_end_def parser_init_def between_def)
next
  case (Cons sec ss)
  obtain sid kvs where sec: "sec = (sid, kvs)" by (cases sec)
  with Cons.prems obtain l1 where "parse_loop p \<lparr>rest = render_section sec @ render ss @ [LF], lineCount = lc\<rparr> =
      parse_loop (between sid (store_section sec secs)) \<lparr>rest = render ss @ [LF], lineCount = l1\<rparr>"
    using parse_section [of sid kvs p secs] by (fastforce simp: section_ok_def store_section_def)
  moreover have "parse_loop (between sid (store_section sec secs)) \<lparr>rest = render ss @ [LF], lineCount = l1\<rparr> =
      (True, fold store_section ss (store_section sec secs), [])"
    using Cons.IH [of "between sid (store_section sec secs)" "store_section sec secs"] Cons.prems by auto
  ultimately show ?case by (simp add: render_def)
qed

lemma om_put_put: "om_wf m \<Longrightarrow> om_put k a (om_put k b m) = om_put k a m"
  by (rule om_extensional) auto

lemma fold_store:
  "om_wf secs \<Longrightarrow> kvs \<noteq> [] \<Longrightarrow>
   fold (store sid) kvs secs =
     om_put sid (omap.put_all kvs (case map_of secs sid of None \<Rightarrow> [] | Some ks \<Rightarrow> ks)) secs"
proof (induction kvs arbitrary: secs)
  case (Cons kv kvs)
  obtain k v where kv: "kv = (k, v)" by (cases kv)
  show ?case
  proof (cases "kvs = []")
    case True
    then show ?thesis by (simp add: kv store_def omap.put_all_def)
  next
    case False
    have "om_wf (store sid kv secs)" using Cons.prems(1) by (simp add: store_def om_wf_put)
    with False Cons.IH [of "store sid kv secs"] Cons.prems(1) show ?thesis
      by (simp add: kv store_def omap.put_all_def om_put_put)
  qed
qed simp

lemma fold_store_sections:
  "om_wf secs \<Longrightarrow> \<forall>sec \<in> set ss. section_ok sec \<Longrightarrow> distinct (map fst ss) \<Longrightarrow>
   \<forall>sec \<in> set ss. map_of secs (fst sec) = None \<Longrightarrow>
   fold store_section ss secs = omap.put_all ss secs"
proof (induction ss arbitrary: secs)
  case (Cons sec ss)
  obtain sid kvs where sec: "sec = (sid, kvs)" by (cases sec)
  have one: "store_section sec secs = om_put sid kvs secs"
    using Cons.prems fold_store [OF Cons.prems(1), of kvs sid] omap.put_all_entries [of kvs]
    by (simp add: store_section_def sec section_ok_def)
  have "map_of (om_put sid kvs secs) (fst x) = None" if "x \<in> set ss" for x
    using Cons.prems(3,4) that by (auto simp: sec)
  with Cons one show ?case by (simp add: sec omap.put_all_def om_wf_put)
qed (simp add: omap.put_all_def)

lemma parse_render:
  assumes "om_wf secs" "\<forall>sec \<in> set secs. section_ok sec"
  shows "parseKeysInSections (render secs @ [LF]) [] = (True, secs, [])"
proof -
  have "fold store_section secs [] = omap.put_all secs []"
    using assms omap.keys_distinct [OF assms(1)] by (intro fold_store_sections) auto
  also have "\<dots> = secs" using assms(1) by (rule omap.put_all_entries)
  finally show ?thesis
    using parse_sections [OF assms(2), of "parser_init []" "[]" 0]
    by (simp add: parseKeysInSections_def token_reader_init_def)
qed

section \<open>A comment character inside quotes\<close>

lemma firstOf_scan_comment:
  "\<forall>c \<in> set s. c \<notin> set ch \<and> c \<noteq> comment_char \<and> c \<noteq> LF \<Longrightarrow>
   firstOf_scan ch out lc (s @ comment_char # r) = (out @ s, False, \<lparr>rest = comment_char # r, lineCount = lc\<rparr>)"
  by (induction s arbitrary: out) (auto simp: Let_def)

lemma getToken_comment:
  assumes "\<forall>c \<in> set s. c \<notin> set ch \<and> c \<noteq> comment_char \<and> c \<noteq> LF" "LF \<notin> set b"
    and "CHR '' '' \<notin> set ch" "TAB \<notin> set ch" "LF \<notin> set ch"
  shows "getToken ch \<lparr>rest = s @ comment_char # b @ LF # r, lineCount = lc\<rparr> =
    (True, clean_token s, LF, True, \<lparr>rest = r, lineCount = lc\<rparr>)"
proof -
  let ?P = "\<lambda>c. c = CHR '' '' \<or> c = TAB"
  let ?t = "b @ LF # r"
  have bl: "takeWhile ?P (s @ comment_char # ?t) = takeWhile ?P s"
    by (induction s) auto
  have dr: "drop (length (takeWhile ?P s)) (s @ comment_char # ?t) = dropWhile ?P s @ comment_char # ?t"
    by (rule drop_takeWhile)
  have "firstOf_scan ch (takeWhile ?P s) lc (dropWhile ?P s @ comment_char # ?t) =
      (takeWhile ?P s @ dropWhile ?P s, False, \<lparr>rest = comment_char # ?t, lineCount = lc\<rparr>)"
    using firstOf_scan_comment [of "dropWhile ?P s" ch] assms(1) set_dropWhileD by meson
  moreover have "dropWhile (\<lambda>c. c \<noteq> LF) (b @ LF # r) = LF # r"
    using assms(2) by (induction b) auto
  ultimately have "firstOf ch \<lparr>rest = s @ comment_char # ?t, lineCount = lc\<rparr> =
      (True, s, True, \<lparr>rest = LF # r, lineCount = lc\<rparr>)"
    using assms(3-5) by (simp add: firstOf_def bl dr Let_def skipComment_def del: drop_append)
  then show ?thesis by (simp add: getToken_def)
qed

definition quoted_setting :: "string \<Rightarrow> string \<Rightarrow> string \<Rightarrow> string" where
  "quoted_setting sid k v = render_section (sid, []) @ render_key (k, v) @ [LF]"

lemma quoted_comment_lost:
  assumes "name_ok sid" "name_ok k" "value_ok a" "LF \<notin> set b"
  shows "parseKeysInSections (quoted_setting sid k (a @ comment_char # b)) [] = (True, [], [])"
proof -
  let ?q = "a @ comment_char # (b @ [dquote]) @ LF # []"
  have eq: "render_key (k, a @ comment_char # b) @ [LF] = (LF # k) @ CHR ''='' # dquote # ?q"
    by (simp add: render_key_def)
  obtain l1 where 1: "parse_loop (parser_init [])
      \<lparr>rest = quoted_setting sid k (a @ comment_char # b), lineCount = 0\<rparr> =
      parse_loop (between sid []) \<lparr>rest = (LF # k) @ CHR ''='' # dquote # ?q, lineCount = l1\<rparr>"
    using parse_section [OF assms(1), of "[]" "parser_init []" "[]"]
    unfolding quoted_setting_def eq by auto
  obtain l2 where 2: "parse_loop (between sid []) \<lparr>rest = (LF # k) @ CHR ''='' # dquote # ?q, lineCount = l1\<rparr> =
      parse_loop (in_quotes sid k []) \<lparr>rest = ?q, lineCount = l2\<rparr>"
    using parse_key_open [OF assms(2)] by blast
  have ch: "\<forall>c \<in> set a. c \<notin> set [dquote] \<and> c \<noteq> comment_char \<and> c \<noteq> LF"
    using assms(3) by (auto simp: value_ok_def clean_def)
  have "getToken [dquote] \<lparr>rest = ?q, lineCount = l2\<rparr> = (True, clean_token a, LF, True, \<lparr>rest = [], lineCount = l2\<rparr>)"
    by (rule getToken_comment [OF ch]) (use assms(4) in auto)
  then have "parse_loop (in_quotes sid k []) \<lparr>rest = ?q, lineCount = l2\<rparr> =
      parse_loop (in_quotes sid k []) \<lparr>rest = [], lineCount = l2\<rparr>"
    by (subst parse_loop.simps) (simp add: in_quotes_def)
  also have "\<dots> = (True, [], [])"
    by (subst parse_loop.simps)
      (simp add: getToken_def firstOf_def clean_token_eq parse_end_def in_quotes_def)
  finally show ?thesis using 1 2 by (simp add: parseKeysInSections_def token_reader_init_def)
qed

section \<open>What a database definition holds\<close>

definition str_or :: "pg_keys \<Rightarrow> string \<Rightarrow> string \<Rightarrow> string" where
  "str_or ks k d = (case key_string ks k of None \<Rightarrow> d | Some v \<Rightarrow> v)"

definition int_or :: "pg_keys \<Rightarrow> string \<Rightarrow> int \<Rightarrow> int" where
  "int_or ks k d = (case key_int ks k of Inr (Some v) \<Rightarrow> v | _ \<Rightarrow> d)"

definition wants_default :: "pg_keys \<Rightarrow> bool" where
  "wants_default ks \<longleftrightarrow> (case key_string ks ''default'' of None \<Rightarrow> False | Some v \<Rightarrow> hd v = CHR ''t'' \<or> hd v = CHR ''T'')"

definition dbdef_spec :: "pg_keys \<Rightarrow> dbdef \<Rightarrow> bool" where
  "dbdef_spec ks d \<longleftrightarrow>
     dbname d \<noteq> [] \<and> dbname d = str_or ks ''dbname'' [] \<and> host d = str_or ks ''host'' ''localhost''
     \<and> user d = str_or ks ''user'' [] \<and> password d = str_or ks ''password'' []
     \<and> wciuser d = str_or ks ''wciuser'' (user d)
     \<and> port d = int_or ks ''port'' 0 \<and> minpoolsize d = int_or ks ''minpoolsize'' 0
     \<and> maxusecount d = int_or ks ''usecount'' (-1)
     \<and> maxpoolsize d =
         (if int_or ks ''maxpoolsize'' int_min = int_min \<and> int_or ks ''poolsize'' int_min > -1
          then int_or ks ''poolsize'' 0 else int_or ks ''maxpoolsize'' 0)
     \<and> (defaultDbDef d \<longleftrightarrow> wants_default ks)"

lemma key_string_nonempty: "key_string ks k = Some v \<Longrightarrow> v \<noteq> []"
  by (auto simp: key_string_def split: option.splits if_splits)

lemma set_int_Inr: "set_int ks k upd d = Inr d' \<Longrightarrow>
    \<exists>r. key_int ks k = Inr r \<and> d' = (case r of None \<Rightarrow> d | Some v \<Rightarrow> upd v d)"
  by (auto simp: set_int_def bind_result_Inr_iff split: option.splits)

lemma set_string_eq: "set_string ks k upd d = (if key_string ks k = None then d else upd (the (key_string ks k)) d)"
  by (simp add: set_string_def split: option.splits)

lemma set_default_Inr:
  "set_default ks sid defaultId d = Inr (d', defaultId') \<Longrightarrow>
   d' = d\<lparr>defaultDbDef := (defaultDbDef d \<or> wants_default ks)\<rparr>
   \<and> (wants_default ks \<longrightarrow> defaultId = [] \<and> defaultId' = sid)
   \<and> (\<not> wants_default ks \<longrightarrow> defaultId' = defaultId)"
  using key_string_nonempty [of ks "''default''"]
  by (auto simp: set_default_def wants_default_def split: option.splits if_splits)

lemma section_def_spec:
  assumes "section_def ks sid defaultId = Inr (d, defaultId')"
  shows "dbdef_spec ks d \<and> (wants_default ks \<longrightarrow> defaultId = [] \<and> defaultId' = sid)
    \<and> (\<not> wants_default ks \<longrightarrow> defaultId' = defaultId)"
proof -
  obtain name where name: "key_string ks ''dbname'' = Some name"
    using assms by (auto simp: section_def_def split: option.splits)
  note ne = key_string_nonempty [OF name]
  define d1 where "d1 = set_string ks ''wciuser'' (\<lambda>v. wciuser_update (\<lambda>_. v))
     (set_string ks ''user'' (\<lambda>v. user_update (\<lambda>_. v)) (dbdef_init\<lparr>dbname := name\<rparr>))"
  from assms name obtain d2 pool d4 d5 maxp d6 d7 where steps:
    "set_int ks ''port'' (\<lambda>v. port_update (\<lambda>_. v)) d1 = Inr d2"
    "set_int ks ''poolsize'' (\<lambda>v _. v) int_min = Inr pool"
    "set_int ks ''minpoolsize'' (\<lambda>v. minpoolsize_update (\<lambda>_. v))
      (set_string ks ''password'' (\<lambda>v. password_update (\<lambda>_. v))
        (set_string ks ''host'' (\<lambda>v. host_update (\<lambda>_. v)) d2)) = Inr d4"
    "set_int ks ''maxpoolsize'' (\<lambda>v (d, m). (d\<lparr>maxpoolsize := v\<rparr>, v)) (d4, int_min) = Inr (d5, maxp)"
    "set_int ks ''usecount'' (\<lambda>v. maxusecount_update (\<lambda>_. v)) d5 = Inr d6"
    "set_default ks sid defaultId d6 = Inr (d7, defaultId')"
    "d = (if pool \<noteq> int_min \<and> maxp = int_min \<and> pool > -1
            then (if wciuser d7 = [] then d7\<lparr>wciuser := user d7\<rparr> else d7)\<lparr>maxpoolsize := pool\<rparr>
            else (if wciuser d7 = [] then d7\<lparr>wciuser := user d7\<rparr> else d7))"
    by (auto simp: section_def_def Let_def bind_result_Inr_iff d1_def)
  from set_int_Inr [OF steps(1)] obtain r1 where r1: "key_int ks ''port'' = Inr r1"
    "d2 = (case r1 of None \<Rightarrow> d1 | Some v \<Rightarrow> d1\<lparr>port := v\<rparr>)" by auto
  from set_int_Inr [OF steps(2)] obtain r2 where r2: "key_int ks ''poolsize'' = Inr r2"
    "pool = (case r2 of None \<Rightarrow> int_min | Some v \<Rightarrow> v)" by auto
  define d3 where "d3 = set_string ks ''password'' (\<lambda>v. password_update (\<lambda>_. v))
        (set_string ks ''host'' (\<lambda>v. host_update (\<lambda>_. v)) d2)"
  from set_int_Inr [OF steps(3), folded d3_def] obtain r3 where r3: "key_int ks ''minpoolsize'' = Inr r3"
    "d4 = (case r3 of None \<Rightarrow> d3 | Some v \<Rightarrow> d3\<lparr>minpoolsize := v\<rparr>)" by blast
  from set_int_Inr [OF steps(4)] obtain r4 where r4: "key_int ks ''maxpoolsize'' = Inr r4"
    "(d5, maxp) = (case r4 of None \<Rightarrow> (d4, int_min) | Some v \<Rightarrow> (d4\<lparr>maxpoolsize := v\<rparr>, v))" by auto
  from set_int_Inr [OF steps(5)] obtain r5 where r5: "key_int ks ''usecount'' = Inr r5"
    "d6 = (case r5 of None \<Rightarrow> d5 | Some v \<Rightarrow> d5\<lparr>maxusecount := v\<rparr>)" by auto
  note D = set_default_Inr [OF steps(6)]
  have f1: "dbname d1 = name" "host d1 = ''localhost''" "user d1 = str_or ks ''user'' []"
    "password d1 = []" "wciuser d1 = str_or ks ''wciuser'' []" "port d1 = 0" "minpoolsize d1 = 0"
    "maxpoolsize d1 = 0" "maxusecount d1 = -1" "\<not> defaultDbDef d1"
    by (simp_all add: d1_def set_string_def str_or_def dbdef_init_def split: option.split)
  have f2: "port d2 = int_or ks ''port'' 0" "dbname d2 = dbname d1" "host d2 = host d1" "user d2 = user d1"
    "password d2 = password d1" "wciuser d2 = wciuser d1" "minpoolsize d2 = minpoolsize d1"
    "maxpoolsize d2 = maxpoolsize d1" "maxusecount d2 = maxusecount d1" "defaultDbDef d2 = defaultDbDef d1"
    using r1 f1 by (auto simp: int_or_def split: option.splits)
  have f3: "host d3 = str_or ks ''host'' ''localhost''" "password d3 = str_or ks ''password'' []"
    "port d3 = port d2" "dbname d3 = dbname d2" "user d3 = user d2" "wciuser d3 = wciuser d2"
    "minpoolsize d3 = minpoolsize d2" "maxpoolsize d3 = maxpoolsize d2" "maxusecount d3 = maxusecount d2"
    "defaultDbDef d3 = defaultDbDef d2"
    using f1 f2 by (auto simp: d3_def set_string_def str_or_def split: option.splits)
  have f4: "dbname d4 = dbname d3" "host d4 = host d3" "user d4 = user d3" "password d4 = password d3"
    "wciuser d4 = wciuser d3" "port d4 = port d3" "minpoolsize d4 = (case r3 of None \<Rightarrow> minpoolsize d3 | Some v \<Rightarrow> v)"
    "maxpoolsize d4 = maxpoolsize d3" "maxusecount d4 = maxusecount d3" "defaultDbDef d4 = defaultDbDef d3"
    unfolding r3(2) by (cases r3; simp)+
  have r4': "d5 = (case r4 of None \<Rightarrow> d4 | Some v \<Rightarrow> d4\<lparr>maxpoolsize := v\<rparr>)"
      "maxp = (case r4 of None \<Rightarrow> int_min | Some v \<Rightarrow> v)"
    using r4(2) by (cases r4; simp)+
  have f5: "dbname d5 = dbname d4" "host d5 = host d4" "user d5 = user d4" "password d5 = password d4"
    "wciuser d5 = wciuser d4" "port d5 = port d4" "minpoolsize d5 = minpoolsize d4"
    "maxpoolsize d5 = (case r4 of None \<Rightarrow> maxpoolsize d4 | Some v \<Rightarrow> v)" "maxusecount d5 = maxusecount d4"
    "defaultDbDef d5 = defaultDbDef d4"
    unfolding r4'(1) by (cases r4; simp)+
  have f6: "dbname d6 = dbname d5" "host d6 = host d5" "user d6 = user d5" "password d6 = password d5"
    "wciuser d6 = wciuser d5" "port d6 = port d5" "minpoolsize d6 = minpoolsize d5"
    "maxpoolsize d6 = maxpoolsize d5" "maxusecount d6 = (case r5 of None \<Rightarrow> maxusecount d5 | Some v \<Rightarrow> v)"
    "defaultDbDef d6 = defaultDbDef d5"
    unfolding r5(2) by (cases r5; simp)+
  have ints: "int_or ks ''minpoolsize'' z = (case r3 of None \<Rightarrow> z | Some v \<Rightarrow> v)"
    "int_or ks ''maxpoolsize'' z = (case r4 of None \<Rightarrow> z | Some v \<Rightarrow> v)"
    "int_or ks ''usecount'' z = (case r5 of None \<Rightarrow> z | Some v \<Rightarrow> v)"
    "int_or ks ''poolsize'' z = (case r2 of None \<Rightarrow> z | Some v \<Rightarrow> v)" for z
    using r2(1) r3(1) r4(1) r5(1) by (simp_all add: int_or_def)
  have g6: "dbname d6 = name" "host d6 = str_or ks ''host'' ''localhost''" "user d6 = str_or ks ''user'' []"
    "password d6 = str_or ks ''password'' []"
    "wciuser d6 = str_or ks ''wciuser'' []" "port d6 = int_or ks ''port'' 0"
    "minpoolsize d6 = int_or ks ''minpoolsize'' 0"
    "maxpoolsize d6 = int_or ks ''maxpoolsize'' 0" "maxusecount d6 = int_or ks ''usecount'' (-1)"
    "\<not> defaultDbDef d6" "maxp = int_or ks ''maxpoolsize'' int_min" "pool = int_or ks ''poolsize'' int_min"
    by (simp_all add: f6 f5 f4 f3 f2 f1 ints r4'(2) r2(2) split: option.split)
  have w: "str_or ks ''wciuser'' u = (if str_or ks ''wciuser'' [] = [] then u else str_or ks ''wciuser'' [])" for u
    using key_string_nonempty [of ks "''wciuser''"] by (auto simp: str_or_def split: option.splits)
  have p: "int_or ks ''poolsize'' int_min > -1 \<Longrightarrow> int_or ks ''poolsize'' 0 = int_or ks ''poolsize'' int_min"
    by (auto simp: int_or_def int_min_def split: sum.splits option.splits)
  have im: "int_min < -1" by (simp add: int_min_def)
  have g7: "dbname d7 = name" "host d7 = str_or ks ''host'' ''localhost''" "user d7 = str_or ks ''user'' []"
    "password d7 = str_or ks ''password'' []"
    "wciuser d7 = str_or ks ''wciuser'' []" "port d7 = int_or ks ''port'' 0"
    "minpoolsize d7 = int_or ks ''minpoolsize'' 0"
    "maxpoolsize d7 = int_or ks ''maxpoolsize'' 0" "maxusecount d7 = int_or ks ''usecount'' (-1)"
    "defaultDbDef d7 = wants_default ks"
    using D g6 by simp_all
  have "dbdef_spec ks d"
    unfolding dbdef_spec_def steps(7) using g7 g6(11,12) w [of "user d7"] p im ne name
    by (simp add: str_or_def [of ks "''dbname''"])
  with D show ?thesis by simp
qed

lemma check_keys_Inr: "check_keys ks = Inr () \<longleftrightarrow> set ks \<subseteq> set validParam"
  by (induction ks) auto

lemma setup_sections_spec:
  "setup_sections ss did defs = (defs', Inr ()) \<Longrightarrow> distinct (map fst ss) \<Longrightarrow>
   (\<forall>x. x \<notin> fst ` set ss \<longrightarrow> map_of defs' x = map_of defs x)
   \<and> (\<forall>(sid, ks) \<in> set ss. \<exists>d. map_of defs' sid = Some d \<and> dbdef_spec ks d)
   \<and> (\<forall>(sid, ks) \<in> set ss. wants_default ks \<longrightarrow> did = [])
   \<and> (\<forall>(s1, k1) \<in> set ss. \<forall>(s2, k2) \<in> set ss.
        wants_default k1 \<and> wants_default k2 \<and> s1 \<noteq> s2 \<longrightarrow> s1 = [] \<or> s2 = [])"
proof (induction ss did defs rule: setup_sections.induct)
  case (1 did defs)
  then show ?case by auto
next
  case (2 sid ks secs did defs)
  obtain d did' where d: "section_def ks sid did = Inr (d, did')"
    using "2.prems"(1) by (auto split: sum.splits)
  with "2.prems" have rec: "setup_sections secs did' (om_put sid d defs) = (defs', Inr ())"
    and dist: "distinct (map fst secs)" "sid \<notin> fst ` set secs" by auto
  note IH = "2.IH" [OF d refl rec dist(1)] and S = section_def_spec [OF d]
  have sid: "map_of defs' sid = Some d" using IH dist(2) by simp
  have "did = []" if "wants_default k" "(s, k) \<in> set secs" for s k
    using that IH S by (cases "wants_default ks") auto
  moreover have "s = [] \<or> sid = []" if "wants_default k" "(s, k) \<in> set secs" "wants_default ks" for s k
    using that IH S by auto
  ultimately show ?case using IH S sid by auto
qed

lemma setup_sections_wf: "om_wf defs \<Longrightarrow> om_wf (fst (setup_sections ss did defs))"
  by (induction ss did defs rule: setup_sections.induct) (auto split: sum.split)

text \<open>Induction over the rounds of the loop, with the equation of each kind of round.\<close>

lemma parse_loop_rounds [case_names finish comment fail continue]:
  assumes finish: "\<And>p r buf token cm r1. getToken (nextTokens p) r = (False, buf, token, cm, r1) \<Longrightarrow>
      parse_loop p r = parse_end p r1 buf \<Longrightarrow> Q p r"
    and comment: "\<And>p r buf token r1. getToken (nextTokens p) r = (True, buf, token, True, r1) \<Longrightarrow>
      parse_loop p r = parse_loop p r1 \<Longrightarrow> Q p r1 \<Longrightarrow> Q p r"
    and fail: "\<And>p r buf token r1 e. parse_step (resolve_state p token) r1 buf token = Inl e \<Longrightarrow>
      parse_loop p r = (False, psections p, e) \<Longrightarrow> Q p r"
    and continue: "\<And>p r buf token r1 p' r2. parse_step (resolve_state p token) r1 buf token = Inr (p', r2) \<Longrightarrow>
      parse_loop p r = parse_loop p' r2 \<Longrightarrow> Q p' r2 \<Longrightarrow> Q p r"
  shows "Q p r"
proof (induction "length (rest r)" arbitrary: p r rule: less_induct)
  case less
  obtain found buf token cm r1 where g: "getToken (nextTokens p) r = (found, buf, token, cm, r1)"
    by (cases "getToken (nextTokens p) r")
  show ?case
  proof (cases found)
    case False
    then have "getToken (nextTokens p) r = (False, buf, token, cm, r1)" using g by simp
    moreover from this have "parse_loop p r = parse_end p r1 buf" by (subst parse_loop.simps) simp
    ultimately show ?thesis by (rule finish)
  next
    case True
    then have g1: "getToken (nextTokens p) r = (True, buf, token, cm, r1)" using g by simp
    note len = rest_getToken [OF g1]
    show ?thesis
    proof (cases cm)
      case True
      then have "getToken (nextTokens p) r = (True, buf, token, True, r1)" using g1 by simp
      moreover from this have "parse_loop p r = parse_loop p r1" by (subst parse_loop.simps) simp
      ultimately show ?thesis using less [OF len] by (rule comment)
    next
      case False
      show ?thesis
      proof (cases "parse_step (resolve_state p token) r1 buf token")
        case (Inl e)
        have "parse_loop p r = (False, psections p, e)"
          using g \<open>found\<close> False Inl by (subst parse_loop.simps) simp
        with Inl show ?thesis by (rule fail)
      next
        case (Inr pr)
        obtain p' r2 where pr: "pr = (p', r2)" by (cases pr)
        have "length (rest r2) < length (rest r)"
          using len rest_parse_step [OF Inr [unfolded pr]] by simp
        note IH = less [OF this]
        have "parse_loop p r = parse_loop p' r2"
          using g \<open>found\<close> False Inr pr by (subst parse_loop.simps) simp
        then show ?thesis using IH by (rule continue [OF Inr [unfolded pr]])
      qed
    qed
  qed
qed

lemma parse_loop_wf: "om_wf (psections p) \<Longrightarrow> om_wf (fst (snd (parse_loop p r)))"
proof (induction p r rule: parse_loop_rounds)
  case (continue p r buf token r1 p' r2)
  have "psections (resolve_state p token) = psections p" by (simp add: resolve_state_def)
  with continue show ?case
    by (auto simp: parse_step_def add_current_def om_wf_put split: pg_state.splits if_splits)
qed (auto simp: parse_end_def add_current_def om_wf_put)

lemma parse_loop_no_error: "fst (parse_loop p r) \<Longrightarrow> snd (snd (parse_loop p r)) = []"
proof (induction p r rule: parse_loop_rounds)
  case (finish p r buf token cm r1)
  then show ?case by (cases "buf = []"; cases "currentKey p = []") (simp_all only: parse_end_def if_True if_False fst_conv snd_conv simp_thms)
qed (simp_all only: fst_conv snd_conv simp_thms)

lemma check_sections_Inr:
  "check_sections secs = Inr () \<longleftrightarrow> (\<forall>(sid, ks) \<in> set secs. fst ` set ks \<subseteq> set validParam)"
  by (auto simp: check_sections_def check_keys_Inr getKeys_def) fastforce

lemma parseDbSetup_spec:
  assumes "parseDbSetup s = (defs, Inr ())"
  shows "\<exists>secs. parseKeysInSections s [] = (True, secs, []) \<and> om_wf defs
    \<and> dom (map_of defs) = fst ` set secs
    \<and> (\<forall>(sid, ks) \<in> set secs. fst ` set ks \<subseteq> set validParam
         \<and> (\<exists>d. map_of defs sid = Some d \<and> dbdef_spec ks d))
    \<and> (\<forall>s1 d1 s2 d2. map_of defs s1 = Some d1 \<and> map_of defs s2 = Some d2
         \<and> defaultDbDef d1 \<and> defaultDbDef d2 \<and> s1 \<noteq> s2 \<longrightarrow> s1 = [] \<or> s2 = [])"
proof -
  obtain good secs err where p: "parseKeysInSections s [] = (good, secs, err)"
    by (cases "parseKeysInSections s []")
  with assms have good: "good" and chk: "check_sections secs = Inr ()"
    and su: "setup_sections secs [] [] = (defs, Inr ())"
    by (auto simp: parseDbSetup_def split: if_splits sum.splits)
  have err: "err = []"
    using p good parse_loop_no_error [of "parser_init []" "token_reader_init s"]
    by (simp add: parseKeysInSections_def)
  have "om_wf secs"
    using parse_loop_wf [of "parser_init []" "token_reader_init s"] p
    by (simp add: parser_init_def parseKeysInSections_def)
  then have "distinct (map fst secs)" by (rule omap.keys_distinct)
  note S = setup_sections_spec [OF su this]
  have S2: "\<exists>d. map_of defs sid = Some d \<and> dbdef_spec ks d" if "(sid, ks) \<in> set secs" for sid ks
    using bspec [OF S [THEN conjunct2, THEN conjunct1] that] by simp
  have S4: "s1 = [] \<or> s2 = []" if "(s1, k1) \<in> set secs" "(s2, k2) \<in> set secs"
    "wants_default k1" "wants_default k2" "s1 \<noteq> s2" for s1 k1 s2 k2
    using bspec [OF S [THEN conjunct2, THEN conjunct2, THEN conjunct2] that(1)] that(2-) by auto
  have key: "\<exists>ks. (sid, ks) \<in> set secs \<and> dbdef_spec ks d" if "map_of defs sid = Some d" for sid d
  proof -
    have "sid \<in> fst ` set secs" using S that by (metis map_of.simps(1) option.distinct(1))
    then obtain ks where ks: "(sid, ks) \<in> set secs" by auto
    with S2 [OF ks] that show ?thesis by auto
  qed
  have A: "dom (map_of defs) = fst ` set secs"
  proof (intro equalityI subsetI)
    show "sid \<in> fst ` set secs" if "sid \<in> dom (map_of defs)" for sid
      using that key by force
    show "sid \<in> dom (map_of defs)" if "sid \<in> fst ` set secs" for sid
      using that S2 by force
  qed
  have B: "s1 = [] \<or> s2 = []"
    if ds: "map_of defs s1 = Some d1" "map_of defs s2 = Some d2" "defaultDbDef d1" "defaultDbDef d2" "s1 \<noteq> s2"
    for s1 d1 s2 d2
  proof -
    from key [OF ds(1)] key [OF ds(2)] obtain k1 k2 where
      "(s1, k1) \<in> set secs" "wants_default k1" "(s2, k2) \<in> set secs" "wants_default k2"
      using ds(3,4) by (auto simp: dbdef_spec_def)
    with S4 ds(5) show ?thesis by blast
  qed
  have C: "om_wf defs" using setup_sections_wf [of "[]" secs "[]"] su by simp
  have D: "\<forall>(sid, ks) \<in> set secs. fst ` set ks \<subseteq> set validParam
         \<and> (\<exists>d. map_of defs sid = Some d \<and> dbdef_spec ks d)"
    using chk S2 unfolding check_sections_Inr by blast
  have P: "parseKeysInSections s [] = (True, secs, [])" using p good err by simp
  have B': "\<forall>s1 d1 s2 d2. map_of defs s1 = Some d1 \<and> map_of defs s2 = Some d2
      \<and> defaultDbDef d1 \<and> defaultDbDef d2 \<and> s1 \<noteq> s2 \<longrightarrow> s1 = [] \<or> s2 = []"
    using B by blast
  show ?thesis by (intro exI [of _ secs] conjI P A B' C D)
qed

section \<open>Properties\<close>

text \<open>
  C9: Every well-formed setup can be written down and read back: for any ordered map of
  sections whose names and values survive trimming and hold none of the delimiters,
  \<open>parseKeysInSections\<close> of the rendered text returns true, exactly that map and no errors.
\<close>

theorem parse_render_roundtrip:
  assumes "om_wf secs" "\<forall>sec \<in> set secs. section_ok sec"
  shows "parseKeysInSections (render secs @ [LF]) [] = (True, secs, [])"
  using assms by (rule parse_render)

lemma strip_trim_no: "\<forall>c \<in> set s. c \<notin> {CHR '' '', TAB, CHR 0x0D, LF} \<Longrightarrow> strip trim_set s = s"
  by (rule strip_no_trim) (auto simp: trim_set_def)

theorem parse_render_roundtrip_witness:
  "parseKeysInSections (render [(''wdb'', [(''dbname'', ''w''), (''port'', ''5432'')])] @ [LF]) [] =
     (True, [(''wdb'', [(''dbname'', ''w''), (''port'', ''5432'')])], [])"
  using parse_render_roundtrip [of "[(''wdb'', [(''dbname'', ''w''), (''port'', ''5432'')])]"]
  by (simp add: om_wf_def section_ok_def name_ok_def value_ok_def clean_def strip_trim_no)

text \<open>
  The comment character is not protected by quotes: a quoted value with a \<open>#\<close> in it (a
  password, say) loses its setting without any error, whatever stands before and after the
  \<open>#\<close>.
\<close>

theorem comment_in_quotes_lost:
  assumes "name_ok sid" "name_ok k" "value_ok a" "LF \<notin> set b"
  shows "parseKeysInSections (quoted_setting sid k (a @ comment_char # b)) [] = (True, [], [])"
  using assms by (rule quoted_comment_lost)

theorem comment_in_quotes_lost_witness:
  "parseKeysInSections (quoted_setting ''wdb'' ''password'' (''ab'' @ comment_char # ''cd'')) [] = (True, [], [])"
  using comment_in_quotes_lost [of "''wdb''" "''password''" "''ab''" "''cd''"]
  by (simp add: name_ok_def value_ok_def clean_def strip_trim_no)

text \<open>
  What \<open>parseDbSetup\<close> accepts: when it returns normally, there is one definition per
  section, every key is a known one, and each definition holds exactly the values of its
  section or the documented defaults (\<open>maxpoolsize\<close> from the deprecated \<open>poolsize\<close> only when
  it is not given itself, \<open>wciuser\<close> falling back to \<open>user\<close>); and no two sections are the
  default unless one of them has the empty name.
\<close>

theorem parseDbSetup_correct:
  assumes "parseDbSetup s = (defs, Inr ())"
  shows "\<exists>secs. parseKeysInSections s [] = (True, secs, []) \<and> om_wf defs
    \<and> dom (map_of defs) = fst ` set secs
    \<and> (\<forall>(sid, ks) \<in> set secs. fst ` set ks \<subseteq> set validParam
         \<and> (\<exists>d. map_of defs sid = Some d \<and> dbdef_spec ks d))
    \<and> (\<forall>s1 d1 s2 d2. map_of defs s1 = Some d1 \<and> map_of defs s2 = Some d2
         \<and> defaultDbDef d1 \<and> defaultDbDef d2 \<and> s1 \<noteq> s2 \<longrightarrow> s1 = [] \<or> s2 = [])"
  using assms by (rule parseDbSetup_spec)

theorem parseDbSetup_correct_witness:
  "\<exists>defs. parseDbSetup (render [(''wdb'', [(''dbname'', ''w'')])] @ [LF]) = (defs, Inr ())
    \<and> dom (map_of defs) = {''wdb''}"
proof -
  let ?secs = "[(''wdb'', [(''dbname'', ''w'')])]"
  have p: "parseKeysInSections (render ?secs @ [LF]) [] = (True, ?secs, [])"
    by (rule parse_render) (simp_all add: om_wf_def section_ok_def name_ok_def value_ok_def clean_def strip_trim_no)
  obtain defs where d: "parseDbSetup (render ?secs @ [LF]) = (defs, Inr ())"
    by (simp add: Let_def dbdef_init_def parseDbSetup_def p check_sections_def getKeys_def validParam_def section_def_def
        key_string_def set_string_def set_int_def key_int_def set_default_def)
  with parseDbSetup_correct [OF d] p show ?thesis by auto
qed

end
