(* ===== verification/DbPool.thy ===== *)
theory DbPool
  imports PgParser
begin

text \<open>
  The pool of database connections: \<open>miutil::pgpool::DbConnectionPool\<close>, with
  \<open>DbConnectionHelper\<close> and the handle \<open>DbConnection\<close> (\<open>src/src/pgconpool\<close>). A connection is
  known by its address \<open>cid\<close>, fresh for each allocation. What the server and the client's
  \<open>ConnectionExtra\<close> hooks do is not in the repository: each operation takes an environment
  that says whether opening a connection and whether \<open>onNewConnection\<close> succeed.
\<close>

section \<open>The pool\<close>

record conn =
  cid :: nat
  useCount :: int
  inuse :: bool

record dbpool =
  pool :: "conn list"
  maxpoolsize_of :: nat
  minpoolsize_of :: nat
  maxUseCount :: int
  connect :: string
  isEnabled :: bool
  next_cid :: nat

record pool_env =
  server_ok :: bool
  hook_ok :: bool

definition new_helper :: "nat \<Rightarrow> int \<Rightarrow> conn" where
  "new_helper i count = \<lparr>cid = i, useCount = count, inuse = False\<rparr>"

definition set_inUse :: "bool \<Rightarrow> conn \<Rightarrow> conn" where
  "set_inUse f c = (if f then c\<lparr>useCount := useCount c - 1, inuse := f\<rparr> else c\<lparr>inuse := f\<rparr>)"

datatype create_out = Created nat | Max_reached | Create_disabled | Create_failed

definition createConnection :: "pool_env \<Rightarrow> dbpool \<Rightarrow> create_out \<times> dbpool" where
  "createConnection env p =
     (if length (pool p) \<ge> maxpoolsize_of p then (Max_reached, p)
      else if \<not> isEnabled p then (Create_disabled, p)
      else if \<not> server_ok env then (Create_failed, p)
      else (Created (next_cid p),
            p\<lparr>pool := pool p @ [new_helper (next_cid p) (maxUseCount p)], next_cid := next_cid p + 1\<rparr>))"

definition upd_conn :: "nat \<Rightarrow> (conn \<Rightarrow> conn) \<Rightarrow> conn list \<Rightarrow> conn list" where
  "upd_conn i f cs = map (\<lambda>c. if cid c = i then f c else c) cs"

text \<open>The first idle connection, else a new one; every exception becomes the null pointer.\<close>

definition findOrCreateConnection :: "pool_env \<Rightarrow> dbpool \<Rightarrow> nat option \<times> dbpool" where
  "findOrCreateConnection env p =
     (case find (\<lambda>c. \<not> inuse c) (pool p) of
        Some c \<Rightarrow>
          if hook_ok env then (Some (cid c), p\<lparr>pool := upd_conn (cid c) (set_inUse True) (pool p)\<rparr>)
          else (None, p)
      | None \<Rightarrow>
          (case createConnection env p of
             (Created i, p') \<Rightarrow>
               if hook_ok env then (Some i, p'\<lparr>pool := upd_conn i (set_inUse True) (pool p')\<rparr>)
               else (None, p')
           | (_, p') \<Rightarrow> (None, p')))"

text \<open>\<open>newConnection\<close> up to its wait, and from the wait on.\<close>

datatype new_out = New_ok nat | Ex_disabled | Ex_max_use | Ex_create | New_wait

definition newConnection :: "nat \<Rightarrow> pool_env \<Rightarrow> dbpool \<Rightarrow> new_out \<times> dbpool" where
  "newConnection timeout env p =
     (if \<not> isEnabled p then (Ex_disabled, p)
      else case findOrCreateConnection env p of
             (Some i, p') \<Rightarrow> (New_ok i, p')
           | (None, p') \<Rightarrow>
               if timeout = 0 \<and> length (pool p') \<ge> maxpoolsize_of p' then (Ex_max_use, p')
               else (New_wait, p'))"

definition newConnection_wake :: "bool \<Rightarrow> pool_env \<Rightarrow> dbpool \<Rightarrow> new_out \<times> dbpool" where
  "newConnection_wake notified env p =
     (if \<not> notified then (Ex_max_use, p)
      else case findOrCreateConnection env p of
             (Some i, p') \<Rightarrow> (New_ok i, p')
           | (None, p') \<Rightarrow> (Ex_max_use, p'))"

definition find_conn :: "nat \<Rightarrow> conn list \<Rightarrow> conn option" where
  "find_conn i cs = find (\<lambda>c. cid c = i) cs"

definition drop_conn :: "nat \<Rightarrow> conn list \<Rightarrow> conn list" where
  "drop_conn i cs = filter (\<lambda>c. cid c \<noteq> i) cs"

text \<open>
  \<open>release\<close>, the destructor of a handle. A connection that is not in the pool is a dangling
  pointer: reading its use count is undefined.
\<close>

definition release :: "pool_env \<Rightarrow> nat \<Rightarrow> dbpool \<Rightarrow> dbpool result" where
  "release env i p =
     (case find_conn i (pool p) of
        None \<Rightarrow> Inl Undefined_behaviour
      | Some c \<Rightarrow>
          if useCount c = 0 \<or> \<not> isEnabled p
          then let p' = p\<lparr>pool := drop_conn i (pool p)\<rparr>
               in Inr (if isEnabled p' \<and> length (pool p') < minpoolsize_of p'
                       then snd (createConnection env p') else p')
          else Inr (p\<lparr>pool := upd_conn i (set_inUse False) (pool p)\<rparr>))"

definition disable :: "dbpool \<Rightarrow> dbpool" where
  "disable p = (if \<not> isEnabled p then p else p\<lparr>isEnabled := False, pool := filter inuse (pool p)\<rparr>)"

definition enable :: "dbpool \<Rightarrow> dbpool" where
  "enable p = p\<lparr>isEnabled := True\<rparr>"

fun create_loop :: "nat \<Rightarrow> pool_env list \<Rightarrow> dbpool \<Rightarrow> dbpool" where
  "create_loop 0 envs p = p"
| "create_loop (Suc n) [] p = p"
| "create_loop (Suc n) (env # envs) p =
     (case createConnection env p of
        (Created i, p') \<Rightarrow> create_loop n envs p'
      | (_, p') \<Rightarrow> p')"

text \<open>One environment per attempt; the attempts stop at the first that fails.\<close>

definition createMinpoolsize :: "pool_env list \<Rightarrow> dbpool \<Rightarrow> dbpool" where
  "createMinpoolsize envs p = create_loop (minpoolsize_of p) envs p"

section \<open>Constructors and destructor\<close>

text \<open>Conversions between \<open>int\<close> and \<open>size_type\<close>, 32 and 64 bits wide.\<close>

definition size_of_int :: "int \<Rightarrow> nat" where
  "size_of_int i = nat (i mod 2 ^ 64)"

definition int_of_size :: "nat \<Rightarrow> int" where
  "int_of_size n = (let w = int n mod 2 ^ 32 in if w < 2 ^ 31 then w else w - 2 ^ 32)"

definition connect_string :: "dbdef \<Rightarrow> string" where
  "connect_string d =
     ''dbname='' @ dbname d
     @ (if user d \<noteq> [] then '' user='' @ user d else [])
     @ (if password d \<noteq> [] then '' password='' @ password d else [])
     @ (if host d \<noteq> [] then '' host='' @ host d else [])
     @ (if port d > 0 then '' port='' @ dec_int (port d) else [])"

definition pool_bounds :: "dbdef \<Rightarrow> nat \<times> nat" where
  "pool_bounds d =
     (let mx = size_of_int (maxpoolsize d); mn = size_of_int (minpoolsize d)
      in if mn > mx then (size_of_int (int_of_size mx), mn) else (mn, mx))"

definition pool_of_dbdef :: "pool_env list \<Rightarrow> dbdef \<Rightarrow> dbpool" where
  "pool_of_dbdef envs d =
     (let (mn, mx) = pool_bounds d
      in createMinpoolsize envs
           \<lparr>pool = [], maxpoolsize_of = mx, minpoolsize_of = mn, maxUseCount = maxusecount d,
            connect = connect_string d, isEnabled = True, next_cid = 0\<rparr>)"

definition pool_of_string :: "string \<Rightarrow> dbpool" where
  "pool_of_string con =
     \<lparr>pool = [], maxpoolsize_of = 1, minpoolsize_of = 0, maxUseCount = 1, connect = con,
      isEnabled = True, next_cid = 0\<rparr>"

definition pool_of_max :: "int \<Rightarrow> string \<Rightarrow> int \<Rightarrow> dbpool" where
  "pool_of_max mx con uses =
     \<lparr>pool = [], maxpoolsize_of = size_of_int mx, minpoolsize_of = 0, maxUseCount = uses,
      connect = con, isEnabled = True, next_cid = 0\<rparr>"

text \<open>The connections the destructor deletes.\<close>

definition pool_dtor :: "dbpool \<Rightarrow> conn list" where
  "pool_dtor p = filter inuse (pool p)"

section \<open>Clients\<close>

text \<open>The pool with the connections its clients hold, and the number of waiting callers.\<close>

record poolsys =
  db :: dbpool
  handles :: "nat list"
  waiters :: nat

datatype pool_event =
    New nat pool_env
  | Wake_new bool pool_env
  | Release_at nat pool_env
  | Disable
  | Enable

fun got_conn :: "new_out \<Rightarrow> nat list" where
  "got_conn (New_ok i) = [i]"
| "got_conn _ = []"

fun pool_exec :: "pool_event \<Rightarrow> poolsys \<Rightarrow> poolsys result" where
  "pool_exec (New t env) s =
     (let (out, p) = newConnection t env (db s)
      in Inr (s\<lparr>db := p, handles := got_conn out @ handles s,
               waiters := waiters s + (if out = New_wait then 1 else 0)\<rparr>))"
| "pool_exec (Wake_new n env) s =
     (if waiters s = 0 then Inr s
      else let (out, p) = newConnection_wake n env (db s)
           in Inr (s\<lparr>db := p, handles := got_conn out @ handles s, waiters := waiters s - 1\<rparr>))"
| "pool_exec (Release_at k env) s =
     (if k < length (handles s)
      then bind_result (release env (handles s ! k) (db s)) (\<lambda>p.
             Inr (s\<lparr>db := p, handles := remove1 (handles s ! k) (handles s)\<rparr>))
      else Inr s)"
| "pool_exec Disable s = Inr (s\<lparr>db := disable (db s)\<rparr>)"
| "pool_exec Enable s = Inr (s\<lparr>db := enable (db s)\<rparr>)"

inductive pool_step :: "poolsys \<Rightarrow> poolsys \<Rightarrow> bool" where
  pool_step_exec: "pool_exec e s = Inr t \<Longrightarrow> pool_step s t"

inductive_cases pool_stepE: "pool_step s t"

definition pool_start :: "poolsys \<Rightarrow> bool" where
  "pool_start s \<longleftrightarrow> handles s = [] \<and> waiters s = 0
     \<and> ((\<exists>envs d. db s = pool_of_dbdef envs d) \<or> (\<exists>c. db s = pool_of_string c)
        \<or> (\<exists>m c u. db s = pool_of_max m c u))"

section \<open>The invariant\<close>

definition in_use_ids :: "conn list \<Rightarrow> nat list" where
  "in_use_ids cs = map cid (filter inuse cs)"

definition uses_ok :: "int \<Rightarrow> conn \<Rightarrow> bool" where
  "uses_ok m c \<longleftrightarrow> m > 0 \<longrightarrow> useCount c \<le> m \<and> (if inuse c then 0 \<le> useCount c else 1 \<le> useCount c)"

definition dbpool_inv :: "dbpool \<Rightarrow> bool" where
  "dbpool_inv p \<longleftrightarrow>
     distinct (map cid (pool p)) \<and> (\<forall>c \<in> set (pool p). cid c < next_cid p)
     \<and> length (pool p) \<le> maxpoolsize_of p
     \<and> (\<forall>c \<in> set (pool p). uses_ok (maxUseCount p) c)
     \<and> (\<not> isEnabled p \<longrightarrow> (\<forall>c \<in> set (pool p). inuse c))"

definition pool_inv :: "poolsys \<Rightarrow> bool" where
  "pool_inv s \<longleftrightarrow> dbpool_inv (db s) \<and> distinct (handles s)
     \<and> set (handles s) = set (in_use_ids (pool (db s)))"

lemma in_use_ids_iff: "i \<in> set (in_use_ids cs) \<longleftrightarrow> (\<exists>c \<in> set cs. inuse c \<and> cid c = i)"
  by (auto simp: in_use_ids_def)

lemma cid_set_inUse [simp]: "cid (set_inUse f c) = cid c"
  by (simp add: set_inUse_def)

lemma cid_upd [simp]: "map cid (upd_conn i (set_inUse f) cs) = map cid cs"
  by (simp add: upd_conn_def)

lemma length_upd [simp]: "length (upd_conn i f cs) = length cs"
  by (simp add: upd_conn_def)

lemma in_use_upd:
  "i \<in> cid ` set cs \<Longrightarrow>
   set (in_use_ids (upd_conn i (set_inUse f) cs)) =
     (if f then insert i (set (in_use_ids cs)) else set (in_use_ids cs) - {i})"
proof -
  have "set (in_use_ids (upd_conn i (set_inUse f) cs)) =
      (set (in_use_ids cs) - {i}) \<union> (if f \<and> i \<in> cid ` set cs then {i} else {})"
    by (induction cs) (auto simp: in_use_ids_def upd_conn_def set_inUse_def)
  then show "i \<in> cid ` set cs \<Longrightarrow> ?thesis" by auto
qed

lemma all_upd_conn:
  "(\<And>c. c \<in> set cs \<Longrightarrow> cid c \<noteq> i \<Longrightarrow> P c) \<Longrightarrow> (\<And>c. c \<in> set cs \<Longrightarrow> cid c = i \<Longrightarrow> P (f c)) \<Longrightarrow>
   \<forall>c \<in> set (upd_conn i f cs). P c"
  by (auto simp: upd_conn_def)

lemma createConnection_inv:
  "dbpool_inv p \<Longrightarrow> dbpool_inv (snd (createConnection env p))"
  by (auto simp: createConnection_def dbpool_inv_def new_helper_def uses_ok_def less_Suc_eq)

lemma createConnection_use:
  "in_use_ids (pool (snd (createConnection env p))) = in_use_ids (pool p)"
  by (simp add: createConnection_def in_use_ids_def new_helper_def)

lemma createConnection_Created:
  "createConnection env p = (Created i, p') \<Longrightarrow>
   i = next_cid p \<and> p' = p\<lparr>pool := pool p @ [new_helper i (maxUseCount p)], next_cid := next_cid p + 1\<rparr>
   \<and> isEnabled p"
  by (auto simp: createConnection_def split: if_splits)

lemma dbpool_inv_take:
  assumes "dbpool_inv p" "c \<in> set (pool p)" "\<not> inuse c" "isEnabled p"
  shows "dbpool_inv (p\<lparr>pool := upd_conn (cid c) (set_inUse True) (pool p)\<rparr>)"
proof -
  have "c' = c" if "c' \<in> set (pool p)" "cid c' = cid c" for c'
    using assms(1,2) that by (auto simp: dbpool_inv_def distinct_map dest: inj_onD)
  then have idle: "\<not> inuse c'" if "c' \<in> set (pool p)" "cid c' = cid c" for c'
    using assms(3) that by blast
  have "\<forall>c' \<in> set (upd_conn (cid c) (set_inUse True) (pool p)). cid c' < next_cid p \<and> uses_ok (maxUseCount p) c'"
    using assms(1) idle by (intro all_upd_conn) (auto simp: dbpool_inv_def set_inUse_def uses_ok_def)
  with assms show ?thesis by (simp add: dbpool_inv_def)
qed

lemma idle_not_in_use:
  assumes "dbpool_inv p" "c \<in> set (pool p)" "\<not> inuse c"
  shows "cid c \<notin> set (in_use_ids (pool p))" "isEnabled p"
proof -
  show "cid c \<notin> set (in_use_ids (pool p))"
    using assms by (auto simp: in_use_ids_iff dbpool_inv_def distinct_map dest: inj_onD)
  show "isEnabled p" using assms by (auto simp: dbpool_inv_def)
qed

text \<open>What every hand-out guarantees, and what it leaves alone.\<close>

definition handed_out :: "dbpool \<Rightarrow> nat option \<Rightarrow> dbpool \<Rightarrow> bool" where
  "handed_out p r p' \<longleftrightarrow>
     dbpool_inv p' \<and> set (in_use_ids (pool p')) = set_option r \<union> set (in_use_ids (pool p))
     \<and> (\<forall>i \<in> set_option r. i \<notin> set (in_use_ids (pool p)) \<and> isEnabled p)
     \<and> isEnabled p' = isEnabled p \<and> minpoolsize_of p' = minpoolsize_of p
     \<and> length (pool p) \<le> length (pool p')"

lemma handed_out_take:
  assumes "dbpool_inv p" "c \<in> set (pool p)" "\<not> inuse c"
  shows "handed_out p (Some (cid c)) (p\<lparr>pool := upd_conn (cid c) (set_inUse True) (pool p)\<rparr>)"
proof -
  have "set (in_use_ids (upd_conn (cid c) (set_inUse True) (pool p))) =
      insert (cid c) (set (in_use_ids (pool p)))"
    using in_use_upd [of "cid c" "pool p" True] assms(2) by simp
  with idle_not_in_use [OF assms] dbpool_inv_take [OF assms] show ?thesis
    by (simp add: handed_out_def)
qed

lemma handed_out_none: "dbpool_inv p \<Longrightarrow> handed_out p None p"
  by (simp add: handed_out_def)

lemma findOrCreate_inv:
  assumes "dbpool_inv p"
  shows "handed_out p (fst (findOrCreateConnection env p)) (snd (findOrCreateConnection env p))"
proof (cases "find (\<lambda>c. \<not> inuse c) (pool p)")
  case (Some c)
  with find_SomeD [OF Some] assms show ?thesis
    by (simp add: findOrCreateConnection_def handed_out_take handed_out_none)
next
  case None
  show ?thesis
  proof (cases "createConnection env p")
    case (Pair out p1)
    show ?thesis
    proof (cases "\<exists>i. out = Created i")
      case False
      then have "p1 = p" using Pair by (auto simp: createConnection_def split: if_splits)
      with False Pair None assms show ?thesis
        by (cases out) (simp_all add: findOrCreateConnection_def handed_out_none)
    next
      case True
      then obtain i where i: "out = Created i" ..
      note C = createConnection_Created [OF Pair [unfolded i]]
      have inv1: "dbpool_inv p1" using createConnection_inv [OF assms, of env] Pair by simp
      have use1: "in_use_ids (pool p1) = in_use_ids (pool p)"
        using createConnection_use [of env p] Pair by simp
      have "handed_out p1 (Some i) (p1\<lparr>pool := upd_conn i (set_inUse True) (pool p1)\<rparr>)"
        using handed_out_take [OF inv1, of "new_helper i (maxUseCount p)"] C by (simp add: new_helper_def)
      then have "handed_out p (Some i) (p1\<lparr>pool := upd_conn i (set_inUse True) (pool p1)\<rparr>)"
        using C use1 by (simp add: handed_out_def)
      moreover have "handed_out p None p1" using inv1 use1 C by (simp add: handed_out_def)
      ultimately show ?thesis using None Pair i by (simp add: findOrCreateConnection_def)
    qed
  qed
qed

lemma newConnection_handed_out:
  assumes "dbpool_inv p" "newConnection t env p = (out, p')"
  shows "handed_out p (case out of New_ok i \<Rightarrow> Some i | _ \<Rightarrow> None) p'"
  using findOrCreate_inv [OF assms(1), of env] assms handed_out_none [OF assms(1)]
  by (cases "findOrCreateConnection env p")
    (auto simp: newConnection_def split: if_splits option.splits)

lemma newConnection_wake_handed_out:
  assumes "dbpool_inv p" "newConnection_wake n env p = (out, p')"
  shows "handed_out p (case out of New_ok i \<Rightarrow> Some i | _ \<Rightarrow> None) p'"
  using findOrCreate_inv [OF assms(1), of env] assms handed_out_none [OF assms(1)]
  by (cases "findOrCreateConnection env p")
    (auto simp: newConnection_wake_def split: if_splits option.splits)

lemma pool_inv_handed_out:
  assumes "pool_inv s" "handed_out (db s) (case out of New_ok i \<Rightarrow> Some i | _ \<Rightarrow> None) p'"
  shows "pool_inv (s\<lparr>db := p', handles := got_conn out @ handles s, waiters := w\<rparr>)"
  using assms by (cases out) (auto simp: pool_inv_def handed_out_def)

lemma find_conn_id:
  "distinct (map cid cs) \<Longrightarrow> c \<in> set cs \<Longrightarrow> find_conn (cid c) cs = Some c"
  by (induction cs) (auto simp: find_conn_def)

lemma dbpool_inv_filter: "dbpool_inv p \<Longrightarrow> dbpool_inv (p\<lparr>pool := filter P (pool p)\<rparr>)"
proof -
  assume inv: "dbpool_inv p"
  then have "length (filter P (pool p)) \<le> maxpoolsize_of p"
    by (intro order_trans [OF length_filter_le]) (simp add: dbpool_inv_def)
  with inv show ?thesis by (auto simp: dbpool_inv_def distinct_map_filter)
qed

lemma dbpool_inv_drop: "dbpool_inv p \<Longrightarrow> dbpool_inv (p\<lparr>pool := drop_conn i (pool p)\<rparr>)"
  unfolding drop_conn_def by (rule dbpool_inv_filter)

lemma length_drop_conn:
  "distinct (map cid cs) \<Longrightarrow> i \<in> cid ` set cs \<Longrightarrow> Suc (length (drop_conn i cs)) = length cs"
proof (induction cs)
  case (Cons c cs)
  show ?case
  proof (cases "cid c = i")
    case True
    with Cons.prems(1) have "drop_conn i cs = cs"
      unfolding drop_conn_def by (intro filter_True) (auto simp: image_iff)
    with True show ?thesis by (simp add: drop_conn_def)
  next
    case False
    with Cons show ?thesis by (auto simp: drop_conn_def)
  qed
qed simp

lemma release_in_use:
  assumes "dbpool_inv p" "i \<in> set (in_use_ids (pool p))"
  shows "\<exists>p'. release env i p = Inr p' \<and> dbpool_inv p'
    \<and> set (in_use_ids (pool p')) = set (in_use_ids (pool p)) - {i} \<and> isEnabled p' = isEnabled p
    \<and> minpoolsize_of p' = minpoolsize_of p \<and> maxpoolsize_of p' = maxpoolsize_of p
    \<and> (isEnabled p \<and> server_ok env \<and> minpoolsize_of p \<le> length (pool p)
         \<longrightarrow> minpoolsize_of p \<le> length (pool p'))"
proof -
  from assms(2) obtain c where c: "c \<in> set (pool p)" "inuse c" "cid c = i"
    by (auto simp: in_use_ids_iff)
  have d: "distinct (map cid (pool p))" using assms(1) by (simp add: dbpool_inv_def)
  have fc: "find_conn i (pool p) = Some c" using find_conn_id [OF d c(1)] c(3) by simp
  show ?thesis
  proof (cases "useCount c = 0 \<or> \<not> isEnabled p")
    case True
    let ?p1 = "p\<lparr>pool := drop_conn i (pool p)\<rparr>"
    have inv1: "dbpool_inv ?p1" by (rule dbpool_inv_drop [OF assms(1)])
    have use1: "set (in_use_ids (pool ?p1)) = set (in_use_ids (pool p)) - {i}"
      by (auto simp: in_use_ids_iff drop_conn_def)
    have len: "Suc (length (drop_conn i (pool p))) = length (pool p)"
      using length_drop_conn [OF d] c by blast
    have le: "length (pool p) \<le> maxpoolsize_of p" using assms(1) by (simp add: dbpool_inv_def)
    show ?thesis
    proof (cases "isEnabled p \<and> length (pool ?p1) < minpoolsize_of p")
      case False
      then have "release env i p = Inr ?p1" using True fc by (auto simp: release_def Let_def)
      with False inv1 use1 show ?thesis by (simp add: not_less)
    next
      case rec: True
      have "isEnabled (snd (createConnection env ?p1)) = isEnabled p"
        "minpoolsize_of (snd (createConnection env ?p1)) = minpoolsize_of p"
        "maxpoolsize_of (snd (createConnection env ?p1)) = maxpoolsize_of p"
        by (simp_all add: createConnection_def)
      moreover have "minpoolsize_of p \<le> length (pool (snd (createConnection env ?p1)))"
        if "isEnabled p \<and> server_ok env \<and> minpoolsize_of p \<le> length (pool p)"
        using that len le by (simp add: createConnection_def)
      moreover have "release env i p = Inr (snd (createConnection env ?p1))"
        using True fc rec by (simp add: release_def Let_def)
      ultimately show ?thesis
        using createConnection_inv [OF inv1, of env] createConnection_use [of env ?p1] use1 by simp
    qed
  next
    case False
    let ?p1 = "p\<lparr>pool := upd_conn i (set_inUse False) (pool p)\<rparr>"
    have uniq: "c' = c" if "c' \<in> set (pool p)" "cid c' = i" for c'
      using d c that by (auto simp: distinct_map dest: inj_onD)
    have "uses_ok (maxUseCount p) c" using assms(1) c(1) by (simp add: dbpool_inv_def)
    then have "uses_ok (maxUseCount p) (set_inUse False c)"
      using False c(2) by (auto simp: uses_ok_def set_inUse_def)
    then have "\<forall>c' \<in> set (upd_conn i (set_inUse False) (pool p)). cid c' < next_cid p \<and> uses_ok (maxUseCount p) c'"
      using assms(1) uniq by (intro all_upd_conn) (auto simp: dbpool_inv_def)
    then have "dbpool_inv ?p1" using assms(1) False by (simp add: dbpool_inv_def)
    moreover have "set (in_use_ids (pool ?p1)) = set (in_use_ids (pool p)) - {i}"
      using in_use_upd [of i "pool p" False] c by auto
    ultimately show ?thesis using False fc by (simp add: release_def)
  qed
qed

lemma disable_inv:
  "dbpool_inv p \<Longrightarrow> dbpool_inv (disable p) \<and> in_use_ids (pool (disable p)) = in_use_ids (pool p)"
  using dbpool_inv_filter [of p inuse]
  by (auto simp: disable_def dbpool_inv_def in_use_ids_def)

lemma pool_inv_exec: "pool_inv s \<Longrightarrow> pool_exec e s = Inr t \<Longrightarrow> pool_inv t"
proof (cases e)
  case (New tm env)
  assume inv: "pool_inv s" and ex: "pool_exec e s = Inr t"
  obtain out p where n: "newConnection tm env (db s) = (out, p)" by (cases "newConnection tm env (db s)")
  with inv newConnection_handed_out [OF _ n] have "handed_out (db s) (case out of New_ok i \<Rightarrow> Some i | _ \<Rightarrow> None) p"
    by (simp add: pool_inv_def)
  from pool_inv_handed_out [OF inv this] New ex n show ?thesis by auto
next
  case (Wake_new nt env)
  assume inv: "pool_inv s" and ex: "pool_exec e s = Inr t"
  obtain out p where n: "newConnection_wake nt env (db s) = (out, p)"
    by (cases "newConnection_wake nt env (db s)")
  with inv newConnection_wake_handed_out [OF _ n]
  have "handed_out (db s) (case out of New_ok i \<Rightarrow> Some i | _ \<Rightarrow> None) p"
    by (simp add: pool_inv_def)
  from pool_inv_handed_out [OF inv this] Wake_new ex n inv show ?thesis by (auto split: if_splits)
next
  case (Release_at k env)
  assume inv: "pool_inv s" and ex: "pool_exec e s = Inr t"
  show ?thesis
  proof (cases "k < length (handles s)")
    case True
    then have "handles s ! k \<in> set (in_use_ids (pool (db s)))"
      using inv nth_mem [OF True] by (simp add: pool_inv_def)
    from release_in_use [OF _ this, of env] inv obtain p' where
      "release env (handles s ! k) (db s) = Inr p'" "dbpool_inv p'"
      "set (in_use_ids (pool p')) = set (in_use_ids (pool (db s))) - {handles s ! k}"
      by (auto simp: pool_inv_def)
    with True inv ex Release_at show ?thesis by (auto simp: pool_inv_def)
  qed (use inv ex Release_at in auto)
next
  case Disable
  assume "pool_inv s" "pool_exec e s = Inr t"
  with Disable disable_inv [of "db s"] show ?thesis by (auto simp: pool_inv_def)
next
  case Enable
  assume "pool_inv s" "pool_exec e s = Inr t"
  with Enable show ?thesis by (auto simp: pool_inv_def enable_def dbpool_inv_def)
qed

lemma pool_exec_total: "pool_inv s \<Longrightarrow> \<exists>t. pool_exec e s = Inr t"
proof (cases e)
  case (Release_at k env)
  assume inv: "pool_inv s"
  show ?thesis
  proof (cases "k < length (handles s)")
    case True
    then have "handles s ! k \<in> set (in_use_ids (pool (db s)))"
      using inv nth_mem [OF True] by (simp add: pool_inv_def)
    with release_in_use [of "db s" _ env] inv True Release_at show ?thesis
      by (fastforce simp: pool_inv_def)
  qed (use Release_at in auto)
qed (auto split: prod.split)

lemma create_loop_inv:
  "dbpool_inv p \<Longrightarrow> in_use_ids (pool p) = [] \<Longrightarrow>
   dbpool_inv (create_loop n envs p) \<and> in_use_ids (pool (create_loop n envs p)) = []"
proof (induction n envs p rule: create_loop.induct)
  case (3 n env envs p)
  obtain out p' where c: "createConnection env p = (out, p')" by (cases "createConnection env p")
  have "dbpool_inv p'" "in_use_ids (pool p') = []"
    using createConnection_inv [OF "3.prems"(1), of env] createConnection_use [of env p] "3.prems"(2) c by auto
  with "3.IH" c show ?case by (cases out) auto
qed auto

interpretation pools: invariant_system pool_start pool_step pool_inv
proof unfold_locales
  show "pool_inv s" if "pool_start s" for s
  proof -
    have fresh: "dbpool_inv (create_loop n envs p) \<and> in_use_ids (pool (create_loop n envs p)) = []"
      if "pool p = []" "isEnabled p" for n envs p
      using that by (intro create_loop_inv) (simp_all add: dbpool_inv_def in_use_ids_def)
    from that have "dbpool_inv (db s) \<and> in_use_ids (pool (db s)) = []"
      unfolding pool_start_def
      by (auto simp: pool_of_dbdef_def createMinpoolsize_def fresh pool_of_string_def pool_of_max_def
          split: prod.split) (simp_all add: dbpool_inv_def in_use_ids_def)
    with that show ?thesis by (simp add: pool_inv_def pool_start_def)
  qed
  show "pool_inv t" if "pool_inv s" "pool_step s t" for s t
    using that pool_inv_exec by (auto elim: pool_stepE)
qed

lemma createConnection_max: "maxpoolsize_of (snd (createConnection env p)) = maxpoolsize_of p"
  by (simp add: createConnection_def)

lemma findOrCreate_max: "maxpoolsize_of (snd (findOrCreateConnection env p)) = maxpoolsize_of p"
  using createConnection_max [of env p]
  by (auto simp: findOrCreateConnection_def split: option.split prod.split create_out.split)

text \<open>No operation changes the maximum a pool was built with.\<close>

lemma pool_exec_max: "pool_exec e s = Inr t \<Longrightarrow> maxpoolsize_of (db t) = maxpoolsize_of (db s)"
proof (cases e)
  case (New tm env)
  assume "pool_exec e s = Inr t"
  with New findOrCreate_max [of env "db s"] show ?thesis
    by (cases "findOrCreateConnection env (db s)")
      (auto simp: newConnection_def split: if_splits option.splits prod.splits)
next
  case (Wake_new n env)
  assume "pool_exec e s = Inr t"
  with Wake_new findOrCreate_max [of env "db s"] show ?thesis
    by (cases "findOrCreateConnection env (db s)")
      (auto simp: newConnection_wake_def split: if_splits option.splits prod.splits)
next
  case (Release_at k env)
  assume "pool_exec e s = Inr t"
  with Release_at show ?thesis
    by (auto simp: release_def bind_result_def Let_def createConnection_max
        split: if_splits option.splits)
qed (auto simp: disable_def enable_def)

section \<open>Properties\<close>

lemma pool_uses: "pool_inv s \<Longrightarrow> i \<in> set (handles s) \<Longrightarrow> \<exists>c \<in> set (pool (db s)). cid c = i \<and> inuse c"
  by (auto simp: pool_inv_def in_use_ids_iff)

text \<open>
  C2: The pool is safe under every interleaving of callers, time-outs, releases, \<open>disable\<close>
  and \<open>enable\<close>, and every failure of the server or the hooks: no connection is handed to two
  clients, every handed-out connection is in the pool and marked in use and nothing else is,
  the pool never grows beyond its maximum, and no operation touches a connection that was
  deleted.
\<close>

theorem pool_exclusive_bounded:
  assumes "reach pool_start pool_step s"
  shows "distinct (handles s)
    \<and> set (handles s) = {cid c | c. c \<in> set (pool (db s)) \<and> inuse c}
    \<and> distinct (map cid (pool (db s)))
    \<and> length (pool (db s)) \<le> maxpoolsize_of (db s)
    \<and> (\<exists>t. pool_exec e s = Inr t)"
proof -
  have inv: "pool_inv s" using assms by (rule pools.inv_reach)
  have "set (in_use_ids (pool (db s))) = {cid c | c. c \<in> set (pool (db s)) \<and> inuse c}"
    by (auto simp: in_use_ids_def)
  with inv show ?thesis
    using pool_exec_total [OF inv, of e] by (simp add: pool_inv_def dbpool_inv_def)
qed

definition env_ok :: pool_env where
  "env_ok = \<lparr>server_ok = True, hook_ok = True\<rparr>"

definition fresh_sys :: "int \<Rightarrow> poolsys" where
  "fresh_sys m = \<lparr>db = pool_of_max m ''dbname=w'' 1, handles = [], waiters = 0\<rparr>"

lemma fresh_sys_reach: "reach pool_start pool_step (fresh_sys m)"
  by (rule reach_start) (simp add: pool_start_def fresh_sys_def, blast)

lemmas pool_eval = fresh_sys_def pool_of_max_def size_of_int_def newConnection_def
  findOrCreateConnection_def createConnection_def new_helper_def upd_conn_def set_inUse_def env_ok_def

theorem pool_exclusive_bounded_witness:
  "\<exists>s. pool_exec (New 0 env_ok) (fresh_sys 2) = Inr s \<and> handles s = [0] \<and> distinct (handles s)"
proof -
  obtain s where s: "pool_exec (New 0 env_ok) (fresh_sys 2) = Inr s" "handles s = [0]"
    by (simp add: pool_eval)
  with pool_exclusive_bounded [OF reach_step [OF fresh_sys_reach pool_step_exec [OF s(1)]]]
  show ?thesis by auto
qed

text \<open>
  A disabled pool hands out nothing, also not to a caller that was already waiting, and
  keeps only the connections that clients still hold, so it is empty when they have all been
  released.
\<close>

theorem disabled_pool_drains:
  assumes "reach pool_start pool_step s" "\<not> isEnabled (db s)"
  shows "fst (newConnection t env (db s)) = Ex_disabled
    \<and> fst (newConnection_wake n env (db s)) = Ex_max_use
    \<and> set (handles s) = cid ` set (pool (db s))"
proof -
  have inv: "pool_inv s" using assms(1) by (rule pools.inv_reach)
  have "fst (newConnection_wake n env (db s)) = Ex_max_use"
  proof -
    obtain out p where w: "newConnection_wake n env (db s) = (out, p)"
      by (cases "newConnection_wake n env (db s)")
    with newConnection_wake_handed_out [OF _ w] inv assms(2) have "\<forall>i. out \<noteq> New_ok i"
      by (auto simp: handed_out_def pool_inv_def)
    with w show ?thesis by (auto simp: newConnection_wake_def split: if_splits prod.splits option.splits)
  qed
  moreover have "set (handles s) = cid ` set (pool (db s))"
    using inv assms(2) by (auto simp: pool_inv_def dbpool_inv_def in_use_ids_def)
  ultimately show ?thesis using assms(2) by (simp add: newConnection_def)
qed

theorem disabled_pool_drains_witness:
  "\<exists>s. pool_exec Disable (fresh_sys 2) = Inr s \<and> fst (newConnection 0 env_ok (db s)) = Ex_disabled"
proof -
  obtain s where s: "pool_exec Disable (fresh_sys 2) = Inr s" "\<not> isEnabled (db s)"
    by (simp add: pool_eval disable_def)
  with disabled_pool_drains [OF reach_step [OF fresh_sys_reach pool_step_exec [OF s(1)]]]
  show ?thesis by auto
qed

text \<open>
  Connections are recycled: with a positive use count limit no connection is handed out
  more often than the limit, an idle one in the pool always has a use left, and a release
  with the limit used up, while the server answers, keeps an enabled pool at its minimum
  size.
\<close>

theorem pool_recycles:
  assumes "reach pool_start pool_step s" "i \<in> set (handles s)"
  shows "(\<forall>c \<in> set (pool (db s)). uses_ok (maxUseCount (db s)) c)
    \<and> (\<exists>p'. release env i (db s) = Inr p'
        \<and> (\<forall>c \<in> set (pool p'). inuse c \<longrightarrow> cid c \<noteq> i)
        \<and> (isEnabled (db s) \<and> server_ok env \<and> minpoolsize_of (db s) \<le> length (pool (db s))
            \<longrightarrow> minpoolsize_of (db s) \<le> length (pool p')))"
proof -
  have inv: "pool_inv s" using assms(1) by (rule pools.inv_reach)
  with assms(2) release_in_use [of "db s" i env] obtain p' where "release env i (db s) = Inr p'"
    "set (in_use_ids (pool p')) = set (in_use_ids (pool (db s))) - {i}"
    "isEnabled (db s) \<and> server_ok env \<and> minpoolsize_of (db s) \<le> length (pool (db s))
       \<longrightarrow> minpoolsize_of (db s) \<le> length (pool p')"
    by (auto simp: pool_inv_def)
  moreover from this(2) have "\<forall>c \<in> set (pool p'). inuse c \<longrightarrow> cid c \<noteq> i"
    using in_use_ids_iff [of i "pool p'"] by auto
  ultimately show ?thesis using inv by (auto simp: pool_inv_def dbpool_inv_def)
qed

theorem pool_recycles_witness:
  "\<exists>s p'. pool_exec (New 0 env_ok) (fresh_sys 2) = Inr s \<and> release env_ok 0 (db s) = Inr p'"
proof -
  obtain s where s: "pool_exec (New 0 env_ok) (fresh_sys 2) = Inr s" "0 \<in> set (handles s)"
    by (simp add: pool_eval)
  with pool_recycles [OF reach_step [OF fresh_sys_reach pool_step_exec [OF s(1)]] s(2), of env_ok]
  show ?thesis by auto
qed

text \<open>
  The destructor's test is the wrong way round: in every reachable state in which all
  clients have released their connections it deletes none of them, so all connections still
  in the pool are leaked.
\<close>

theorem pool_destructor_leaks:
  assumes "reach pool_start pool_step s" "handles s = []"
  shows "pool_dtor (db s) = []"
  using pools.inv_reach [OF assms(1)] assms(2)
  by (auto simp: pool_inv_def pool_dtor_def in_use_ids_def)

theorem pool_destructor_leaks_witness:
  "\<exists>s t. pool_exec (New 0 env_ok) (fresh_sys 2\<lparr>db := pool_of_max 2 ''dbname=w'' 5\<rparr>) = Inr s
    \<and> pool_exec (Release_at 0 env_ok) s = Inr t \<and> length (pool (db t)) = 1 \<and> pool_dtor (db t) = []"
proof -
  let ?s0 = "fresh_sys 2\<lparr>db := pool_of_max 2 ''dbname=w'' 5\<rparr>"
  have r: "reach pool_start pool_step ?s0"
    by (rule reach_start) (simp add: pool_start_def fresh_sys_def, blast)
  obtain s where s: "pool_exec (New 0 env_ok) ?s0 = Inr s" "handles s = [0]" "isEnabled (db s)"
    "pool (db s) = [\<lparr>cid = 0, useCount = 4, inuse = True\<rparr>]"
    by (simp add: pool_eval)
  obtain t where t: "pool_exec (Release_at 0 env_ok) s = Inr t" "handles t = []" "length (pool (db t)) = 1"
    using s by (simp add: release_def find_conn_def upd_conn_def)
  have "reach pool_start pool_step s" using r pool_step_exec [OF s(1)] by (rule reach_step)
  then have "reach pool_start pool_step t" using pool_step_exec [OF t(1)] by (rule reach_step)
  from pool_destructor_leaks [OF this t(2)] s(1) t(1,3) show ?thesis by blast
qed

text \<open>
  \<open>newConnection\<close> never throws \<open>DbConnectionPoolCreateEx\<close>, which its documentation lists:
  the catch-all of \<open>findOrCreateConnection\<close> turns a server failure into a null pointer, and
  the caller sees \<open>DbConnectionPoolMaxUseEx\<close> or a wait, even with an empty pool.
\<close>

theorem create_failure_swallowed:
  "fst (newConnection t env p) \<noteq> Ex_create \<and> fst (newConnection_wake n env p) \<noteq> Ex_create
   \<and> (isEnabled p \<and> pool p = [] \<and> \<not> server_ok env \<longrightarrow> newConnection_wake True env p = (Ex_max_use, p))"
  by (auto simp: newConnection_def newConnection_wake_def findOrCreateConnection_def createConnection_def
      split: prod.split option.split)

theorem create_failure_swallowed_witness:
  "newConnection_wake True \<lparr>server_ok = False, hook_ok = True\<rparr> (pool_of_string []) =
     (Ex_max_use, pool_of_string [])"
  using create_failure_swallowed [of 0 "\<lparr>server_ok = False, hook_ok = True\<rparr>" "pool_of_string []" True]
  by (simp add: pool_of_string_def)

end
