(* ===== verification/DbManager.thy ===== *)
theory DbManager
  imports DbPool
begin

text \<open>
  \<open>wdb2ts::DbManager\<close> (\<open>src/src/mod_wdb2ts/DbManager.cpp\<close>): one pool for every database of the
  setup, and the choice of the pool by the id of the database. What the server does while the
  pools are built is an argument, as in \<open>DbPool\<close>; the transactor of a \<open>WciConnection\<close> belongs
  to libpqxx and is not modelled.
\<close>

section \<open>The manager\<close>

record dbmanager =
  pools_of :: "(string, dbpool) omap"
  dbSetup :: "(string, dbdef) omap"
  defaultDbId :: string

text \<open>The sizes a section of the setup leaves out.\<close>

definition fill_dbdef :: "dbdef \<Rightarrow> dbdef" where
  "fill_dbdef d0 =
     (let d1 = (if maxpoolsize d0 \<le> 0 then d0\<lparr>maxpoolsize := 30\<rparr> else d0);
          d2 = (if maxusecount d1 \<le> 0 then d1\<lparr>maxusecount := 100\<rparr> else d1)
      in if minpoolsize d2 \<le> 0 then d2\<lparr>minpoolsize := 0\<rparr> else d2)"

definition dbmanager_new :: "(string \<Rightarrow> pool_env list) \<Rightarrow> (string, dbdef) omap \<Rightarrow> dbmanager" where
  "dbmanager_new envs ds =
     fold (\<lambda>(nm, d) m.
        m\<lparr>defaultDbId := (if defaultDbDef d then nm else defaultDbId m),
          pools_of := om_put nm (pool_of_dbdef (envs nm) (fill_dbdef d)) (pools_of m)\<rparr>)
       ds \<lparr>pools_of = [], dbSetup = ds, defaultDbId = []\<rparr>"

definition manager_disable :: "dbmanager \<Rightarrow> dbmanager" where
  "manager_disable m = m\<lparr>pools_of := map (\<lambda>(nm, p). (nm, disable p)) (pools_of m)\<rparr>"

text \<open>
  \<open>newConnection\<close> up to the wait of the pool. The exceptions of the pool go through, that of a
  disabled pool as a \<open>logic_error\<close>.
\<close>

datatype man_out = Pool_out new_out | Man_error string

definition the_id :: "dbmanager \<Rightarrow> string \<Rightarrow> string" where
  "the_id m dbid = (if dbid = [] then defaultDbId m else dbid)"

definition manager_newConnection :: "string \<Rightarrow> nat \<Rightarrow> pool_env \<Rightarrow> dbmanager \<Rightarrow> man_out \<times> dbmanager" where
  "manager_newConnection dbid timeout env m =
     (let i = the_id m dbid
      in if i = [] then (Man_error ''wdb2ts::DbManager::newConnection: No database id!'', m)
         else (case map_of (pools_of m) i of
                 None \<Rightarrow> (Man_error (''wdb2ts::DbManager::newConnection: No database definition for database id <''
                            @ i @ ''>!''), m)
               | Some p \<Rightarrow>
                   (let (r, p') = newConnection timeout env p
                    in (if r = Ex_disabled then Man_error ''Connection pool disabled!'' else Pool_out r,
                        m\<lparr>pools_of := om_put i p' (pools_of m)\<rparr>))))"

text \<open>The checks of \<open>newWciConnection\<close> before it takes a connection; the result also has the user.\<close>

definition manager_newWciConnection ::
  "string \<Rightarrow> nat \<Rightarrow> pool_env \<Rightarrow> dbmanager \<Rightarrow> (man_out \<times> string) \<times> dbmanager"
where
  "manager_newWciConnection dbid timeout env m =
     (let i = the_id m dbid
      in if i = [] then ((Man_error ''wdb2ts::DbManager::newWciConnection: No database id!'', []), m)
         else (case map_of (dbSetup m) i of
                 None \<Rightarrow> ((Man_error (''wdb2ts::DbManager::newWciConnection: No database definition for database id <''
                             @ i @ ''>!''), []), m)
               | Some d \<Rightarrow>
                   if wciuser d = []
                   then ((Man_error (''wdb2ts::DbManager::newWciConnection: Missing wciuser id for database id <''
                            @ i @ ''>!''), []), m)
                   else (let (r, m') = manager_newConnection dbid timeout env m in ((r, wciuser d), m'))))"

section \<open>The pools of a manager\<close>

definition add_pool :: "(string \<Rightarrow> pool_env list) \<Rightarrow> string \<times> dbdef \<Rightarrow> dbmanager \<Rightarrow> dbmanager" where
  "add_pool envs nd m =
     m\<lparr>defaultDbId := (if defaultDbDef (snd nd) then fst nd else defaultDbId m),
       pools_of := om_put (fst nd) (pool_of_dbdef (envs (fst nd)) (fill_dbdef (snd nd))) (pools_of m)\<rparr>"

lemma dbmanager_fold:
  "dbmanager_new envs ds = fold (add_pool envs) ds \<lparr>pools_of = [], dbSetup = ds, defaultDbId = []\<rparr>"
  by (simp add: dbmanager_new_def add_pool_def [abs_def] case_prod_unfold)

lemma add_pools_find:
  "distinct (map fst ds) \<Longrightarrow>
   map_of (pools_of (fold (add_pool envs) ds m)) nm =
     (case map_of ds nm of
        None \<Rightarrow> map_of (pools_of m) nm
      | Some d \<Rightarrow> Some (pool_of_dbdef (envs nm) (fill_dbdef d)))"
proof (induction ds arbitrary: m)
  case (Cons nd ds)
  have "map_of ds (fst nd) = None" using Cons.prems by (simp add: map_of_eq_None_iff)
  with Cons.IH [of "add_pool envs nd m"] Cons.prems show ?case
    by (auto simp: add_pool_def split: option.split)
qed simp

lemma add_pools_default:
  "defaultDbId (fold (add_pool envs) ds m) =
     (case filter (\<lambda>nd. defaultDbDef (snd nd)) ds of [] \<Rightarrow> defaultDbId m | nds \<Rightarrow> fst (last nds))"
  by (induction ds arbitrary: m) (auto simp: add_pool_def split: list.split)

lemma add_pools_setup: "dbSetup (fold (add_pool envs) ds m) = dbSetup m"
  by (induction ds arbitrary: m) (auto simp: add_pool_def)

lemma manager_find:
  "om_wf ds \<Longrightarrow>
   map_of (pools_of (dbmanager_new envs ds)) nm =
     map_option (\<lambda>d. pool_of_dbdef (envs nm) (fill_dbdef d)) (map_of ds nm)"
  using add_pools_find [OF omap.keys_distinct, of ds] by (simp add: dbmanager_fold split: option.split)

lemma manager_default:
  "defaultDbId (dbmanager_new envs ds) =
     (case filter (\<lambda>nd. defaultDbDef (snd nd)) ds of [] \<Rightarrow> [] | nds \<Rightarrow> fst (last nds))"
  by (simp add: dbmanager_fold add_pools_default split: list.split)

text \<open>The greatest number of connections of the pool for a definition.\<close>

definition pool_limit :: "dbdef \<Rightarrow> int" where
  "pool_limit d = max (if maxpoolsize d \<le> 0 then 30 else maxpoolsize d) (minpoolsize d)"

lemma create_loop_max: "maxpoolsize_of (create_loop n envs p) = maxpoolsize_of p"
proof (induction n envs p rule: create_loop.induct)
  case (3 n env envs p)
  obtain out p' where c: "createConnection env p = (out, p')" by (cases "createConnection env p")
  then have "maxpoolsize_of p' = maxpoolsize_of p" using createConnection_max [of env p] by simp
  with 3 c show ?case by (cases out) auto
qed auto

lemma filled_pool_max:
  "pool_limit d \<le> int_max \<Longrightarrow> maxpoolsize_of (pool_of_dbdef envs (fill_dbdef d)) = nat (pool_limit d)"
  by (auto simp: pool_of_dbdef_def pool_bounds_def createMinpoolsize_def create_loop_max size_of_int_def
      int_max_def Let_def fill_dbdef_def pool_limit_def max_def)

end
