(* ===== verification/Notes.thy ===== *)
theory Notes
  imports Prelude
begin

text \<open>
  Notes, the communication between request handlers: \<open>NoteHelper\<close> (one per application, the
  listeners and what they were last told) and \<open>NoteManager\<close> (the current notes, some of them
  kept on disk), from \<open>src/src/mod_wdb2ts/NoteManager.cpp\<close>. A note is its content and its
  version; listeners are known by their address. The disk and the virtual \<open>saveNote\<close> and
  \<open>loadNote\<close> of the notes are arguments.
\<close>

record 'n note_tag =
  tag :: 'n
  nversion :: int

section \<open>NoteHelper\<close>

record 'n listener_element =
  listeners :: "nat list"
  lnote :: "'n note_tag option"

type_synonym 'n helper = "(string, 'n listener_element) omap"

text \<open>A call \<open>noteUpdated(name, note)\<close> of a listener.\<close>

type_synonym 'n call = "nat \<times> string \<times> 'n note_tag"

definition listener_element :: "nat \<Rightarrow> 'n listener_element" where
  "listener_element l = \<lparr>listeners = [l], lnote = None\<rparr>"

definition element_calls :: "string \<Rightarrow> 'n listener_element \<Rightarrow> 'n call list" where
  "element_calls noteName el =
     (case lnote el of None \<Rightarrow> [] | Some n \<Rightarrow> map (\<lambda>l. (l, noteName, n)) (listeners el))"

definition addListener :: "nat \<Rightarrow> 'n listener_element \<Rightarrow> 'n listener_element" where
  "addListener l el = (if l \<in> set (listeners el) then el else el\<lparr>listeners := listeners el @ [l]\<rparr>)"

text \<open>
  \<open>removeListener\<close> erases the element the loop stands on and then advances the erased
  iterator: removing a listener that is there has undefined behaviour.
\<close>

definition removeListener :: "nat \<Rightarrow> 'n listener_element \<Rightarrow> 'n listener_element result" where
  "removeListener l el = (if l \<in> set (listeners el) then Inl Undefined_behaviour else Inr el)"

definition element_update :: "'n note_tag \<Rightarrow> 'n listener_element \<Rightarrow> bool \<times> 'n listener_element" where
  "element_update n el =
     (case lnote el of
        None \<Rightarrow> (True, el\<lparr>lnote := Some n\<rparr>)
      | Some m \<Rightarrow> if nversion m \<noteq> nversion n then (True, el\<lparr>lnote := Some n\<rparr>) else (False, el))"

definition updateNote :: "'n helper \<Rightarrow> string \<Rightarrow> 'n note_tag \<Rightarrow> bool \<times> 'n helper" where
  "updateNote h noteName n =
     (case map_of h noteName of
        None \<Rightarrow> (False, h)
      | Some el \<Rightarrow> (let (b, el') = element_update n el in (b, om_put noteName el' h)))"

definition callListeners :: "'n helper \<Rightarrow> string list \<Rightarrow> 'n call list" where
  "callListeners h noteList =
     concat (map (\<lambda>nm. case map_of h nm of None \<Rightarrow> [] | Some el \<Rightarrow> element_calls nm el) noteList)"

definition addNoteListener :: "'n helper \<Rightarrow> string \<Rightarrow> nat \<Rightarrow> 'n helper" where
  "addNoteListener h noteName l =
     (case map_of h noteName of
        None \<Rightarrow> om_put noteName (listener_element l) h
      | Some el \<Rightarrow> om_put noteName (addListener l el) h)"

definition removeNoteListener :: "'n helper \<Rightarrow> string \<Rightarrow> nat \<Rightarrow> 'n helper result" where
  "removeNoteListener h noteName l =
     (case map_of h noteName of
        None \<Rightarrow> Inr h
      | Some el \<Rightarrow>
          bind_result (removeListener l el) (\<lambda>el'.
            Inr (if listeners el' = [] then om_erase noteName h else om_put noteName el' h)))"

definition removeAllNoteListener :: "'n helper \<Rightarrow> string \<Rightarrow> 'n helper" where
  "removeAllNoteListener h noteName =
     (case map_of h noteName of None \<Rightarrow> h | Some _ \<Rightarrow> om_erase noteName h)"

section \<open>NoteManager\<close>

text \<open>\<open>modifiedTime\<close> is \<^const>\<open>None\<close> for the special value of a default \<open>ptime\<close>.\<close>

record 'n persistent_note =
  pfile :: string
  modifiedTime :: "int option"
  pnote :: "'n note_tag"
  isLoaded :: bool

record 'n note_manager =
  persistentNotePath :: string
  persistentNotes :: "(string, 'n persistent_note) omap"
  plain_notes :: "(string, 'n note_tag) omap"

text \<open>
  The outside world: modification time and contents of a file (\<^const>\<open>None\<close> when it does not
  exist or the access fails), and the virtual functions. \<open>save\<close> is \<^const>\<open>None\<close> when it
  throws, \<open>load\<close> is \<^const>\<open>None\<close> inside for the null pointer.
\<close>

record 'n note_world =
  file_mtime :: "string \<Rightarrow> int option"
  file_read :: "string \<Rightarrow> string option"
  save_note :: "'n \<Rightarrow> (bool \<times> string) option"
  load_note :: "'n \<Rightarrow> string \<Rightarrow> 'n option result"

definition note_manager :: "string \<Rightarrow> 'n note_manager" where
  "note_manager p = \<lparr>persistentNotePath = p, persistentNotes = [], plain_notes = []\<rparr>"

definition setPersistentNotePath :: "'n note_manager \<Rightarrow> string \<Rightarrow> 'n note_manager" where
  "setPersistentNotePath m p = m\<lparr>persistentNotePath := p\<rparr>"

definition persistent_note :: "string \<Rightarrow> 'n \<Rightarrow> 'n persistent_note" where
  "persistent_note filename n =
     \<lparr>pfile = filename, modifiedTime = None, pnote = \<lparr>tag = n, nversion = 0\<rparr>, isLoaded = False\<rparr>"

definition registerPersistentNote :: "'n note_manager \<Rightarrow> string \<Rightarrow> 'n option \<Rightarrow> 'n note_manager" where
  "registerPersistentNote m noteName n =
     (case n of
        None \<Rightarrow> m
      | Some c \<Rightarrow>
          (case map_of (persistentNotes m) noteName of
             None \<Rightarrow>
               m\<lparr>persistentNotes :=
                   om_put noteName (persistent_note (persistentNotePath m @ ''/'' @ noteName @ ''.note'') c)
                     (persistentNotes m)\<rparr>
           | Some _ \<Rightarrow> m))"

text \<open>One round of \<open>loadPersistentNotes\<close>; an exception of \<open>loadNote\<close> is not caught.\<close>

definition load_one :: "'n note_world \<Rightarrow> 'n persistent_note \<Rightarrow> 'n persistent_note result" where
  "load_one w p =
     (if isLoaded p then Inr p
      else case file_mtime w (pfile p) of
             None \<Rightarrow> Inr p
           | Some mtime \<Rightarrow>
               if (case modifiedTime p of None \<Rightarrow> False | Some t \<Rightarrow> mtime \<le> t) then Inr p
               else (case file_read w (pfile p) of
                       None \<Rightarrow> Inr p
                     | Some buf \<Rightarrow>
                         bind_result (load_note w (tag (pnote p)) buf) (\<lambda>r.
                           case r of
                             None \<Rightarrow> Inr p
                           | Some n \<Rightarrow>
                               Inr (p\<lparr>modifiedTime := Some mtime, pnote := \<lparr>tag = n, nversion = 0\<rparr>,
                                      isLoaded := True\<rparr>))))"

fun load_all ::
  "'n note_world \<Rightarrow> (string, 'n persistent_note) omap \<Rightarrow> (string, 'n persistent_note) omap \<times> unit result"
where
  "load_all w [] = ([], Inr ())"
| "load_all w ((nm, p) # ps) =
     (case load_one w p of
        Inl e \<Rightarrow> ((nm, p) # ps, Inl e)
      | Inr p' \<Rightarrow> (let (ps', r) = load_all w ps in ((nm, p') # ps', r)))"

definition loadPersistentNotes :: "'n note_world \<Rightarrow> 'n note_manager \<Rightarrow> 'n note_manager \<times> unit result" where
  "loadPersistentNotes w m =
     (let (ps, r) = load_all w (persistentNotes m) in (m\<lparr>persistentNotes := ps\<rparr>, r))"

text \<open>Offer notes to the helper, collecting the names of those it took.\<close>

fun offer_notes :: "(string \<times> 'n note_tag) list \<Rightarrow> 'n helper \<Rightarrow> string list \<times> 'n helper" where
  "offer_notes [] h = ([], h)"
| "offer_notes ((nm, n) # ns) h =
     (let (b, h1) = updateNote h nm n; (upd, h2) = offer_notes ns h1
      in ((if b then nm # upd else upd), h2))"

definition checkForUpdatedNotes ::
  "'n note_world \<Rightarrow> 'n note_manager \<Rightarrow> 'n helper option
     \<Rightarrow> 'n note_manager \<times> 'n helper option \<times> 'n call list result"
where
  "checkForUpdatedNotes w m noteHelper =
     (case loadPersistentNotes w m of
        (m1, Inl e) \<Rightarrow> (m1, noteHelper, Inl e)
      | (m1, Inr _) \<Rightarrow>
          (case noteHelper of
             None \<Rightarrow> (m1, None, Inr [])
           | Some h \<Rightarrow>
               (let (upd, h') = offer_notes (map (\<lambda>(nm, p). (nm, pnote p)) (persistentNotes m1)
                                             @ plain_notes m1) h
                in (m1, Some h', Inr (callListeners h' upd)))))"

text \<open>
  \<open>setNote\<close>. When \<open>saveNote\<close> returns false the note is deleted although the smart pointer
  owns it: it is deleted twice. The second component is what is written to disk.
\<close>

definition setNote ::
  "'n note_world \<Rightarrow> 'n note_manager \<Rightarrow> string \<Rightarrow> 'n \<Rightarrow> ('n note_manager \<times> (string \<times> string) option) result"
where
  "setNote w m noteName n =
     (case map_of (persistentNotes m) noteName of
        Some p \<Rightarrow>
          (let m' = m\<lparr>persistentNotes :=
                 om_put noteName (p\<lparr>pnote := \<lparr>tag = n, nversion = nversion (pnote p) + 1\<rparr>\<rparr>) (persistentNotes m)\<rparr>
           in case save_note w n of
                None \<Rightarrow> Inr (m', None)
              | Some (ok, text) \<Rightarrow>
                  if \<not> ok then Inl Undefined_behaviour else Inr (m', Some (pfile p, text)))
      | None \<Rightarrow>
          (let v = (case map_of (plain_notes m) noteName of None \<Rightarrow> 0 | Some old \<Rightarrow> nversion old + 1)
           in Inr (m\<lparr>plain_notes := om_put noteName \<lparr>tag = n, nversion = v\<rparr> (plain_notes m)\<rparr>, None)))"

definition getNote :: "'n note_manager \<Rightarrow> string \<Rightarrow> 'n note_tag option" where
  "getNote m noteName =
     (case map_of (persistentNotes m) noteName of
        Some p \<Rightarrow> if isLoaded p then Some (pnote p) else None
      | None \<Rightarrow> map_of (plain_notes m) noteName)"

section \<open>Offering notes\<close>

lemma updateNote_find:
  "map_of (snd (updateNote h nm n)) k =
     (if k = nm then map_option (\<lambda>el. snd (element_update n el)) (map_of h nm) else map_of h k)"
  by (auto simp: updateNote_def split: option.splits prod.splits)

lemma updateNote_wf: "om_wf h \<Longrightarrow> om_wf (snd (updateNote h nm n))"
  by (auto simp: updateNote_def split: option.splits prod.splits)

lemma offer_wf: "om_wf h \<Longrightarrow> om_wf (snd (offer_notes ns h))"
proof (induction ns h rule: offer_notes.induct)
  case (2 nm n ns h)
  obtain b h1 where u: "updateNote h nm n = (b, h1)" by (cases "updateNote h nm n")
  with updateNote_wf [OF "2.prems", of nm n] have "om_wf h1" by simp
  from "2.IH" [OF u [symmetric] refl this] u show ?case
    by (cases "offer_notes ns h1") simp
qed simp

text \<open>With distinct names, each note is offered to its own element only.\<close>

lemma offer_find:
  "distinct (map fst ns) \<Longrightarrow>
   map_of (snd (offer_notes ns h)) k =
     (case map_of ns k of
        None \<Rightarrow> map_of h k
      | Some n \<Rightarrow> map_option (\<lambda>el. snd (element_update n el)) (map_of h k))"
proof (induction ns h rule: offer_notes.induct)
  case (2 nm n ns h)
  obtain b h1 where u: "updateNote h nm n = (b, h1)" by (cases "updateNote h nm n")
  obtain upd h2 where o: "offer_notes ns h1 = (upd, h2)" by (cases "offer_notes ns h1")
  have h1: "map_of h1 k = (if k = nm then map_option (\<lambda>el. snd (element_update n el)) (map_of h nm) else map_of h k)" for k
    using updateNote_find [of h nm n k] u by simp
  have "nm \<notin> dom (map_of ns)" using "2.prems" by (simp add: dom_map_of_conv_image_fst)
  then have "map_of ns nm = None" by auto
  with "2.IH" [OF u [symmetric] refl] "2.prems" u o h1 show ?case
    by (auto split: option.split)
qed (simp split: option.split)

lemma offer_names:
  "distinct (map fst ns) \<Longrightarrow>
   set (fst (offer_notes ns h)) =
     {nm. \<exists>n el. map_of ns nm = Some n \<and> map_of h nm = Some el \<and> fst (element_update n el)}
   \<and> distinct (fst (offer_notes ns h))"
proof (induction ns h rule: offer_notes.induct)
  case (2 nm n ns h)
  obtain b h1 where u: "updateNote h nm n = (b, h1)" by (cases "updateNote h nm n")
  obtain upd h2 where o: "offer_notes ns h1 = (upd, h2)" by (cases "offer_notes ns h1")
  have h1: "map_of h1 k = map_of h k" if "k \<noteq> nm" for k
    using updateNote_find [of h nm n k] u that by simp
  have b: "b \<longleftrightarrow> (\<exists>el. map_of h nm = Some el \<and> fst (element_update n el))"
    using u by (auto simp: updateNote_def split: option.splits prod.splits)
  have none: "map_of ns nm = None"
    using "2.prems" by (simp add: map_of_eq_None_iff)
  have IH: "set upd = {k. \<exists>n el. map_of ns k = Some n \<and> map_of h1 k = Some el \<and> fst (element_update n el)}"
    "distinct upd"
    using "2.IH" [OF u [symmetric] refl] "2.prems" o by auto
  have upd: "k \<in> set upd \<longleftrightarrow> k \<noteq> nm \<and> (\<exists>n el. map_of ns k = Some n \<and> map_of h k = Some el \<and> fst (element_update n el))" for k
    using IH(1) none h1 by (cases "k = nm") auto
  show ?case using u o b upd IH(2) by (auto split: if_splits)
qed simp

section \<open>Plain notes: nothing missed, nothing repeated\<close>

record 'n note_sys =
  mgr :: "'n note_manager"
  hlp :: "'n helper"

datatype 'n note_event =
    Set_note string 'n
  | Check
  | Add_listener string nat
  | Remove_all string

fun note_exec :: "'n note_world \<Rightarrow> 'n note_event \<Rightarrow> 'n note_sys \<Rightarrow> ('n note_sys \<times> 'n call list) result" where
  "note_exec w (Set_note nm n) s =
     bind_result (setNote w (mgr s) nm n) (\<lambda>(m, d). Inr (s\<lparr>mgr := m\<rparr>, []))"
| "note_exec w Check s =
     (case checkForUpdatedNotes w (mgr s) (Some (hlp s)) of
        (m, h, Inl e) \<Rightarrow> Inl e
      | (m, h, Inr calls) \<Rightarrow> Inr (s\<lparr>mgr := m, hlp := the h\<rparr>, calls))"
| "note_exec w (Add_listener nm l) s = Inr (s\<lparr>hlp := addNoteListener (hlp s) nm l\<rparr>, [])"
| "note_exec w (Remove_all nm) s = Inr (s\<lparr>hlp := removeAllNoteListener (hlp s) nm\<rparr>, [])"

inductive note_step :: "'n note_world \<Rightarrow> 'n note_sys \<Rightarrow> 'n note_sys \<Rightarrow> bool" for w where
  note_step_exec: "note_exec w e s = Inr (t, calls) \<Longrightarrow> note_step w s t"

inductive_cases note_stepE: "note_step w s t"

definition note_start :: "'n note_sys \<Rightarrow> bool" where
  "note_start s \<longleftrightarrow> hlp s = [] \<and> (\<exists>p. mgr s = note_manager p)"

text \<open>
  What a listener element was last told is the current note or an older version of it.
\<close>

definition note_inv :: "'n note_sys \<Rightarrow> bool" where
  "note_inv s \<longleftrightarrow>
     persistentNotes (mgr s) = [] \<and> om_wf (plain_notes (mgr s)) \<and> om_wf (hlp s)
     \<and> (\<forall>nm el n. map_of (hlp s) nm = Some el \<and> lnote el = Some n \<longrightarrow>
          (\<exists>c. map_of (plain_notes (mgr s)) nm = Some c \<and> (n = c \<or> nversion n < nversion c)))"

lemma note_invD:
  "note_inv s \<Longrightarrow> map_of (hlp s) nm = Some el \<Longrightarrow> lnote el = Some n \<Longrightarrow>
   \<exists>c. map_of (plain_notes (mgr s)) nm = Some c \<and> (n = c \<or> nversion n < nversion c)"
  by (simp add: note_inv_def)

lemma check_plain:
  assumes "persistentNotes m = []"
  shows "checkForUpdatedNotes w m (Some h) =
    (m, Some (snd (offer_notes (plain_notes m) h)),
     Inr (callListeners (snd (offer_notes (plain_notes m) h)) (fst (offer_notes (plain_notes m) h))))"
  using assms
proof -
  have "m\<lparr>persistentNotes := []\<rparr> = m" using assms by simp
  then show ?thesis
    using assms by (simp add: checkForUpdatedNotes_def loadPersistentNotes_def split: prod.split)
qed

lemma setNote_plain:
  assumes "persistentNotes m = []"
  shows "setNote w m nm n = Inr (m\<lparr>plain_notes := om_put nm
    \<lparr>tag = n, nversion = (case map_of (plain_notes m) nm of None \<Rightarrow> 0 | Some old \<Rightarrow> nversion old + 1)\<rparr>
    (plain_notes m)\<rparr>, None)"
  using assms by (simp add: setNote_def Let_def)

lemma in_callListeners:
  "(l, nm, n) \<in> set (callListeners h upd) \<longleftrightarrow>
     nm \<in> set upd \<and> (\<exists>el. map_of h nm = Some el \<and> lnote el = Some n \<and> l \<in> set (listeners el))"
proof -
  have "(l, nm, n) \<in> set (case map_of h x of None \<Rightarrow> [] | Some el \<Rightarrow> element_calls x el) \<longleftrightarrow>
      x = nm \<and> (\<exists>el. map_of h nm = Some el \<and> lnote el = Some n \<and> l \<in> set (listeners el))" for x
    by (cases "map_of h x") (auto simp: element_calls_def split: option.split)
  then show ?thesis by (auto simp: callListeners_def)
qed

lemma element_update_lnote:
  "lnote (snd (element_update n el)) =
     (case lnote el of None \<Rightarrow> Some n | Some m \<Rightarrow> if nversion m \<noteq> nversion n then Some n else Some m)"
  by (auto simp: element_update_def split: option.split)

lemma check_current:
  assumes "note_inv s" "map_of (snd (offer_notes (plain_notes (mgr s)) (hlp s))) nm = Some el"
    and "map_of (plain_notes (mgr s)) nm = Some c"
  shows "lnote el = Some c"
proof -
  have d: "distinct (map fst (plain_notes (mgr s)))"
    using assms(1) by (simp add: note_inv_def omap.keys_distinct)
  with assms(2,3) offer_find [OF d, of "hlp s" nm] obtain el0 where
    el0: "map_of (hlp s) nm = Some el0" "el = snd (element_update c el0)" by auto
  show ?thesis
  proof (cases "lnote el0")
    case None
    with el0 show ?thesis by (simp add: element_update_lnote)
  next
    case (Some n)
    then have "n = c \<or> nversion n < nversion c"
      using note_invD [OF assms(1) el0(1)] assms(3) by auto
    with Some el0 show ?thesis by (auto simp: element_update_lnote)
  qed
qed

lemma addNoteListener_lnote:
  "map_of (addNoteListener h nm l) k = Some el \<Longrightarrow> lnote el = Some n \<Longrightarrow>
   \<exists>el0. map_of h k = Some el0 \<and> lnote el0 = Some n"
  by (auto simp: addNoteListener_def addListener_def listener_element_def split: option.splits if_splits)

lemma addNoteListener_wf: "om_wf h \<Longrightarrow> om_wf (addNoteListener h nm l)"
  by (auto simp: addNoteListener_def split: option.split)

lemma removeAll_find: "map_of (removeAllNoteListener h nm) k = Some el \<Longrightarrow> map_of h k = Some el"
  by (auto simp: removeAllNoteListener_def split: option.splits if_splits)

lemma removeAll_wf: "om_wf h \<Longrightarrow> om_wf (removeAllNoteListener h nm)"
  by (auto simp: removeAllNoteListener_def split: option.split)

lemma note_inv_exec: "note_inv s \<Longrightarrow> note_exec w e s = Inr (t, calls) \<Longrightarrow> note_inv t"
proof (cases e)
  case (Set_note nm n)
  assume inv: "note_inv s" and ex: "note_exec w e s = Inr (t, calls)"
  then have "persistentNotes (mgr s) = []" by (simp add: note_inv_def)
  from setNote_plain [OF this, of w nm n] ex Set_note
  have t: "t = s\<lparr>mgr := (mgr s)\<lparr>plain_notes := om_put nm
    \<lparr>tag = n, nversion = (case map_of (plain_notes (mgr s)) nm of None \<Rightarrow> 0 | Some old \<Rightarrow> nversion old + 1)\<rparr>
    (plain_notes (mgr s))\<rparr>\<rparr>" by simp
  show ?thesis
    unfolding note_inv_def
  proof (intro conjI allI impI)
    fix k el m
    assume "map_of (hlp t) k = Some el \<and> lnote el = Some m"
    then obtain c where c: "map_of (plain_notes (mgr s)) k = Some c" "m = c \<or> nversion m < nversion c"
      using note_invD [OF inv, of k el m] t by auto
    then show "\<exists>c. map_of (plain_notes (mgr t)) k = Some c \<and> (m = c \<or> nversion m < nversion c)"
      using t by (cases "k = nm") auto
  qed (use inv t in \<open>auto simp: note_inv_def\<close>)
next
  case Check
  assume inv: "note_inv s" and ex: "note_exec w e s = Inr (t, calls)"
  let ?h = "snd (offer_notes (plain_notes (mgr s)) (hlp s))"
  have "persistentNotes (mgr s) = []" using inv by (simp add: note_inv_def)
  from check_plain [OF this, of w "hlp s"] ex Check have t: "t = s\<lparr>hlp := ?h\<rparr>" by simp
  have d: "distinct (map fst (plain_notes (mgr s)))"
    using inv by (simp add: note_inv_def omap.keys_distinct)
  show ?thesis
    unfolding note_inv_def
  proof (intro conjI allI impI)
    fix k el m
    assume k: "map_of (hlp t) k = Some el \<and> lnote el = Some m"
    show "\<exists>c. map_of (plain_notes (mgr t)) k = Some c \<and> (m = c \<or> nversion m < nversion c)"
    proof (cases "map_of (plain_notes (mgr s)) k")
      case (Some c)
      then have "lnote el = Some c" using check_current [OF inv _ Some] k t by simp
      with k Some t show ?thesis by simp
    next
      case None
      then have "map_of (hlp s) k = Some el" using offer_find [OF d, of "hlp s" k] k t by simp
      from note_invD [OF inv this] None k have False by simp
      then show ?thesis ..
    qed
  qed (use inv t offer_wf in \<open>auto simp: note_inv_def\<close>)
next
  case (Add_listener nm l)
  assume inv: "note_inv s" and "note_exec w e s = Inr (t, calls)"
  with Add_listener have t: "t = s\<lparr>hlp := addNoteListener (hlp s) nm l\<rparr>" by simp
  show ?thesis
    unfolding note_inv_def
  proof (intro conjI allI impI)
    fix k el n
    assume "map_of (hlp t) k = Some el \<and> lnote el = Some n"
    with t addNoteListener_lnote [of "hlp s" nm l k el n]
    obtain el0 where "map_of (hlp s) k = Some el0" "lnote el0 = Some n" by auto
    from note_invD [OF inv this] t
    show "\<exists>c. map_of (plain_notes (mgr t)) k = Some c \<and> (n = c \<or> nversion n < nversion c)" by simp
  qed (use inv t in \<open>auto simp: note_inv_def addNoteListener_wf\<close>)
next
  case (Remove_all nm)
  assume inv: "note_inv s" and "note_exec w e s = Inr (t, calls)"
  with Remove_all have t: "t = s\<lparr>hlp := removeAllNoteListener (hlp s) nm\<rparr>" by simp
  show ?thesis
    unfolding note_inv_def
  proof (intro conjI allI impI)
    fix k el n
    assume k: "map_of (hlp t) k = Some el \<and> lnote el = Some n"
    with t removeAll_find [of "hlp s" nm k el] have "map_of (hlp s) k = Some el" by simp
    from note_invD [OF inv this] t k
    show "\<exists>c. map_of (plain_notes (mgr t)) k = Some c \<and> (n = c \<or> nversion n < nversion c)" by simp
  qed (use inv t in \<open>auto simp: note_inv_def removeAll_wf\<close>)
qed

interpretation board: invariant_system note_start "note_step w" note_inv for w
proof unfold_locales
  show "note_inv s" if "note_start s" for s :: "'n note_sys"
    using that by (auto simp: note_start_def note_manager_def note_inv_def)
  show "note_inv t" if "note_inv s" "note_step w s t" for s t :: "'n note_sys" and w
    using that(2) note_inv_exec [OF that(1)] by (auto elim: note_stepE)
qed

text \<open>Offering notes that a helper already has changes nothing.\<close>

lemma offer_current:
  assumes d: "distinct (map fst ns)" and wf: "om_wf h"
    and cur: "\<And>nm el c. map_of h nm = Some el \<Longrightarrow> map_of ns nm = Some c \<Longrightarrow> lnote el = Some c"
  shows "offer_notes ns h = ([], h)"
proof -
  have same: "\<not> fst (element_update c el)" "snd (element_update c el) = el"
    if "map_of h nm = Some el" "map_of ns nm = Some c" for nm c el
    using cur [OF that] by (simp_all add: element_update_def)
  then have "{nm. \<exists>n el. map_of ns nm = Some n \<and> map_of h nm = Some el \<and> fst (element_update n el)} = {}"
    by auto
  then have "set (fst (offer_notes ns h)) = {}" using offer_names [OF d, of h] by simp
  moreover have "snd (offer_notes ns h) = h"
  proof (rule om_extensional)
    show "map_of (snd (offer_notes ns h)) = map_of h"
    proof (rule ext)
      show "map_of (snd (offer_notes ns h)) k = map_of h k" for k
        using offer_find [OF d, of h k] same(2) [of k]
        by (cases "map_of ns k"; cases "map_of h k") auto
    qed
  qed (use wf offer_wf in blast)+
  ultimately show ?thesis by (metis prod.collapse set_empty)
qed

text \<open>Whom a check calls.\<close>

lemma check_calls:
  assumes inv: "note_inv s" and o: "offer_notes (plain_notes (mgr s)) (hlp s) = (upd, h)"
  shows "(l, nm, n) \<in> set (callListeners h upd) \<longleftrightarrow>
    (\<exists>el. map_of (hlp s) nm = Some el \<and> l \<in> set (listeners el)
       \<and> map_of (plain_notes (mgr s)) nm = Some n \<and> lnote el \<noteq> Some n)"
proof -
  let ?ns = "plain_notes (mgr s)"
  have d: "distinct (map fst ?ns)" using inv by (simp add: note_inv_def omap.keys_distinct)
  note find = offer_find [OF d, of "hlp s", unfolded o snd_conv]
  note names = offer_names [OF d, of "hlp s", unfolded o fst_conv]
  have cur: "lnote el = Some c" if "map_of h nm = Some el" "map_of ?ns nm = Some c" for nm el c
    using check_current [OF inv, unfolded o snd_conv] that by blast
  have old: "fst (element_update c el) \<longleftrightarrow> lnote el \<noteq> Some c"
    if "map_of (hlp s) nm = Some el" "map_of ?ns nm = Some c" for nm el c
    using note_invD [OF inv that(1)] that(2) by (auto simp: element_update_def split: option.split)
  have keep: "listeners (snd (element_update n el)) = listeners el" for n and el :: "'a listener_element"
    by (auto simp: element_update_def split: option.split)
  have "(l, nm, n) \<in> set (callListeners h upd) \<longleftrightarrow>
      nm \<in> set upd \<and> (\<exists>el'. map_of h nm = Some el' \<and> lnote el' = Some n \<and> l \<in> set (listeners el'))"
    by (rule in_callListeners)
  also have "\<dots> \<longleftrightarrow> (\<exists>c el. map_of ?ns nm = Some c \<and> map_of (hlp s) nm = Some el \<and> lnote el \<noteq> Some c
      \<and> c = n \<and> l \<in> set (listeners el))"
    using names find [of nm] old cur keep by (fastforce split: option.splits)
  finally show ?thesis by blast
qed

section \<open>Properties\<close>

text \<open>
  No update is missed and none repeated. After any sequence of \<open>setNote\<close>, listener
  registrations and checks (no persistent notes), \<open>checkForUpdatedNotes\<close> leaves every
  registered name with exactly the current note; the listeners it calls are those of the
  names whose note was new to the helper, each with the current note; and a second check
  calls nobody.
\<close>

theorem check_notifies_exactly:
  assumes "reach note_start (note_step w) s"
  shows "\<exists>h calls. checkForUpdatedNotes w (mgr s) (Some (hlp s)) = (mgr s, Some h, Inr calls)
    \<and> (\<forall>nm el c. map_of h nm = Some el \<and> map_of (plain_notes (mgr s)) nm = Some c \<longrightarrow> lnote el = Some c)
    \<and> (\<forall>l nm n. (l, nm, n) \<in> set calls \<longleftrightarrow>
         (\<exists>el. map_of (hlp s) nm = Some el \<and> l \<in> set (listeners el)
            \<and> map_of (plain_notes (mgr s)) nm = Some n \<and> lnote el \<noteq> Some n))
    \<and> checkForUpdatedNotes w (mgr s) (Some h) = (mgr s, Some h, Inr [])"
proof -
  have inv: "note_inv s" using assms by (rule board.inv_reach)
  let ?ns = "plain_notes (mgr s)"
  have pers: "persistentNotes (mgr s) = []" and d: "distinct (map fst ?ns)" and wf: "om_wf (hlp s)"
    using inv by (simp_all add: note_inv_def omap.keys_distinct)
  obtain upd h where o: "offer_notes ?ns (hlp s) = (upd, h)" by (cases "offer_notes ?ns (hlp s)")
  have cur: "lnote el = Some c" if "map_of h nm = Some el" "map_of ?ns nm = Some c" for nm el c
    using check_current [OF inv, unfolded o snd_conv] that by blast
  have "om_wf h" using offer_wf [OF wf, of ?ns] o by simp
  then have "offer_notes ?ns h = ([], h)" using cur by (rule offer_current [OF d])
  then have again: "checkForUpdatedNotes w (mgr s) (Some h) = (mgr s, Some h, Inr [])"
    using check_plain [OF pers, of w h] by (simp add: callListeners_def)
  have "checkForUpdatedNotes w (mgr s) (Some (hlp s)) = (mgr s, Some h, Inr (callListeners h upd))"
    using check_plain [OF pers, of w "hlp s"] o by simp
  with cur check_calls [OF inv o] again
  show ?thesis by (intro exI [of _ h] exI [of _ "callListeners h upd"]) blast
qed

definition quiet_world :: "nat note_world" where
  "quiet_world = \<lparr>file_mtime = \<lambda>_. None, file_read = \<lambda>_. None, save_note = \<lambda>_. None, load_note = \<lambda>_ _. Inr None\<rparr>"

theorem check_notifies_exactly_witness:
  "\<exists>s h. note_exec quiet_world (Set_note ''upd'' 7) \<lparr>mgr = note_manager ''/tmp'', hlp = []\<rparr> = Inr (s, [])
    \<and> checkForUpdatedNotes quiet_world (mgr s) (Some h) = (mgr s, Some h, Inr [])"
proof -
  let ?s0 = "\<lparr>mgr = note_manager ''/tmp'', hlp = []\<rparr> :: nat note_sys"
  obtain s where s: "note_exec quiet_world (Set_note ''upd'' 7) ?s0 = Inr (s, [])"
    by (simp add: setNote_def note_manager_def Let_def)
  have "reach note_start (note_step quiet_world) ?s0" by (rule reach_start) (auto simp: note_start_def)
  then have "reach note_start (note_step quiet_world) s" using note_step_exec [OF s] by (rule reach_step)
  from check_notifies_exactly [OF this] s show ?thesis by blast
qed

definition first_update :: "'n note_world \<Rightarrow> 'n note_world \<Rightarrow> string \<Rightarrow> string \<Rightarrow> 'n \<Rightarrow> 'n \<Rightarrow> nat
    \<Rightarrow> ('n note_manager \<times> 'n helper option \<times> 'n call list result) result" where
  "first_update w1 w2 p nm dflt new l =
     (let m0 = registerPersistentNote (note_manager p) nm (Some dflt);
          (m1, h1, r1) = checkForUpdatedNotes w1 m0 (Some (addNoteListener [] nm l))
      in bind_result (setNote w2 m1 nm new) (\<lambda>(m2, d). Inr (checkForUpdatedNotes w2 m2 h1)))"

text \<open>
  The first update of a persistent note can be lost. If a check ran while the note's file
  did not exist (the listeners were told the unloaded note), then after a successful
  \<open>setNote\<close> the next check loads the written note as version 0, the version the listeners
  were told, and calls nobody, although \<open>getNote\<close> now returns the new note.
\<close>

theorem persistent_update_lost:
  assumes "file_mtime w1 (p @ ''/'' @ nm @ ''.note'') = None"
    and "save_note w2 new = Some (True, text)"
    and "file_mtime w2 (p @ ''/'' @ nm @ ''.note'') = Some t"
    and "file_read w2 (p @ ''/'' @ nm @ ''.note'') = Some text"
    and "load_note w2 new text = Inr (Some new)"
  shows "\<exists>m h. first_update w1 w2 p nm dflt new l = Inr (m, Some h, Inr [])
    \<and> getNote m nm = Some \<lparr>tag = new, nversion = 0\<rparr>
    \<and> map_of h nm = Some \<lparr>listeners = [l], lnote = Some \<lparr>tag = dflt, nversion = 0\<rparr>\<rparr>"
  using assms
  by (simp add: first_update_def registerPersistentNote_def note_manager_def persistent_note_def
      checkForUpdatedNotes_def loadPersistentNotes_def load_one_def addNoteListener_def
      listener_element_def updateNote_def element_update_def setNote_def callListeners_def getNote_def Let_def)

theorem persistent_update_lost_witness:
  "\<exists>m h. first_update quiet_world
      \<lparr>file_mtime = \<lambda>_. Some 5, file_read = \<lambda>_. Some ''x'', save_note = \<lambda>_. Some (True, ''x''),
       load_note = \<lambda>n _. Inr (Some n)\<rparr> ''/tmp'' ''refs'' 1 (2 :: nat) 9 = Inr (m, Some h, Inr [])"
  using persistent_update_lost [of quiet_world "''/tmp''" "''refs''"
      "\<lparr>file_mtime = \<lambda>_. Some 5, file_read = \<lambda>_. Some ''x'', save_note = \<lambda>_. Some (True, ''x''),
       load_note = \<lambda>n _. Inr (Some n)\<rparr>" "2 :: nat" "''x''" 5 1 9]
  by (auto simp: quiet_world_def)

text \<open>
  Two operations have undefined behaviour in ordinary use: removing a listener that is
  registered, and \<open>setNote\<close> of a persistent note whose \<open>saveNote\<close> reports failure; removing
  one that is not registered changes nothing.
\<close>

lemma notes_undefined:
  "removeNoteListener h nm l =
     (if \<exists>el. map_of h nm = Some el \<and> l \<in> set (listeners el) then Inl Undefined_behaviour
      else case map_of h nm of
             None \<Rightarrow> Inr h
           | Some el \<Rightarrow> Inr (if listeners el = [] then om_erase nm h else om_put nm el h))
   \<and> (setNote w m nm n = Inl Undefined_behaviour \<longleftrightarrow>
        map_of (persistentNotes m) nm \<noteq> None \<and> (\<exists>text. save_note w n = Some (False, text)))"
  by (auto simp: removeNoteListener_def removeListener_def setNote_def Let_def split: option.split)

end
