(* ===== verification/Providers.thy ===== *)
theory Providers
  imports StringUtil
begin

text \<open>
  Data providers: \<open>ProviderItem\<close> and \<open>ProviderList\<close> (the notation
  \<open>provider [place1, place2]\<close> of the configuration and the database), the table of reference
  times \<open>ProviderRefTimeList\<close> with its update from the database, the provider groups and the
  topography providers, all of \<open>src/src/mod_wdb2ts\<close>. The database (through libpqxx), the log
  and boost's calendar are arguments. A \<open>ptime\<close> is a number, \<^const>\<open>None\<close> for the special
  value of the default constructor.
\<close>

section \<open>ProviderItem\<close>

record provider_item =
  provider :: string
  placename :: string

definition item :: "string \<Rightarrow> string \<Rightarrow> provider_item" where
  "item p n = \<lparr>provider = p, placename = n\<rparr>"

definition providerWithPlacename :: "provider_item \<Rightarrow> string" where
  "providerWithPlacename it =
     (if placename it = [] then provider it else provider it @ '' ['' @ placename it @ '']'')"

definition item_less :: "provider_item \<Rightarrow> provider_item \<Rightarrow> bool" where
  "item_less a b \<longleftrightarrow> providerWithPlacename a < providerWithPlacename b"

abbreviation LB :: char where "LB \<equiv> CHR 0x5B"
abbreviation RB :: char where "RB \<equiv> CHR 0x5D"
abbreviation squote :: char where "squote \<equiv> CHR 0x27"

definition boost_trim :: "string \<Rightarrow> string" where
  "boost_trim s = rev (dropWhile isspace (rev (dropWhile isspace s)))"

definition ProviderItem_decode :: "string \<Rightarrow> provider_item" where
  "ProviderItem_decode s =
     (case find_idx (\<lambda>c. c = LB) s of
        None \<Rightarrow> item s []
      | Some i \<Rightarrow>
          item (boost_trim (take i s))
            (case find_idx_from (\<lambda>c. c = RB) s i of
               None \<Rightarrow> []
             | Some ii \<Rightarrow> boost_trim (str_substr s (i + 1) (ii - i - 1))))"

text \<open>
  The text after the parenthesis that closes the first one; \<^const>\<open>None\<close> when it is missing.
  The first argument is \<open>stack\<close>.
\<close>

fun close_paren :: "nat \<Rightarrow> string \<Rightarrow> string option" where
  "close_paren 0 s = Some s"
| "close_paren (Suc n) [] = None"
| "close_paren (Suc n) (c # cs) =
     (if c = CHR '')'' then close_paren n cs
      else if c = CHR ''('' then close_paren (Suc (Suc n)) cs
      else close_paren (Suc n) cs)"

text \<open>The source's message goes on with the name of the source file.\<close>

definition decodeFromWdb :: "string \<Rightarrow> string \<Rightarrow> provider_item result" where
  "decodeFromWdb prov pointPlacename =
     (case find_idx (\<lambda>c. c = CHR ''('') pointPlacename of
        None \<Rightarrow> Inr (item (boost_trim prov) (boost_trim []))
      | Some i \<Rightarrow>
          (case close_paren 1 (drop (i + 1) pointPlacename) of
             None \<Rightarrow> Inl (Logic_error (''WDB Placename, invalid format '' @ quote pointPlacename))
           | Some nm \<Rightarrow> Inr (item (boost_trim prov) (boost_trim nm))))"

section \<open>ProviderList\<close>

definition unquote :: "string \<Rightarrow> string" where
  "unquote buf =
     (if length buf \<ge> 2 \<and> hd buf = squote \<and> last buf = squote
      then trimstr (str_substr buf 1 (length buf - 2)) else buf)"

text \<open>The loop over the place names of a list.\<close>

fun decode_names :: "string \<Rightarrow> string list \<Rightarrow> provider_item list" where
  "decode_names p [] = []"
| "decode_names p (n # ns) =
     (let buf = trimstr n
      in if buf = [] then decode_names p ns else item p (unquote buf) # decode_names p ns)"

text \<open>Result: the list and the out parameter \<open>provider\<close>.\<close>

definition decode_list :: "string \<Rightarrow> bool \<Rightarrow> provider_item list \<times> string" where
  "decode_list toDecode mayBeList =
     (case find_idx (\<lambda>c. c = LB) toDecode of
        None \<Rightarrow> ([item toDecode []], toDecode)
      | Some i \<Rightarrow>
          let p = trimstr (take i toDecode); rest = str_erase toDecode 0 (i + 1)
          in if p = [] then ([], p)
             else case find_idx (\<lambda>c. c = RB) rest of
                    None \<Rightarrow> ([], p)
                  | Some j \<Rightarrow>
                      let body = trimstr (take j rest);
                          pl = (if mayBeList
                                then (case splitstr body (CHR '','') squote of
                                        None \<Rightarrow> [] | Some ns \<Rightarrow> decode_names p ns)
                                else let b = unquote body in if b \<noteq> [] then [item p b] else [])
                      in (if pl = [] then [item p []] else pl, p))"

definition ProviderList_decode :: "string \<Rightarrow> bool \<Rightarrow> provider_item list" where
  "ProviderList_decode s mayBeList = fst (decode_list s mayBeList)"

definition decodeItem :: "string \<Rightarrow> provider_item" where
  "decodeItem s = (case fst (decode_list s False) of [] \<Rightarrow> item [] [] | it # _ \<Rightarrow> it)"

text \<open>Iterators are positions, \<open>end()\<close> is \<^const>\<open>None\<close>.\<close>

definition findProvider :: "provider_item list \<Rightarrow> string \<Rightarrow> nat option" where
  "findProvider l s = find_idx (\<lambda>it. providerWithPlacename it = s) l"

definition findProviderWithoutPlacename :: "provider_item list \<Rightarrow> string \<Rightarrow> nat option" where
  "findProviderWithoutPlacename l s =
     (let pi = ProviderItem_decode s in find_idx (\<lambda>it. provider it = provider pi) l)"

definition addProvider :: "provider_item list \<Rightarrow> provider_item \<Rightarrow> provider_item list" where
  "addProvider l it = (if findProvider l (providerWithPlacename it) = None then l @ [it] else l)"

definition findProviderPoint :: "provider_item list \<Rightarrow> string \<Rightarrow> string \<Rightarrow> (nat option \<times> string) result" where
  "findProviderPoint l prov pointPlacename =
     bind_result (decodeFromWdb prov pointPlacename) (\<lambda>im.
       let found = find_idx (\<lambda>it. provider it = provider im
                              \<and> (placename im = [] \<or> placename it = placename im)) l
       in Inr (found, case found of
                        Some i \<Rightarrow> providerWithPlacename (l ! i)
                      | None \<Rightarrow> providerWithPlacename im))"

text \<open>\<open>std::list::unique\<close> removes consecutive duplicates.\<close>

definition providerWithoutPlacename :: "provider_item list \<Rightarrow> string list" where
  "providerWithoutPlacename l = remdups_adj (map provider l)"

definition providerListWithoutPlacename :: "provider_item list \<Rightarrow> provider_item list" where
  "providerListWithoutPlacename l = map (\<lambda>p. item p []) (providerWithoutPlacename l)"

text \<open>A configuration is the map of its values as strings (\<open>Value::asString\<close>).\<close>

type_synonym action_param = "(string, string) omap"

definition providerListFromConfig :: "action_param \<Rightarrow> provider_item list" where
  "providerListFromConfig ps =
     (case map_of ps ''provider_priority'' of
        None \<Rightarrow> []
      | Some v \<Rightarrow>
          (case splitstr v (CHR '';'') dquote of
             None \<Rightarrow> []
           | Some pp \<Rightarrow> concat (map (\<lambda>p. fst (decode_list p True)) pp)))"

section \<open>Reference times\<close>

type_synonym ptime = "int option"

record provider_times =
  refTime :: ptime
  updatedTime :: ptime
  disableEnableRequest :: bool
  dataversionRequest :: bool
  reftimeUpdateRequest :: bool
  disabled :: bool
  dataversion :: int

type_synonym reftimes = "(string, provider_times) omap"

definition provider_times_init :: provider_times where
  "provider_times_init =
     \<lparr>refTime = None, updatedTime = None, disableEnableRequest = False, dataversionRequest = False,
      reftimeUpdateRequest = False, disabled = False, dataversion = -1\<rparr>"

definition getDataversion :: "reftimes \<Rightarrow> string \<Rightarrow> int" where
  "getDataversion l p = (case map_of l p of None \<Rightarrow> -1 | Some t \<Rightarrow> dataversion t)"

text \<open>The test all lookups share: with a place name the items must agree, else the provider.\<close>

definition item_matches :: "provider_item \<Rightarrow> string \<Rightarrow> bool" where
  "item_matches pin key =
     (let pv = decodeItem key
      in (placename pin \<noteq> [] \<and> pin = pv) \<or> (placename pin = [] \<and> provider pin = provider pv))"

definition first_match :: "reftimes \<Rightarrow> string \<Rightarrow> provider_times option" where
  "first_match l p =
     (let pin = decodeItem p in map_option snd (find (\<lambda>(k, t). item_matches pin k) l))"

definition providerReftime :: "reftimes \<Rightarrow> string \<Rightarrow> ptime option" where
  "providerReftime l p = map_option refTime (first_match l p)"

definition reftime_disabled :: "reftimes \<Rightarrow> string \<Rightarrow> bool option" where
  "reftime_disabled l p = map_option disabled (first_match l p)"

definition reftime_dataversion :: "reftimes \<Rightarrow> string \<Rightarrow> int option" where
  "reftime_dataversion l p = map_option dataversion (first_match l p)"

definition providerReftimeDisabledAndDataversion :: "reftimes \<Rightarrow> string \<Rightarrow> (ptime \<times> bool \<times> int) option" where
  "providerReftimeDisabledAndDataversion l p =
     map_option (\<lambda>t. (refTime t, disabled t, dataversion t)) (first_match l p)"

text \<open>Both updates run over all matching entries and count the changes.\<close>

definition updateDisableStatus :: "reftimes \<Rightarrow> string \<Rightarrow> bool \<Rightarrow> nat \<times> reftimes" where
  "updateDisableStatus l p d =
     (let pin = decodeItem p
      in (length (filter (\<lambda>(k, t). item_matches pin k \<and> disabled t \<noteq> d) l),
          map (\<lambda>(k, t). (k, if item_matches pin k \<and> disabled t \<noteq> d then t\<lparr>disabled := d\<rparr> else t)) l))"

definition updateDataversion :: "reftimes \<Rightarrow> string \<Rightarrow> int \<Rightarrow> nat \<times> reftimes" where
  "updateDataversion l p v =
     (let pin = decodeItem p
      in (length (filter (\<lambda>(k, t). item_matches pin k \<and> dataversion t \<noteq> v) l),
          map (\<lambda>(k, t). (k, if item_matches pin k \<and> dataversion t \<noteq> v then t\<lparr>dataversion := v\<rparr> else t)) l))"

definition removeDisabledProviders :: "provider_item list \<Rightarrow> reftimes \<Rightarrow> provider_item list" where
  "removeDisabledProviders ps l =
     filter (\<lambda>it. \<not> (case map_of l (providerWithPlacename it) of None \<Rightarrow> False | Some t \<Rightarrow> disabled t)) ps"

section \<open>Updating the reference times\<close>

text \<open>
  The transaction \<open>ProviderRefTime\<close>: \<open>wci\<close> runs an SQL text and gives the rows' place name
  and reference time (\<^const>\<open>None\<close> for null), or an exception: one of the three that the caller
  names (\<open>ios_base::failure\<close>, \<open>runtime_error\<close>, \<open>logic_error\<close>) with its text, or another.
\<close>

datatype wci_exn = Wci_std string | Wci_other

type_synonym wci = "string \<Rightarrow> wci_exn + (string \<times> int option) list"

definition reftime_query :: "string \<Rightarrow> string \<Rightarrow> int \<Rightarrow> string" where
  "reftime_query p spec v =
     ''SELECT * FROM wci.browse( ARRAY['' @ quote p @ ''], NULL,'' @ spec
     @ '',NULL,NULL,NULL,ARRAY['' @ dec_int v @ ''],NULL::wci.browseplace)''"

definition reftime_row :: "int \<Rightarrow> string \<Rightarrow> string \<times> int option \<Rightarrow> reftimes \<Rightarrow> reftimes" where
  "reftime_row now p row m =
     (case snd row of
        None \<Rightarrow> m
      | Some t \<Rightarrow>
          om_put (providerWithPlacename (item p (fst row)))
            (provider_times_init\<lparr>refTime := Some t, updatedTime := Some now\<rparr>) m)"

definition provider_reftime :: "wci \<Rightarrow> int \<Rightarrow> string \<Rightarrow> string \<Rightarrow> int \<Rightarrow> wci_exn + reftimes" where
  "provider_reftime w now p spec v =
     (case w (reftime_query p spec v) of
        Inl e \<Rightarrow> Inl e
      | Inr rows \<Rightarrow> Inr (fold (reftime_row now p) rows []))"

definition getProviderReftimes :: "wci \<Rightarrow> int \<Rightarrow> string \<Rightarrow> string \<Rightarrow> int \<Rightarrow> (bool \<times> reftimes) result" where
  "getProviderReftimes w now p spec v =
     (case provider_reftime w now (provider (decodeItem p)) spec v of
        Inl (Wci_std what) \<Rightarrow> Inl (Logic_error what)
      | Inl Wci_other \<Rightarrow> Inl (Logic_error ''Unknown error while checking for reference times.'')
      | Inr l \<Rightarrow> Inr (l \<noteq> [], l))"

text \<open>\<open>fmt\<close> is \<open>miutil::isotimeString(t, false, true)\<close>.\<close>

definition reftime_spec :: "(int \<Rightarrow> string) \<Rightarrow> ptime \<Rightarrow> int \<Rightarrow> string" where
  "reftime_spec fmt t wciProtocol =
     (case t of
        None \<Rightarrow> ''NULL''
      | Some x \<Rightarrow>
          if wciProtocol = 1 then ''('' @ quote (fmt x) @ '','' @ quote (fmt x) @ '','' @ quote ''exact'' @ '')''
          else quote (''exact '' @ fmt x))"

definition missing_data :: "(int \<Rightarrow> string) \<Rightarrow> string \<Rightarrow> provider_times \<Rightarrow> exn" where
  "missing_data fmt p req =
     Logic_error (''Missing data for: '' @ p @ '' at ''
       @ (case refTime req of None \<Rightarrow> quote ''latest'' | Some x \<Rightarrow> quote (fmt x))
       @ '' with dataversion ''
       @ (if dataversion req < 0 then quote ''latest'' else dec_int (dataversion req)) @ ''.'')"

text \<open>One entry of the database's answer. \<open>req\<close> is the request, \<open>pi\<close> its provider.\<close>

definition apply_requests :: "provider_times \<Rightarrow> provider_times \<Rightarrow> provider_times" where
  "apply_requests req t =
     (let t1 = (if dataversionRequest req then t\<lparr>dataversion := dataversion req\<rparr> else t)
      in if disableEnableRequest req then t1\<lparr>disabled := disabled req\<rparr> else t1)"

definition requests_change :: "provider_times \<Rightarrow> provider_times \<Rightarrow> bool" where
  "requests_change req t \<longleftrightarrow>
     (dataversionRequest req \<and> dataversion t \<noteq> dataversion req)
     \<or> (disableEnableRequest req \<and> disabled t \<noteq> disabled req)"

definition process_entry ::
  "provider_item \<Rightarrow> provider_times \<Rightarrow> string \<times> provider_times \<Rightarrow> bool \<times> reftimes \<Rightarrow> bool \<times> reftimes"
where
  "process_entry pi req r acc =
     (let (rname, rt) = r; (changed, tmp) = acc;
          mine = (placename pi = [] \<or> rname = providerWithPlacename pi)
      in case map_of tmp rname of
           Some cur \<Rightarrow>
             if mine
             then if refTime cur = refTime rt
                  then (changed \<or> requests_change req cur, om_put rname (apply_requests req cur) tmp)
                  else (True, om_put rname (apply_requests req (rt\<lparr>disabled := disabled cur\<rparr>)) tmp)
             else (True, om_put rname (rt\<lparr>dataversion := dataversion req, disabled := disabled req\<rparr>) tmp)
         | None \<Rightarrow>
             (True, om_put rname (rt\<lparr>dataversion := dataversion req, disabled := disabled req\<rparr>) tmp))"

text \<open>A request that does not ask for a new reference time: what it changes at once.\<close>

definition status_update :: "string \<Rightarrow> provider_times \<Rightarrow> reftimes \<Rightarrow> bool \<times> reftimes" where
  "status_update name req tmp =
     (let (n1, t1) = (if disableEnableRequest req then updateDisableStatus tmp name (disabled req) else (0, tmp));
          (n2, t2) = (if dataversionRequest req then updateDataversion t1 name (dataversion req) else (0, t1))
      in (n1 > 0 \<or> n2 > 0, t2))"

definition process_request ::
  "wci \<Rightarrow> int \<Rightarrow> (int \<Rightarrow> string) \<Rightarrow> int \<Rightarrow> string \<times> provider_times \<Rightarrow> bool \<times> reftimes \<Rightarrow> (bool \<times> reftimes) result"
where
  "process_request w now fmt wciProtocol rq acc =
     (let (name, req) = rq; (changed, tmp) = acc;
          (here, tmp1) = (if reftimeUpdateRequest req then (False, tmp) else status_update name req tmp);
          changed1 = (changed \<or> here)
      in if \<not> reftimeUpdateRequest req \<and> (\<not> here \<or> reftime_disabled tmp1 name = Some True)
         then Inr (changed1, tmp1)
         else bind_result (getProviderReftimes w now name (reftime_spec fmt (refTime req) wciProtocol) (dataversion req))
                (\<lambda>(found, res).
                   if \<not> found then Inl (missing_data fmt name req)
                   else Inr (fold (process_entry (decodeItem name) req) res (changed1, tmp1))))"

fun process_requests ::
  "wci \<Rightarrow> int \<Rightarrow> (int \<Rightarrow> string) \<Rightarrow> int \<Rightarrow> (string \<times> provider_times) list \<Rightarrow> bool \<times> reftimes \<Rightarrow> (bool \<times> reftimes) result"
where
  "process_requests w now fmt wciProtocol [] acc = Inr acc"
| "process_requests w now fmt wciProtocol (r # rs) acc =
     bind_result (process_request w now fmt wciProtocol r acc) (process_requests w now fmt wciProtocol rs)"

text \<open>The result and the table after the call; an exception leaves the table as it was.\<close>

definition updateProviderRefTimes ::
  "wci \<Rightarrow> int \<Rightarrow> (int \<Rightarrow> string) \<Rightarrow> reftimes \<Rightarrow> reftimes \<Rightarrow> int \<Rightarrow> bool result \<times> reftimes"
where
  "updateProviderRefTimes w now fmt requestedUpdates refTimes wciProtocol =
     (case process_requests w now fmt wciProtocol requestedUpdates (False, refTimes) of
        Inl e \<Rightarrow> (Inl e, refTimes)
      | Inr (changed, tmp) \<Rightarrow> (Inr changed, tmp))"

text \<open>The initial load. \<open>now\<close> is the clock, in seconds.\<close>

fun load_providers :: "wci \<Rightarrow> int \<Rightarrow> string \<Rightarrow> string list \<Rightarrow> reftimes \<Rightarrow> unit result \<times> reftimes" where
  "load_providers w now spec [] refTimes = (Inr (), refTimes)"
| "load_providers w now spec (p # ps) refTimes =
     (case getProviderReftimes w now p spec (-1) of
        Inl e \<Rightarrow> (Inl e, refTimes)
      | Inr (True, tmp) \<Rightarrow> load_providers w now spec ps (omap.put_all tmp refTimes)
      | Inr (False, _) \<Rightarrow>
          (case getProviderReftimes w now p ''NULL'' (-1) of
             Inl e \<Rightarrow> (Inl e, refTimes)
           | Inr (True, tmp) \<Rightarrow> load_providers w now spec ps (omap.put_all tmp refTimes)
           | Inr (False, _) \<Rightarrow> load_providers w now spec ps refTimes))"

definition period_spec :: "(int \<Rightarrow> string) \<Rightarrow> int \<Rightarrow> int \<Rightarrow> string" where
  "period_spec fmt now wciProtocol =
     (let back = fmt (now - 48 * 3600); endTime = fmt (now + 24 * 3600)
      in if wciProtocol = 1
         then ''('' @ quote back @ '','' @ quote endTime @ '','' @ quote ''inside'' @ '')''
         else quote (''inside '' @ back @ '' TO '' @ endTime))"

definition updateProviderRefTimes_init ::
  "wci \<Rightarrow> int \<Rightarrow> (int \<Rightarrow> string) \<Rightarrow> reftimes \<Rightarrow> provider_item list \<Rightarrow> int \<Rightarrow> bool result \<times> reftimes"
where
  "updateProviderRefTimes_init w now fmt refTimes providers wciProtocol =
     (if providers = [] then (Inr True, refTimes)
      else case load_providers w now (period_spec fmt now wciProtocol) (providerWithoutPlacename providers) [] of
             (Inl e, l) \<Rightarrow> (Inl e, l)
           | (Inr _, l) \<Rightarrow> (Inr (l \<noteq> []), l))"

section \<open>Groups, configured lists and topography\<close>

type_synonym provider_groups = "(string, string) omap"

definition lookUpGroupName :: "provider_groups \<Rightarrow> string \<Rightarrow> string" where
  "lookUpGroupName g nm = (case map_of g nm of None \<Rightarrow> nm | Some x \<Rightarrow> x)"

text \<open>\<open>conn\<close>: whether there is a connection; \<open>res\<close>: the groups the database gives, if it does.\<close>

definition providerGroupsResolve :: "bool \<Rightarrow> provider_groups option \<Rightarrow> string list \<Rightarrow> provider_groups" where
  "providerGroupsResolve conn res providerList =
     (if \<not> conn then []
      else fold (\<lambda>p g. if map_of g p = None then g else om_put p p g) providerList
             (case res of None \<Rightarrow> [] | Some g \<Rightarrow> g))"

definition set_placename :: "wci \<Rightarrow> int \<Rightarrow> provider_item \<Rightarrow> provider_item list" where
  "set_placename w now it =
     (if placename it \<noteq> [] then [it]
      else case provider_reftime w now (provider it) ''NULL'' (-1) of
             Inl _ \<Rightarrow> []
           | Inr res \<Rightarrow> filter (\<lambda>x. provider x \<noteq> []) (map (\<lambda>(k, t). decodeItem k) res))"

definition providerPrioritySetPlacename :: "bool \<Rightarrow> wci \<Rightarrow> int \<Rightarrow> provider_item list \<Rightarrow> provider_item list" where
  "providerPrioritySetPlacename conn w now pvList =
     (if \<not> conn then [] else concat (map (set_placename w now) pvList))"

definition configureProviderList :: "bool \<Rightarrow> wci \<Rightarrow> int \<Rightarrow> action_param \<Rightarrow> provider_item list" where
  "configureProviderList conn w now ps =
     (let pr = providerListFromConfig ps
      in if pr \<noteq> [] then providerPrioritySetPlacename conn w now pr else [])"

definition has_prefix :: "string \<Rightarrow> string \<Rightarrow> bool" where
  "has_prefix prefix s \<longleftrightarrow> find_sub prefix s = Some 0"

definition topo_put :: "string \<Rightarrow> string \<Rightarrow> (string, string list) omap \<Rightarrow> (string, string list) omap" where
  "topo_put k v m = om_put k ((case map_of m k of None \<Rightarrow> [] | Some l \<Rightarrow> l) @ [v]) m"

definition configureModelTopographyProvider :: "action_param \<Rightarrow> (string, string list) omap" where
  "configureModelTopographyProvider conf =
     (let prefix = ''model_topo_provider-''
      in fold (\<lambda>(k, v) m. if has_prefix prefix k
                 then topo_put (drop (length prefix) (providerWithPlacename (decodeItem k)))
                        (providerWithPlacename (decodeItem v)) m
                 else m) conf [])"

definition configureTopographyProvider :: "action_param \<Rightarrow> string list" where
  "configureTopographyProvider conf =
     concat (map (\<lambda>(k, v). if has_prefix ''topography_provider'' k
                   then (case splitstr v (CHR '';'') dquote of
                           None \<Rightarrow> [] | Some ps \<Rightarrow> map (\<lambda>p. providerWithPlacename (decodeItem p)) ps)
                   else []) conf)"

section \<open>The notation of providers\<close>

definition pname_ok :: "string \<Rightarrow> bool" where
  "pname_ok n \<longleftrightarrow> n \<noteq> [] \<and> trimstr n = n"

definition place_ok :: "string \<Rightarrow> bool" where
  "place_ok n \<longleftrightarrow> pname_ok n \<and> RB \<notin> set n \<and> squote \<notin> set n"

definition item_ok :: "provider_item \<Rightarrow> bool" where
  "item_ok it \<longleftrightarrow> LB \<notin> set (provider it) \<and>
     (placename it \<noteq> [] \<longrightarrow> pname_ok (provider it) \<and> place_ok (placename it))"

lemma item_sel [simp]: "provider (item p n) = p" "placename (item p n) = n"
  by (simp_all add: item_def)

lemma item_collapse [simp]: "item (provider it) (placename it) = it"
  by (simp add: item_def)

lemma find_char_append: "c \<notin> set u \<Longrightarrow> find_idx (\<lambda>x. x = c) (u @ c # v) = Some (length u)"
  by (induction u) auto

lemma find_char_None: "c \<notin> set u \<Longrightarrow> find_idx (\<lambda>x. x = c) u = None"
  by (auto simp: find_idx_None)

lemma dropWhile_rev_snoc: "P c \<Longrightarrow> dropWhile P (rev (s @ [c])) = dropWhile P (rev s)"
  by simp

lemma pname_ok_ends: "pname_ok n \<Longrightarrow> hd n \<notin> set trim_set \<and> last n \<notin> set trim_set"
  using strip_ends [of trim_set n] by (simp add: pname_ok_def trimstr_strip)

lemma trim_blank: "pname_ok n \<Longrightarrow> trimstr (n @ '' '') = n"
proof -
  assume n: "pname_ok n"
  then have "dropWhile (\<lambda>c. c \<in> set trim_set) (n @ '' '') = n @ '' ''"
    using pname_ok_ends [OF n] by (cases n) (auto simp: pname_ok_def)
  moreover have "dropWhile (\<lambda>c. c \<in> set trim_set) (rev n) = rev n"
    using n pname_ok_ends [OF n] by (cases n rule: rev_cases) (auto simp: pname_ok_def)
  ultimately show ?thesis by (simp add: trimstr_strip strip_def) (simp add: trim_set_def)
qed

lemma unquote_plain: "squote \<notin> set n \<Longrightarrow> unquote n = n"
  by (cases n) (auto simp: unquote_def)

text \<open>The notation with brackets, whatever stands between them.\<close>

lemma decode_list_bracket:
  assumes "pname_ok p" "LB \<notin> set p" "RB \<notin> set b"
  shows "fst (decode_list (p @ '' ['' @ b @ '']'') ml) =
    (let pl = (if ml then decode_names p (split_fields (trimstr b) (CHR '','') squote)
               else let u = unquote (trimstr b) in if u \<noteq> [] then [item p u] else [])
     in if pl = [] then [item p []] else pl)"
proof -
  let ?s = "p @ '' ['' @ b @ '']''"
  have f: "find_idx (\<lambda>c. c = LB) ?s = Some (length (p @ '' ''))"
    using find_char_append [of LB "p @ '' ''" "b @ '']''"] assms(2) by simp
  have t: "take (length (p @ '' '')) ?s = p @ '' ''" by simp
  have e: "str_erase ?s 0 (length (p @ '' '') + 1) = b @ '']''" by (simp add: str_erase_def)
  have r: "find_idx (\<lambda>c. c = RB) (b @ '']'') = Some (length b)"
    using find_char_append [of RB b "[]"] assms(3) by simp
  show ?thesis
    using assms(1) unfolding decode_list_def f option.case t e r trim_blank [OF assms(1)] Let_def
    by (simp add: splitstr_eq pname_ok_def)
qed

lemma decodeItem_item_ok: "item_ok it \<Longrightarrow> decodeItem (providerWithPlacename it) = it"
proof (cases "placename it = []")
  case True
  assume "item_ok it"
  with True have "decodeItem (providerWithPlacename it) = item (provider it) []"
    by (simp add: decodeItem_def providerWithPlacename_def decode_list_def item_ok_def find_char_None)
  also have "\<dots> = it" using item_collapse [of it] True by simp
  finally show ?thesis .
next
  case False
  assume "item_ok it"
  with False have a: "pname_ok (provider it)" "LB \<notin> set (provider it)" "place_ok (placename it)"
    by (auto simp: item_ok_def)
  from a(3) have "RB \<notin> set (placename it)" "trimstr (placename it) = placename it"
      "unquote (placename it) = placename it"
    by (auto simp: place_ok_def pname_ok_def unquote_plain)
  with a False show ?thesis
    by (simp add: decodeItem_def providerWithPlacename_def decode_list_bracket
        del: append_Cons append_Nil)
qed

lemma decode_names_ok: "\<forall>n \<in> set ns. place_ok n \<Longrightarrow> decode_names p ns = map (item p) ns"
  by (induction ns) (auto simp: place_ok_def pname_ok_def unquote_plain)

lemma hd_join: "ns \<noteq> [] \<Longrightarrow> hd ns \<noteq> [] \<Longrightarrow> hd (join c ns) = hd (hd ns)"
  by (cases ns; cases "tl ns") auto

lemma last_join: "ns \<noteq> [] \<Longrightarrow> last ns \<noteq> [] \<Longrightarrow> join c ns \<noteq> [] \<and> last (join c ns) = last (last ns)"
  by (induction c ns rule: join.induct) auto

lemma join_name_ok:
  assumes "ns \<noteq> []" "\<forall>n \<in> set ns. pname_ok n"
  shows "trimstr (join c ns) = join c ns"
proof -
  have h: "pname_ok (hd ns)" "pname_ok (last ns)" using assms by auto
  then have "hd ns \<noteq> []" "last ns \<noteq> []" by (auto simp: pname_ok_def)
  with assms(1) have "join c ns \<noteq> []" "hd (join c ns) = hd (hd ns)" "last (join c ns) = last (last ns)"
    using hd_join [of ns c] last_join [of ns c] by auto
  with pname_ok_ends [OF h(1)] pname_ok_ends [OF h(2)] show ?thesis
    by (auto simp: trimstr_strip intro: strip_no_ends)
qed

lemma set_join: "set (join c ns) \<subseteq> insert c (\<Union> (set ` set ns))"
  by (induction c ns rule: join.induct) auto

lemma ProviderList_decode_ok:
  assumes "pname_ok p" "LB \<notin> set p" "ns \<noteq> []" "\<forall>n \<in> set ns. place_ok n \<and> CHR '','' \<notin> set n"
  shows "ProviderList_decode (p @ '' ['' @ join (CHR '','') ns @ '']'') True = map (item p) ns"
proof -
  let ?b = "join (CHR '','') ns"
  have b: "RB \<notin> set ?b"
    using set_join [of "CHR '',''" ns] assms(4) by (auto simp: place_ok_def)
  have t: "trimstr ?b = ?b"
    using assms(3,4) by (intro join_name_ok) (auto simp: place_ok_def)
  have "raw_fields (CHR '','') squote (CHR 0x00) False ?b = ns"
    using assms(3,4) by (intro fields_join) (auto simp: place_ok_def)
  then have "split_fields ?b (CHR '','') squote = ns"
    using assms(4) by (simp add: split_fields_def map_idI place_ok_def pname_ok_def)
  with assms t show ?thesis
    by (simp add: ProviderList_decode_def decode_list_bracket [OF assms(1,2) b] decode_names_ok
        del: append_Cons append_Nil)
qed

text \<open>Balanced parentheses, read from depth \<open>n\<close>.\<close>

fun balanced :: "nat \<Rightarrow> string \<Rightarrow> bool" where
  "balanced n [] \<longleftrightarrow> n = 0"
| "balanced n (c # cs) =
     (if c = CHR ''('' then balanced (Suc n) cs
      else if c = CHR '')'' then n > 0 \<and> balanced (n - 1) cs
      else balanced n cs)"

lemma close_paren_balanced: "balanced n b \<Longrightarrow> close_paren (Suc n) (b @ CHR '')'' # s) = Some s"
proof (induction b arbitrary: n)
  case (Cons c b)
  then show ?case by (cases n) (auto split: if_splits)
qed simp

lemma close_paren_Some:
  "close_paren (Suc n) s = Some r \<Longrightarrow> \<exists>b. s = b @ CHR '')'' # r \<and> balanced n b"
proof (induction s arbitrary: n)
  case (Cons c s)
  consider "c = CHR '')''" "n = 0" | m where "c = CHR '')''" "n = Suc m" | "c = CHR ''(''"
    | "c \<noteq> CHR '')''" "c \<noteq> CHR ''(''" by (cases n) auto
  then show ?case
  proof cases
    case 1
    with Cons.prems show ?thesis by (intro exI [of _ "[]"]) simp
  next
    case 2
    with Cons.prems Cons.IH [of m] obtain b where "s = b @ CHR '')'' # r" "balanced m b" by auto
    with 2 show ?thesis by (intro exI [of _ "c # b"]) simp
  next
    case 3
    with Cons.prems Cons.IH [of "Suc n"] obtain b where "s = b @ CHR '')'' # r" "balanced (Suc n) b"
      by auto
    with 3 show ?thesis by (intro exI [of _ "c # b"]) simp
  next
    case 4
    with Cons.prems Cons.IH [of n] obtain b where "s = b @ CHR '')'' # r" "balanced n b" by auto
    with 4 show ?thesis by (intro exI [of _ "c # b"]) simp
  qed
qed simp

section \<open>The tables of reference times\<close>

lemma om_wf_same_keys: "map fst m' = map fst m \<Longrightarrow> om_wf m' \<longleftrightarrow> om_wf m"
  by (simp add: om_wf_def)

lemma om_put_same:
  assumes "om_wf m" "map_of m k = Some v"
  shows "om_put k v m = m"
proof (rule om_extensional)
  show "map_of (om_put k v m) = map_of m" using assms(2) by (auto simp: fun_eq_iff)
qed (use assms in auto)

lemma om_wf_fold_rows: "om_wf m \<Longrightarrow> om_wf (fold (reftime_row now p) rows m)"
  by (induction rows arbitrary: m) (auto simp: reftime_row_def split: option.splits)

lemma keys_fold_rows:
  "k \<in> fst ` set (fold (reftime_row now p) rows m) \<Longrightarrow>
   k \<in> fst ` set m \<or> (\<exists>n. k = providerWithPlacename (item p n))"
proof (induction rows arbitrary: m)
  case (Cons r rows)
  from Cons.IH [of "reftime_row now p r m"] Cons.prems show ?case
    by (cases "snd r") (auto simp: reftime_row_def)
qed simp

lemma getProviderReftimes_Inr:
  assumes "getProviderReftimes w now p spec v = Inr (found, l)"
  shows "om_wf l \<and> found = (l \<noteq> [])
    \<and> (\<forall>k \<in> fst ` set l. \<exists>n. k = providerWithPlacename (item (provider (decodeItem p)) n))"
proof -
  let ?q = "provider (decodeItem p)"
  obtain rows where "l = fold (reftime_row now ?q) rows []" "found = (l \<noteq> [])"
    using assms by (auto simp: getProviderReftimes_def provider_reftime_def
        split: sum.splits wci_exn.splits)
  then show ?thesis
    using om_wf_fold_rows [of "[]" now ?q rows] keys_fold_rows [of _ now ?q rows "[]"] by auto
qed

text \<open>What one entry of the answer makes of the entry of the table.\<close>

definition merged ::
  "provider_item \<Rightarrow> provider_times \<Rightarrow> string \<Rightarrow> provider_times option \<Rightarrow> provider_times \<Rightarrow> provider_times"
where
  "merged pi req k old rt =
     (let fresh = rt\<lparr>dataversion := dataversion req, disabled := disabled req\<rparr>
      in case old of
           None \<Rightarrow> fresh
         | Some cur \<Rightarrow>
             if placename pi = [] \<or> k = providerWithPlacename pi
             then apply_requests req (if refTime cur = refTime rt then cur
                                      else rt\<lparr>disabled := disabled cur\<rparr>)
             else fresh)"

lemma map_of_process_entry:
  "map_of (snd (process_entry pi req (k, rt) acc)) =
     (map_of (snd acc))(k \<mapsto> merged pi req k (map_of (snd acc) k) rt)"
  by (cases acc; cases "map_of (snd acc) k") (auto simp: process_entry_def merged_def Let_def)

lemma map_of_fold_entries:
  "distinct (map fst res) \<Longrightarrow>
   map_of (snd (fold (process_entry pi req) res acc)) k =
     (case map_of res k of
        None \<Rightarrow> map_of (snd acc) k
      | Some rt \<Rightarrow> Some (merged pi req k (map_of (snd acc) k) rt))"
proof (induction res arbitrary: acc)
  case (Cons r res)
  obtain a rt where r: "r = (a, rt)" by (cases r)
  with Cons.prems have "map_of res a = None" by (simp add: map_of_eq_None_iff)
  then show ?case
    using Cons.IH [of "process_entry pi req r acc"] Cons.prems r
    by (auto simp: map_of_process_entry split: option.splits)
qed simp

lemma om_wf_distinct: "om_wf m \<Longrightarrow> distinct (map fst m)"
  by (auto simp: om_wf_def strict_sorted_iff)

text \<open>What every step of the update keeps, from the table \<open>T\<close> the call started with.\<close>

definition upd_ok :: "reftimes \<Rightarrow> bool \<times> reftimes \<Rightarrow> bool" where
  "upd_ok T acc \<longleftrightarrow>
     om_wf (snd acc) \<and> fst ` set T \<subseteq> fst ` set (snd acc) \<and> (\<not> fst acc \<longrightarrow> snd acc = T)"

lemma requests_no_change: "\<not> requests_change req t \<Longrightarrow> apply_requests req t = t"
  by (auto simp: requests_change_def apply_requests_def)

lemma upd_ok_entry: "upd_ok T acc \<Longrightarrow> upd_ok T (process_entry pi req r acc)"
proof -
  assume ok: "upd_ok T acc"
  obtain k rt where r: "r = (k, rt)" by (cases r)
  obtain ch tmp where a: "acc = (ch, tmp)" by (cases acc)
  from ok a have "om_put k (apply_requests req cur) tmp = tmp"
    if "map_of tmp k = Some cur" "\<not> requests_change req cur" for cur
    using that by (simp add: upd_ok_def requests_no_change om_put_same)
  with ok r a show ?thesis
    by (auto simp: upd_ok_def process_entry_def Let_def split: option.splits)
qed

lemma upd_ok_entries: "upd_ok T acc \<Longrightarrow> upd_ok T (fold (process_entry pi req) res acc)"
proof (induction res arbitrary: acc)
  case (Cons r res)
  then show ?case using upd_ok_entry [of T acc pi req r] by simp
qed simp

lemma filter_empty_map: "length (filter P l) = 0 \<Longrightarrow> (\<And>x. \<not> P x \<Longrightarrow> f x = x) \<Longrightarrow> map f l = l"
  by (auto simp: filter_empty_conv intro: map_idI)

lemma updateDisableStatus_same: "fst (updateDisableStatus l p d) = 0 \<Longrightarrow> snd (updateDisableStatus l p d) = l"
  by (auto simp: updateDisableStatus_def Let_def filter_empty_conv intro!: map_idI)

lemma updateDataversion_same: "fst (updateDataversion l p v) = 0 \<Longrightarrow> snd (updateDataversion l p v) = l"
  by (auto simp: updateDataversion_def Let_def filter_empty_conv intro!: map_idI)

lemma updateDisableStatus_keys [simp]: "map fst (snd (updateDisableStatus l p d)) = map fst l"
  by (simp add: updateDisableStatus_def Let_def case_prod_beta comp_def)

lemma updateDataversion_keys [simp]: "map fst (snd (updateDataversion l p v)) = map fst l"
  by (simp add: updateDataversion_def Let_def case_prod_beta comp_def)

lemma status_update_keys: "map fst (snd (status_update p req l)) = map fst l"
  by (auto simp: status_update_def Let_def case_prod_beta)

lemma status_update_same: "\<not> fst (status_update p req l) \<Longrightarrow> snd (status_update p req l) = l"
  by (auto simp: status_update_def Let_def case_prod_beta updateDisableStatus_same updateDataversion_same
      split: if_splits)

lemma upd_ok_status:
  assumes "upd_ok T (ch, tmp)"
  shows "upd_ok T (ch \<or> fst (status_update p req tmp), snd (status_update p req tmp))"
proof -
  have k: "map fst (snd (status_update p req tmp)) = map fst tmp" by (rule status_update_keys)
  then have "fst ` set (snd (status_update p req tmp)) = fst ` set tmp"
    by (metis list.set_map)
  with assms k show ?thesis
    by (auto simp: upd_ok_def om_wf_same_keys [OF k] status_update_same)
qed

lemma process_request_eq:
  "process_request w now fmt proto (name, req) (ch, tmp) =
     (let st = (if reftimeUpdateRequest req then (False, tmp) else status_update name req tmp);
          acc = (ch \<or> fst st, snd st)
      in if \<not> reftimeUpdateRequest req \<and> (\<not> fst st \<or> reftime_disabled (snd st) name = Some True)
         then Inr acc
         else bind_result (getProviderReftimes w now name (reftime_spec fmt (refTime req) proto) (dataversion req))
                (\<lambda>r. if \<not> fst r then Inl (missing_data fmt name req)
                     else Inr (fold (process_entry (decodeItem name) req) (snd r) acc)))"
  unfolding process_request_def Let_def case_prod_beta prod.sel by (rule refl)

lemma upd_ok_request:
  assumes "upd_ok T acc" "process_request w now fmt proto rq acc = Inr acc'"
  shows "upd_ok T acc'"
proof -
  obtain name req where rq: "rq = (name, req)" by (cases rq)
  obtain ch tmp where a: "acc = (ch, tmp)" by (cases acc)
  define st where "st = (if reftimeUpdateRequest req then (False, tmp) else status_update name req tmp)"
  define acc1 where "acc1 = (ch \<or> fst st, snd st)"
  have ok: "upd_ok T acc1"
    using assms(1) upd_ok_status [of T ch tmp name req] by (simp add: acc1_def st_def a)
  have "acc' = acc1 \<or> (\<exists>res. acc' = fold (process_entry (decodeItem name) req) res acc1)"
    using assms(2) unfolding rq a process_request_eq st_def [symmetric] Let_def acc1_def [symmetric]
    by (auto simp: bind_result_def split: if_splits sum.splits)
  with ok show ?thesis by (auto intro: upd_ok_entries)
qed

lemma upd_ok_requests:
  "process_requests w now fmt proto rs acc = Inr acc' \<Longrightarrow> upd_ok T acc \<Longrightarrow> upd_ok T acc'"
proof (induction rs arbitrary: acc)
  case (Cons r rs)
  then show ?case
    by (auto simp: bind_result_def split: sum.splits intro: upd_ok_request)
qed simp

lemma first_match_update:
  assumes "m = map (\<lambda>(k, t). (k, if item_matches (decodeItem p) k \<and> Q t then f t else t)) l"
  shows "first_match m p = map_option (\<lambda>t. if Q t then f t else t) (first_match l p)"
  unfolding assms by (induction l) (auto simp: first_match_def Let_def)

lemma filter_map_id: "(\<And>x. P x \<longleftrightarrow> f x \<noteq> x) \<Longrightarrow> length (filter P l) = 0 \<longleftrightarrow> map f l = l"
  by (induction l) auto

lemma updateDisableStatus_zero:
  "fst (updateDisableStatus l p d) = 0 \<longleftrightarrow> snd (updateDisableStatus l p d) = l"
proof -
  have "t\<lparr>disabled := d\<rparr> \<noteq> t" if "disabled t \<noteq> d" for t
    using that by (metis provider_times.select_convs(6) provider_times.surjective provider_times.update_convs(6))
  then show ?thesis
    unfolding updateDisableStatus_def Let_def prod.sel by (intro filter_map_id) (auto split: prod.splits)
qed

lemma updateDataversion_zero:
  "fst (updateDataversion l p v) = 0 \<longleftrightarrow> snd (updateDataversion l p v) = l"
proof -
  have "t\<lparr>dataversion := v\<rparr> \<noteq> t" if "dataversion t \<noteq> v" for t
    using that by (metis provider_times.select_convs(7) provider_times.surjective provider_times.update_convs(7))
  then show ?thesis
    unfolding updateDataversion_def Let_def prod.sel by (intro filter_map_id) (auto split: prod.splits)
qed

lemma load_providers_inv:
  assumes "\<And>p sp fnd tmp l. p \<in> set ps0 \<Longrightarrow> getProviderReftimes w now p sp (-1) = Inr (fnd, tmp) \<Longrightarrow>
             Q l \<Longrightarrow> Q (omap.put_all tmp l)"
  shows "set ps \<subseteq> set ps0 \<Longrightarrow> Q l \<Longrightarrow> Q (snd (load_providers w now spec ps l))"
proof (induction ps arbitrary: l)
  case (Cons p ps)
  from Cons.prems have p: "p \<in> set ps0" "set ps \<subseteq> set ps0" by auto
  have new: "Q (snd (load_providers w now spec ps (omap.put_all tmp l)))"
    if "getProviderReftimes w now p sp (-1) = Inr (fnd, tmp)" for sp fnd tmp
    by (intro Cons.IH p assms [OF p(1) that] Cons.prems)
  have old: "Q (snd (load_providers w now spec ps l))"
    by (intro Cons.IH p Cons.prems)
  show ?case
    using Cons.prems(2) new [of spec] new [of "''NULL''"] old
    by (simp split: sum.split prod.split bool.split)
qed simp

lemma keys_put_all: "fst ` set (omap.put_all kvs m) = fst ` set kvs \<union> fst ` set m"
proof -
  have "dom (map_of (omap.put_all kvs m)) = dom (map_of kvs) \<union> dom (map_of m)"
    by (simp add: omap.find_put_all dom_map_of_conv_image_fst Un_commute)
  then show ?thesis by (simp add: dom_map_of_conv_image_fst)
qed

definition key_of :: "string list \<Rightarrow> string \<Rightarrow> bool" where
  "key_of ps k \<longleftrightarrow> (\<exists>p \<in> set ps. \<exists>n. k = providerWithPlacename (item (provider (decodeItem p)) n))"

lemma load_providers_keys:
  assumes "set ps \<subseteq> set ps0"
  shows "om_wf (snd (load_providers w now spec ps [])) \<and>
    (\<forall>k \<in> fst ` set (snd (load_providers w now spec ps [])). key_of ps0 k)"
proof (rule load_providers_inv [where Q = "\<lambda>l. om_wf l \<and> (\<forall>k \<in> fst ` set l. key_of ps0 k)", OF _ assms])
  fix p sp fnd tmp and l :: reftimes
  assume p: "p \<in> set ps0" and g: "getProviderReftimes w now p sp (-1) = Inr (fnd, tmp)"
    and l: "om_wf l \<and> (\<forall>k \<in> fst ` set l. key_of ps0 k)"
  have "\<forall>k \<in> fst ` set tmp. key_of ps0 k"
    using getProviderReftimes_Inr [OF g] p unfolding key_of_def by blast
  with l show "om_wf (omap.put_all tmp l) \<and> (\<forall>k \<in> fst ` set (omap.put_all tmp l). key_of ps0 k)"
    by (simp add: keys_put_all omap.wf_put_all ball_Un)
qed simp

section \<open>Properties\<close>

text \<open>
  An item printed as \<open>provider [place]\<close> is read back by \<open>decodeItem\<close>, and
  \<open>decode\<close> of \<open>provider [place1,place2,...]\<close> gives one item for every place, in order.
\<close>

theorem provider_notation_roundtrip:
  "(item_ok it \<longrightarrow> decodeItem (providerWithPlacename it) = it) \<and>
   (pname_ok p \<and> LB \<notin> set p \<and> ns \<noteq> [] \<and> (\<forall>n \<in> set ns. place_ok n \<and> CHR '','' \<notin> set n) \<longrightarrow>
      ProviderList_decode (p @ '' ['' @ join (CHR '','') ns @ '']'') True = map (item p) ns)"
  using decodeItem_item_ok [of it] ProviderList_decode_ok [of p ns] by blast

theorem provider_notation_roundtrip_witness:
  "decodeItem ''met [norge]'' = item ''met'' ''norge''
   \<and> ProviderList_decode ''met [norge,a b]'' True = [item ''met'' ''norge'', item ''met'' ''a b'']"
proof -
  have "item_ok (item ''met'' ''norge'')" "pname_ok ''met''" "place_ok ''norge''" "place_ok ''a b''"
    by code_simp+
  then show ?thesis
    using provider_notation_roundtrip [of "item ''met'' ''norge''" "''met''" "[''norge'', ''a b'']"]
    by (simp add: providerWithPlacename_def)
qed

text \<open>
  \<open>decodeFromWdb\<close> takes as place name what follows the parenthesis that closes the first
  one, however deep the geometry before it is nested, and throws exactly when the first
  parenthesis is never closed.
\<close>

theorem decodeFromWdb_correct:
  assumes "CHR ''('' \<notin> set pre"
  shows "(balanced 0 b \<longrightarrow>
            decodeFromWdb prov (pre @ CHR ''('' # b @ CHR '')'' # nm)
              = Inr (item (boost_trim prov) (boost_trim nm))) \<and>
         ((\<nexists>b nm. s = b @ CHR '')'' # nm \<and> balanced 0 b) \<longleftrightarrow>
            (\<exists>e. decodeFromWdb prov (pre @ CHR ''('' # s) = Inl e))"
proof -
  have f: "find_idx (\<lambda>c. c = CHR ''('') (pre @ CHR ''('' # t) = Some (length pre)" for t
    by (rule find_char_append [OF assms])
  have e: "decodeFromWdb prov (pre @ CHR ''('' # t) =
      (case close_paren 1 t of
         None \<Rightarrow> Inl (Logic_error (''WDB Placename, invalid format '' @ quote (pre @ CHR ''('' # t)))
       | Some nm \<Rightarrow> Inr (item (boost_trim prov) (boost_trim nm)))" for t
    unfolding decodeFromWdb_def f by simp
  have "close_paren 1 s = None \<longleftrightarrow> (\<nexists>b nm. s = b @ CHR '')'' # nm \<and> balanced 0 b)"
    using close_paren_Some [of 0 s] close_paren_balanced [of 0] by (cases "close_paren 1 s") auto
  then show ?thesis
    using close_paren_balanced [of 0 b nm] by (auto simp: e split: option.splits)
qed

theorem decodeFromWdb_correct_witness:
  "decodeFromWdb ''met'' ''nearest POLYGON((10 60),(11 61)) auto'' = Inr (item ''met'' ''auto'')"
proof -
  have "balanced 0 ''(10 60),(11 61)''" "CHR ''('' \<notin> set ''nearest POLYGON''" by code_simp+
  moreover have "boost_trim ''met'' = ''met''" "boost_trim '' auto'' = ''auto''" by code_simp+
  ultimately show ?thesis
    using decodeFromWdb_correct [of "''nearest POLYGON''" "''(10 60),(11 61)''" "''met''" "'' auto''" "[]"]
    by simp
qed

text \<open>
  C36: An update of the reference times is atomic: an exception leaves the table as it was, and a
  return keeps it a well-formed map that has lost no entry; a return of \<open>false\<close> (nothing
  changed) means that the table is the same.
\<close>

theorem updateProviderRefTimes_atomic:
  assumes "om_wf T"
  shows "case updateProviderRefTimes w now fmt reqs T proto of
           (Inl e, T') \<Rightarrow> T' = T
         | (Inr ch, T') \<Rightarrow>
             om_wf T' \<and> dom (map_of T) \<subseteq> dom (map_of T') \<and> (\<not> ch \<longrightarrow> T' = T)"
proof (cases "process_requests w now fmt proto reqs (False, T)")
  case (Inl e)
  then show ?thesis by (simp add: updateProviderRefTimes_def)
next
  case (Inr r)
  have "upd_ok T (False, T)" using assms by (simp add: upd_ok_def)
  from upd_ok_requests [OF Inr this] Inr show ?thesis
    by (cases r) (simp add: updateProviderRefTimes_def upd_ok_def dom_map_of_conv_image_fst)
qed

theorem updateProviderRefTimes_atomic_witness:
  "fst (updateProviderRefTimes (\<lambda>q. Inl Wci_other) 0 (\<lambda>t. [])
          [(''met'', provider_times_init\<lparr>reftimeUpdateRequest := True\<rparr>)] [(''met'', provider_times_init)] 2)
     = Inl (Logic_error ''Unknown error while checking for reference times.'')
   \<and> snd (updateProviderRefTimes (\<lambda>q. Inl Wci_other) 0 (\<lambda>t. [])
          [(''met'', provider_times_init\<lparr>reftimeUpdateRequest := True\<rparr>)] [(''met'', provider_times_init)] 2)
     = [(''met'', provider_times_init)]"
proof -
  have wf: "om_wf [(''met'', provider_times_init)]" by (simp add: om_wf_def)
  have "fst (updateProviderRefTimes (\<lambda>q. Inl Wci_other) 0 (\<lambda>t. [])
          [(''met'', provider_times_init\<lparr>reftimeUpdateRequest := True\<rparr>)] [(''met'', provider_times_init)] 2)
     = Inl (Logic_error ''Unknown error while checking for reference times.'')"
    by (simp add: updateProviderRefTimes_def process_request_def getProviderReftimes_def
        provider_reftime_def)
  with updateProviderRefTimes_atomic [OF wf, of "\<lambda>q. Inl Wci_other" 0 "\<lambda>t. []"
      "[(''met'', provider_times_init\<lparr>reftimeUpdateRequest := True\<rparr>)]" 2]
  show ?thesis by (auto split: prod.splits)
qed

lemma single_reftime_request:
  assumes "reftimeUpdateRequest req"
    "getProviderReftimes w now name (reftime_spec fmt (refTime req) proto) (dataversion req) = Inr (found, res)"
  shows "updateProviderRefTimes w now fmt [(name, req)] T proto =
    (if \<not> found then (Inl (missing_data fmt name req), T)
     else let r = fold (process_entry (decodeItem name) req) res (False, T) in (Inr (fst r), snd r))"
  using assms
  by (simp add: updateProviderRefTimes_def process_request_eq bind_result_def Let_def split: prod.splits)

text \<open>
  A request for a new reference time merges the database's answer into the table: an entry
  the answer does not name is untouched; a named entry of the requested provider and place keeps
  its \<open>disabled\<close> flag, and its update time when the reference time is the same, with what
  the request asks for applied on top; without data the call throws and changes nothing.
\<close>

theorem updateProviderRefTimes_merge:
  assumes "reftimeUpdateRequest req"
    and "getProviderReftimes w now name (reftime_spec fmt (refTime req) proto) (dataversion req) = Inr (found, res)"
  shows "(\<not> found \<longrightarrow>
            updateProviderRefTimes w now fmt [(name, req)] T proto = (Inl (missing_data fmt name req), T)) \<and>
         (found \<longrightarrow>
            (\<exists>ch T'. updateProviderRefTimes w now fmt [(name, req)] T proto = (Inr ch, T') \<and>
               (\<forall>k. map_of T' k =
                  (case map_of res k of
                     None \<Rightarrow> map_of T k
                   | Some rt \<Rightarrow> Some (merged (decodeItem name) req k (map_of T k) rt)))))"
proof -
  have "distinct (map fst res)"
    using getProviderReftimes_Inr [OF assms(2)] by (auto intro: om_wf_distinct)
  then have "map_of (snd (fold (process_entry (decodeItem name) req) res (False, T))) k =
      (case map_of res k of None \<Rightarrow> map_of T k
       | Some rt \<Rightarrow> Some (merged (decodeItem name) req k (map_of T k) rt))" for k
    by (simp add: map_of_fold_entries split: option.split)
  then show ?thesis
    using single_reftime_request [OF assms, of T] by (simp add: Let_def)
qed

text \<open>A database with one place, and one with two.\<close>

definition answer1 :: wci where "answer1 q = Inr [(''norge'', Some 7)]"
definition answer2 :: wci where "answer2 q = Inr [(''norge'', Some 7), (''sverige'', Some 7)]"

definition entry :: "int \<Rightarrow> provider_times" where
  "entry t = provider_times_init\<lparr>refTime := Some 7, updatedTime := Some t\<rparr>"

definition ask :: provider_times where
  "ask = provider_times_init\<lparr>reftimeUpdateRequest := True\<rparr>"

lemma answer1_result:
  "getProviderReftimes answer1 9 ''met [norge]'' spec v = Inr (True, [(''met [norge]'', entry 9)])"
proof -
  have d: "decodeItem ''met [norge]'' = item ''met'' ''norge''" by code_simp
  show ?thesis
    by (simp add: getProviderReftimes_def provider_reftime_def answer1_def reftime_row_def entry_def
        providerWithPlacename_def d)
qed

lemma answer2_result:
  "getProviderReftimes answer2 9 ''met [norge]'' spec v =
     Inr (True, [(''met [norge]'', entry 9), (''met [sverige]'', entry 9)])"
proof -
  have d: "decodeItem ''met [norge]'' = item ''met'' ''norge''" by code_simp
  show ?thesis
    by (simp add: getProviderReftimes_def provider_reftime_def answer2_def reftime_row_def entry_def
        providerWithPlacename_def d)
qed

theorem updateProviderRefTimes_merge_witness:
  "\<exists>T'. snd (updateProviderRefTimes answer1 9 (\<lambda>t. []) [(''met [norge]'', ask)]
           [(''met [norge]'', (entry 3)\<lparr>disabled := True\<rparr>)] 2) = T' \<and>
        map_of T' ''met [norge]'' = Some ((entry 3)\<lparr>disabled := True\<rparr>)"
proof -
  have r: "reftimeUpdateRequest ask" by (simp add: ask_def)
  have d: "decodeItem ''met [norge]'' = item ''met'' ''norge''" by code_simp
  from updateProviderRefTimes_merge [OF r answer1_result, where fmt = "\<lambda>t. []" and proto = 2
      and T = "[(''met [norge]'', (entry 3)\<lparr>disabled := True\<rparr>)]"]
  obtain T' where "snd (updateProviderRefTimes answer1 9 (\<lambda>t. []) [(''met [norge]'', ask)]
           [(''met [norge]'', (entry 3)\<lparr>disabled := True\<rparr>)] 2) = T'"
      "map_of T' ''met [norge]'' =
         Some (merged (decodeItem ''met [norge]'') ask ''met [norge]'' (Some ((entry 3)\<lparr>disabled := True\<rparr>)) (entry 9))"
    by auto
  then show ?thesis
    by (simp add: merged_def d providerWithPlacename_def entry_def apply_requests_def ask_def
        provider_times_init_def)
qed

text \<open>
  A request for one place overwrites the entries of the provider's other places: the answer
  names all places of the provider, and the branch that its comment reserves for entries that are
  not in the table also takes those that are, which lose their \<open>disabled\<close> flag, their data
  version and their update time to the request's.
\<close>

theorem update_clobbers_other_place:
  assumes "reftimeUpdateRequest req"
    and "getProviderReftimes w now name (reftime_spec fmt (refTime req) proto) (dataversion req) = Inr (True, res)"
    and "placename (decodeItem name) \<noteq> []" "k \<noteq> providerWithPlacename (decodeItem name)"
    and "map_of T k = Some old" "map_of res k = Some rt"
  shows "map_of (snd (updateProviderRefTimes w now fmt [(name, req)] T proto)) k =
           Some (rt\<lparr>dataversion := dataversion req, disabled := disabled req\<rparr>)"
proof -
  have "distinct (map fst res)"
    using getProviderReftimes_Inr [OF assms(2)] by (auto intro: om_wf_distinct)
  then show ?thesis
    using single_reftime_request [OF assms(1,2), of T]
      map_of_fold_entries [of res "decodeItem name" req "(False, T)" k] assms(3-6)
    by (simp add: Let_def merged_def)
qed

theorem update_clobbers_other_place_witness:
  "map_of (snd (updateProviderRefTimes answer2 9 (\<lambda>t. []) [(''met [norge]'', ask)]
        [(''met [norge]'', entry 3), (''met [sverige]'', (entry 3)\<lparr>disabled := True\<rparr>)] 2)) ''met [sverige]''
     = Some (entry 9)"
proof -
  have r: "reftimeUpdateRequest ask" by (simp add: ask_def)
  have d: "decodeItem ''met [norge]'' = item ''met'' ''norge''" by code_simp
  show ?thesis
    using update_clobbers_other_place [OF r answer2_result, where k = "''met [sverige]''"
        and T = "[(''met [norge]'', entry 3), (''met [sverige]'', (entry 3)\<lparr>disabled := True\<rparr>)]"
        and old = "(entry 3)\<lparr>disabled := True\<rparr>" and rt = "entry 9" and fmt = "\<lambda>t. []" and proto = 2]
    by (simp add: d providerWithPlacename_def) (simp add: ask_def entry_def provider_times_init_def)
qed

text \<open>
  The disable and data version updates reach exactly the entries that match the name: a
  later lookup of the same name sees the new value when there was a match and the rest of the
  entry as before, no key changes, and 0 is returned only when nothing changed.
\<close>

theorem status_updates_correct:
  "first_match (snd (updateDisableStatus l p d)) p = map_option (\<lambda>t. t\<lparr>disabled := d\<rparr>) (first_match l p) \<and>
   first_match (snd (updateDataversion l p v)) p = map_option (\<lambda>t. t\<lparr>dataversion := v\<rparr>) (first_match l p) \<and>
   map fst (snd (updateDisableStatus l p d)) = map fst l \<and>
   map fst (snd (updateDataversion l p v)) = map fst l \<and>
   (fst (updateDisableStatus l p d) = 0 \<longleftrightarrow> snd (updateDisableStatus l p d) = l) \<and>
   (fst (updateDataversion l p v) = 0 \<longleftrightarrow> snd (updateDataversion l p v) = l)"
proof -
  have eq: "(\<lambda>t. if disabled t \<noteq> d then t\<lparr>disabled := d\<rparr> else t) = (\<lambda>t. t\<lparr>disabled := d\<rparr>)"
      "(\<lambda>t. if dataversion t \<noteq> v then t\<lparr>dataversion := v\<rparr> else t) = (\<lambda>t. t\<lparr>dataversion := v\<rparr>)"
    by auto
  have
    "first_match (snd (updateDisableStatus l p d)) p =
       map_option (\<lambda>t. if disabled t \<noteq> d then t\<lparr>disabled := d\<rparr> else t) (first_match l p)"
    by (rule first_match_update) (simp add: updateDisableStatus_def Let_def)
  moreover have
    "first_match (snd (updateDataversion l p v)) p =
       map_option (\<lambda>t. if dataversion t \<noteq> v then t\<lparr>dataversion := v\<rparr> else t) (first_match l p)"
    by (rule first_match_update) (simp add: updateDataversion_def Let_def)
  ultimately show ?thesis
    unfolding eq updateDisableStatus_zero updateDataversion_zero updateDisableStatus_keys
      updateDataversion_keys by blast
qed

text \<open>
  The initial load leaves a well-formed table whose keys all belong to the configured
  providers, and reports success exactly when it found something; with no provider configured
  it reports success and leaves the table alone. An exception has by then dropped the old table.
\<close>

theorem updateProviderRefTimes_init_correct:
  "(providers = [] \<longrightarrow> updateProviderRefTimes_init w now fmt T providers proto = (Inr True, T)) \<and>
   (providers \<noteq> [] \<longrightarrow>
      (case updateProviderRefTimes_init w now fmt T providers proto of
         (r, l) \<Rightarrow> om_wf l \<and> (\<forall>k \<in> dom (map_of l). key_of (map provider providers) k) \<and>
                  (\<forall>b. r = Inr b \<longrightarrow> b = (l \<noteq> []))))"
proof -
  let ?ps = "providerWithoutPlacename providers"
  let ?ld = "load_providers w now (period_spec fmt now proto) ?ps []"
  have "set ?ps \<subseteq> set (map provider providers)" by (simp add: providerWithoutPlacename_def)
  from load_providers_keys [OF this, of w now "period_spec fmt now proto"] show ?thesis
    by (cases ?ld; cases "fst ?ld")
      (auto simp: updateProviderRefTimes_init_def dom_map_of_conv_image_fst)
qed

theorem updateProviderRefTimes_init_correct_witness:
  "om_wf (snd (updateProviderRefTimes_init answer1 9 (\<lambda>t. []) [] [item ''met'' []] 2))
   \<and> updateProviderRefTimes_init answer1 9 (\<lambda>t. []) [] [] 2 = (Inr True, [])"
  using updateProviderRefTimes_init_correct [of "[item ''met'' []]" answer1 9 "\<lambda>t. []" "[]" 2]
    updateProviderRefTimes_init_correct [of "[]" answer1 9 "\<lambda>t. []" "[]" 2]
  by (simp split: prod.splits)

end
