(* ===== verification/ParamDefs.thy ===== *)
theory ParamDefs
  imports Providers
begin

text \<open>
  Parameter definitions: \<open>ParamDef\<close> and \<open>ParamDefList\<close> (\<open>src/src/mod_wdb2ts/ParamDef.cpp\<close>)
  and \<open>ParamDefConfig\<close> (\<open>configparser/RequestConf.cc\<close>). The type of \<open>float\<close> values is a type
  variable: the code only stores them, except in \<open>isNullValue\<close>, which takes the comparisons it
  uses as arguments. The back pointer \<open>idDefsParams\<close>, a copy of the whole configuration that no
  function here reads, is left out.
\<close>

section \<open>ParamDef\<close>

datatype cmp_kind = Cmp_undef | Cmp_greater | Cmp_lesser | Cmp_equal

record 'f param_def =
  alias_of :: string
  valueparametername :: string
  valueparameterunit :: string
  levelparametername :: string
  levelfrom :: int
  levelto :: int
  levelunitname :: string
  scale_of :: 'f
  offset_of :: 'f
  dataversion_of :: int
  compare_of :: cmp_kind
  compareValue :: int
  interpolation :: string

definition hasLevelparameters :: "'f param_def \<Rightarrow> bool" where
  "hasLevelparameters p \<longleftrightarrow> levelparametername p \<noteq> [] \<and> levelfrom p \<noteq> int_min \<and> levelto p \<noteq> int_min"

definition param_less :: "'f param_def \<Rightarrow> 'f param_def \<Rightarrow> bool" where
  "param_less a b \<longleftrightarrow>
     valueparametername a < valueparametername b \<and> valueparameterunit a < valueparameterunit b
     \<and> levelparametername a < levelparametername b \<and> levelfrom a < levelfrom b
     \<and> levelto a < levelto b \<and> levelunitname a < levelunitname b"

text \<open>\<open>lt\<close> and \<open>gt\<close> compare a float with an int, \<open>rnd\<close> is \<open>rintf\<close> with the cast to \<open>int\<close>.\<close>

definition isNullValue ::
  "('f \<Rightarrow> int \<Rightarrow> bool) \<Rightarrow> ('f \<Rightarrow> int \<Rightarrow> bool) \<Rightarrow> ('f \<Rightarrow> int) \<Rightarrow> 'f param_def \<Rightarrow> 'f \<Rightarrow> bool"
where
  "isNullValue lt gt rnd p v =
     (case compare_of p of
        Cmp_undef \<Rightarrow> False
      | Cmp_lesser \<Rightarrow> lt v (compareValue p)
      | Cmp_greater \<Rightarrow> gt v (compareValue p)
      | Cmp_equal \<Rightarrow> rnd v = compareValue p)"

section \<open>ParamDefList\<close>

definition defaultProvider :: string where
  "defaultProvider = ''__DEFAULT__''"

type_synonym 'f pd_table = "(string, 'f param_def list) omap"

record 'f param_def_list =
  table :: "'f pd_table"
  providerList :: "string list"
  providerGroups :: provider_groups

definition param_def_list :: "'f param_def_list" where
  "param_def_list = \<lparr>table = [], providerList = [], providerGroups = []\<rparr>"

text \<open>
  The search of both \<open>findParam\<close>: the provider's list, then the default's. The iterator is the
  key and the position in its list.
\<close>

definition search_in :: "('f param_def \<Rightarrow> bool) \<Rightarrow> 'f pd_table \<Rightarrow> string \<Rightarrow> (string \<times> nat) option" where
  "search_in P t k =
     (case map_of t k of None \<Rightarrow> None | Some l \<Rightarrow> map_option (Pair k) (find_idx P l))"

definition search_from :: "('f param_def \<Rightarrow> bool) \<Rightarrow> 'f pd_table \<Rightarrow> string \<Rightarrow> (string \<times> nat) option" where
  "search_from P t prov =
     (let k = (if map_of t prov = None then defaultProvider else prov)
      in if map_of t k = None then None
         else (case search_in P t k of
                 Some pos \<Rightarrow> Some pos
               | None \<Rightarrow> if k \<noteq> defaultProvider then search_in P t defaultProvider else None))"

text \<open>A row of the database's answer; \<^const>\<open>None\<close> for null.\<close>

record row =
  row_provider :: string
  row_parameter :: string
  row_unit :: "string option"
  row_level :: string
  row_levelunit :: "string option"
  row_levelfrom :: int
  row_levelto :: int

definition str_of :: "string option \<Rightarrow> string" where
  "str_of x = (case x of None \<Rightarrow> [] | Some s \<Rightarrow> s)"

definition row_matches :: "row \<Rightarrow> 'f param_def \<Rightarrow> bool" where
  "row_matches r p \<longleftrightarrow>
     row_parameter r = valueparametername p \<and> str_of (row_unit r) = valueparameterunit p
     \<and> row_level r = levelparametername p \<and> row_levelfrom r = levelfrom p
     \<and> row_levelto r = levelto p \<and> str_of (row_levelunit r) = levelunitname p"

text \<open>Result: the iterator, when found, and \<open>providerGroup\<close>.\<close>

definition findParam_row :: "'f param_def_list \<Rightarrow> row \<Rightarrow> (string \<times> nat) option \<times> string" where
  "findParam_row pl r =
     (let providerGroup = lookUpGroupName (providerGroups pl) (row_provider r)
      in (search_from (row_matches r) (table pl) providerGroup, providerGroup))"

definition pd_hasParam :: "'f pd_table \<Rightarrow> string \<Rightarrow> string \<Rightarrow> bool" where
  "pd_hasParam t a provider0 =
     (let prov = (if provider0 = [] then defaultProvider else provider0)
      in case map_of t prov of None \<Rightarrow> False | Some l \<Rightarrow> (\<exists>p \<in> set l. alias_of p = a))"

definition findParam :: "'f pd_table \<Rightarrow> string \<Rightarrow> string \<Rightarrow> (string \<times> nat) option" where
  "findParam t a prov = search_from (\<lambda>p. alias_of p = a) t prov"

definition pd_at :: "'f pd_table \<Rightarrow> string \<Rightarrow> 'f param_def list" where
  "pd_at t k = (case map_of t k of None \<Rightarrow> [] | Some l \<Rightarrow> l)"

fun assign_first :: "'f param_def \<Rightarrow> 'f param_def list \<Rightarrow> 'f param_def list" where
  "assign_first pd [] = []"
| "assign_first pd (p # ps) = (if alias_of p = alias_of pd then pd # ps else p # assign_first pd ps)"

definition addParamDef :: "'f param_def \<Rightarrow> string \<Rightarrow> bool \<Rightarrow> 'f pd_table \<Rightarrow> bool \<times> 'f pd_table" where
  "addParamDef pd provider0 replace t =
     (let prov = (if provider0 = [] then defaultProvider else provider0);
          hasp = pd_hasParam t (alias_of pd) prov
      in if hasp \<and> \<not> replace then (False, t)
         else if \<not> hasp then (True, om_put prov (pd_at t prov @ [pd]) t)
         else (True, om_put prov (assign_first pd (pd_at t prov)) t))"

definition lookupGroupName :: "'f param_def_list \<Rightarrow> string \<Rightarrow> string" where
  "lookupGroupName pl nm = lookUpGroupName (providerGroups pl) nm"

definition isDefaultProvider :: "string \<Rightarrow> bool" where
  "isDefaultProvider nm \<longleftrightarrow> nm = defaultProvider"

text \<open>One provider of \<open>other\<close> merged into the table.\<close>

definition merge_provider :: "bool \<Rightarrow> string \<times> 'f param_def list \<Rightarrow> 'f pd_table \<Rightarrow> 'f pd_table" where
  "merge_provider replace kl t =
     (case map_of t (fst kl) of
        None \<Rightarrow> om_put (fst kl) (snd kl) t
      | Some _ \<Rightarrow> fold (\<lambda>p m. snd (addParamDef p (fst kl) replace m)) (snd kl) t)"

definition pd_merge :: "'f pd_table \<Rightarrow> bool \<Rightarrow> 'f pd_table \<Rightarrow> 'f pd_table" where
  "pd_merge other replace t = fold (merge_provider replace) other t"

definition renameProvider :: "string \<Rightarrow> string \<Rightarrow> string" where
  "renameProvider pwp newProvider =
     (case find_sub '' ['' pwp of
        None \<Rightarrow> newProvider
      | Some i \<Rightarrow> str_replace pwp 0 i newProvider)"

section \<open>ParamDefConfig\<close>

type_synonym 'f pd_config = "(string, 'f param_def_list) omap"

definition config_at :: "'f pd_config \<Rightarrow> string \<Rightarrow> 'f param_def_list" where
  "config_at c k = (case map_of c k of None \<Rightarrow> param_def_list | Some l \<Rightarrow> l)"

text \<open>\<open>idParamDefs[id].addParamDef(...)\<close>: the entry is created when it is missing.\<close>

definition config_put :: "string \<Rightarrow> 'f param_def \<Rightarrow> string \<Rightarrow> bool \<Rightarrow> 'f pd_config \<Rightarrow> bool \<times> 'f pd_config" where
  "config_put i pd prov replace c =
     (let pl = config_at c i; (ok, t) = addParamDef pd prov replace (table pl)
      in (ok, om_put i (pl\<lparr>table := t\<rparr>) c))"

text \<open>
  \<open>ParamDefConfig::addParamDef\<close>: the text for \<open>err\<close>, \<^const>\<open>None\<close> when all went well. It stops
  at the first provider that has the parameter already; the earlier ones keep it.
\<close>

fun config_add_all ::
  "string \<Rightarrow> 'f param_def \<Rightarrow> string list \<Rightarrow> bool \<Rightarrow> 'f pd_config \<Rightarrow> string option \<times> 'f pd_config"
where
  "config_add_all i pd [] replace c = (None, c)"
| "config_add_all i pd (p # ps) replace c =
     (let (ok, c') = config_put i pd p replace c
      in if ok then config_add_all i pd ps replace c'
         else (Some (''addParam: ParamDef '' @ quote (alias_of pd) @ '' provider: '' @ quote p
                     @ '' allready defined.''), c'))"

definition config_addParamDef ::
  "string \<Rightarrow> 'f param_def \<Rightarrow> string list \<Rightarrow> bool \<Rightarrow> 'f pd_config \<Rightarrow> string option \<times> 'f pd_config"
where
  "config_addParamDef i pd providers replace c =
     (if providers = []
      then let (ok, c') = config_put i pd [] replace c
           in (if ok then None
               else Some (''addParam: ParamDef '' @ quote (alias_of pd) @ '' provider: '' @ quote ''default''
                          @ '' allready defined.''), c')
      else config_add_all i pd providers replace c)"

definition config_hasParam :: "'f pd_config \<Rightarrow> string \<Rightarrow> string \<Rightarrow> string \<Rightarrow> bool" where
  "config_hasParam c a prov i =
     (case map_of c i of None \<Rightarrow> False | Some pl \<Rightarrow> pd_hasParam (table pl) a prov)"

definition hasParamDefId :: "'f pd_config \<Rightarrow> string \<Rightarrow> bool" where
  "hasParamDefId c i \<longleftrightarrow> map_of c i \<noteq> None"

definition paramDefs :: "'f pd_config \<Rightarrow> string \<Rightarrow> 'f param_def_list" where
  "paramDefs c i = config_at c i"

text \<open>All definitions of the default provider and of the named ones, the first of each alias.\<close>

definition getParamDefs :: "'f pd_config \<Rightarrow> string list \<Rightarrow> 'f pd_table" where
  "getParamDefs c providers =
     fold (\<lambda>(i, pl) defs.
        fold (\<lambda>(k, l) defs.
           if isDefaultProvider k \<or> k \<in> set providers
           then fold (\<lambda>p m. snd (addParamDef p k False m)) l defs
           else defs) (table pl) defs) c []"

definition config_merge_one :: "bool \<Rightarrow> string \<times> 'f param_def_list \<Rightarrow> 'f pd_config \<Rightarrow> 'f pd_config" where
  "config_merge_one replace ipl c =
     (case map_of c (fst ipl) of
        None \<Rightarrow> om_put (fst ipl) (snd ipl) c
      | Some mine \<Rightarrow> om_put (fst ipl) (mine\<lparr>table := pd_merge (table (snd ipl)) replace (table mine)\<rparr>) c)"

definition config_merge :: "'f pd_config \<Rightarrow> bool \<Rightarrow> 'f pd_config \<Rightarrow> 'f pd_config" where
  "config_merge other replace c = fold (config_merge_one replace) other c"

section \<open>Well-formed tables\<close>

text \<open>
  What a lookup by alias gives, and the invariant: an ordered map in which no provider has two
  definitions of one alias, and the default provider has its own name.
\<close>

definition pd_find :: "'f pd_table \<Rightarrow> string \<Rightarrow> string \<Rightarrow> 'f param_def option" where
  "pd_find t k a = find (\<lambda>p. alias_of p = a) (pd_at t k)"

definition pd_key :: "string \<Rightarrow> string" where
  "pd_key k = (if k = [] then defaultProvider else k)"

definition pd_wf :: "'f pd_table \<Rightarrow> bool" where
  "pd_wf t \<longleftrightarrow> om_wf t \<and> (\<forall>k l. map_of t k = Some l \<longrightarrow> k \<noteq> [] \<and> distinct (map alias_of l))"

lemma pd_wf_Nil [simp]: "pd_wf []"
  by (simp add: pd_wf_def)

lemma pd_wf_distinct: "pd_wf t \<Longrightarrow> distinct (map alias_of (pd_at t k))"
  by (auto simp: pd_wf_def pd_at_def split: option.split)

lemma pd_wf_put: "pd_wf t \<Longrightarrow> k \<noteq> [] \<Longrightarrow> distinct (map alias_of l) \<Longrightarrow> pd_wf (om_put k l t)"
  by (auto simp: pd_wf_def)

lemma pd_at_put: "pd_at (om_put k l t) k' = (if k' = k then l else pd_at t k')"
  by (simp add: pd_at_def)

lemma pd_find_put:
  "pd_find (om_put k l t) k' a = (if k' = k then find (\<lambda>p. alias_of p = a) l else pd_find t k' a)"
  by (simp add: pd_find_def pd_at_put)

lemma pd_hasParam_find: "pd_hasParam t a k \<longleftrightarrow> pd_find t (pd_key k) a \<noteq> None"
  by (auto simp: pd_hasParam_def pd_find_def pd_key_def pd_at_def find_None_all Let_def split: option.split)

lemma alias_assign: "map alias_of (assign_first pd l) = map alias_of l"
  by (induction l) auto

lemma find_assign:
  "alias_of pd \<in> alias_of ` set l \<Longrightarrow>
   find (\<lambda>p. alias_of p = a) (assign_first pd l) =
     (if a = alias_of pd then Some pd else find (\<lambda>p. alias_of p = a) l)"
  by (induction l) auto

lemma addParamDef_table:
  "addParamDef pd k r t =
     (if pd_find t (pd_key k) (alias_of pd) = None
      then (True, om_put (pd_key k) (pd_at t (pd_key k) @ [pd]) t)
      else if r then (True, om_put (pd_key k) (assign_first pd (pd_at t (pd_key k))) t)
      else (False, t))"
proof -
  have "pd_key (pd_key k) = pd_key k" by (simp add: pd_key_def defaultProvider_def)
  then have "pd_hasParam t (alias_of pd) (pd_key k) \<longleftrightarrow> pd_find t (pd_key k) (alias_of pd) \<noteq> None"
    by (simp add: pd_hasParam_find)
  then show ?thesis by (simp add: addParamDef_def pd_key_def Let_def)
qed

lemma pd_key_nonempty [simp]: "pd_key k \<noteq> []"
  by (simp add: pd_key_def defaultProvider_def)

lemma addParamDef_wf: "pd_wf t \<Longrightarrow> pd_wf (snd (addParamDef pd k r t))"
proof -
  assume wf: "pd_wf t"
  have "distinct (map alias_of (pd_at t (pd_key k) @ [pd]))" if "pd_find t (pd_key k) (alias_of pd) = None"
    using that pd_wf_distinct [OF wf, of "pd_key k"] by (auto simp: pd_find_def find_None_all)
  with wf pd_wf_distinct [OF wf, of "pd_key k"] show ?thesis
    by (auto simp: addParamDef_table alias_assign intro!: pd_wf_put)
qed

lemma addParamDef_find:
  "pd_find (snd (addParamDef pd k r t)) k' a =
     (if k' = pd_key k \<and> a = alias_of pd \<and> (r \<or> pd_find t k' a = None) then Some pd else pd_find t k' a)"
proof (cases "pd_find t (pd_key k) (alias_of pd)")
  case None
  then have "find (\<lambda>p. alias_of p = a) (pd_at t (pd_key k) @ [pd]) =
      (if a = alias_of pd then Some pd else pd_find t (pd_key k) a)"
    by (auto simp: pd_find_def find_append split: option.split)
  with None show ?thesis by (auto simp: addParamDef_table pd_find_put)
next
  case (Some p)
  from find_SomeD [OF this [unfolded pd_find_def]]
  have "alias_of pd \<in> alias_of ` set (pd_at t (pd_key k))" by (metis imageI)
  from find_assign [OF this, of a] Some show ?thesis
    by (auto simp: addParamDef_table pd_at_put pd_find_def)
qed

text \<open>Adding a list of definitions to one provider.\<close>

definition add_all :: "string \<Rightarrow> bool \<Rightarrow> 'f param_def list \<Rightarrow> 'f pd_table \<Rightarrow> 'f pd_table" where
  "add_all k r l t = fold (\<lambda>p m. snd (addParamDef p k r m)) l t"

lemma add_all_wf: "pd_wf t \<Longrightarrow> pd_wf (add_all k r l t)"
  unfolding add_all_def by (induction l arbitrary: t) (auto intro: addParamDef_wf)

lemma add_all_find:
  "distinct (map alias_of l) \<Longrightarrow> k \<noteq> [] \<Longrightarrow>
   pd_find (add_all k r l t) k' a =
     (case (if k' = k then find (\<lambda>p. alias_of p = a) l else None) of
        None \<Rightarrow> pd_find t k' a
      | Some p \<Rightarrow> if r \<or> pd_find t k' a = None then Some p else pd_find t k' a)"
proof (induction l arbitrary: t)
  case (Cons p l)
  have k: "pd_key k = k" using Cons.prems by (simp add: pd_key_def)
  have n: "find (\<lambda>p'. alias_of p' = alias_of p) l = None"
    using Cons.prems(1) by (fastforce simp: find_None_all image_iff)
  have "pd_find (add_all k r (p # l) t) k' a = pd_find (add_all k r l (snd (addParamDef p k r t))) k' a"
    by (simp add: add_all_def)
  also have "\<dots> = (case (if k' = k then find (\<lambda>p. alias_of p = a) l else None) of
        None \<Rightarrow> pd_find (snd (addParamDef p k r t)) k' a
      | Some p' \<Rightarrow> if r \<or> pd_find (snd (addParamDef p k r t)) k' a = None then Some p'
                  else pd_find (snd (addParamDef p k r t)) k' a)"
    using Cons by simp
  finally show ?case
    using k n by (auto simp: addParamDef_find split: option.split)
qed (simp add: add_all_def)

lemma merge_provider_wf:
  "pd_wf t \<Longrightarrow> k \<noteq> [] \<Longrightarrow> distinct (map alias_of l) \<Longrightarrow> pd_wf (merge_provider r (k, l) t)"
  using add_all_wf [of t k r l]
  by (auto simp: merge_provider_def add_all_def [symmetric] pd_wf_put split: option.split)

lemma merge_provider_find:
  assumes "k \<noteq> []" "distinct (map alias_of l)"
  shows "pd_find (merge_provider r (k, l) t) k' a =
     (case (if k' = k then find (\<lambda>p. alias_of p = a) l else None) of
        None \<Rightarrow> pd_find t k' a
      | Some p \<Rightarrow> if r \<or> pd_find t k' a = None then Some p else pd_find t k' a)"
proof (cases "map_of t k")
  case None
  then have "pd_find t k b = None" for b by (simp add: pd_find_def pd_at_def)
  with None show ?thesis
    by (auto simp: merge_provider_def pd_find_put split: option.split)
next
  case (Some l')
  then show ?thesis
    using add_all_find [OF assms(2,1)] by (simp add: merge_provider_def add_all_def [symmetric])
qed

lemma pd_merge_wf: "pd_wf t \<Longrightarrow> pd_wf other \<Longrightarrow> pd_wf (pd_merge other r t)"
proof -
  assume t: "pd_wf t" and o: "pd_wf other"
  then have "\<forall>kl \<in> set other. fst kl \<noteq> [] \<and> distinct (map alias_of (snd kl))"
    by (force simp: pd_wf_def omap.keys_distinct)
  with t show ?thesis
    unfolding pd_merge_def
  proof (induction other arbitrary: t)
    case (Cons kl other)
    then have "pd_wf (merge_provider r kl t)"
      using merge_provider_wf [of t "fst kl" "snd kl" r] by simp
    with Cons show ?case by simp
  qed simp
qed

lemma pd_merge_find:
  assumes "pd_wf other"
  shows "pd_find (pd_merge other r t) k a =
     (case pd_find other k a of
        None \<Rightarrow> pd_find t k a
      | Some p \<Rightarrow> if r \<or> pd_find t k a = None then Some p else pd_find t k a)"
proof -
  have "distinct (map fst other)" "\<forall>kl \<in> set other. fst kl \<noteq> [] \<and> distinct (map alias_of (snd kl))"
    using assms by (force simp: pd_wf_def omap.keys_distinct)+
  then show ?thesis
    unfolding pd_merge_def
  proof (induction other arbitrary: t)
    case (Cons kl other)
    obtain k1 l where kl: "kl = (k1, l)" by (cases kl)
    have no: "pd_find other k1 a = None"
      using Cons.prems(1) kl by (simp add: pd_find_def pd_at_def map_of_eq_None_iff [THEN iffD2])
    have "pd_find (kl # other) k a = (if k = k1 then find (\<lambda>p. alias_of p = a) l else pd_find other k a)"
      by (simp add: kl pd_find_def pd_at_def)
    with Cons merge_provider_find [of k1 l r t k a] no kl show ?case
      by (auto split: option.split)
  qed (simp add: pd_find_def pd_at_def)
qed

text \<open>The configuration: one table for every id.\<close>

definition cfg_wf :: "'f pd_config \<Rightarrow> bool" where
  "cfg_wf c \<longleftrightarrow> om_wf c \<and> (\<forall>i pl. map_of c i = Some pl \<longrightarrow> pd_wf (table pl))"

definition cfg_find :: "'f pd_config \<Rightarrow> string \<Rightarrow> string \<Rightarrow> string \<Rightarrow> 'f param_def option" where
  "cfg_find c i k a = pd_find (table (config_at c i)) k a"

lemma cfg_wf_at: "cfg_wf c \<Longrightarrow> pd_wf (table (config_at c i))"
  by (auto simp: cfg_wf_def config_at_def param_def_list_def split: option.split)

lemma config_at_put: "config_at (om_put i pl c) i' = (if i' = i then pl else config_at c i')"
  by (simp add: config_at_def)

lemma merge_one_table:
  "config_merge_one r (i, pl) c =
     om_put i ((if map_of c i = None then pl else config_at c i)
       \<lparr>table := if map_of c i = None then table pl else pd_merge (table pl) r (table (config_at c i))\<rparr>) c"
  by (auto simp: config_merge_one_def config_at_def split: option.split)

lemma merge_one_wf: "cfg_wf c \<Longrightarrow> pd_wf (table pl) \<Longrightarrow> cfg_wf (config_merge_one r (i, pl) c)"
  using cfg_wf_at [of c i] pd_merge_wf [of "table (config_at c i)" "table pl" r]
  by (auto simp: merge_one_table cfg_wf_def)

lemma merge_one_find:
  assumes "cfg_wf c" "pd_wf (table pl)"
  shows "cfg_find (config_merge_one r (i, pl) c) i' k a =
     (case (if i' = i then pd_find (table pl) k a else None) of
        None \<Rightarrow> cfg_find c i' k a
      | Some p \<Rightarrow> if r \<or> cfg_find c i' k a = None then Some p else cfg_find c i' k a)"
proof (cases "map_of c i")
  case None
  then have "pd_find (table (config_at c i)) k a = None"
    by (simp add: config_at_def param_def_list_def pd_find_def pd_at_def)
  with None show ?thesis
    by (auto simp: merge_one_table cfg_find_def config_at_put split: option.split)
next
  case (Some pl')
  then show ?thesis
    using pd_merge_find [OF assms(2)]
    by (auto simp: merge_one_table cfg_find_def config_at_put split: option.split)
qed

lemma config_merge_spec:
  "cfg_wf c \<Longrightarrow> distinct (map fst other) \<Longrightarrow> \<forall>ipl \<in> set other. pd_wf (table (snd ipl)) \<Longrightarrow>
   cfg_wf (config_merge other r c) \<and>
   cfg_find (config_merge other r c) i k a =
     (case cfg_find other i k a of
        None \<Rightarrow> cfg_find c i k a
      | Some p \<Rightarrow> if r \<or> cfg_find c i k a = None then Some p else cfg_find c i k a)"
proof (induction other arbitrary: c)
  case Nil
  then show ?case
    by (simp add: config_merge_def cfg_find_def config_at_def param_def_list_def pd_find_def pd_at_def)
next
  case (Cons ipl other)
  obtain j pl where ipl: "ipl = (j, pl)" by (cases ipl)
  let ?c1 = "config_merge_one r (j, pl) c"
  have wf: "cfg_wf ?c1" using Cons.prems ipl by (intro merge_one_wf) auto
  have no: "cfg_find other j k a = None"
    using Cons.prems(2) ipl
    by (simp add: cfg_find_def config_at_def map_of_eq_None_iff [THEN iffD2] param_def_list_def pd_find_def pd_at_def)
  have hd: "cfg_find (ipl # other) i k a = (if i = j then pd_find (table pl) k a else cfg_find other i k a)"
    by (simp add: ipl cfg_find_def config_at_def)
  have "config_merge (ipl # other) r c = config_merge other r ?c1"
    by (simp add: config_merge_def ipl)
  with Cons.IH [OF wf] Cons.prems merge_one_find [of c pl r j i k a] no hd ipl show ?case
    by (auto split: option.split)
qed

lemma find_idx_find: "map_option (\<lambda>i. l ! i) (find_idx P l) = find P l"
  by (induction l) (auto simp: option.map_comp comp_def)

section \<open>Properties\<close>

text \<open>
  Merging configurations keeps them well formed (no provider of an id has two definitions of
  one alias) and is a lookup with precedence: every id, provider and alias gives the definition
  it had before, and the other configuration's only where there was none, or always when
  \<open>replace\<close> is set.
\<close>

theorem config_merge_precedence:
  assumes "cfg_wf c" "cfg_wf other"
  shows "cfg_wf (config_merge other r c) \<and>
    cfg_find (config_merge other r c) i k a =
      (case cfg_find other i k a of
         None \<Rightarrow> cfg_find c i k a
       | Some p \<Rightarrow> if r \<or> cfg_find c i k a = None then Some p else cfg_find c i k a)"
proof (rule config_merge_spec)
  show "distinct (map fst other)" using assms(2) by (simp add: cfg_wf_def omap.keys_distinct)
  then show "\<forall>ipl \<in> set other. pd_wf (table (snd ipl))" using assms(2) by (force simp: cfg_wf_def)
qed (rule assms(1))

definition sample_def :: "string \<Rightarrow> string \<Rightarrow> unit param_def" where
  "sample_def a v =
     \<lparr>alias_of = a, valueparametername = v, valueparameterunit = ''K'', levelparametername = ''height'',
      levelfrom = 2, levelto = 2, levelunitname = ''m'', scale_of = (), offset_of = (),
      dataversion_of = -1, compare_of = Cmp_undef, compareValue = int_max, interpolation = ''nearest''\<rparr>"

definition sample_cfg :: "unit param_def list \<Rightarrow> unit pd_config" where
  "sample_cfg l = [([], param_def_list\<lparr>table := [(''met'', l)]\<rparr>)]"

lemma sample_cfg_wf: "distinct (map alias_of l) \<Longrightarrow> cfg_wf (sample_cfg l)"
  by (auto simp: cfg_wf_def sample_cfg_def pd_wf_def om_wf_def split: if_splits)

theorem config_merge_precedence_witness:
  "cfg_find (config_merge (sample_cfg [sample_def ''T'' ''new'', sample_def ''P'' ''p'']) False
               (sample_cfg [sample_def ''T'' ''old''])) [] ''met'' ''T'' = Some (sample_def ''T'' ''old'')"
proof -
  have "cfg_wf (sample_cfg [sample_def ''T'' ''new'', sample_def ''P'' ''p''])"
       "cfg_wf (sample_cfg [sample_def ''T'' ''old''])"
    by (intro sample_cfg_wf; simp add: sample_def_def)+
  from config_merge_precedence [OF this(2,1), of False "[]" "''met''" "''T''"]
  show ?thesis
    by (simp add: cfg_find_def config_at_def sample_cfg_def pd_find_def pd_at_def sample_def_def)
qed

text \<open>
  \<open>ParamDefList::addParamDef\<close> returns false exactly when the provider has the alias and
  \<open>replace\<close> is not set, and then changes nothing; otherwise that alias of that provider (the
  default one when the name is empty) gives the new definition and no other lookup changes; the
  table stays well formed.
\<close>

theorem addParamDef_correct:
  assumes "pd_wf t"
  shows "pd_wf (snd (addParamDef pd k r t)) \<and>
    (fst (addParamDef pd k r t) \<longleftrightarrow> r \<or> \<not> pd_hasParam t (alias_of pd) k) \<and>
    (\<not> fst (addParamDef pd k r t) \<longrightarrow> snd (addParamDef pd k r t) = t) \<and>
    pd_find (snd (addParamDef pd k r t)) k' a =
      (if k' = pd_key k \<and> a = alias_of pd \<and> fst (addParamDef pd k r t) then Some pd else pd_find t k' a)"
proof -
  have "fst (addParamDef pd k r t) \<longleftrightarrow> r \<or> \<not> pd_hasParam t (alias_of pd) k"
    by (simp add: addParamDef_table pd_hasParam_find)
  then show ?thesis
    using addParamDef_wf [OF assms] addParamDef_find [of pd k r t k' a]
    by (auto simp: addParamDef_table pd_hasParam_find)
qed

theorem addParamDef_correct_witness:
  "fst (addParamDef (sample_def ''T'' ''new'') ''met'' False [(''met'', [sample_def ''T'' ''old''])]) = False"
proof -
  have "pd_wf [(''met'', [sample_def ''T'' ''old''])]" by (auto simp: pd_wf_def om_wf_def split: if_splits)
  from addParamDef_correct [OF this, of "sample_def ''T'' ''new''" "''met''" False] show ?thesis
    by (simp add: pd_hasParam_def sample_def_def)
qed

text \<open>
  \<open>findParam\<close> by alias gives an iterator to the definition the provider has for the alias,
  else to the default provider's, and fails only when neither has one.
\<close>

theorem findParam_correct:
  "map_option (\<lambda>(k, i). pd_at t k ! i) (findParam t a k0) =
     (case pd_find t k0 a of Some p \<Rightarrow> Some p | None \<Rightarrow> pd_find t defaultProvider a)"
proof -
  have one: "map_option (\<lambda>(k, i). pd_at t k ! i) (search_in (\<lambda>p. alias_of p = a) t k) = pd_find t k a" for k
    using find_idx_find [of "pd_at t k" "\<lambda>p. alias_of p = a"]
    by (auto simp: search_in_def pd_find_def pd_at_def option.map_comp comp_def split: option.splits)
  then have none: "search_in (\<lambda>p. alias_of p = a) t k = None \<longleftrightarrow> pd_find t k a = None" for k
    by (metis option.map_disc_iff)
  have "pd_find t k a = None" if "map_of t k = None" for k
    using that by (simp add: pd_find_def pd_at_def)
  then show ?thesis
    using one [of k0] one [of defaultProvider] none [of k0] none [of defaultProvider]
    by (auto simp: findParam_def search_from_def Let_def split: option.split)
qed

end
