(* ===== verification/Queries.thy ===== *)
theory Queries
  imports ParamDefs
begin

text \<open>
  Building the database queries: \<open>Level\<close>, \<open>qmaker::Query\<close>, \<open>QuerysAndParamDefs\<close> and
  \<open>QueryMaker\<close> (\<open>src/src/mod_wdb2ts/QueryMaker.cpp\<close>) with the helpers of \<open>wciHelper.cpp\<close>.
  The texts of floats and of times are arguments. A \<open>Query\<close> on the heap is known by its address;
  \<open>next_addr\<close> is the next free address of the heap.
\<close>

section \<open>Level\<close>

datatype qualifier = Q_exact | Q_below | Q_above | Q_inside | Q_any | Q_udef

record level =
  lfrom :: int
  lto :: int
  lname :: string
  lunit :: string
  lqual :: qualifier

definition level_undef :: level where
  "level_undef = \<lparr>lfrom = int_min, lto = int_min, lname = [], lunit = [], lqual = Q_udef\<rparr>"

text \<open>The order of the enumerators.\<close>

fun qual_num :: "qualifier \<Rightarrow> nat" where
  "qual_num Q_exact = 0"
| "qual_num Q_below = 1"
| "qual_num Q_above = 2"
| "qual_num Q_inside = 3"
| "qual_num Q_any = 4"
| "qual_num Q_udef = 5"

definition level_less :: "level \<Rightarrow> level \<Rightarrow> bool" where
  "level_less a b \<longleftrightarrow>
     lname a < lname b
     \<or> (lname a = lname b \<and> lfrom a < lfrom b)
     \<or> (lname a = lname b \<and> lfrom a = lfrom b \<and> lto a < lto b)
     \<or> (lname a = lname b \<and> lfrom a = lfrom b \<and> lto a = lto b \<and> qual_num (lqual a) < qual_num (lqual b))"

definition level_isEqual :: "level \<Rightarrow> level \<Rightarrow> bool \<Rightarrow> bool" where
  "level_isEqual a b ignoreQualifier =
     (if lname a = lname b \<and> lfrom a = lfrom b \<and> lto a = lto b \<and> lunit a = lunit b
      then (if ignoreQualifier then True else lqual a = lqual b) else False)"

definition level_eq :: "level \<Rightarrow> level \<Rightarrow> bool" where
  "level_eq a b = level_isEqual a b False"

definition level_isDefined :: "level \<Rightarrow> bool" where
  "level_isDefined l \<longleftrightarrow> \<not> (lto l = int_min \<and> lfrom l = int_min \<and> lname l = [])"

definition setQualifier :: "level \<Rightarrow> level" where
  "setQualifier l =
     (if lfrom l = int_min \<and> lto l = int_max then l\<lparr>lqual := Q_any\<rparr>
      else if lfrom l = int_min \<and> lto l = int_min then l\<lparr>lqual := Q_udef\<rparr>
      else if lfrom l \<noteq> int_max \<and> lto l \<noteq> int_max \<and> lfrom l \<noteq> int_min \<and> lto l \<noteq> int_min
      then (if lfrom l \<noteq> lto l
            then (if lqual l \<noteq> Q_exact then l\<lparr>lqual := Q_inside\<rparr> else l)
            else if lqual l \<noteq> Q_above \<and> lqual l \<noteq> Q_below then l\<lparr>lqual := Q_exact\<rparr> else l)
      else l\<lparr>lqual := Q_udef\<rparr>)"

definition level_of :: "int \<Rightarrow> int \<Rightarrow> string \<Rightarrow> string \<Rightarrow> qualifier \<Rightarrow> level" where
  "level_of f t nm u q =
     (let l = \<lparr>lfrom = f, lto = t, lname = nm, lunit = u, lqual = q\<rparr>
      in if q \<noteq> Q_udef then setQualifier l else l)"

definition level_of_param :: "'f param_def \<Rightarrow> level" where
  "level_of_param p =
     (if hasLevelparameters p
      then \<lparr>lfrom = levelfrom p, lto = levelto p, lname = levelparametername p,
            lunit = levelunitname p, lqual = Q_udef\<rparr>
      else level_undef)"

fun qualifierAsString :: "qualifier \<Rightarrow> string" where
  "qualifierAsString Q_exact = ''exact''"
| "qualifierAsString Q_below = ''below''"
| "qualifierAsString Q_above = ''above''"
| "qualifierAsString Q_inside = ''inside''"
| "qualifierAsString Q_any = ''any''"
| "qualifierAsString Q_udef = ''exact''"

definition toWdbLevelspec :: "level \<Rightarrow> string" where
  "toWdbLevelspec l =
     (if \<not> level_isDefined l \<or> lname l = [] then ''NULL''
      else (if lqual l = Q_any then ''any''
            else if lto l = lfrom l then qualifierAsString (lqual l) @ '' '' @ dec_int (lfrom l)
            else qualifierAsString (lqual l) @ '' '' @ dec_int (lfrom l) @ '' TO '' @ dec_int (lto l))
           @ '' '' @ lname l)"

section \<open>Parts of a query text\<close>

text \<open>A \<open>ptime\<close> with its special values. \<open>fmt\<close> is \<open>isotimeString(t, false, true)\<close>.\<close>

datatype wci_time = Not_a_date_time | Pos_infinity | Neg_infinity | At int

definition wci_of_ptime :: "ptime \<Rightarrow> wci_time" where
  "wci_of_ptime t = (case t of None \<Rightarrow> Not_a_date_time | Some x \<Rightarrow> At x)"

fun timeStr :: "(int \<Rightarrow> string) \<Rightarrow> wci_time \<Rightarrow> string" where
  "timeStr fmt Pos_infinity = ''infinity''"
| "timeStr fmt Neg_infinity = ''epoch''"
| "timeStr fmt Not_a_date_time = []"
| "timeStr fmt (At t) = fmt t"

definition wciReadReturnColoumns :: "int \<Rightarrow> string" where
  "wciReadReturnColoumns wciProtocol =
     (if wciProtocol < 3
      then ''value, dataprovidername, placename, referencetime, validfrom, validto, ''
           @ ''valueparametername, valueparameterunit, levelparametername, ''
           @ ''levelunitname, levelfrom, levelto, dataversion, ST_AsText(placegeometry) as point''
      else ''value, dataprovidername, placename, referencetime, validtimefrom, validtimeto, ''
           @ ''valueparametername, valueparameterunit, levelparametername, ''
           @ ''levelunitname, levelfrom, levelto, dataversion, ST_AsText(placegeometry) as point'')"

definition wciTimeSpec :: "(int \<Rightarrow> string) \<Rightarrow> int \<Rightarrow> wci_time \<Rightarrow> wci_time \<Rightarrow> string" where
  "wciTimeSpec fmt wciProtocol f t0 =
     (if f = Not_a_date_time then ''NULL''
      else let t1 = (if t0 = Not_a_date_time then f else t0);
               sFrom = timeStr fmt f; sTo0 = timeStr fmt t1
           in if sFrom = [] then ''NULL''
              else let (t, sTo) = (if sTo0 = [] then (f, sFrom) else (t1, sTo0))
                   in if wciProtocol = 1
                      then (if t = f
                            then ''('' @ quote sFrom @ '', '' @ quote sTo @ '', '' @ quote ''exact'' @ '')''
                            else ''('' @ quote sFrom @ '', '' @ quote sTo @ '', '' @ quote ''inside'' @ '')'')
                      else (if t = f then quote (''exact '' @ sTo)
                            else quote (''inside '' @ sFrom @ '' TO '' @ sTo)))"

definition wciLevelSpec :: "int \<Rightarrow> 'f param_def \<Rightarrow> string" where
  "wciLevelSpec wciProtocol p =
     (if wciProtocol = 1
      then ''('' @ dec_int (levelfrom p) @ '', '' @ dec_int (levelto p) @ '', ''
           @ quote (levelparametername p) @ '', '' @ quote ''exact'' @ '')''
      else if levelfrom p = levelto p
      then quote (''exact  '' @ dec_int (levelfrom p) @ '' '' @ levelparametername p)
      else quote (''inside '' @ dec_int (levelfrom p) @ '' TO '' @ dec_int (levelto p) @ '' ''
                  @ levelparametername p))"

definition wciValueParameter :: "'f param_def list \<Rightarrow> string" where
  "wciValueParameter ps =
     (case ps of
        [] \<Rightarrow> ''NULL''
      | p # ps' \<Rightarrow>
          ''ARRAY['' @ quote (valueparametername p)
          @ concat (map (\<lambda>q. '','' @ quote (valueparametername q)) ps') @ '']'')"

section \<open>Query\<close>

record 'f query =
  qid :: string
  qprovider :: string
  qparams :: "'f param_def list"
  qtexts :: "string list"

definition new_query :: "string \<Rightarrow> string \<Rightarrow> 'f query" where
  "new_query i p = \<lparr>qid = i, qprovider = p, qparams = [], qtexts = []\<rparr>"

definition query_eq :: "'f query \<Rightarrow> 'f query \<Rightarrow> bool" where
  "query_eq a b \<longleftrightarrow> qid a = qid b \<and> qprovider a = qprovider b"

definition addParam :: "'f param_def \<Rightarrow> 'f query \<Rightarrow> 'f query" where
  "addParam p q =
     (if \<exists>p' \<in> set (qparams q). valueparametername p' = valueparametername p then q
      else q\<lparr>qparams := qparams q @ [p]\<rparr>)"

text \<open>Append the elements of the second list that have no counterpart yet.\<close>

fun append_new :: "('a \<Rightarrow> 'b) \<Rightarrow> 'a list \<Rightarrow> 'a list \<Rightarrow> 'a list" where
  "append_new f xs [] = xs"
| "append_new f xs (y # ys) = append_new f (if f y \<in> f ` set xs then xs else xs @ [y]) ys"

definition query_merge :: "'f query \<Rightarrow> 'f query \<Rightarrow> 'f query" where
  "query_merge w q =
     (if \<not> query_eq w q then q
      else q\<lparr>qtexts := append_new (\<lambda>s. s) (qtexts q) (qtexts w),
             qparams := append_new alias_of (qparams q) (qparams w)\<rparr>)"

definition PARAMS :: string where "PARAMS = ''@@PARAMS@@''"

text \<open>\<open>replaceStringCopy\<close> without a limit; its value is \<^const>\<open>None\<close> only for an empty pattern.\<close>

definition getQuerys :: "'f query \<Rightarrow> string option list" where
  "getQuerys q = map (\<lambda>s. replaceString s PARAMS (wciValueParameter (qparams q)) 0) (qtexts q)"

section \<open>QuerysAndParamDefs\<close>

record 'f querys_and_params =
  querys :: "(nat \<times> 'f query) list"
  providerPriority :: "provider_item list"
  out_params :: "'f pd_table"
  next_addr :: nat

definition querys_and_params :: "provider_item list \<Rightarrow> 'f querys_and_params" where
  "querys_and_params pl = \<lparr>querys = [], providerPriority = pl, out_params = [], next_addr = 0\<rparr>"

text \<open>\<open>addQuery(q)\<close> with a query just allocated: merged into an equal one and deleted, or kept.\<close>

definition addQuery :: "'f query \<Rightarrow> 'f querys_and_params \<Rightarrow> 'f querys_and_params" where
  "addQuery q r =
     (case find_idx (\<lambda>aq. query_eq (snd aq) q) (querys r) of
        None \<Rightarrow> r\<lparr>querys := querys r @ [(next_addr r, q)], next_addr := next_addr r + 1\<rparr>
      | Some i \<Rightarrow>
          r\<lparr>querys := (querys r)[i := (fst (querys r ! i), query_merge q (snd (querys r ! i)))],
            next_addr := next_addr r + 1\<rparr>)"

definition addParamDefs :: "'f pd_table \<Rightarrow> 'f querys_and_params \<Rightarrow> 'f querys_and_params" where
  "addParamDefs ps r = r\<lparr>out_params := pd_merge ps False (out_params r)\<rparr>"

text \<open>
  \<open>merge\<close>: the loop compares the pointers, not the queries, and merges a query it finds with
  itself.
\<close>

definition merge_query :: "nat \<times> 'f query \<Rightarrow> 'f querys_and_params \<Rightarrow> 'f querys_and_params" where
  "merge_query aw r =
     (case find_idx (\<lambda>aq. fst aw = fst aq) (querys r) of
        None \<Rightarrow> r\<lparr>querys := querys r @ [(next_addr r, snd aw)], next_addr := next_addr r + 1\<rparr>
      | Some i \<Rightarrow>
          (let (a, q) = querys r ! i in r\<lparr>querys := (querys r)[i := (a, query_merge q q)]\<rparr>))"

definition qp_merge :: "'f querys_and_params \<Rightarrow> 'f querys_and_params \<Rightarrow> 'f querys_and_params" where
  "qp_merge w r =
     (let r' = fold merge_query (querys w) r
      in r'\<lparr>out_params := pd_merge (out_params w) False (out_params r')\<rparr>)"

section \<open>QueryMaker\<close>

type_synonym 'f level_params = "(level \<times> 'f param_def list) list"
type_synonym 'f maker_params = "(string, (string, 'f level_params) omap) omap"

text \<open>\<open>levels[lvl].push_back(p)\<close> of a \<open>std::map\<close> ordered by \<open>operator<\<close> of \<open>Level\<close>.\<close>

fun level_push :: "level \<Rightarrow> 'f param_def \<Rightarrow> 'f level_params \<Rightarrow> 'f level_params" where
  "level_push k p [] = [(k, [p])]"
| "level_push k p ((a, ps) # m) =
     (if level_less k a then (k, [p]) # (a, ps) # m
      else if level_less a k then (a, ps) # level_push k p m
      else (a, ps @ [p]) # m)"

definition om_get :: "'v \<Rightarrow> 'k \<Rightarrow> ('k, 'v) omap \<Rightarrow> 'v" where
  "om_get d k m = (case map_of m k of None \<Rightarrow> d | Some v \<Rightarrow> v)"

definition maker_push ::
  "string \<Rightarrow> string \<Rightarrow> 'f param_def \<Rightarrow> 'f maker_params \<Rightarrow> 'f maker_params"
where
  "maker_push i k p ps =
     (let byprov = om_get [] i ps
      in om_put i (om_put k (level_push (level_of_param p) p (om_get [] k byprov)) byprov) ps)"

definition maker_provider :: "string \<Rightarrow> string" where
  "maker_provider k =
     (if k = defaultProvider then []
      else case ProviderList_decode k True of [] \<Rightarrow> k | it # _ \<Rightarrow> provider it)"

definition maker_create :: "'f pd_config \<Rightarrow> 'f maker_params" where
  "maker_create c =
     fold (\<lambda>(i, pl) ps.
        fold (\<lambda>(k, l) ps. fold (maker_push i (maker_provider k)) l ps) (table pl) ps) c []"

text \<open>The members that \<open>getWdbReadQuerys\<close> sets for one call.\<close>

record 'f qm_call =
  qm_protocol :: int
  qm_latitude :: 'f
  qm_longitude :: 'f
  qm_reftimes :: reftimes
  qm_validfrom :: wci_time
  qm_validto :: wci_time
  qm_dataversion :: int

text \<open>\<open>show\<close> and \<open>fmt\<close> print a float and a time; \<open>endl\<close> is a line feed.\<close>

definition query_text ::
  "('f \<Rightarrow> string) \<Rightarrow> (int \<Rightarrow> string) \<Rightarrow> 'f qm_call \<Rightarrow> string \<Rightarrow> ptime \<Rightarrow> int \<Rightarrow> string"
where
  "query_text shw fmt qc prov reftime dv =
     ''SELECT '' @ wciReadReturnColoumns (qm_protocol qc) @ '' FROM wci.read('' @ [LF]
     @ ''ARRAY['' @ quote prov @ ''], '' @ [LF]
     @ quote (''nearest POINT('' @ shw (qm_longitude qc) @ '' '' @ shw (qm_latitude qc) @ '')'') @ '', '' @ [LF]
     @ wciTimeSpec fmt (qm_protocol qc) (wci_of_ptime reftime) Not_a_date_time @ '', '' @ [LF]
     @ wciTimeSpec fmt (qm_protocol qc) (qm_validfrom qc) (qm_validto qc) @ '', '' @ [LF]
     @ PARAMS @ '', '' @ [LF]
     @ ''NULL, '' @ [LF]
     @ ''ARRAY['' @ dec_int dv @ ''], NULL::wci.returnfloat ) ORDER BY referencetime''"

definition at_level :: "level \<Rightarrow> 'f param_def \<Rightarrow> 'f param_def" where
  "at_level lvl p =
     p\<lparr>levelfrom := lfrom lvl, levelto := lto lvl, levelparametername := lname lvl,
       levelunitname := lunit lvl\<rparr>"

text \<open>Result: the query and the parameter definitions \<open>parOut\<close>.\<close>

definition createQuery ::
  "('f \<Rightarrow> string) \<Rightarrow> (int \<Rightarrow> string) \<Rightarrow> 'f qm_call \<Rightarrow> 'f param_def list \<Rightarrow> level
     \<Rightarrow> 'f query \<times> 'f pd_table \<Rightarrow> 'f query \<times> 'f pd_table"
where
  "createQuery shw fmt qc ps lvl acc =
     (case providerReftimeDisabledAndDataversion (qm_reftimes qc) (qprovider (fst acc)) of
        None \<Rightarrow> acc
      | Some (reftime, dis, dv0) \<Rightarrow>
          if dis then acc
          else let dv = (if qm_dataversion qc \<noteq> int_max then qm_dataversion qc else dv0);
                   prov = qprovider (fst acc);
                   (q, t) = fold (\<lambda>p (q, t).
                        (addParam (at_level lvl p) q, snd (addParamDef (at_level lvl p) prov False t))) ps acc
               in (q\<lparr>qtexts := qtexts q @ [query_text shw fmt qc prov reftime dv]\<rparr>, t))"

definition create_levels ::
  "('f \<Rightarrow> string) \<Rightarrow> (int \<Rightarrow> string) \<Rightarrow> 'f qm_call \<Rightarrow> level \<Rightarrow> 'f level_params
     \<Rightarrow> 'f query \<times> 'f pd_table \<Rightarrow> 'f query \<times> 'f pd_table"
where
  "create_levels shw fmt qc lvl lps acc =
     fold (\<lambda>(l, ps) acc.
        if level_isDefined l then createQuery shw fmt qc ps l acc
        else if level_isDefined lvl then createQuery shw fmt qc ps lvl acc
        else acc) lps acc"

definition provider_query ::
  "('f \<Rightarrow> string) \<Rightarrow> (int \<Rightarrow> string) \<Rightarrow> 'f qm_call \<Rightarrow> string \<Rightarrow> level
     \<Rightarrow> (string, 'f level_params) omap \<Rightarrow> string \<Rightarrow> 'f querys_and_params \<Rightarrow> 'f querys_and_params"
where
  "provider_query shw fmt qc i lvl byprov prov r =
     (case (case map_of byprov prov of None \<Rightarrow> map_of byprov [] | Some lps \<Rightarrow> Some lps) of
        None \<Rightarrow> r
      | Some lps \<Rightarrow>
          (let (q, t) = create_levels shw fmt qc lvl lps (new_query i prov, out_params r)
           in addQuery q (r\<lparr>out_params := t\<rparr>)))"

definition id_queries ::
  "('f \<Rightarrow> string) \<Rightarrow> (int \<Rightarrow> string) \<Rightarrow> 'f qm_call \<Rightarrow> string \<Rightarrow> level \<Rightarrow> string list
     \<Rightarrow> (string, 'f level_params) omap \<Rightarrow> 'f querys_and_params \<Rightarrow> 'f querys_and_params"
where
  "id_queries shw fmt qc i lvl providers byprov r =
     fold (provider_query shw fmt qc i lvl byprov) providers r"

text \<open>The providers of the id \<open>all\<close>, followed by those of the list it does not have.\<close>

definition all_providers :: "(string, 'f level_params) omap \<Rightarrow> string list \<Rightarrow> string list" where
  "all_providers byprov l = append_new (\<lambda>s. s) (filter (\<lambda>k. k \<noteq> []) (map fst byprov)) l"

definition getWdbReadQuerys ::
  "('f \<Rightarrow> string) \<Rightarrow> (int \<Rightarrow> string) \<Rightarrow> 'f maker_params \<Rightarrow> string \<Rightarrow> provider_item list \<Rightarrow> level
     \<Rightarrow> 'f qm_call \<Rightarrow> 'f querys_and_params"
where
  "getWdbReadQuerys shw fmt ps i pl lvl qc =
     (let providers = providerWithoutPlacename pl;
          r0 = querys_and_params pl;
          r1 = (case map_of ps ''all'' of
                  None \<Rightarrow> r0
                | Some byprov \<Rightarrow> id_queries shw fmt qc ''all'' lvl (all_providers byprov providers) byprov r0)
      in case map_of ps i of
           None \<Rightarrow> r1
         | Some byprov \<Rightarrow> id_queries shw fmt qc i lvl providers byprov r1)"

section \<open>What the queries are for\<close>

text \<open>The provider has a reference time and is not disabled.\<close>

definition enabled_provider :: "reftimes \<Rightarrow> string \<Rightarrow> bool" where
  "enabled_provider rt k \<longleftrightarrow> (\<exists>t. first_match rt k = Some t \<and> \<not> disabled t)"

definition query_ok :: "reftimes \<Rightarrow> 'f pd_table \<Rightarrow> 'f query \<Rightarrow> bool" where
  "query_ok rt t q \<longleftrightarrow>
     (qtexts q \<noteq> [] \<or> qparams q \<noteq> [] \<longrightarrow> enabled_provider rt (qprovider q))
     \<and> (\<forall>p \<in> set (qparams q). pd_hasParam t (alias_of p) (qprovider q))"

definition qp_inv :: "reftimes \<Rightarrow> 'f querys_and_params \<Rightarrow> bool" where
  "qp_inv rt r \<longleftrightarrow>
     pd_wf (out_params r)
     \<and> distinct (map (\<lambda>aq. (qid (snd aq), qprovider (snd aq))) (querys r))
     \<and> (\<forall>aq \<in> set (querys r). query_ok rt (out_params r) (snd aq))"

text \<open>The aliases a table has only grow.\<close>

definition pd_le :: "'f pd_table \<Rightarrow> 'f pd_table \<Rightarrow> bool" where
  "pd_le t t' \<longleftrightarrow> (\<forall>a k. pd_hasParam t a k \<longrightarrow> pd_hasParam t' a k)"

lemma pd_le_refl [simp]: "pd_le t t"
  by (simp add: pd_le_def)

lemma pd_le_trans: "pd_le t t' \<Longrightarrow> pd_le t' t'' \<Longrightarrow> pd_le t t''"
  by (simp add: pd_le_def)

lemma pd_le_add: "pd_le t (snd (addParamDef p k r t))"
  by (simp add: pd_le_def pd_hasParam_find addParamDef_find)

lemma hasParam_added: "pd_hasParam (snd (addParamDef p k r t)) (alias_of p) k"
  by (simp add: pd_hasParam_find addParamDef_find)

lemma query_ok_le: "query_ok rt t q \<Longrightarrow> pd_le t t' \<Longrightarrow> query_ok rt t' q"
  by (auto simp: query_ok_def pd_le_def)

text \<open>What building one query keeps.\<close>

definition build_ok :: "reftimes \<Rightarrow> string \<Rightarrow> string \<Rightarrow> 'f pd_table \<Rightarrow> 'f query \<times> 'f pd_table \<Rightarrow> bool" where
  "build_ok rt i k t0 acc \<longleftrightarrow>
     qid (fst acc) = i \<and> qprovider (fst acc) = k \<and> query_ok rt (snd acc) (fst acc)
     \<and> pd_wf (snd acc) \<and> pd_le t0 (snd acc)"

lemma build_ok_param:
  assumes "build_ok rt i k t0 (q, t)" "enabled_provider rt k"
  shows "build_ok rt i k t0 (addParam p q, snd (addParamDef p k r t))"
proof -
  have "pd_le t (snd (addParamDef p k r t))" by (rule pd_le_add)
  with assms hasParam_added [of p k r t] show ?thesis
    by (auto simp: build_ok_def query_ok_def addParam_def addParamDef_wf pd_le_def)
qed

lemma build_ok_params:
  assumes "enabled_provider rt k"
  shows "build_ok rt i k t0 acc \<Longrightarrow>
    build_ok rt i k t0 (fold (\<lambda>p (q, t). (addParam (at_level lvl p) q,
       snd (addParamDef (at_level lvl p) k False t))) ps acc)"
proof (induction ps arbitrary: acc)
  case (Cons p ps)
  obtain q t where acc: "acc = (q, t)" by (cases acc)
  from build_ok_param [OF Cons.prems [unfolded acc] assms, of "at_level lvl p" False]
  show ?case unfolding acc fold_Cons comp_apply prod.case by (rule Cons.IH)
qed simp

lemma build_ok_create:
  assumes "build_ok (qm_reftimes qc) i k t0 acc"
  shows "build_ok (qm_reftimes qc) i k t0 (createQuery shw fmt qc ps lvl acc)"
proof (cases "first_match (qm_reftimes qc) k")
  case None
  with assms show ?thesis
    by (simp add: createQuery_def build_ok_def providerReftimeDisabledAndDataversion_def)
next
  case (Some pt)
  have k: "qprovider (fst acc) = k" using assms by (simp add: build_ok_def)
  show ?thesis
  proof (cases "disabled pt")
    case True
    with Some assms k show ?thesis
      by (simp add: createQuery_def providerReftimeDisabledAndDataversion_def)
  next
    case False
    with Some have en: "enabled_provider (qm_reftimes qc) k" by (simp add: enabled_provider_def)
    obtain q t where f: "fold (\<lambda>p (q, t). (addParam (at_level lvl p) q,
        snd (addParamDef (at_level lvl p) k False t))) ps acc = (q, t)" by fastforce
    with build_ok_params [OF en assms, of lvl ps] have "build_ok (qm_reftimes qc) i k t0 (q, t)" by simp
    with en have "build_ok (qm_reftimes qc) i k t0 (q\<lparr>qtexts := qtexts q @ [x]\<rparr>, t)" for x
      by (auto simp: build_ok_def query_ok_def)
    with Some False k f show ?thesis
      by (simp add: createQuery_def providerReftimeDisabledAndDataversion_def Let_def)
  qed
qed

lemma build_ok_levels:
  "build_ok (qm_reftimes qc) i k t0 acc \<Longrightarrow>
   build_ok (qm_reftimes qc) i k t0 (create_levels shw fmt qc lvl lps acc)"
  unfolding create_levels_def
proof (induction lps arbitrary: acc)
  case (Cons x lps)
  obtain l ps where x: "x = (l, ps)" by (cases x)
  from build_ok_create [OF Cons.prems] Cons.prems show ?case
    unfolding x fold_Cons comp_apply prod.case by (intro Cons.IH) simp
qed simp

lemma set_append_new: "set (append_new f xs ys) \<subseteq> set xs \<union> set ys"
  by (induction f xs ys rule: append_new.induct) (auto split: if_splits)

lemma append_new_empty: "append_new f xs ys = [] \<longleftrightarrow> xs = [] \<and> ys = []"
  by (induction f xs ys rule: append_new.induct) (auto split: if_splits)

lemma query_ok_merge:
  assumes "query_ok rt t q" "query_ok rt t w" "query_eq q w"
  shows "query_ok rt t (query_merge w q)"
  using assms set_append_new [of alias_of "qparams q" "qparams w"]
  by (auto simp: query_ok_def query_merge_def query_eq_def append_new_empty)

lemma qp_inv_addQuery:
  assumes "qp_inv rt r" "query_ok rt (out_params r) q"
  shows "qp_inv rt (addQuery q r)"
proof (cases "find_idx (\<lambda>aq. query_eq (snd aq) q) (querys r)")
  case None
  then have eq: "addQuery q r = r\<lparr>querys := querys r @ [(next_addr r, q)], next_addr := next_addr r + 1\<rparr>"
    by (simp add: addQuery_def)
  from None have "\<forall>aq \<in> set (querys r). \<not> query_eq (snd aq) q" by (simp add: find_idx_None)
  with assms show ?thesis
    unfolding eq by (auto simp: qp_inv_def query_eq_def)
next
  case (Some i)
  let ?qi = "snd (querys r ! i)"
  let ?qs = "(querys r)[i := (fst (querys r ! i), query_merge q ?qi)]"
  have i: "i < length (querys r)" "query_eq ?qi q" using Some by (auto simp: find_idx_Some)
  have ids: "map (\<lambda>aq. (qid (snd aq), qprovider (snd aq))) ?qs =
      map (\<lambda>aq. (qid (snd aq), qprovider (snd aq))) (querys r)"
    using i by (simp add: map_update query_merge_def list_update_same_conv)
  have "query_ok rt (out_params r) ?qi" using assms(1) i(1) by (simp add: qp_inv_def)
  then have "query_ok rt (out_params r) (query_merge q ?qi)"
    using assms(2) i(2) by (rule query_ok_merge)
  then have "\<forall>aq \<in> set ?qs. query_ok rt (out_params r) (snd aq)"
    using assms(1) set_update_subset_insert [of "querys r" i] by (fastforce simp: qp_inv_def)
  with ids Some assms(1) show ?thesis by (simp add: addQuery_def qp_inv_def)
qed

text \<open>The id and provider of the queries.\<close>

definition query_ids :: "'f querys_and_params \<Rightarrow> (string \<times> string) set" where
  "query_ids r = (\<lambda>aq. (qid (snd aq), qprovider (snd aq))) ` set (querys r)"

lemma query_ids_addQuery: "query_ids (addQuery q r) \<subseteq> insert (qid q, qprovider q) (query_ids r)"
proof (cases "find_idx (\<lambda>aq. query_eq (snd aq) q) (querys r)")
  case (Some i)
  then have "i < length (querys r)" by (simp add: find_idx_Some)
  then have "querys r ! i \<in> set (querys r)" by simp
  with Some show ?thesis
    using set_update_subset_insert [of "querys r" i "(fst (querys r ! i), query_merge q (snd (querys r ! i)))"]
    by (auto simp: addQuery_def query_ids_def query_merge_def)
qed (auto simp: addQuery_def query_ids_def)

lemma provider_query_ok:
  assumes "qp_inv (qm_reftimes qc) r"
  shows "qp_inv (qm_reftimes qc) (provider_query shw fmt qc i lvl byprov k r)
    \<and> query_ids (provider_query shw fmt qc i lvl byprov k r) \<subseteq> insert (i, k) (query_ids r)"
proof (cases "case map_of byprov k of None \<Rightarrow> map_of byprov [] | Some lps \<Rightarrow> Some lps")
  case None
  then have "provider_query shw fmt qc i lvl byprov k r = r"
    unfolding provider_query_def None by simp
  with assms show ?thesis by auto
next
  case (Some lps)
  obtain q t where c: "create_levels shw fmt qc lvl lps (new_query i k, out_params r) = (q, t)"
      by fastforce
    have "build_ok (qm_reftimes qc) i k (out_params r) (new_query i k, out_params r)"
      using assms by (simp add: build_ok_def new_query_def query_ok_def qp_inv_def)
    from build_ok_levels [OF this, of shw fmt lvl lps] c
    have b: "build_ok (qm_reftimes qc) i k (out_params r) (q, t)" by simp
    then have "qp_inv (qm_reftimes qc) (r\<lparr>out_params := t\<rparr>)"
      using assms by (auto simp: qp_inv_def build_ok_def intro: query_ok_le)
    then have "qp_inv (qm_reftimes qc) (addQuery q (r\<lparr>out_params := t\<rparr>))"
      using b by (intro qp_inv_addQuery) (simp_all add: build_ok_def)
    moreover have "query_ids (addQuery q (r\<lparr>out_params := t\<rparr>)) \<subseteq> insert (i, k) (query_ids r)"
      using query_ids_addQuery [of q "r\<lparr>out_params := t\<rparr>"] b by (auto simp: build_ok_def query_ids_def)
    moreover have "provider_query shw fmt qc i lvl byprov k r = addQuery q (r\<lparr>out_params := t\<rparr>)"
      unfolding provider_query_def Some by (simp add: c)
    ultimately show ?thesis by simp
qed

lemma id_queries_ok:
  "qp_inv (qm_reftimes qc) r \<Longrightarrow>
   qp_inv (qm_reftimes qc) (id_queries shw fmt qc i lvl ks byprov r)
   \<and> query_ids (id_queries shw fmt qc i lvl ks byprov r) \<subseteq> {i} \<times> set ks \<union> query_ids r"
  unfolding id_queries_def
proof (induction ks arbitrary: r)
  case (Cons k ks)
  from provider_query_ok [OF Cons.prems, of shw fmt i lvl byprov k]
  have p: "qp_inv (qm_reftimes qc) (provider_query shw fmt qc i lvl byprov k r)"
      "query_ids (provider_query shw fmt qc i lvl byprov k r) \<subseteq> insert (i, k) (query_ids r)" by auto
  from Cons.IH [OF p(1)] p(2) show ?case by auto
qed simp

text \<open>The parameters of the maker: what is stored under an id, a provider and a level.\<close>

definition level_equiv :: "level \<Rightarrow> level \<Rightarrow> bool" where
  "level_equiv a b \<longleftrightarrow> \<not> level_less a b \<and> \<not> level_less b a"

lemma qual_num_eq: "qual_num a = qual_num b \<longleftrightarrow> a = b"
  by (cases a; cases b) auto

lemma level_equiv_iff:
  "level_equiv a b \<longleftrightarrow> lname a = lname b \<and> lfrom a = lfrom b \<and> lto a = lto b \<and> lqual a = lqual b"
proof
  assume e: "level_equiv a b"
  from e have 1: "lname a = lname b"
    using less_linear [of "lname a" "lname b"] by (auto simp: level_equiv_def level_less_def)
  from e 1 have 2: "lfrom a = lfrom b" by (auto simp: level_equiv_def level_less_def)
  from e 1 2 have 3: "lto a = lto b" by (auto simp: level_equiv_def level_less_def)
  from e 1 2 3 have "qual_num (lqual a) = qual_num (lqual b)" by (simp add: level_equiv_def level_less_def)
  with 1 2 3 show "lname a = lname b \<and> lfrom a = lfrom b \<and> lto a = lto b \<and> lqual a = lqual b"
    by (simp add: qual_num_eq)
qed (simp add: level_equiv_def level_less_def)

definition lv_has :: "'f level_params \<Rightarrow> level \<Rightarrow> 'f param_def \<Rightarrow> bool" where
  "lv_has m lvl p \<longleftrightarrow> (\<exists>lqs \<in> set m. p \<in> set (snd lqs) \<and> level_equiv (fst lqs) lvl)"

definition maker_has :: "'f maker_params \<Rightarrow> string \<Rightarrow> string \<Rightarrow> level \<Rightarrow> 'f param_def \<Rightarrow> bool" where
  "maker_has ps i k lvl p \<longleftrightarrow> lv_has (om_get [] k (om_get [] i ps)) lvl p"

lemma lv_has_simps [simp]:
  "\<not> lv_has [] lvl p"
  "lv_has ((l, qs) # m) lvl p \<longleftrightarrow> p \<in> set qs \<and> level_equiv l lvl \<or> lv_has m lvl p"
  by (simp_all add: lv_has_def)

lemma level_push_has:
  "lv_has (level_push k p m) lvl q \<longleftrightarrow> lv_has m lvl q \<or> (q = p \<and> level_equiv k lvl)"
proof (induction k p m rule: level_push.induct)
  case (2 k p a ps m)
  have "level_equiv a lvl \<longleftrightarrow> level_equiv k lvl" if "\<not> level_less k a" "\<not> level_less a k"
  proof -
    have "level_equiv k a" using that by (simp add: level_equiv_def)
    then show ?thesis by (auto simp: level_equiv_iff)
  qed
  with 2 show ?case by (auto split: if_splits)
qed auto

lemma om_get_put: "om_get d k (om_put k' v m) = (if k = k' then v else om_get d k m)"
  by (simp add: om_get_def)

lemma maker_push_has:
  "maker_has (maker_push i k p ps) i' k' lvl q \<longleftrightarrow>
   maker_has ps i' k' lvl q \<or> (i' = i \<and> k' = k \<and> q = p \<and> level_equiv (level_of_param p) lvl)"
  by (auto simp: maker_push_def Let_def maker_has_def om_get_put level_push_has)

lemma maker_push_all:
  "maker_has (fold (maker_push i k) l ps) i' k' lvl q \<longleftrightarrow>
   maker_has ps i' k' lvl q \<or> (i' = i \<and> k' = k \<and> q \<in> set l \<and> level_equiv (level_of_param q) lvl)"
  by (induction l arbitrary: ps) (auto simp: maker_push_has)

lemma maker_push_table:
  "maker_has (fold (\<lambda>(k, l) ps. fold (maker_push i (maker_provider k)) l ps) t ps) i' k' lvl q \<longleftrightarrow>
   maker_has ps i' k' lvl q
   \<or> (i' = i \<and> (\<exists>k l. (k, l) \<in> set t \<and> k' = maker_provider k \<and> q \<in> set l) \<and> level_equiv (level_of_param q) lvl)"
proof (induction t arbitrary: ps)
  case (Cons kl t)
  then show ?case by (cases kl) (auto simp: maker_push_all)
qed simp

lemma maker_create_has:
  "maker_has (fold (\<lambda>(i, pl) ps. fold (\<lambda>(k, l) ps. fold (maker_push i (maker_provider k)) l ps) (table pl) ps) c ps)
     i' k' lvl q \<longleftrightarrow>
   maker_has ps i' k' lvl q
   \<or> ((\<exists>pl k l. (i', pl) \<in> set c \<and> (k, l) \<in> set (table pl) \<and> k' = maker_provider k \<and> q \<in> set l)
      \<and> level_equiv (level_of_param q) lvl)"
proof (induction c arbitrary: ps)
  case (Cons ipl c)
  then show ?case by (cases ipl) (auto simp: maker_push_table)
qed simp

text \<open>Merging queries the way the code does, with addresses that the target does not have.\<close>

lemma merge_query_append:
  "a \<notin> fst ` set (querys r) \<Longrightarrow>
   querys (merge_query (a, q) r) = querys r @ [(next_addr r, q)] \<and>
   next_addr (merge_query (a, q) r) = Suc (next_addr r)"
proof -
  assume "a \<notin> fst ` set (querys r)"
  then have "find_idx (\<lambda>aq. a = fst aq) (querys r) = None" by (auto simp: find_idx_None)
  then show ?thesis by (simp add: merge_query_def)
qed

lemma merge_queries_append:
  "\<forall>aq \<in> set ws. fst aq \<notin> fst ` set (querys r) \<and> fst aq < next_addr r \<Longrightarrow>
   map snd (querys (fold merge_query ws r)) = map snd (querys r) @ map snd ws"
proof (induction ws arbitrary: r)
  case (Cons w ws)
  obtain a q where w: "w = (a, q)" by (cases w)
  with Cons.prems have 1: "querys (merge_query w r) = querys r @ [(next_addr r, q)]"
      "next_addr (merge_query w r) = Suc (next_addr r)"
    using merge_query_append [of a r q] by auto
  have "\<forall>aq \<in> set ws. fst aq \<notin> fst ` set (querys (merge_query w r)) \<and> fst aq < next_addr (merge_query w r)"
    using Cons.prems unfolding 1 by auto
  from Cons.IH [OF this] 1 w show ?case by simp
qed simp

section \<open>Properties\<close>

text \<open>
  \<open>QueryMaker::create\<close> loses no parameter definition and invents none: a definition stands
  under an id, a provider and a level exactly when the configuration has it under that id for a
  provider that is written so and its own level is that level up to the unit, which
  \<open>operator<\<close> of \<open>Level\<close> does not look at.
\<close>

theorem maker_create_complete:
  "maker_has (maker_create c) i k lvl p \<longleftrightarrow>
     (\<exists>pl k' l. (i, pl) \<in> set c \<and> (k', l) \<in> set (table pl) \<and> k = maker_provider k' \<and> p \<in> set l)
     \<and> lname (level_of_param p) = lname lvl \<and> lfrom (level_of_param p) = lfrom lvl
     \<and> lto (level_of_param p) = lto lvl \<and> lqual (level_of_param p) = lqual lvl"
proof -
  have "\<not> maker_has [] i k lvl p" by (simp add: maker_has_def om_get_def)
  then show ?thesis
    using maker_create_has [of c "[]" i k lvl p] by (simp add: maker_create_def level_equiv_iff)
qed

lemma getWdbReadQuerys_inv:
  "qp_inv (qm_reftimes qc) (getWdbReadQuerys shw fmt ps i pl lvl qc)
   \<and> query_ids (getWdbReadQuerys shw fmt ps i pl lvl qc) \<subseteq> {''all''} \<times> UNIV \<union> {i} \<times> set (providerWithoutPlacename pl)"
proof -
  let ?rt = "qm_reftimes qc"
  let ?pr = "providerWithoutPlacename pl"
  let ?r0 = "querys_and_params pl :: 'a querys_and_params"
  define r1 where "r1 = (case map_of ps ''all'' of
      None \<Rightarrow> ?r0
    | Some byprov \<Rightarrow> id_queries shw fmt qc ''all'' lvl (all_providers byprov ?pr) byprov ?r0)"
  define r where "r = getWdbReadQuerys shw fmt ps i pl lvl qc"
  have i0: "qp_inv ?rt ?r0" "query_ids ?r0 = {}"
    by (simp_all add: qp_inv_def querys_and_params_def query_ids_def)
  have i1: "qp_inv ?rt r1" "query_ids r1 \<subseteq> {''all''} \<times> UNIV"
  proof -
    have "qp_inv ?rt r1 \<and> query_ids r1 \<subseteq> {''all''} \<times> UNIV"
    proof (cases "map_of ps ''all''")
      case None
      with i0 show ?thesis by (simp add: r1_def)
    next
      case (Some byprov)
      with id_queries_ok [OF i0(1), of shw fmt "''all''" lvl "all_providers byprov ?pr" byprov] i0(2)
      show ?thesis unfolding r1_def by auto
    qed
    then show "qp_inv ?rt r1" "query_ids r1 \<subseteq> {''all''} \<times> UNIV" by simp_all
  qed
  have r_eq: "r = (case map_of ps i of None \<Rightarrow> r1 | Some byprov \<Rightarrow> id_queries shw fmt qc i lvl ?pr byprov r1)"
    unfolding r_def getWdbReadQuerys_def r1_def Let_def by (rule refl)
  have "qp_inv ?rt r \<and> query_ids r \<subseteq> {''all''} \<times> UNIV \<union> {i} \<times> set ?pr"
  proof (cases "map_of ps i")
    case None
    with i1 show ?thesis unfolding r_eq by auto
  next
    case (Some byprov)
    with id_queries_ok [OF i1(1), of shw fmt i lvl ?pr byprov] i1(2)
    show ?thesis unfolding r_eq by auto
  qed
  then show ?thesis unfolding r_def .
qed

text \<open>
  C34: What \<open>getWdbReadQuerys\<close> returns: at most one query for an id and provider, each for the
  id \<open>all\<close> or for the wanted id and a provider of the list; a query with a text or a parameter is
  for a provider that has a reference time and is not disabled; and every parameter of a query
  is declared for its provider in the returned parameter definitions, which are well formed.
\<close>

theorem getWdbReadQuerys_correct:
  "pd_wf (out_params (getWdbReadQuerys shw fmt ps i pl lvl qc)) \<and>
   distinct (map (\<lambda>(a, q). (qid q, qprovider q)) (querys (getWdbReadQuerys shw fmt ps i pl lvl qc))) \<and>
   (\<forall>(a, q) \<in> set (querys (getWdbReadQuerys shw fmt ps i pl lvl qc)).
      (qid q = ''all'' \<or> qid q = i \<and> qprovider q \<in> provider ` set pl)
      \<and> (qtexts q \<noteq> [] \<or> qparams q \<noteq> [] \<longrightarrow>
           (\<exists>t. first_match (qm_reftimes qc) (qprovider q) = Some t \<and> \<not> disabled t))
      \<and> (\<forall>p \<in> set (qparams q).
           pd_hasParam (out_params (getWdbReadQuerys shw fmt ps i pl lvl qc)) (alias_of p) (qprovider q)))"
proof -
  let ?rt = "qm_reftimes qc"
  define r where "r = getWdbReadQuerys shw fmt ps i pl lvl qc"
  have r: "qp_inv ?rt r \<and> query_ids r \<subseteq> {''all''} \<times> UNIV \<union> {i} \<times> set (providerWithoutPlacename pl)"
    unfolding r_def by (rule getWdbReadQuerys_inv)
  have "qid q = ''all'' \<or> qid q = i \<and> qprovider q \<in> provider ` set pl" if "(a, q) \<in> set (querys r)" for a q
    using r that by (force simp: query_ids_def providerWithoutPlacename_def)
  moreover have "query_ok ?rt (out_params r) q" if "(a, q) \<in> set (querys r)" for a q
    using r that by (force simp: qp_inv_def)
  ultimately have "(qid q = ''all'' \<or> qid q = i \<and> qprovider q \<in> provider ` set pl)
      \<and> (qtexts q \<noteq> [] \<or> qparams q \<noteq> [] \<longrightarrow>
           (\<exists>t. first_match ?rt (qprovider q) = Some t \<and> \<not> disabled t))
      \<and> (\<forall>p \<in> set (qparams q). pd_hasParam (out_params r) (alias_of p) (qprovider q))"
    if "(a, q) \<in> set (querys r)" for a q
    using that unfolding query_ok_def enabled_provider_def by blast
  moreover have "pd_wf (out_params r)" "distinct (map (\<lambda>(a, q). (qid q, qprovider q)) (querys r))"
    using r by (simp_all add: qp_inv_def case_prod_unfold)
  ultimately show ?thesis unfolding r_def [symmetric] by blast
qed

text \<open>
  \<open>QuerysAndParamDefs::merge\<close> never merges: it compares the addresses of the queries where
  \<open>addQuery\<close> compares the queries, so every query of the other object is appended as a copy, also
  when there is one for the same id and provider.
\<close>

theorem qp_merge_appends:
  assumes "\<forall>aq \<in> set (querys w). fst aq \<notin> fst ` set (querys r) \<and> fst aq < next_addr r"
  shows "map snd (querys (qp_merge w r)) = map snd (querys r) @ map snd (querys w)"
  using merge_queries_append [OF assms] by (simp add: qp_merge_def Let_def)

definition two_objects :: "nat \<Rightarrow> unit querys_and_params" where
  "two_objects a = \<lparr>querys = [(a, new_query ''x'' ''met'')], providerPriority = [], out_params = [], next_addr = 2\<rparr>"

theorem qp_merge_appends_witness:
  "map snd (querys (qp_merge (two_objects 1) (two_objects 0))) = [new_query ''x'' ''met'', new_query ''x'' ''met'']"
  using qp_merge_appends [of "two_objects 1" "two_objects 0"] by (simp add: two_objects_def)

definition sample_call :: "unit qm_call" where
  "sample_call = \<lparr>qm_protocol = 3, qm_latitude = (), qm_longitude = (),
     qm_reftimes = [(''met'', provider_times_init)], qm_validfrom = Not_a_date_time,
     qm_validto = Not_a_date_time, qm_dataversion = int_max\<rparr>"

theorem getWdbReadQuerys_correct_witness:
  "distinct (map (\<lambda>(a, q). (qid q, qprovider q))
     (querys (getWdbReadQuerys (\<lambda>_. ''10'') (\<lambda>_. []) (maker_create (sample_cfg [sample_def ''T'' ''temperature'']))
                [] [item ''met'' []] level_undef sample_call)))"
  by (rule conjunct1 [OF conjunct2 [OF getWdbReadQuerys_correct]])

end
