(* ===== verification/RequestConf.thy ===== *)
theory RequestConf
  imports ParamDefs "HOL-Library.Multiset"
begin

text \<open>
  The configuration of the requests: \<open>ActionParam\<close>, \<open>Version\<close>, \<open>RequestConf\<close>, \<open>Request\<close> and
  the map of requests (\<open>src/src/mod_wdb2ts/configparser/RequestConf.cc\<close>). A \<open>miutil::Value\<close> is
  an optional string. The meta data \<open>nextRun\<close>, which nothing here looks at, has a type variable;
  versions are shared pointers, known by their address.
\<close>

section \<open>Values and action parameters\<close>

type_synonym val = "string option"

definition asString_or :: "val \<Rightarrow> string \<Rightarrow> string" where
  "asString_or v d = (case v of None \<Rightarrow> d | Some s \<Rightarrow> s)"

type_synonym action_params = "(string, val) omap"

definition getStr :: "action_params \<Rightarrow> string \<Rightarrow> string result" where
  "getStr ps key =
     (case map_of ps key of
        None \<Rightarrow> Inl (Range_error (''The key '' @ quote key @ '' do not exist in the configuration.''))
      | Some v \<Rightarrow> Inr (asString_or v []))"

definition getStr_def_val :: "action_params \<Rightarrow> string \<Rightarrow> string \<Rightarrow> string" where
  "getStr_def_val ps key d = (case getStr ps key of Inl e \<Rightarrow> d | Inr s \<Rightarrow> s)"

definition hasKey :: "action_params \<Rightarrow> string \<Rightarrow> bool \<Rightarrow> bool" where
  "hasKey ps key valueMustBeDefined \<longleftrightarrow>
     (case map_of ps key of None \<Rightarrow> False | Some v \<Rightarrow> (if valueMustBeDefined then v \<noteq> None else True))"

section \<open>Version\<close>

record ver =
  majorVer :: int
  minorVer :: int

definition ver :: "int \<Rightarrow> int \<Rightarrow> ver" where
  "ver a b = \<lparr>majorVer = a, minorVer = b\<rparr>"

definition ver_highest :: ver where "ver_highest = ver (-1) (-1)"
definition ver_invalid :: ver where "ver_invalid = ver 0 0"

definition defaultVersionHighest :: "ver \<Rightarrow> bool" where
  "defaultVersionHighest v \<longleftrightarrow> majorVer v = -1 \<and> minorVer v = -1"

definition invalid :: "ver \<Rightarrow> bool" where
  "invalid v \<longleftrightarrow> majorVer v = 0 \<and> minorVer v = 0"

text \<open>\<open>boost::lexical_cast<int>\<close>: the whole text, an optional sign and digits, within \<open>int\<close>.\<close>

definition lexical_int :: "string \<Rightarrow> int option" where
  "lexical_int s =
     (let (neg, ds) = (case s of
                         [] \<Rightarrow> (False, [])
                       | c # cs \<Rightarrow> if c = CHR ''-'' then (True, cs)
                                  else if c = CHR ''+'' then (False, cs) else (False, c # cs));
          v = (if neg then - int (digits_val ds) else int (digits_val ds))
      in if ds = [] \<or> \<not> (\<forall>c \<in> set ds. isdigit c) \<or> \<not> in_int v then None else Some v)"

definition ver_ok :: "int \<Rightarrow> int \<Rightarrow> bool" where
  "ver_ok a b \<longleftrightarrow> (a = 0 \<and> b > 0) \<or> (a > 0 \<and> b \<ge> 0) \<or> (a = -1 \<and> b = -1)"

definition ver_of_string :: "string \<Rightarrow> ver" where
  "ver_of_string s =
     (case splitstr s (CHR ''.'') dquote of
        Some [a] \<Rightarrow>
          (case lexical_int a of
             None \<Rightarrow> ver_invalid
           | Some x \<Rightarrow> let y = (if x \<noteq> -1 then 0 else -1) in if ver_ok x y then ver x y else ver_invalid)
      | Some [a, b] \<Rightarrow>
          (case (lexical_int a, lexical_int b) of
             (Some x, Some y) \<Rightarrow> if ver_ok x y then ver x y else ver_invalid
           | _ \<Rightarrow> ver_invalid)
      | _ \<Rightarrow> ver_invalid)"

definition ver_less :: "ver \<Rightarrow> ver \<Rightarrow> bool" where
  "ver_less a b =
     (let (major, minor) = (if majorVer a = -1 \<and> minorVer a = -1 then (0, 0) else (majorVer a, minorVer a))
      in if major < majorVer b then True
         else if major = majorVer b \<and> minor < minorVer b then True else False)"

definition ver_eq :: "ver \<Rightarrow> ver \<Rightarrow> bool" where
  "ver_eq a b = (if majorVer a = majorVer b \<and> minorVer a = minorVer b then True else False)"

definition ver_show :: "ver \<Rightarrow> string" where
  "ver_show v =
     (if majorVer v = -1 \<and> minorVer v = -1 then '' (highest) ''
      else if majorVer v = 0 \<and> minorVer v = 0 then '' (invalid) ''
      else dec_int (majorVer v) @ ''.'' @ dec_int (minorVer v))"

definition ver_asString :: "ver \<Rightarrow> string" where
  "ver_asString v =
     (if majorVer v = -1 \<and> minorVer v = -1 then ''vHighest''
      else if majorVer v = 0 \<and> minorVer v = 0 then []
      else ''v'' @ dec_int (majorVer v) @ ''_'' @ dec_int (minorVer v))"

section \<open>Request\<close>

record ('f, 'u) request_conf =
  rc_params :: action_params
  nextRun :: 'u
  queryid :: val
  action :: val
  wdbDB :: val
  schema :: val
  rversion :: ver
  paramdef :: "'f pd_config"

record ('f, 'u) request =
  requestDefault :: "('f, 'u) request_conf"
  requestVersions :: "(nat \<times> ('f, 'u) request_conf) list"
  rpath :: val

text \<open>The insertion: before the first version that is not greater.\<close>

fun insert_version ::
  "nat \<times> ('f, 'u) request_conf \<Rightarrow> (nat \<times> ('f, 'u) request_conf) list \<Rightarrow> (nat \<times> ('f, 'u) request_conf) list"
where
  "insert_version v [] = [v]"
| "insert_version v (w # ws) =
     (if ver_less (rversion (snd v)) (rversion (snd w)) then w # insert_version v ws else v # w # ws)"

text \<open>
  Result: the return value, the warning and the request. The duplicate test compares the shared
  pointers.
\<close>

definition addRequestVersion ::
  "(nat \<times> ('f, 'u) request_conf) option \<Rightarrow> ('f, 'u) request \<Rightarrow> (bool \<times> string) \<times> ('f, 'u) request"
where
  "addRequestVersion rv r =
     (case rv of
        None \<Rightarrow> ((False, ''Request::addRequestVersion: requestVersion == 0''), r)
      | Some v \<Rightarrow>
          if invalid (rversion (snd v)) \<or> defaultVersionHighest (rversion (snd v))
          then ((False, ''Request::addRequestVersion: Invalid version attribute. (request: ''
                        @ quote (asString_or (rpath r) []) @ '')''), r)
          else if \<exists>w \<in> set (requestVersions r). fst w = fst v
          then ((False, ''addRequestVersion: request: '' @ quote (asString_or (rpath r) [])
                        @ '' duplicate versions. ('' @ ver_show (rversion (snd v)) @ '').''), r)
          else ((True, []), r\<lparr>requestVersions := insert_version v (requestVersions r)\<rparr>))"

definition or_else :: "val \<Rightarrow> val \<Rightarrow> val" where
  "or_else v d = (if v = None then d else v)"

text \<open>The loop over the default action parameters.\<close>

definition inherit_params :: "action_params \<Rightarrow> action_params \<Rightarrow> action_params" where
  "inherit_params defs mine =
     fold (\<lambda>(k, v) m.
        if v = None then m
        else (case map_of m k of
                Some (Some x) \<Rightarrow> m
              | _ \<Rightarrow> om_put k v m)) defs mine"

definition resolve_one :: "('f, 'u) request_conf \<Rightarrow> ('f, 'u) request_conf \<Rightarrow> ('f, 'u) request_conf" where
  "resolve_one d c =
     c\<lparr>queryid := or_else (queryid c) (queryid d), action := or_else (action c) (action d),
       wdbDB := or_else (wdbDB c) (wdbDB d), rc_params := inherit_params (rc_params d) (rc_params c),
       paramdef := (if paramdef d \<noteq> [] then config_merge (paramdef d) False (paramdef c) else paramdef c)\<rparr>"

definition resolve_version :: "ver \<Rightarrow> ver list \<Rightarrow> ver" where
  "resolve_version v vs =
     (if defaultVersionHighest v then (case vs of [] \<Rightarrow> ver_highest | w # _ \<Rightarrow> w)
      else if invalid v then (if \<exists>w \<in> set vs. ver_eq w v then v else ver_highest)
      else v)"

definition resolve :: "('f, 'u) request \<Rightarrow> ('f, 'u) request" where
  "resolve r =
     (let d = requestDefault r;
          vs = map (\<lambda>(a, c). (a, resolve_one d c)) (requestVersions r)
      in r\<lparr>requestVersions := vs,
           requestDefault := d\<lparr>rversion := resolve_version (rversion d) (map (\<lambda>v. rversion (snd v)) vs)\<rparr>\<rparr>)"

type_synonym ('f, 'u) request_map = "(string, ('f, 'u) request) omap"

definition addRequest :: "('f, 'u) request option \<Rightarrow> ('f, 'u) request_map \<Rightarrow> ('f, 'u) request_map" where
  "addRequest rq m =
     (case rq of
        None \<Rightarrow> m
      | Some r \<Rightarrow>
          if asString_or (rpath r) [] = [] then m
          else if map_of m (asString_or (rpath r) []) \<noteq> None then m
          else om_put (asString_or (rpath r) []) r m)"

section \<open>Config\<close>

text \<open>The definitions of a query: its elements and \<open>dbRequestsInParalells\<close>.\<close>

record query_element =
  qe_query :: string
  qe_probe :: bool
  qe_stopIfData :: bool
  qe_wdbdb :: string
  qe_prognosisLength :: int

record query_def =
  qd_querys :: "query_element list"
  dbRequestsInParalells :: int

definition query_def :: query_def where
  "query_def = \<lparr>qd_querys = [], dbRequestsInParalells = 0\<rparr>"

record ('f, 'u) config =
  cfg_querys :: "(string, query_def) omap"
  cfg_paramdef :: "'f pd_config"
  cfg_requests :: "(string, ('f, 'u) request) omap"

definition config_query :: "('f, 'u) config \<Rightarrow> string \<Rightarrow> query_def" where
  "config_query c q = (case map_of (cfg_querys c) q of None \<Rightarrow> query_def | Some d \<Rightarrow> d)"

text \<open>One map merged into another: what is there already stays and is reported.\<close>

definition redefined :: "string \<Rightarrow> string \<Rightarrow> string \<Rightarrow> string" where
  "redefined what k fname =
     ''WARNING: '' @ what @ '' <'' @ k @ ''> allready defined. Ignoring redefinition in file <''
     @ fname @ ''>.'' @ [LF]"

definition merge_new :: "string \<Rightarrow> string \<Rightarrow> (string, 'v) omap \<Rightarrow> (string, 'v) omap \<times> string \<Rightarrow> (string, 'v) omap \<times> string" where
  "merge_new what fname other acc =
     fold (\<lambda>(k, v) (m, err).
        if map_of m k \<noteq> None then (m, err @ redefined what k fname) else (om_put k v m, err)) other acc"

text \<open>Result: the return value, the text written to \<open>err\<close> and the configuration.\<close>

definition config_merge_all ::
  "('f, 'u) config option \<Rightarrow> string \<Rightarrow> ('f, 'u) config \<Rightarrow> (bool \<times> string) \<times> ('f, 'u) config"
where
  "config_merge_all other fname c =
     (case other of
        None \<Rightarrow> ((False, ''Config::merge: other == 0. Expecting a pointer to Config.''), c)
      | Some d \<Rightarrow>
          (let (rs, e1) = merge_new ''request'' fname (cfg_requests d) (cfg_requests c, []);
               (qs, e2) = merge_new ''querydef'' fname (cfg_querys d) (cfg_querys c, e1)
           in ((True, e2),
               c\<lparr>cfg_requests := rs, cfg_querys := qs,
                 cfg_paramdef := config_merge (cfg_paramdef d) False (cfg_paramdef c)\<rparr>)))"

section \<open>Versions in order\<close>

definition ver_proper :: "ver \<Rightarrow> bool" where
  "ver_proper v \<longleftrightarrow> \<not> invalid v \<and> \<not> defaultVersionHighest v"

lemma ver_less_proper:
  "ver_proper a \<Longrightarrow>
   ver_less a b \<longleftrightarrow> majorVer a < majorVer b \<or> (majorVer a = majorVer b \<and> minorVer a < minorVer b)"
  by (auto simp: ver_less_def ver_proper_def defaultVersionHighest_def Let_def split: prod.splits if_splits)

text \<open>The versions of a request: proper ones, the greatest first.\<close>

definition versions_sorted :: "ver list \<Rightarrow> bool" where
  "versions_sorted vs \<longleftrightarrow> (\<forall>v \<in> set vs. ver_proper v) \<and> sorted_wrt (\<lambda>a b. \<not> ver_less a b) vs"

lemma mset_insert_version: "mset (insert_version v ws) = add_mset v (mset ws)"
  by (induction ws) auto

lemma set_insert_version: "set (insert_version v ws) = insert v (set ws)"
  using mset_insert_version [of v ws] by (metis set_mset_mset set_mset_add_mset_insert)

lemma insert_version_sorted:
  "versions_sorted (map (\<lambda>v. rversion (snd v)) ws) \<Longrightarrow> ver_proper (rversion (snd v)) \<Longrightarrow>
   versions_sorted (map (\<lambda>v. rversion (snd v)) (insert_version v ws))"
proof (induction ws)
  case (Cons w ws)
  let ?v = "\<lambda>v. rversion (snd v)"
  have pw: "ver_proper (?v w)" and rest: "versions_sorted (map ?v ws)"
    and le: "\<forall>u \<in> set ws. \<not> ver_less (?v w) (?v u)" and pws: "\<forall>u \<in> set ws. ver_proper (?v u)"
    using Cons.prems(1) by (auto simp: versions_sorted_def)
  show ?case
  proof (cases "ver_less (?v v) (?v w)")
    case True
    have "\<not> ver_less (?v w) (?v v)"
      using True pw Cons.prems(2) by (auto simp: ver_less_proper)
    with True Cons.IH [OF rest Cons.prems(2)] pw le show ?thesis
      by (auto simp: versions_sorted_def set_insert_version)
  next
    case False
    have "\<not> ver_less (?v v) (?v u)" if "u \<in> set ws" for u
      using that le False pw Cons.prems(2) by (auto simp: ver_less_proper)
    with False Cons.prems pw le pws rest show ?thesis
      by (auto simp: versions_sorted_def)
  qed
qed (simp add: versions_sorted_def)

section \<open>Inherited parameters\<close>

lemma inherit_params_find:
  "om_wf defs \<Longrightarrow>
   map_of (inherit_params defs mine) k =
     (case map_of mine k of
        Some (Some x) \<Rightarrow> Some (Some x)
      | old \<Rightarrow> (case map_of defs k of Some (Some y) \<Rightarrow> Some (Some y) | _ \<Rightarrow> old))"
proof (induction defs arbitrary: mine)
  case (Cons kv defs)
  obtain k0 v where kv: "kv = (k0, v)" by (cases kv)
  have wf: "om_wf defs" and no: "map_of defs k0 = None"
    using Cons.prems kv by (auto simp: om_wf_def map_of_eq_None_iff)
  define m1 where "m1 = (if v = None then mine
      else case map_of mine k0 of Some (Some x) \<Rightarrow> mine | _ \<Rightarrow> om_put k0 v mine)"
  have "inherit_params (kv # defs) mine = inherit_params defs m1"
    unfolding inherit_params_def kv m1_def by simp
  moreover have "map_of m1 k = (if k = k0 \<and> v \<noteq> None \<and> (\<forall>x. map_of mine k0 \<noteq> Some (Some x))
      then Some v else map_of mine k)"
    by (auto simp: m1_def split: option.split)
  ultimately show ?case
    using Cons.IH [OF wf, of m1] no kv by (auto split: option.split)
qed (auto simp: inherit_params_def split: option.split)

lemma map_of_merge_new:
  "om_wf other \<Longrightarrow>
   map_of (fst (merge_new what fname other (m, err))) k =
     (case map_of m k of Some v \<Rightarrow> Some v | None \<Rightarrow> map_of other k)"
proof (induction other arbitrary: m err)
  case (Cons kv other)
  obtain k0 v where kv: "kv = (k0, v)" by (cases kv)
  have wf: "om_wf other" and no: "map_of other k0 = None"
    using Cons.prems kv by (auto simp: om_wf_def map_of_eq_None_iff)
  show ?case
  proof (cases "map_of m k0")
    case None
    then have "merge_new what fname (kv # other) (m, err) = merge_new what fname other (om_put k0 v m, err)"
      by (simp add: merge_new_def kv)
    with Cons.IH [OF wf, of "om_put k0 v m" err] None no kv show ?thesis by (auto split: option.split)
  next
    case (Some x)
    then have "merge_new what fname (kv # other) (m, err) =
        merge_new what fname other (m, err @ redefined what k0 fname)"
      by (simp add: merge_new_def kv)
    with Cons.IH [OF wf, of m "err @ redefined what k0 fname"] Some no kv show ?thesis
      by (auto split: option.split)
  qed
qed (auto simp: merge_new_def split: option.split)

lemma merge_new_wf: "om_wf m \<Longrightarrow> om_wf (fst (merge_new what fname other (m, err)))"
proof (induction other arbitrary: m err)
  case (Cons kv other)
  then show ?case by (cases kv) (auto simp: merge_new_def)
qed (simp add: merge_new_def)

lemma merge_new_err:
  "om_wf other \<Longrightarrow>
   snd (merge_new what fname other (m, err)) = [] \<longleftrightarrow>
     err = [] \<and> fst ` set other \<inter> fst ` set m = {}"
proof (induction other arbitrary: m err)
  case (Cons kv other)
  obtain k0 v where kv: "kv = (k0, v)" by (cases kv)
  have wf: "om_wf other" and no: "k0 \<notin> fst ` set other"
    using Cons.prems kv by (auto simp: om_wf_def)
  show ?case
  proof (cases "map_of m k0")
    case None
    then have "k0 \<notin> fst ` set m" by (simp add: map_of_eq_None_iff)
    with Cons.IH [OF wf, of "om_put k0 v m" err] None no kv show ?thesis
      by (auto simp: merge_new_def)
  next
    case (Some x)
    then have "k0 \<in> fst ` set m" by (metis domI dom_map_of_conv_image_fst)
    with Cons.IH [OF wf, of m "err @ redefined what k0 fname"] Some kv show ?thesis
      by (auto simp: merge_new_def redefined_def)
  qed
qed (simp add: merge_new_def)

section \<open>Reading a version\<close>

lemma splitstr_dots:
  "\<forall>f \<in> set fs. f \<noteq> [] \<and> (\<forall>c \<in> set f. isdigit c) \<Longrightarrow> fs \<noteq> [] \<Longrightarrow>
   splitstr (join (CHR ''.'') fs) (CHR ''.'') dquote = Some fs"
proof -
  assume f: "\<forall>f \<in> set fs. f \<noteq> [] \<and> (\<forall>c \<in> set f. isdigit c)" and ne: "fs \<noteq> []"
  have d: "c \<noteq> CHR ''.'' \<and> c \<noteq> dquote \<and> c \<notin> set trim_set" if "isdigit c" for c
    using that by (auto simp: isdigit_def trim_set_def)
  have "raw_fields (CHR ''.'') dquote (CHR 0x00) False (join (CHR ''.'') fs) = fs"
    using ne f d by (intro fields_join) auto
  moreover have "trimstr g = g" if "g \<in> set fs" for g
    unfolding trimstr_strip using that f d by (intro strip_no_trim) blast
  ultimately show ?thesis by (simp add: splitstr_eq split_fields_def map_idI)
qed

lemma lexical_int_dec: "int n \<le> int_max \<Longrightarrow> lexical_int (dec_nat n) = Some (int n)"
proof -
  assume n: "int n \<le> int_max"
  obtain c cs where d: "dec_nat n = c # cs" by (cases "dec_nat n") auto
  have "isdigit c" using dec_nat_digits [of n] d by simp
  then have "c \<noteq> CHR ''-''" "c \<noteq> CHR ''+''" by (auto simp: isdigit_def)
  with n dec_nat_digits [of n] d digits_val_dec_nat [of n] show ?thesis
    by (simp add: lexical_int_def in_int_def int_min_def Let_def)
qed

section \<open>Properties\<close>

text \<open>
  \<open>addRequestVersion\<close> keeps the versions of a request proper and in descending order, adds
  exactly the given one when it returns true and changes nothing otherwise. It refuses only the
  null pointer, a version without a number and a pointer that is already there: two different
  objects with the same version number are both taken, against the warning text
  \<open>duplicate versions\<close>.
\<close>

theorem addRequestVersion_correct:
  assumes "versions_sorted (map (\<lambda>v. rversion (snd v)) (requestVersions r))"
  shows "case addRequestVersion rv r of ((ok, warning), r') \<Rightarrow>
      versions_sorted (map (\<lambda>v. rversion (snd v)) (requestVersions r')) \<and>
      (ok \<longleftrightarrow> (\<exists>v. rv = Some v \<and> ver_proper (rversion (snd v))
                  \<and> fst v \<notin> fst ` set (requestVersions r))) \<and>
      (ok \<longrightarrow> warning = [] \<and> mset (requestVersions r') = add_mset (the rv) (mset (requestVersions r))) \<and>
      (\<not> ok \<longrightarrow> warning \<noteq> [] \<and> r' = r)"
proof (cases rv)
  case None
  with assms show ?thesis by (simp add: addRequestVersion_def)
next
  case (Some v)
  have "fst v \<notin> fst ` set (requestVersions r) \<longleftrightarrow> \<not> (\<exists>w \<in> set (requestVersions r). fst w = fst v)"
    by (metis image_iff)
  with Some assms insert_version_sorted [OF assms, of v] show ?thesis
    by (simp add: addRequestVersion_def ver_proper_def mset_insert_version)
qed

definition sample_conf :: "ver \<Rightarrow> (unit, unit) request_conf" where
  "sample_conf v =
     \<lparr>rc_params = [], nextRun = (), queryid = None, action = None, wdbDB = None, schema = None,
      rversion = v, paramdef = []\<rparr>"

definition sample_request :: "(unit, unit) request" where
  "sample_request =
     \<lparr>requestDefault = sample_conf ver_highest, requestVersions = [(0, sample_conf (ver 1 0))], rpath = Some ''/x''\<rparr>"

theorem addRequestVersion_correct_witness:
  "\<exists>w r'. addRequestVersion (Some (1, sample_conf (ver 1 0))) sample_request = ((True, w), r')
     \<and> mset (requestVersions r') = {#(1, sample_conf (ver 1 0)), (0, sample_conf (ver 1 0))#}"
proof -
  have s: "versions_sorted (map (\<lambda>v. rversion (snd v)) (requestVersions sample_request))"
    by (simp add: versions_sorted_def sample_request_def sample_conf_def ver_proper_def ver_def
        invalid_def defaultVersionHighest_def)
  obtain ok w r' where a: "addRequestVersion (Some (1, sample_conf (ver 1 0))) sample_request = ((ok, w), r')"
    by (metis prod.collapse)
  from addRequestVersion_correct [OF s, of "Some (1, sample_conf (ver 1 0))"] a show ?thesis
    by (simp add: sample_request_def sample_conf_def ver_proper_def ver_def
        invalid_def defaultVersionHighest_def)
qed

text \<open>
  C24: After \<open>resolve\<close> every version of a request has what it defines itself and the default's
  value wherever it defines nothing: query id, action, database, every action parameter and
  every parameter definition; addresses, order and version numbers stay.
\<close>

theorem resolve_correct:
  assumes "om_wf (rc_params (requestDefault r))" "cfg_wf (paramdef (requestDefault r))"
    and "(a, c) \<in> set (requestVersions r)" "cfg_wf (paramdef c)"
  shows "map (\<lambda>v. (fst v, rversion (snd v))) (requestVersions (resolve r)) =
         map (\<lambda>v. (fst v, rversion (snd v))) (requestVersions r) \<and>
    (\<exists>c'. (a, c') \<in> set (requestVersions (resolve r))
       \<and> queryid c' = (if queryid c = None then queryid (requestDefault r) else queryid c)
       \<and> action c' = (if action c = None then action (requestDefault r) else action c)
       \<and> wdbDB c' = (if wdbDB c = None then wdbDB (requestDefault r) else wdbDB c)
       \<and> (\<forall>k. getStr_def_val (rc_params c') k [] =
              (if hasKey (rc_params c) k True then getStr_def_val (rc_params c) k []
               else getStr_def_val (rc_params (requestDefault r)) k []))
       \<and> (\<forall>i k al. cfg_find (paramdef c') i k al =
              (case cfg_find (paramdef c) i k al of
                 Some p \<Rightarrow> Some p | None \<Rightarrow> cfg_find (paramdef (requestDefault r)) i k al)))"
proof -
  let ?d = "requestDefault r"
  have vs: "requestVersions (resolve r) = map (\<lambda>(a, c). (a, resolve_one ?d c)) (requestVersions r)"
    by (simp add: resolve_def Let_def)
  have ver: "rversion (resolve_one ?d c) = rversion c" for c by (simp add: resolve_one_def)
  have ps: "getStr_def_val (rc_params (resolve_one ?d c)) k [] =
      (if hasKey (rc_params c) k True then getStr_def_val (rc_params c) k []
       else getStr_def_val (rc_params ?d) k [])" for k
    using inherit_params_find [OF assms(1), of "rc_params c" k]
    by (auto simp: resolve_one_def getStr_def_val_def getStr_def asString_or_def hasKey_def split: option.splits)
  have pd: "cfg_find (paramdef (resolve_one ?d c)) i k al =
      (case cfg_find (paramdef c) i k al of Some p \<Rightarrow> Some p | None \<Rightarrow> cfg_find (paramdef ?d) i k al)" for i k al
  proof (cases "paramdef ?d = []")
    case True
    then show ?thesis
      by (auto simp: resolve_one_def cfg_find_def config_at_def param_def_list_def pd_find_def pd_at_def
          split: option.split)
  next
    case False
    have "distinct (map fst (paramdef ?d))" "\<forall>ipl \<in> set (paramdef ?d). pd_wf (table (snd ipl))"
      using assms(2) by (force simp: cfg_wf_def omap.keys_distinct)+
    from config_merge_spec [OF assms(4) this] False show ?thesis
      by (auto simp: resolve_one_def split: option.split)
  qed
  have "(a, resolve_one ?d c) \<in> set (requestVersions (resolve r))" using assms(3) vs by force
  moreover have "queryid (resolve_one ?d c) = (if queryid c = None then queryid ?d else queryid c)"
      "action (resolve_one ?d c) = (if action c = None then action ?d else action c)"
      "wdbDB (resolve_one ?d c) = (if wdbDB c = None then wdbDB ?d else wdbDB c)"
    by (simp_all add: resolve_one_def or_else_def)
  ultimately show ?thesis using ps pd by (auto simp: vs ver case_prod_unfold)
qed

theorem resolve_correct_witness:
  "\<exists>c'. (0, c') \<in> set (requestVersions (resolve
      (sample_request\<lparr>requestDefault := (sample_conf ver_highest)\<lparr>rc_params := [(''schema'', Some ''x'')]\<rparr>\<rparr>)))
     \<and> getStr_def_val (rc_params c') ''schema'' [] = ''x''"
proof -
  let ?r = "sample_request\<lparr>requestDefault := (sample_conf ver_highest)\<lparr>rc_params := [(''schema'', Some ''x'')]\<rparr>\<rparr>"
  have "om_wf (rc_params (requestDefault ?r))" "cfg_wf (paramdef (requestDefault ?r))"
      "(0, sample_conf (ver 1 0)) \<in> set (requestVersions ?r)" "cfg_wf (paramdef (sample_conf (ver 1 0)))"
    by (simp_all add: sample_request_def sample_conf_def om_wf_def cfg_wf_def)
  from resolve_correct [OF this] show ?thesis
    by (auto simp: sample_request_def sample_conf_def getStr_def_val_def getStr_def asString_or_def hasKey_def)
qed

text \<open>
  \<open>Config::merge\<close>: the first definition of a request or of a query wins, those of the other
  file fill the gaps, and a message is written exactly when something was defined twice.
\<close>

theorem config_merge_all_correct:
  assumes "om_wf (cfg_requests d)" "om_wf (cfg_querys d)"
  shows "case config_merge_all (Some d) fname c of ((ok, err), c') \<Rightarrow>
      ok \<and> (\<forall>k. map_of (cfg_requests c') k =
                (case map_of (cfg_requests c) k of Some r \<Rightarrow> Some r | None \<Rightarrow> map_of (cfg_requests d) k))
      \<and> (\<forall>k. config_query c' k =
                (if map_of (cfg_querys c) k = None then config_query d k else config_query c k))
      \<and> (err = [] \<longleftrightarrow> dom (map_of (cfg_requests d)) \<inter> dom (map_of (cfg_requests c)) = {}
                      \<and> dom (map_of (cfg_querys d)) \<inter> dom (map_of (cfg_querys c)) = {})"
proof -
  obtain rs e1 where 1: "merge_new ''request'' fname (cfg_requests d) (cfg_requests c, []) = (rs, e1)" by fastforce
  obtain qs e2 where 2: "merge_new ''querydef'' fname (cfg_querys d) (cfg_querys c, e1) = (qs, e2)" by fastforce
  note R = map_of_merge_new [OF assms(1), where what = "''request''" and fname = fname and m = "cfg_requests c" and err = "[]", unfolded 1 fst_conv]
  note Q = map_of_merge_new [OF assms(2), where what = "''querydef''" and fname = fname and m = "cfg_querys c" and err = e1, unfolded 2 fst_conv]
  note E1 = merge_new_err [OF assms(1), where what = "''request''" and fname = fname and m = "cfg_requests c" and err = "[]", unfolded 1 snd_conv]
  note E2 = merge_new_err [OF assms(2), where what = "''querydef''" and fname = fname and m = "cfg_querys c" and err = e1, unfolded 2 snd_conv]
  have m: "config_merge_all (Some d) fname c = ((True, e2),
      c\<lparr>cfg_requests := rs, cfg_querys := qs, cfg_paramdef := config_merge (cfg_paramdef d) False (cfg_paramdef c)\<rparr>)"
    by (simp add: config_merge_all_def 1 2)
  have q: "(case map_of qs k of None \<Rightarrow> query_def | Some x \<Rightarrow> x) =
      (if map_of (cfg_querys c) k = None then config_query d k else config_query c k)" for k
    by (auto simp: Q config_query_def split: option.split)
  have "e2 = [] \<longleftrightarrow> dom (map_of (cfg_requests d)) \<inter> dom (map_of (cfg_requests c)) = {}
      \<and> dom (map_of (cfg_querys d)) \<inter> dom (map_of (cfg_querys c)) = {}"
    unfolding E2 E1 dom_map_of_conv_image_fst by blast
  with R q m show ?thesis by (simp add: config_query_def)
qed

definition sample_config :: "(unit, unit) config" where
  "sample_config = \<lparr>cfg_querys = [], cfg_paramdef = [], cfg_requests = [(''/x'', sample_request)]\<rparr>"

theorem config_merge_all_correct_witness:
  "\<exists>err c'. config_merge_all (Some sample_config) ''b.xml'' sample_config = ((True, err), c') \<and> err \<noteq> []"
proof -
  obtain ok err c' where m: "config_merge_all (Some sample_config) ''b.xml'' sample_config = ((ok, err), c')"
    by (metis prod.collapse)
  have "om_wf (cfg_requests sample_config)" "om_wf (cfg_querys sample_config)"
    by (simp_all add: sample_config_def om_wf_def)
  from config_merge_all_correct [OF this, where fname = "''b.xml''" and c = sample_config] m show ?thesis
    by (simp add: sample_config_def)
qed

text \<open>
  A version number is read back from the way it is printed, and every text gives a proper
  version, the wish for the highest one, or the invalid one.
\<close>

theorem version_roundtrip:
  "(0 \<le> a \<and> 0 \<le> b \<and> a \<le> int_max \<and> b \<le> int_max \<and> ver_proper (ver a b) \<longrightarrow>
      ver_of_string (ver_show (ver a b)) = ver a b) \<and>
   (ver_proper (ver_of_string s) \<or> ver_of_string s = ver_highest \<or> ver_of_string s = ver_invalid)"
proof -
  have "ver_of_string (ver_show (ver a b)) = ver a b"
    if ab: "0 \<le> a" "0 \<le> b" "a \<le> int_max" "b \<le> int_max" "ver_proper (ver a b)"
  proof -
    have nz: "\<not> (a = 0 \<and> b = 0)" using ab(5) by (simp add: ver_proper_def invalid_def ver_def)
    let ?fs = "[dec_nat (nat a), dec_nat (nat b)]"
    have "ver_show (ver a b) = join (CHR ''.'') ?fs"
      using ab nz by (cases "a = 0") (auto simp: ver_show_def ver_def dec_int_def)
    moreover have "splitstr (join (CHR ''.'') ?fs) (CHR ''.'') dquote = Some ?fs"
      by (rule splitstr_dots) (simp_all add: dec_nat_digits)
    ultimately show ?thesis
      using ab nz by (simp add: ver_of_string_def lexical_int_dec ver_ok_def)
  qed
  moreover have "ver_proper (ver_of_string s) \<or> ver_of_string s = ver_highest \<or> ver_of_string s = ver_invalid"
    by (auto simp: ver_of_string_def ver_ok_def ver_proper_def invalid_def defaultVersionHighest_def
        ver_highest_def ver_invalid_def ver_def Let_def split: option.split list.split)
  ultimately show ?thesis by blast
qed

theorem version_roundtrip_witness:
  "ver_of_string (ver_show (ver 1 8)) = ver 1 8"
  using version_roundtrip [of 1 8 "[]"]
  by (simp add: int_max_def ver_proper_def invalid_def defaultVersionHighest_def ver_def)

end
