(* ===== verification/ConfParser.thy ===== *)
theory ConfParser
  imports RequestConf StringUtil
begin

text \<open>
  The reader of the configuration files (\<open>src/src/mod_wdb2ts/configparser/ConfigParser.cc\<close>,
  \<open>State.cc\<close>) on top of \<open>miutil::SAXParser\<close>. libxml2 is a parameter: the call-backs it makes
  for a text and whether it accepts the text; so are the disk, \<open>lexical_cast\<close> to \<open>float\<close> and
  the text of the exception it throws. A null pointer, an iterator that refers to nothing, an
  \<open>int\<close> overflow and the read of an uninitialised variable are \<^const>\<open>Undefined_behaviour\<close>; an
  exception that leaves a call-back is its value.
\<close>

section \<open>SAXParser\<close>

datatype sax_event =
    Start string "(string \<times> string) list"
  | End string
  | Chars string
  | Xml_error string
  | Xml_warning string
  | Xml_fatal string

type_synonym atts = "(string, string) omap"

text \<open>\<open>SAXstartElement\<close>: a map of the trimmed values; the last of two equal names wins.\<close>

definition att_map :: "(string \<times> string) list \<Rightarrow> atts" where
  "att_map kvs = fold (\<lambda>(k, v) m. om_put k (trimstr v) m) kvs []"

definition getAttr :: "atts \<Rightarrow> string \<Rightarrow> string \<Rightarrow> bool \<times> string" where
  "getAttr as attr defaultVal =
     (case map_of as attr of
        None \<Rightarrow> (False, defaultVal)
      | Some v \<Rightarrow> (True, if trimstr v = [] then defaultVal else trimstr v))"

definition hasAttr :: "atts \<Rightarrow> string \<Rightarrow> bool" where
  "hasAttr as attr \<longleftrightarrow> map_of as attr \<noteq> None"

section \<open>State\<close>

type_synonym xstate = "string list"

definition state_push :: "string \<Rightarrow> xstate \<Rightarrow> xstate" where
  "state_push v st = v # st"

definition state_pop :: "xstate \<Rightarrow> string option \<times> xstate" where
  "state_pop st = (case st of [] \<Rightarrow> (None, []) | v # r \<Rightarrow> (Some v, r))"

definition state_path :: "xstate \<Rightarrow> string" where
  "state_path st = concat (map (\<lambda>n. CHR ''/'' # n) (rev st))"

definition state_is :: "xstate \<Rightarrow> string \<Rightarrow> bool" where
  "state_is st rhs =
     (let p = state_path st
      in if rhs \<noteq> [] \<and> hd rhs = CHR ''.''
         then (let e = tl rhs
               in if length p < length e then False
                  else find_sub_from e p (length p - length e) \<noteq> None)
         else rhs = p)"

section \<open>The parser object\<close>

text \<open>\<open>config::ParamDef\<close>, the definition that is being read.\<close>

record 'f raw_def =
  rd_id :: val
  rd_valueparameterName :: val
  rd_valueparameterUnit :: val
  rd_levelName :: val
  rd_levelUnit :: val
  rd_levelFrom :: int
  rd_levelTo :: int
  rd_valueScale :: 'f
  rd_valueOffset :: 'f
  rd_dataVersion :: int
  rd_compare :: cmp_kind
  rd_compareValue :: int

text \<open>What the parser is given: the disk, libxml2, the constants and the casts of \<open>float\<close>.\<close>

record 'f world =
  file_content :: "string \<Rightarrow> string option"
  sax_parse :: "string \<Rightarrow> sax_event list \<times> bool"
  float_of :: "string \<Rightarrow> 'f option"
  one_f :: 'f
  zero_f :: 'f
  cast_text :: string

definition raw_clear :: "'f world \<Rightarrow> 'f raw_def" where
  "raw_clear w =
     \<lparr>rd_id = None, rd_valueparameterName = None, rd_valueparameterUnit = None, rd_levelName = None,
      rd_levelUnit = None, rd_levelFrom = int_min, rd_levelTo = int_min, rd_valueScale = one_f w,
      rd_valueOffset = zero_f w, rd_dataVersion = -1, rd_compare = Cmp_undef, rd_compareValue = int_max\<rparr>"

definition raw_hasLevelDef :: "'f raw_def \<Rightarrow> bool" where
  "raw_hasLevelDef d \<longleftrightarrow>
     rd_levelName d \<noteq> None \<and> rd_levelUnit d \<noteq> None \<and> rd_levelFrom d \<noteq> int_min \<and> rd_levelTo d \<noteq> int_min"

definition raw_valid :: "'f raw_def \<Rightarrow> bool \<Rightarrow> bool" where
  "raw_valid d ignoreLevelParameters =
     (if asString_or (rd_id d) [] = [] \<or> asString_or (rd_valueparameterName d) [] = [] then False
      else if \<not> ignoreLevelParameters then raw_hasLevelDef d
      else True)"

text \<open>
  \<open>itCurrentQueryDef\<close>: never assigned for the present map, the end of the map, or an element.
\<close>

datatype qiter = Q_singular | Q_end | Q_at string

record 'f parser =
  conf :: "('f, unit) config"
  errMsg :: string
  chardata :: string
  inChardata :: bool
  xmlState :: xstate
  currentRequest :: "('f, unit) request option"
  currentRequestVersion :: "(nat \<times> ('f, unit) request_conf) option"
  fresh :: nat
  itCurrentQueryDef :: qiter
  currentQueryDefWdbdb :: string
  currentQueryDefPrognosisLengthSeconds :: int
  currentQueryProbe :: bool
  currentQueryStopIfData :: bool
  currentQueryPrognosisLengthSeconds :: int
  currentParamDefConfig :: "'f pd_config"
  currentParamDef :: "'f raw_def"
  currentParamDefsId :: string
  currentParamDefOverrid :: bool
  currentQueryWdbdb :: string
  currentParamDefProvider :: "string list"
  recursionDepth :: nat
  basedir :: string

definition config_new :: "('f, unit) config" where
  "config_new = \<lparr>cfg_querys = [], cfg_paramdef = [], cfg_requests = []\<rparr>"

text \<open>
  The constructors. \<open>fresh\<close> counts the \<open>RequestConf\<close> objects made so far and serves as their
  address; the members the constructor leaves uninitialised are set before they are read.
\<close>

definition parser_new :: "'f world \<Rightarrow> string \<Rightarrow> nat \<Rightarrow> 'f parser" where
  "parser_new w base d =
     \<lparr>conf = config_new, errMsg = [], chardata = [], inChardata = False, xmlState = [],
      currentRequest = None, currentRequestVersion = None, fresh = 0, itCurrentQueryDef = Q_singular,
      currentQueryDefWdbdb = [], currentQueryDefPrognosisLengthSeconds = 0, currentQueryProbe = False,
      currentQueryStopIfData = False, currentQueryPrognosisLengthSeconds = 0, currentParamDefConfig = [],
      currentParamDef = raw_clear w, currentParamDefsId = [], currentParamDefOverrid = False,
      currentQueryWdbdb = [], currentParamDefProvider = [], recursionDepth = d, basedir = base\<rparr>"

definition error_msg :: "string \<Rightarrow> 'f parser \<Rightarrow> 'f parser" where
  "error_msg m p = p\<lparr>errMsg := errMsg p @ ''xml error: '' @ m @ [LF]\<rparr>"

definition warning_msg :: "string \<Rightarrow> 'f parser \<Rightarrow> 'f parser" where
  "warning_msg m p = p\<lparr>errMsg := errMsg p @ ''xml warning: '' @ m @ [LF]\<rparr>"

definition fatalError_msg :: "string \<Rightarrow> 'f parser \<Rightarrow> 'f parser" where
  "fatalError_msg m p = p\<lparr>errMsg := errMsg p @ ''xml fatal error: '' @ m @ [LF]\<rparr>"

definition characters :: "string \<Rightarrow> 'f parser \<Rightarrow> 'f parser" where
  "characters buf p =
     (let p1 = (if \<not> inChardata p then p\<lparr>inChardata := True, chardata := []\<rparr> else p)
      in p1\<lparr>chardata := chardata p1 @ buf\<rparr>)"

section \<open>Files\<close>

definition checkPath :: "string \<Rightarrow> 'f parser \<Rightarrow> string \<times> 'f parser" where
  "checkPath filename p =
     (let fl = trimstr filename
      in if length fl > 0 \<and> hd fl \<noteq> CHR ''/''
         then (let confpath = trimstr (basedir p)
               in if length confpath > 0 \<and> hd confpath = CHR ''/''
                  then ((if last confpath \<noteq> CHR ''/'' then confpath @ ''/'' else confpath) @ fl, p)
                  else ([], error_msg (''Basedir '' @ quote (basedir p) @
                          '' is NOT an absolute path and the file to read is not an absolute path ''
                          @ quote filename @ ''.'') p))
         else (fl, p))"

text \<open>
  \<open>readFile\<close>. \<open>pf\<close> is \<open>parseFile\<close> of the parser it creates; a null result is \<^const>\<open>None\<close>.
\<close>

type_synonym 'f reader = "'f parser \<Rightarrow> string \<Rightarrow> (('f, unit) config option \<times> 'f parser) result"

definition readFile :: "'f world \<Rightarrow> 'f reader \<Rightarrow> 'f reader" where
  "readFile w pf p filename =
     (let (fl, p1) = checkPath filename p
      in if fl = [] then Inr (None, p1)
         else if recursionDepth p1 > 30
         then Inr (None, error_msg ''Recursion dept error: Circular reading of configuaration files?'' p1)
         else bind_result (pf (parser_new w (basedir p1) (recursionDepth p1 + 1)) fl) (\<lambda>(myConfig, q).
                let p2 = (if errMsg q \<noteq> []
                          then warning_msg (''Problems in file '' @ quote fl @ ''. '' @ errMsg q @ [LF]
                                 @ '' --- End file '' @ quote fl) p1
                          else p1)
                in Inr (case myConfig of
                          None \<Rightarrow> (None, if recursionDepth p2 \<le> 10
                                        then error_msg (''Parsing of file <'' @ fl @ ''> failed.'') p2 else p2)
                        | Some c \<Rightarrow> (Some c, p2))))"

section \<open>Attributes of the elements\<close>

definition getPrognosisLength :: "atts \<Rightarrow> int \<Rightarrow> 'f parser \<Rightarrow> (int \<times> 'f parser) result" where
  "getPrognosisLength as defaultValue p =
     (let prognosisLength = snd (getAttr as ''prognosis_length'' [])
      in if prognosisLength = [] then Inr (defaultValue, p)
         else let i = find_idx (\<lambda>c. \<not> isdigit c) prognosisLength;
                  modifier = (case i of None \<Rightarrow> CHR ''h'' | Some j \<Rightarrow> prognosisLength ! j);
                  scale = (if modifier = CHR ''h'' then Some 3600
                           else if modifier = CHR ''s'' then Some 1 else None);
                  p1 = (if scale = None
                        then error_msg (''prognosis_length: Invalid modifier '' @ quote [modifier]
                               @ ''. Valid modifier h (hours) and s (seconds).'') p
                        else p)
              in case lexical_int (case i of None \<Rightarrow> prognosisLength | Some j \<Rightarrow> take j prognosisLength) of
                   None \<Rightarrow> Inr (0, p1)
                 | Some n \<Rightarrow>
                     (case scale of
                        None \<Rightarrow> Inl Undefined_behaviour
                      | Some k \<Rightarrow> if in_int (n * k) then Inr (n * k, p1) else Inl Undefined_behaviour))"

definition doInclude :: "'f reader \<Rightarrow> atts \<Rightarrow> 'f parser \<Rightarrow> (bool \<times> 'f parser) result" where
  "doInclude rd as p =
     (let (has, fl) = getAttr as ''file'' []
      in if \<not> has \<or> fl = []
         then Inr (False, error_msg (''Include statement. Missing mandatory attribute '' @ quote ''file'' @ ''.'') p)
         else bind_result (rd p fl) (\<lambda>(myConfig, p1).
                case myConfig of
                  None \<Rightarrow> Inr (False, p1)
                | Some c \<Rightarrow>
                    (let ((ok, ost), conf') = config_merge_all (Some c) fl (conf p1);
                         p2 = p1\<lparr>conf := conf'\<rparr>
                     in Inr (if \<not> ok then (False, error_msg ost p2) else (True, p2)))))"

definition request_conf_new :: "('f, unit) request_conf" where
  "request_conf_new =
     \<lparr>rc_params = [], nextRun = (), queryid = None, action = None, wdbDB = None, schema = None,
      rversion = ver_highest, paramdef = []\<rparr>"

definition doRequestConf ::
  "atts \<Rightarrow> string \<Rightarrow> ('f, unit) request_conf \<times> 'f parser \<Rightarrow> ('f, unit) request_conf \<times> 'f parser"
where
  "doRequestConf as versionAttrName cp =
     fold (\<lambda>(k, v) (c, p).
        if k = ''wdbdb'' then (c\<lparr>wdbDB := Some v\<rparr>, p)
        else if k = ''action'' then (c\<lparr>action := Some v\<rparr>, p)
        else if k = ''queryid'' then (c\<lparr>queryid := Some v\<rparr>, p)
        else if k = versionAttrName then (c\<lparr>rversion := ver_of_string v\<rparr>, p)
        else if k = ''path'' then (c, p)
        else if k = ''schema'' then (c\<lparr>schema := Some v\<rparr>, p)
        else (c, warning_msg (''Unknown attribute '' @ quote k @ '' value='' @ quote v @ ''.'') p)) as cp"

definition doRequest :: "atts \<Rightarrow> 'f parser \<Rightarrow> bool \<times> 'f parser" where
  "doRequest as p =
     (if currentRequest p \<noteq> None then (False, error_msg ''Allready parsing a request.'' p)
      else let (has, v) = getAttr as ''path'' []
           in if \<not> has \<or> v = []
              then (False, error_msg (''Missing mandatory attribute '' @ quote ''path'' @ ''.'') p)
              else let (c, p1) = doRequestConf as ''default_version'' (request_conf_new, p)
                   in (True, p1\<lparr>currentRequest :=
                         Some \<lparr>requestDefault = c, requestVersions = [], rpath = Some v\<rparr>\<rparr>))"

definition doRequestActionParam :: "atts \<Rightarrow> action_params \<times> 'f parser \<Rightarrow> bool \<times> action_params \<times> 'f parser" where
  "doRequestActionParam as mp =
     (let (m, p) = mp;
          (hasKey, key) = getAttr as ''key'' [];
          (hasVal, v) = (if hasKey then getAttr as ''value'' [] else (False, []))
      in if \<not> hasKey \<or> \<not> hasVal \<or> key = [] \<or> v = []
         then let p1 = (if key = []
                        then error_msg (''doRequestActionParam: missing mandatory attribute '' @ quote ''key'' @ ''.'') p
                        else p);
                  p2 = (if v = []
                        then error_msg (''doRequestActionParam: missing mandatory attribute '' @ quote ''val'' @ ''.'') p1
                        else p1)
              in (False, m, p2)
         else (True, om_put key (Some v) m, p))"

definition doRequestDefaultActionParam :: "atts \<Rightarrow> 'f parser \<Rightarrow> bool \<times> 'f parser" where
  "doRequestDefaultActionParam as p =
     (case currentRequest p of
        None \<Rightarrow> (False, error_msg ''doRequestDefaultActionParam: NO request.'' p)
      | Some r \<Rightarrow>
          (let (ok, m, p1) = doRequestActionParam as (rc_params (requestDefault r), p)
           in (ok, p1\<lparr>currentRequest := Some (r\<lparr>requestDefault := (requestDefault r)\<lparr>rc_params := m\<rparr>\<rparr>)\<rparr>)))"

definition doRequestVersion :: "atts \<Rightarrow> 'f parser \<Rightarrow> bool \<times> 'f parser" where
  "doRequestVersion as p =
     (if currentRequestVersion p \<noteq> None
      then (False, error_msg ''doRequestVersion: Allready started a version element.'' p)
      else let (c, p1) = doRequestConf as ''version'' (request_conf_new, p)
           in (True, p1\<lparr>currentRequestVersion := Some (fresh p1, c), fresh := fresh p1 + 1\<rparr>))"

section \<open>Queries\<close>

definition starts_t :: "string \<Rightarrow> bool" where
  "starts_t s \<longleftrightarrow> s \<noteq> [] \<and> (hd s = CHR ''t'' \<or> hd s = CHR ''T'')"

definition doQuery :: "atts \<Rightarrow> 'f parser \<Rightarrow> 'f parser result" where
  "doQuery as p =
     (let probe = snd (getAttr as ''must_have_data'' ''false'');
          stopIfData = snd (getAttr as ''stop_if_data'' ''false'');
          wdbdb = snd (getAttr as ''wdbdb'' []);
          p1 = p\<lparr>currentQueryProbe := starts_t probe, currentQueryStopIfData := starts_t stopIfData,
                 currentQueryWdbdb := (if wdbdb = [] then currentQueryDefWdbdb p else wdbdb)\<rparr>
      in bind_result (getPrognosisLength as (currentQueryDefPrognosisLengthSeconds p1) p1) (\<lambda>(n, p2).
           Inr (p2\<lparr>currentQueryPrognosisLengthSeconds := n\<rparr>)))"

text \<open>\<open>querys[id]\<close> of the present configuration, changed in place.\<close>

definition set_query :: "string \<Rightarrow> query_def \<Rightarrow> 'f parser \<Rightarrow> 'f parser" where
  "set_query i q p = p\<lparr>conf := (conf p)\<lparr>cfg_querys := om_put i q (cfg_querys (conf p))\<rparr>\<rparr>"

definition doQueryDef :: "atts \<Rightarrow> 'f parser \<Rightarrow> (bool \<times> 'f parser) result" where
  "doQueryDef as p =
     (let (has, i) = getAttr as ''id'' []
      in if \<not> has \<or> i = []
         then Inr (False, error_msg (''Mandatory '' @ quote ''querydef'' @ '' attribute '' @ quote ''id'' @ '' missing.'') p)
         else if map_of (cfg_querys (conf p)) i \<noteq> None
         then Inr (False, error_msg (''Querydef: id: '' @ quote i @ '' alleady defined.'') (p\<lparr>itCurrentQueryDef := Q_at i\<rparr>))
         else
           (let p1 = (set_query i query_def p)\<lparr>itCurrentQueryDef := Q_at i\<rparr>
            in bind_result (getPrognosisLength as 0 p1) (\<lambda>(n, p2).
              let p3 = p2\<lparr>currentQueryDefPrognosisLengthSeconds := n,
                          currentQueryDefWdbdb := snd (getAttr as ''wdbdb'' [])\<rparr>;
                  sParalell = snd (getAttr as (if hasAttr as ''parallel'' then ''parallel'' else ''paralell'') ''1'')
              in case lexical_int sParalell of
                   None \<Rightarrow> Inr (False, error_msg (''querydef: The value to '' @ quote ''paralell''
                                @ '' must be a number. Was: paralell='' @ [dquote] @ sParalell @ [dquote]) p3)
                 | Some n \<Rightarrow>
                     Inr (True, set_query i
                       (config_query (conf p3) i\<lparr>dbRequestsInParalells := (if n < 0 then 1 else n)\<rparr>) p3))))"

text \<open>The text of a query, as the end of its element makes it.\<close>

definition clean_query :: "string \<Rightarrow> string option" where
  "clean_query buf =
     (case replaceString (trimstr buf) [LF] [] 0 of
        None \<Rightarrow> None
      | Some b1 \<Rightarrow>
          (case replaceString (compresSpace b1 False) '' ,'' '','' 0 of
             None \<Rightarrow> None
           | Some b2 \<Rightarrow> replaceString b2 ''; '' '';'' 0))"

section \<open>Parameter definitions\<close>

fun prov_loop :: "string \<Rightarrow> string list \<Rightarrow> 'f parser \<Rightarrow> bool \<times> 'f parser" where
  "prov_loop i [] p = (True, p)"
| "prov_loop i (v # vs) p =
     (let it = trimstr v
      in if it = [] then prov_loop i vs p
         else if config_hasParam (cfg_paramdef (conf p)) i it (currentParamDefsId p)
                 \<and> \<not> currentParamDefOverrid p
         then (False, error_msg (''doParamDef id: '' @ quote i @ '' provider: '' @ quote it
                        @ '' allready defined.'') (p\<lparr>currentParamDefProvider := []\<rparr>))
         else prov_loop i vs (p\<lparr>currentParamDefProvider := currentParamDefProvider p @ [it]\<rparr>))"

definition doParamDef :: "'f world \<Rightarrow> atts \<Rightarrow> 'f parser \<Rightarrow> (bool \<times> 'f parser) result" where
  "doParamDef w as p =
     (let p1 = p\<lparr>currentParamDef := raw_clear w, currentParamDefProvider := []\<rparr>;
          (has, i) = getAttr as ''id'' []
      in if \<not> has \<or> i = []
         then Inr (False, error_msg (''Mandatory '' @ quote ''paramdef'' @ '' attribute '' @ quote ''id'' @ '' missing.'') p1)
         else (case splitstr (snd (getAttr as ''dataprovider'' [])) (CHR '';'') dquote of
                 None \<Rightarrow> Inl Undefined_behaviour
               | Some vs \<Rightarrow>
                   (let (ok, p2) = prov_loop i vs p1
                    in Inr (if ok then (True, p2\<lparr>currentParamDef := (currentParamDef p2)\<lparr>rd_id := Some i\<rparr>\<rparr>)
                            else (False, p2)))))"

definition undefined_id :: string where
  "undefined_id = ''__UNDEFINED__''"

text \<open>\<open>idParamDefs[id].merge(\&tmp, true)\<close>.\<close>

definition merge_at :: "string \<Rightarrow> 'f param_def_list \<Rightarrow> 'f pd_config \<Rightarrow> 'f pd_config" where
  "merge_at i tmp c =
     om_put i ((config_at c i)\<lparr>table := pd_merge (table tmp) True (table (config_at c i))\<rparr>) c"

text \<open>One element of \<open>idref\<close>: \<open>id@file\<close>, or a file whose definitions are all taken.\<close>

definition split_ref :: "string \<Rightarrow> string \<times> string \<times> bool" where
  "split_ref it =
     (case find_idx (\<lambda>c. c = CHR ''@'') it of
        Some i \<Rightarrow> (trimstr (take i it), trimstr (drop (i + 1) it), False)
      | None \<Rightarrow> ([], trimstr it, True))"

definition take_ref :: "string \<Rightarrow> bool \<Rightarrow> 'f pd_config \<Rightarrow> 'f parser \<Rightarrow> 'f parser" where
  "take_ref i allParamIds c p =
     (let defs = currentParamDefConfig p;
          at = (\<lambda>k. if currentParamDefsId p = undefined_id then k else currentParamDefsId p)
      in p\<lparr>currentParamDefConfig :=
           (if allParamIds then fold (\<lambda>(k, tmp) defs. merge_at (at k) tmp defs) c defs
            else merge_at (at i) (paramDefs c i) defs)\<rparr>)"

fun ref_loop :: "'f reader \<Rightarrow> string list \<Rightarrow> 'f parser \<Rightarrow> 'f parser result" where
  "ref_loop rd [] p = Inr p"
| "ref_loop rd (it # its) p =
     (let (i, fl, allParamIds) = split_ref it
      in if fl = [] then ref_loop rd its p
         else bind_result (rd p fl) (\<lambda>(c, p1).
                case c of
                  None \<Rightarrow> ref_loop rd its p1
                | Some c \<Rightarrow> ref_loop rd its (take_ref i allParamIds (cfg_paramdef c) p1)))"

definition doParamDefs :: "'f reader \<Rightarrow> atts \<Rightarrow> 'f parser \<Rightarrow> 'f parser result" where
  "doParamDefs rd as p =
     (let p1 = p\<lparr>currentParamDefsId := snd (getAttr as ''id'' undefined_id), currentParamDefConfig := []\<rparr>;
          idref = snd (getAttr as ''idref'' []);
          p2 = p1\<lparr>currentParamDefOverrid := (idref \<noteq> [])\<rparr>
      in bind_result
           (if idref = [] then Inr p2
            else case splitstr idref (CHR '';'') dquote of
                   None \<Rightarrow> Inl Undefined_behaviour
                 | Some idRefs \<Rightarrow>
                     if idRefs = [] then Inr p2
                     else ref_loop rd idRefs (p2\<lparr>currentParamDefConfig :=
                            om_put (currentParamDefsId p2) param_def_list (currentParamDefConfig p2)\<rparr>))
           (\<lambda>p3. Inr (if currentParamDefsId p3 = undefined_id then p3\<lparr>currentParamDefsId := []\<rparr> else p3)))"

text \<open>\<open>currentParamDef.id.asString()\<close>, used in the messages; it throws when there is no id.\<close>

definition id_text :: "'f parser \<Rightarrow> string result" where
  "id_text p = (case rd_id (currentParamDef p) of
                  None \<Rightarrow> Inl (Logic_error ''Value is undefined.'')
                | Some s \<Rightarrow> Inr (''ParamDef id: '' @ quote s))"

definition id_error :: "string \<Rightarrow> 'f parser \<Rightarrow> (bool \<times> 'f parser) result" where
  "id_error m p = bind_result (id_text p) (\<lambda>s. Inr (False, error_msg (s @ m) p))"

definition doValueParameter :: "atts \<Rightarrow> 'f parser \<Rightarrow> (bool \<times> 'f parser) result" where
  "doValueParameter as p =
     (let (hasName, nm) = getAttr as ''name'' []; (hasUnit, un) = getAttr as ''unit'' []
      in if \<not> hasName \<or> nm = []
         then id_error (''. Mandatory '' @ quote ''valueparameter'' @ '' attribute '' @ quote ''name'' @ '' missing.'') p
         else if \<not> hasUnit
         then id_error (''. Mandatory '' @ quote ''valueparameter'' @ '' attribute '' @ quote ''unit'' @ '' missing.'') p
         else Inr (True, p\<lparr>currentParamDef := (currentParamDef p)
                     \<lparr>rd_valueparameterName := Some nm, rd_valueparameterUnit := Some un\<rparr>\<rparr>))"

definition level_missing :: "string \<Rightarrow> string" where
  "level_missing a = ''. '' @ quote ''levelparameter'' @ '' attribute '' @ quote a @ '' must be defined.''"

definition bad_level :: "'f world \<Rightarrow> string \<Rightarrow> string \<Rightarrow> 'f parser \<Rightarrow> (bool \<times> 'f parser) result" where
  "bad_level w par parVal p =
     id_error ('' : levelparameter, invalid attribute value for '' @ quote par @ '' value '' @ quote parVal
       @ '': Reason: '' @ cast_text w @ ''.'') p"

definition doLevelParameter :: "'f world \<Rightarrow> atts \<Rightarrow> 'f parser \<Rightarrow> (bool \<times> 'f parser) result" where
  "doLevelParameter w as p =
     (let (hasName, nm) = getAttr as ''name'' []; (hasUnit, un) = getAttr as ''unit'' [];
          (hasFrom, fr) = getAttr as ''from'' []; (hasTo, t) = getAttr as ''to'' []
      in if \<not> hasName \<or> nm = []
         then id_error (''. Mandatory '' @ quote ''levelparameter'' @ '' attribute '' @ quote ''name'' @ '' missing.'') p
         else if \<not> hasUnit then id_error (level_missing ''unit'') p
         else if \<not> hasFrom then id_error (level_missing ''from'') p
         else if \<not> hasTo then id_error (level_missing ''to'') p
         else
           (let p1 = p\<lparr>currentParamDef := (currentParamDef p)\<lparr>rd_levelName := Some nm, rd_levelUnit := Some un\<rparr>\<rparr>
            in case lexical_int t of
                 None \<Rightarrow> bad_level w ''to'' t p1
               | Some m \<Rightarrow>
                   (let p2 = p1\<lparr>currentParamDef := (currentParamDef p1)\<lparr>rd_levelTo := m\<rparr>\<rparr>
                    in case lexical_int fr of
                         None \<Rightarrow> bad_level w ''from'' fr p2
                       | Some n \<Rightarrow> Inr (True, p2\<lparr>currentParamDef := (currentParamDef p2)\<lparr>rd_levelFrom := n\<rparr>\<rparr>))))"

text \<open>\<open>doValue\<close>, in its three steps: scale, offset and the null value.\<close>

definition bad_float :: "'f world \<Rightarrow> string \<Rightarrow> string \<Rightarrow> 'f parser \<Rightarrow> (bool \<times> 'f parser) result" where
  "bad_float w what v p =
     id_error ('' : value element invalid attribute value '' @ what @ '' '' @ quote v @ '' '' @ cast_text w @ ''.'') p"

definition doValue_scale :: "'f world \<Rightarrow> atts \<Rightarrow> 'f parser \<Rightarrow> (bool \<times> 'f parser) result" where
  "doValue_scale w as p =
     (let scale = snd (getAttr as ''scale'' ''1.0'')
      in case float_of w scale of
           None \<Rightarrow> bad_float w ''scale'' scale p
         | Some x \<Rightarrow> Inr (True, p\<lparr>currentParamDef := (currentParamDef p)\<lparr>rd_valueScale := x\<rparr>\<rparr>))"

definition doValue_offset :: "'f world \<Rightarrow> atts \<Rightarrow> 'f parser \<Rightarrow> (bool \<times> 'f parser) result" where
  "doValue_offset w as p =
     (let offs = snd (getAttr as ''offset'' ''0.0'')
      in case float_of w offs of
           None \<Rightarrow> bad_float w ''offset'' offs p
         | Some x \<Rightarrow> Inr (True, p\<lparr>currentParamDef := (currentParamDef p)\<lparr>rd_valueOffset := x\<rparr>\<rparr>))"

text \<open>The operator and the value of \<open>null\<close>.\<close>

definition split_null :: "string \<Rightarrow> string \<times> string" where
  "split_null null =
     (case find_idx (\<lambda>c. c = CHR '':'') null of
        Some i \<Rightarrow> (trimstr (take i null), trimstr (if i + 1 < length null then drop (i + 1) null else []))
      | None \<Rightarrow> ([], trimstr null))"

definition cmp_of :: "string \<Rightarrow> cmp_kind option" where
  "cmp_of cmp =
     (if cmp = ''lt'' then Some Cmp_lesser
      else if cmp = ''gt'' then Some Cmp_greater
      else if cmp = ''eq'' \<or> cmp = [] then Some Cmp_equal
      else None)"

definition doValue_null :: "atts \<Rightarrow> 'f parser \<Rightarrow> (bool \<times> 'f parser) result" where
  "doValue_null as p =
     (let null = trimstr (snd (getAttr as ''null'' []))
      in if null = [] then Inr (True, p)
         else (let (cmp, v) = split_null null
               in case cmp_of cmp of
                    None \<Rightarrow> id_error ('' : value attribut '' @ quote ''null'' @ '' operator '' @ quote cmp
                              @ '' invalid!'') p
                  | Some k \<Rightarrow>
                      (let p1 = p\<lparr>currentParamDef := (currentParamDef p)\<lparr>rd_compare := k\<rparr>\<rparr>
                       in case lexical_int v of
                            Some n \<Rightarrow> Inr (True, p1\<lparr>currentParamDef := (currentParamDef p1)\<lparr>rd_compareValue := n\<rparr>\<rparr>)
                          | None \<Rightarrow>
                              bind_result (id_error ('' : value attribut '' @ quote ''null'' @ '' value '' @ quote v
                                             @ '' not an integer!'') p1) (\<lambda>(ok, p2).
                                Inr (ok, p2\<lparr>currentParamDef := (currentParamDef p2)\<lparr>rd_compare := Cmp_undef\<rparr>\<rparr>)))))"

definition doValue :: "'f world \<Rightarrow> atts \<Rightarrow> 'f parser \<Rightarrow> (bool \<times> 'f parser) result" where
  "doValue w as p =
     bind_result (doValue_scale w as p) (\<lambda>(ok1, p1).
     bind_result (doValue_offset w as p1) (\<lambda>(ok2, p2).
     bind_result (doValue_null as p2) (\<lambda>(ok3, p3).
       Inr (ok1 \<and> ok2 \<and> ok3, p3))))"

definition doDataVersion :: "'f world \<Rightarrow> atts \<Rightarrow> 'f parser \<Rightarrow> (bool \<times> 'f parser) result" where
  "doDataVersion w as p =
     (let value = snd (getAttr as ''version'' ''-1'')
      in case lexical_int value of
           Some n \<Rightarrow> Inr (True, p\<lparr>currentParamDef := (currentParamDef p)\<lparr>rd_dataVersion := n\<rparr>\<rparr>)
         | None \<Rightarrow> id_error ('' : dataversion element, invalid attribute version '' @ quote value @ '' ''
                     @ cast_text w @ ''.'') p)"

text \<open>The \<open>wdb2ts::ParamDef\<close> of what was read; two texts are read with the throwing \<open>asString\<close>.\<close>

definition make_def :: "string \<Rightarrow> 'f raw_def \<Rightarrow> 'f param_def result" where
  "make_def al d =
     (case (rd_valueparameterName d, rd_valueparameterUnit d) of
        (Some nm, Some un) \<Rightarrow>
          Inr \<lparr>alias_of = al, valueparametername = nm, valueparameterunit = un,
               levelparametername = asString_or (rd_levelName d) [], levelfrom = rd_levelFrom d,
               levelto = rd_levelTo d, levelunitname = asString_or (rd_levelUnit d) [],
               scale_of = rd_valueScale d, offset_of = rd_valueOffset d, dataversion_of = rd_dataVersion d,
               compare_of = rd_compare d, compareValue = rd_compareValue d, interpolation = ''nearest''\<rparr>
      | _ \<Rightarrow> Inl (Logic_error ''Value is undefined.''))"

definition clear_def :: "'f world \<Rightarrow> 'f parser \<Rightarrow> 'f parser" where
  "clear_def w p = p\<lparr>currentParamDef := raw_clear w, currentParamDefProvider := []\<rparr>"

definition parser_addParamDef :: "'f world \<Rightarrow> 'f parser \<Rightarrow> (bool \<times> 'f parser) result" where
  "parser_addParamDef w p =
     (let al = asString_or (rd_id (currentParamDef p)) []
      in if al = []
         then Inr (False, clear_def w (error_msg (''Paramdef without an valid '' @ quote ''id'' @ '' attribute.'') p))
         else if \<not> raw_valid (currentParamDef p) True
         then Inr (False, clear_def w (error_msg (''Some invalid values for paramdef id '' @ quote al @ ''.'') p))
         else bind_result (make_def al (currentParamDef p)) (\<lambda>pd.
                let p1 = clear_def w p;
                    (err, defs) = config_addParamDef (currentParamDefsId p1) pd (currentParamDefProvider p)
                                    (currentParamDefOverrid p1) (currentParamDefConfig p1);
                    p2 = p1\<lparr>currentParamDefConfig := defs\<rparr>
                in Inr (case err of None \<Rightarrow> (True, p2) | Some m \<Rightarrow> (False, error_msg m p2))))"

section \<open>The call-backs\<close>

text \<open>The attributes of an action parameter of the version that is being read.\<close>

definition version_actionparam :: "atts \<Rightarrow> 'f parser \<Rightarrow> 'f parser" where
  "version_actionparam as p =
     (case currentRequestVersion p of
        None \<Rightarrow> warning_msg ''/wdb2ts/requests/request/version/actionparam: No currentRequestVersion!'' p
      | Some (a, c) \<Rightarrow>
          (let (ok, m, p1) = doRequestActionParam as (rc_params c, p)
           in p1\<lparr>currentRequestVersion := Some (a, c\<lparr>rc_params := m\<rparr>)\<rparr>))"

abbreviation ignore_ok :: "(bool \<times> 'f parser) result \<Rightarrow> 'f parser result" where
  "ignore_ok r \<equiv> bind_result r (\<lambda>(ok, p). Inr p)"

definition startElement :: "'f world \<Rightarrow> 'f reader \<Rightarrow> string \<Rightarrow> atts \<Rightarrow> 'f parser \<Rightarrow> 'f parser result" where
  "startElement w rd fullname as p0 =
     (let p = p0\<lparr>inChardata := False, xmlState := state_push fullname (xmlState p0)\<rparr>;
          at = (\<lambda>s. state_is (xmlState p) s)
      in if at ''/wdb2ts/include'' then ignore_ok (doInclude rd as p)
         else if at ''/wdb2ts/requests/request'' then Inr (snd (doRequest as p))
         else if at ''/wdb2ts/requests/request/actionparam'' then Inr (snd (doRequestDefaultActionParam as p))
         else if at ''/wdb2ts/requests/request/version'' then Inr (snd (doRequestVersion as p))
         else if at ''/wdb2ts/requests/request/version/actionparam'' then Inr (version_actionparam as p)
         else if at ''/wdb2ts/querydefs/querydef''
         then ignore_ok (doQueryDef as (p\<lparr>currentQueryDefWdbdb := []\<rparr>))
         else if at ''/wdb2ts/querydefs/querydef/query''
         then bind_result (doQuery as p) (\<lambda>p1. Inr (p1\<lparr>inChardata := False, chardata := []\<rparr>))
         else if at ''/wdb2ts/paramdefs'' \<or> at ''/wdb2ts/requests/request/paramdefs''
                 \<or> at ''/wdb2ts/requests/request/version/paramdefs''
         then doParamDefs rd as p
         else if at ''/wdb2ts/paramdefs/paramdef'' \<or> at ''/wdb2ts/requests/request/paramdefs/paramdef''
                 \<or> at ''/wdb2ts/requests/request/version/paramdefs/paramdef''
         then ignore_ok (doParamDef w as p)
         else if at ''/wdb2ts/paramdefs/paramdef/valueparameter'' then ignore_ok (doValueParameter as p)
         else if at ''/wdb2ts/paramdefs/paramdef/levelparameter'' then ignore_ok (doLevelParameter w as p)
         else if at ''/wdb2ts/paramdefs/paramdef/value'' then ignore_ok (doValue w as p)
         else if at ''/wdb2ts/paramdefs/paramdef/dataversion'' then ignore_ok (doDataVersion w as p)
         else Inr p)"

text \<open>
  The end of a version: it is put into its request, and afterwards gets the schema of the
  request through the pointer, that is in the request as well.
\<close>

definition set_schema :: "nat \<Rightarrow> val \<Rightarrow> (nat \<times> ('f, unit) request_conf) list \<Rightarrow> (nat \<times> ('f, unit) request_conf) list" where
  "set_schema a v vs = map (\<lambda>(b, c). if b = a then (b, c\<lparr>schema := v\<rparr>) else (b, c)) vs"

definition end_version :: "'f parser \<Rightarrow> 'f parser result" where
  "end_version p =
     (case currentRequest p of
        None \<Rightarrow> Inr (p\<lparr>currentRequestVersion := None\<rparr>)
      | Some r \<Rightarrow>
          (case currentRequestVersion p of
             None \<Rightarrow> Inl Undefined_behaviour
           | Some (a, c) \<Rightarrow>
               (let ((ok, m), r1) = (if \<not> invalid (rversion c) \<and> \<not> defaultVersionHighest (rversion c)
                                     then addRequestVersion (Some (a, c)) r else ((True, []), r));
                    p1 = (if ok then p else warning_msg m p);
                    sc = schema (requestDefault r1);
                    r2 = (if schema c = None \<and> sc \<noteq> None
                          then r1\<lparr>requestVersions := set_schema a sc (requestVersions r1)\<rparr> else r1)
                in Inr (p1\<lparr>currentRequest := Some r2, currentRequestVersion := None\<rparr>))))"

definition end_request :: "'f parser \<Rightarrow> 'f parser result" where
  "end_request p =
     (case currentRequest p of
        None \<Rightarrow> Inl Undefined_behaviour
      | Some r \<Rightarrow>
          Inr (p\<lparr>conf := (conf p)\<lparr>cfg_requests := addRequest (Some (resolve r)) (cfg_requests (conf p))\<rparr>,
                 currentRequest := None\<rparr>))"

definition end_query :: "string \<Rightarrow> 'f parser \<Rightarrow> 'f parser result" where
  "end_query buf p =
     (case clean_query buf of
        None \<Rightarrow> Inl Undefined_behaviour
      | Some q \<Rightarrow>
          if q = [] then Inr p
          else (case itCurrentQueryDef p of
                  Q_singular \<Rightarrow> Inl Undefined_behaviour
                | Q_end \<Rightarrow> Inr p
                | Q_at i \<Rightarrow>
                    (let d = config_query (conf p) i;
                         e = \<lparr>qe_query = q, qe_probe = currentQueryProbe p, qe_stopIfData = currentQueryStopIfData p,
                              qe_wdbdb = currentQueryWdbdb p, qe_prognosisLength = currentQueryPrognosisLengthSeconds p\<rparr>
                     in Inr (set_query i (d\<lparr>qd_querys := qd_querys d @ [e]\<rparr>) p))))"

definition end_paramdefs :: "'f parser \<Rightarrow> 'f parser" where
  "end_paramdefs p =
     p\<lparr>conf := (conf p)\<lparr>cfg_paramdef := config_merge (currentParamDefConfig p) True (cfg_paramdef (conf p))\<rparr>\<rparr>"

definition end_request_paramdefs :: "'f parser \<Rightarrow> 'f parser result" where
  "end_request_paramdefs p =
     (case currentRequest p of
        None \<Rightarrow> Inl Undefined_behaviour
      | Some r \<Rightarrow>
          (let d = requestDefault r
           in Inr (p\<lparr>currentRequest := Some (r\<lparr>requestDefault :=
                 d\<lparr>paramdef := config_merge (currentParamDefConfig p) True (paramdef d)\<rparr>\<rparr>)\<rparr>)))"

definition end_version_paramdefs :: "'f parser \<Rightarrow> 'f parser result" where
  "end_version_paramdefs p =
     (case currentRequestVersion p of
        None \<Rightarrow> Inl Undefined_behaviour
      | Some (a, c) \<Rightarrow>
          Inr (p\<lparr>currentRequestVersion :=
                 Some (a, c\<lparr>paramdef := config_merge (currentParamDefConfig p) True (paramdef c)\<rparr>)\<rparr>))"

definition endElement :: "'f world \<Rightarrow> string \<Rightarrow> 'f parser \<Rightarrow> 'f parser result" where
  "endElement w nm p0 =
     (let buf = chardata p0;
          p = p0\<lparr>inChardata := False, chardata := []\<rparr>;
          at = (\<lambda>s. state_is (xmlState p) s)
      in bind_result
           (if at ''/wdb2ts/requests/request/version'' then end_version p
            else if at ''/wdb2ts/requests/request'' then end_request p
            else if at ''/wdb2ts/querydefs/querydef''
            then Inr (p\<lparr>currentQueryDefWdbdb := [], itCurrentQueryDef := Q_end\<rparr>)
            else if at ''/wdb2ts/querydefs/querydef/query'' then end_query buf p
            else if at ''/wdb2ts/paramdefs'' then Inr (end_paramdefs p)
            else if at ''/wdb2ts/requests/request/paramdefs'' then end_request_paramdefs p
            else if at ''/wdb2ts/requests/request/version/paramdefs'' then end_version_paramdefs p
            else if at ''/wdb2ts/paramdefs/paramdef'' \<or> at ''/wdb2ts/requests/request/paramdefs/paramdef''
                    \<or> at ''/wdb2ts/requests/request/version/paramdefs/paramdef''
            then ignore_ok (parser_addParamDef w p)
            else Inr p)
           (\<lambda>p1. Inr (p1\<lparr>xmlState := snd (state_pop (xmlState p1))\<rparr>)))"

definition sax_step :: "'f world \<Rightarrow> 'f reader \<Rightarrow> sax_event \<Rightarrow> 'f parser \<Rightarrow> 'f parser result" where
  "sax_step w rd e p =
     (case e of
        Start nm kvs \<Rightarrow> startElement w rd nm (att_map kvs) p
      | End nm \<Rightarrow> endElement w nm p
      | Chars buf \<Rightarrow> Inr (characters buf p)
      | Xml_error m \<Rightarrow> Inr (error_msg m p)
      | Xml_warning m \<Rightarrow> Inr (warning_msg m p)
      | Xml_fatal m \<Rightarrow> Inr (fatalError_msg m p))"

fun sax_run :: "'f world \<Rightarrow> 'f reader \<Rightarrow> sax_event list \<Rightarrow> 'f parser \<Rightarrow> 'f parser result" where
  "sax_run w rd [] p = Inr p"
| "sax_run w rd (e # es) p = bind_result (sax_step w rd e p) (sax_run w rd es)"

definition parse_text :: "'f world \<Rightarrow> 'f reader \<Rightarrow> string \<Rightarrow> 'f parser \<Rightarrow> (bool \<times> 'f parser) result" where
  "parse_text w rd buf p =
     (let (es, ok) = sax_parse w buf
      in bind_result (sax_run w rd es (p\<lparr>errMsg := []\<rparr>)) (\<lambda>q. Inr (ok, q)))"

text \<open>\<open>new Config()\<close>; the iterator of an earlier configuration refers to nothing in it.\<close>

definition new_config :: "'f parser \<Rightarrow> 'f parser" where
  "new_config p = p\<lparr>conf := config_new, itCurrentQueryDef := Q_singular\<rparr>"

definition parse_result :: "(bool \<times> 'f parser) result \<Rightarrow> (('f, unit) config option \<times> 'f parser) result" where
  "parse_result r = bind_result r (\<lambda>(ok, q). Inr (if ok then Some (conf q) else None, q))"

text \<open>
  \<open>parseFile\<close> calls itself for every file that is included, on a new parser one level deeper.
  The levels are bounded by \<open>readFile\<close>; here they are also counted by the first argument.
\<close>

primrec parseFile :: "nat \<Rightarrow> 'f world \<Rightarrow> 'f reader" where
  "parseFile 0 w p filename = Inl Out_of_fuel"
| "parseFile (Suc n) w p filename0 =
     (let (filename, p1) = checkPath filename0 p
      in if filename = [] then Inr (None, p1)
         else (let p2 = new_config p1
               in case file_content w filename of
                    None \<Rightarrow> Inr (None, fatalError_msg (''Cant read file: '' @ filename) p2)
                  | Some content \<Rightarrow> parse_result (parse_text w (readFile w (parseFile n w)) content p2)))"

definition parseBuf :: "nat \<Rightarrow> 'f world \<Rightarrow> 'f reader" where
  "parseBuf n w p buf = parse_result (parse_text w (readFile w (parseFile n w)) buf (new_config p))"

end
