(* ===== verification/ConfReading.thy ===== *)
theory ConfReading
  imports ConfParser
begin

text \<open>
  What the configuration reader guarantees: the configurations it returns are well formed
  whatever the files hold, the depth of the includes is bounded, and the elements of a query
  and of a request have the effect they are meant to have, or not.
\<close>

section \<open>Well-formed configurations\<close>

definition conf_ok :: "('f, unit) request_conf \<Rightarrow> bool" where
  "conf_ok c \<longleftrightarrow> om_wf (rc_params c) \<and> cfg_wf (paramdef c)"

definition request_ok :: "('f, unit) request \<Rightarrow> bool" where
  "request_ok r \<longleftrightarrow>
     conf_ok (requestDefault r) \<and> (\<forall>v \<in> set (requestVersions r). conf_ok (snd v))
     \<and> versions_sorted (map (\<lambda>v. rversion (snd v)) (requestVersions r))
     \<and> distinct (map fst (requestVersions r))"

definition named :: "string \<Rightarrow> ('f, unit) request \<Rightarrow> bool" where
  "named path r \<longleftrightarrow> rpath r = Some path \<and> path \<noteq> []"

definition config_ok :: "('f, unit) config \<Rightarrow> bool" where
  "config_ok c \<longleftrightarrow>
     om_wf (cfg_querys c) \<and> cfg_wf (cfg_paramdef c) \<and> om_wf (cfg_requests c)
     \<and> (\<forall>path r. map_of (cfg_requests c) path = Some r \<longrightarrow> named path r \<and> request_ok r)"

definition parser_ok :: "nat \<Rightarrow> 'f parser \<Rightarrow> bool" where
  "parser_ok d p \<longleftrightarrow>
     recursionDepth p = d \<and> config_ok (conf p) \<and> cfg_wf (currentParamDefConfig p)
     \<and> (\<forall>r. currentRequest p = Some r \<longrightarrow> request_ok r \<and> (\<exists>path. named path r))
     \<and> (\<forall>v. currentRequestVersion p = Some v \<longrightarrow> conf_ok (snd v))"

text \<open>A result that is a good parser, or an exception that is not the model's own.\<close>

definition post :: "('a \<Rightarrow> bool) \<Rightarrow> 'a result \<Rightarrow> bool" where
  "post P r \<longleftrightarrow> (case r of Inl e \<Rightarrow> e \<noteq> Out_of_fuel | Inr a \<Rightarrow> P a)"

named_theorems post_intros

lemma post_Inr [simp]: "post P (Inr a) = P a"
  by (simp add: post_def)

lemma post_Inl [simp]: "post P (Inl e) = (e \<noteq> Out_of_fuel)"
  by (simp add: post_def)

lemma post_bind: "post P r \<Longrightarrow> (\<And>a. P a \<Longrightarrow> post Q (f a)) \<Longrightarrow> post Q (bind_result r f)"
  by (cases r) auto

lemma post_mono: "post P r \<Longrightarrow> (\<And>a. P a \<Longrightarrow> Q a) \<Longrightarrow> post Q r"
  by (cases r) auto

lemma post_ignore [post_intros]: "post (\<lambda>(ok, p). P p) r \<Longrightarrow> post P (bind_result r (\<lambda>(ok, p). Inr p))"
  by (cases r) auto

section \<open>The operations on the data\<close>

lemma conf_ok_new [simp]: "conf_ok request_conf_new"
  by (simp add: conf_ok_def request_conf_new_def cfg_wf_def)

lemma config_ok_new [simp]: "config_ok config_new"
  by (simp add: config_ok_def config_new_def cfg_wf_def)

lemma cfg_wf_Nil [simp]: "cfg_wf []"
  by (simp add: cfg_wf_def)

lemma cfg_wf_put: "cfg_wf c \<Longrightarrow> pd_wf (table pl) \<Longrightarrow> cfg_wf (om_put i pl c)"
  by (auto simp: cfg_wf_def)

lemma cfg_wf_entries: "cfg_wf c \<Longrightarrow> distinct (map fst c) \<and> (\<forall>ipl \<in> set c. pd_wf (table (snd ipl)))"
  by (force simp: cfg_wf_def omap.keys_distinct)

lemma config_merge_wf: "cfg_wf other \<Longrightarrow> cfg_wf c \<Longrightarrow> cfg_wf (config_merge other r c)"
  using config_merge_spec [of c other r] cfg_wf_entries [of other] by blast

lemma merge_at_wf: "cfg_wf c \<Longrightarrow> pd_wf (table tmp) \<Longrightarrow> cfg_wf (merge_at i tmp c)"
  by (auto simp: merge_at_def intro!: cfg_wf_put pd_merge_wf cfg_wf_at)

lemma config_put_wf: "cfg_wf c \<Longrightarrow> cfg_wf (snd (config_put i pd prov r c))"
  using addParamDef_wf [OF cfg_wf_at [of c i], of pd prov r]
  by (auto simp: config_put_def Let_def case_prod_unfold intro!: cfg_wf_put)

lemma config_add_all_wf: "cfg_wf c \<Longrightarrow> cfg_wf (snd (config_add_all i pd ps r c))"
proof (induction ps arbitrary: c)
  case (Cons p ps)
  obtain ok c' where "config_put i pd p r c = (ok, c')" by fastforce
  with Cons config_put_wf [of c i pd p r] show ?case by simp
qed simp

lemma config_addParamDef_wf: "cfg_wf c \<Longrightarrow> cfg_wf (snd (config_addParamDef i pd ps r c))"
  using config_put_wf [of c i pd "[]" r] config_add_all_wf [of c i pd ps r]
  by (simp add: config_addParamDef_def case_prod_unfold Let_def)

lemma inherit_params_wf: "om_wf m \<Longrightarrow> om_wf (inherit_params defs m)"
proof (induction defs arbitrary: m)
  case (Cons kv defs)
  then show ?case
    by (cases kv) (auto simp: inherit_params_def split: option.split)
qed (simp add: inherit_params_def)

lemma resolve_one_ok: "conf_ok d \<Longrightarrow> conf_ok c \<Longrightarrow> conf_ok (resolve_one d c)"
  by (auto simp: conf_ok_def resolve_one_def inherit_params_wf config_merge_wf)

lemma resolve_ok: "request_ok r \<Longrightarrow> request_ok (resolve r)"
proof -
  assume ok: "request_ok r"
  let ?d = "requestDefault r"
  have v: "requestVersions (resolve r) = map (\<lambda>v. (fst v, resolve_one ?d (snd v))) (requestVersions r)"
    by (simp add: resolve_def Let_def case_prod_unfold)
  have "conf_ok (requestDefault (resolve r))"
    using ok by (simp add: resolve_def Let_def request_ok_def conf_ok_def)
  moreover have "rversion (resolve_one ?d c) = rversion c" for c by (simp add: resolve_one_def)
  ultimately show ?thesis
    using ok by (auto simp: request_ok_def v o_def resolve_one_ok)
qed

lemma rpath_resolve [simp]: "rpath (resolve r) = rpath r"
  by (simp add: resolve_def Let_def)

lemma addRequestVersion_ok:
  "request_ok r \<Longrightarrow> conf_ok (snd v) \<Longrightarrow>
   request_ok (snd (addRequestVersion (Some v) r)) \<and> rpath (snd (addRequestVersion (Some v) r)) = rpath r"
proof -
  assume r: "request_ok r" and v: "conf_ok (snd v)"
  have s: "versions_sorted (map (\<lambda>v. rversion (snd v)) (insert_version v (requestVersions r)))"
    if "\<not> (invalid (rversion (snd v)) \<or> defaultVersionHighest (rversion (snd v)))"
    using that r insert_version_sorted [of "requestVersions r" v] by (simp add: request_ok_def ver_proper_def)
  have "set (map fst (insert_version v (requestVersions r))) = insert (fst v) (fst ` set (requestVersions r))"
    by (simp add: set_insert_version)
  moreover have "distinct (map fst (insert_version v ws)) \<longleftrightarrow> distinct (map fst (v # ws))" for ws
    by (metis mset_insert_version mset.simps(2) mset_eq_imp_distinct_iff mset_map)
  ultimately show ?thesis
    using r v s by (auto simp: addRequestVersion_def request_ok_def set_insert_version image_iff)
qed

lemma set_schema_ok:
  "request_ok r \<Longrightarrow> request_ok (r\<lparr>requestVersions := set_schema a sc (requestVersions r)\<rparr>)"
proof -
  assume r: "request_ok r"
  have 1: "map fst (set_schema a sc vs) = map fst vs" for vs :: "(nat \<times> ('a, unit) request_conf) list"
    by (induction vs) (auto simp: set_schema_def)
  have 2: "map (\<lambda>v. rversion (snd v)) (set_schema a sc vs) = map (\<lambda>v. rversion (snd v)) vs"
    for vs :: "(nat \<times> ('a, unit) request_conf) list"
    by (induction vs) (auto simp: set_schema_def)
  have "\<forall>v \<in> set (set_schema a sc (requestVersions r)). conf_ok (snd v)"
    using r by (auto simp: set_schema_def request_ok_def conf_ok_def)
  with r show ?thesis by (simp add: request_ok_def 1 2)
qed

lemma config_merge_all_ok:
  assumes "config_ok c" "config_ok d"
  shows "config_ok (snd (config_merge_all (Some d) fname c))"
proof -
  obtain rs e1 where 1: "merge_new ''request'' fname (cfg_requests d) (cfg_requests c, []) = (rs, e1)" by fastforce
  obtain qs e2 where 2: "merge_new ''querydef'' fname (cfg_querys d) (cfg_querys c, e1) = (qs, e2)" by fastforce
  have wr: "om_wf (cfg_requests d)" using assms(2) by (simp add: config_ok_def)
  have "om_wf rs" "om_wf qs"
    using assms merge_new_wf [of "cfg_requests c" "''request''" fname "cfg_requests d" "[]"]
      merge_new_wf [of "cfg_querys c" "''querydef''" fname "cfg_querys d" e1]
    by (simp_all add: 1 2 config_ok_def)
  moreover have "named path r \<and> request_ok r" if "map_of rs path = Some r" for path r
    using map_of_merge_new [OF wr, of "''request''" fname "cfg_requests c" "[]" path] that assms
    unfolding 1 fst_conv config_ok_def by (auto split: option.splits)
  ultimately show ?thesis
    using assms by (simp add: config_merge_all_def 1 2 config_ok_def config_merge_wf)
qed

lemma addRequest_ok:
  assumes "config_ok c" "request_ok r" "named path r"
  shows "config_ok (c\<lparr>cfg_requests := addRequest (Some r) (cfg_requests c)\<rparr>)"
  using assms by (auto simp: config_ok_def addRequest_def named_def asString_or_def)

section \<open>The operations on the parser\<close>

text \<open>The operations that touch none of the members the invariant is about.\<close>

definition same_core :: "'f parser \<Rightarrow> 'f parser \<Rightarrow> bool" where
  "same_core p q \<longleftrightarrow>
     recursionDepth q = recursionDepth p \<and> conf q = conf p
     \<and> currentParamDefConfig q = currentParamDefConfig p \<and> currentRequest q = currentRequest p
     \<and> currentRequestVersion q = currentRequestVersion p"

lemma same_core_ok: "same_core p q \<Longrightarrow> parser_ok d p \<Longrightarrow> parser_ok d q"
  by (simp add: same_core_def parser_ok_def)

lemma same_core_refl [simp]: "same_core p p"
  by (simp add: same_core_def)

lemma same_core_trans: "same_core p q \<Longrightarrow> same_core q r \<Longrightarrow> same_core p r"
  by (simp add: same_core_def)

lemma same_core_msg [simp]:
  "same_core p (error_msg m q) = same_core p q" "same_core p (warning_msg m q) = same_core p q"
  "same_core p (fatalError_msg m q) = same_core p q" "same_core p (clear_def w q) = same_core p q"
  by (simp_all add: same_core_def error_msg_def warning_msg_def fatalError_msg_def clear_def_def)

lemma same_core_msg' [simp]:
  "conf (error_msg m q) = conf q" "conf (warning_msg m q) = conf q" "conf (clear_def w q) = conf q"
  "parser_ok d (error_msg m q) = parser_ok d q" "parser_ok d (warning_msg m q) = parser_ok d q"
  "parser_ok d (fatalError_msg m q) = parser_ok d q" "parser_ok d (clear_def w q) = parser_ok d q"
  by (simp_all add: parser_ok_def error_msg_def warning_msg_def fatalError_msg_def clear_def_def)

lemma same_core_update [simp]:
  "same_core p (q\<lparr>currentParamDef := d\<rparr>) = same_core p q"
  "same_core p (q\<lparr>currentParamDefProvider := vs\<rparr>) = same_core p q"
  "same_core p (q\<lparr>currentParamDefsId := i\<rparr>) = same_core p q"
  "same_core p (q\<lparr>currentParamDefOverrid := b\<rparr>) = same_core p q"
  "same_core p (q\<lparr>errMsg := m\<rparr>) = same_core p q"
  "same_core p (q\<lparr>chardata := m\<rparr>) = same_core p q"
  "same_core p (q\<lparr>inChardata := b\<rparr>) = same_core p q"
  "same_core p (q\<lparr>xmlState := st\<rparr>) = same_core p q"
  "same_core p (q\<lparr>itCurrentQueryDef := it\<rparr>) = same_core p q"
  "same_core p (q\<lparr>currentQueryDefWdbdb := m\<rparr>) = same_core p q"
  "same_core p (q\<lparr>currentQueryWdbdb := m\<rparr>) = same_core p q"
  "same_core p (q\<lparr>currentQueryDefPrognosisLengthSeconds := n\<rparr>) = same_core p q"
  "same_core p (q\<lparr>currentQueryPrognosisLengthSeconds := n\<rparr>) = same_core p q"
  "same_core p (q\<lparr>currentQueryProbe := b\<rparr>) = same_core p q"
  "same_core p (q\<lparr>currentQueryStopIfData := b\<rparr>) = same_core p q"
  by (simp_all add: same_core_def)

lemma same_core_checkPath: "same_core p (snd (checkPath f p))"
  by (simp add: checkPath_def Let_def)

lemma same_core_characters: "same_core p (characters buf p)"
  by (simp add: characters_def Let_def)

text \<open>A result that keeps those members.\<close>

abbreviation keeps :: "'f parser \<Rightarrow> ('a \<times> 'f parser) result \<Rightarrow> bool" where
  "keeps p r \<equiv> post (\<lambda>a. same_core p (snd a)) r"

lemma keeps_id_error: "same_core p q \<Longrightarrow> keeps p (id_error m q)"
  by (cases "rd_id (currentParamDef q)") (simp_all add: id_error_def id_text_def)

lemma keeps_bind: "keeps p r \<Longrightarrow> (\<And>b q. same_core p q \<Longrightarrow> keeps p (f (b, q))) \<Longrightarrow> keeps p (bind_result r f)"
  by (cases r) auto

lemma keeps_trans: "same_core p q \<Longrightarrow> keeps q r \<Longrightarrow> keeps p r"
  by (cases r) (auto intro: same_core_trans)

lemmas keeps_simps = Let_def case_prod_unfold bad_level_def bad_float_def

lemma keeps_prognosis: "keeps p (getPrognosisLength as n0 p)"
  unfolding getPrognosisLength_def keeps_simps by (simp split: option.split)

lemma keeps_valueParameter: "keeps p (doValueParameter as p)"
  unfolding doValueParameter_def keeps_simps by (simp add: keeps_id_error)

lemma keeps_levelParameter: "keeps p (doLevelParameter w as p)"
  unfolding doLevelParameter_def keeps_simps by (simp add: keeps_id_error split: option.split)

lemma keeps_scale: "keeps p (doValue_scale w as p)"
  unfolding doValue_scale_def keeps_simps by (simp add: keeps_id_error split: option.split)

lemma keeps_offset: "keeps p (doValue_offset w as p)"
  unfolding doValue_offset_def keeps_simps by (simp add: keeps_id_error split: option.split)

lemma keeps_null: "keeps p (doValue_null as p)"
proof -
  have bad: "keeps p (bind_result (id_error m q) (\<lambda>a. Inr (fst a, snd a\<lparr>currentParamDef :=
      (currentParamDef (snd a))\<lparr>rd_compare := Cmp_undef\<rparr>\<rparr>)))"
    if "same_core p q" for m q
    by (rule keeps_bind [OF keeps_id_error [OF that]]) simp
  show ?thesis
    unfolding doValue_null_def keeps_simps by (simp add: keeps_id_error bad split: option.split)
qed

lemma keeps_value: "keeps p (doValue w as p)"
  unfolding doValue_def
  by (rule keeps_bind [OF keeps_scale], clarsimp, rule keeps_bind [OF keeps_trans [OF _ keeps_offset]],
      assumption, clarsimp, rule keeps_bind [OF keeps_trans [OF _ keeps_null]], assumption, simp)

lemma keeps_dataVersion: "keeps p (doDataVersion w as p)"
  unfolding doDataVersion_def keeps_simps by (simp add: keeps_id_error split: option.split)

lemma prov_loop_core: "same_core p q \<Longrightarrow> same_core p (snd (prov_loop i vs q))"
  by (induction i vs q rule: prov_loop.induct) (simp_all add: Let_def)

lemma keeps_paramDef: "keeps p (doParamDef w as p)"
  unfolding doParamDef_def splitstr_eq keeps_simps by (simp add: prov_loop_core)

lemma keeps_query: "post (same_core p) (doQuery as p)"
proof -
  have "same_core p (p\<lparr>currentQueryProbe := a, currentQueryStopIfData := b, currentQueryWdbdb := c\<rparr>)" for a b c
    by simp
  from keeps_trans [OF this keeps_prognosis] show ?thesis
    unfolding doQuery_def keeps_simps by (intro post_bind) auto
qed

section \<open>The operations keep the invariant\<close>

abbreviation good :: "nat \<Rightarrow> ('a \<times> 'f parser) result \<Rightarrow> bool" where
  "good d r \<equiv> post (\<lambda>a. parser_ok d (snd a)) r"

lemma keeps_good: "keeps p r \<Longrightarrow> parser_ok d p \<Longrightarrow> good d r"
  by (cases r) (auto intro: same_core_ok)

lemma set_query_ok: "parser_ok d p \<Longrightarrow> parser_ok d (set_query i q p)"
  by (simp add: set_query_def parser_ok_def config_ok_def)

lemma parser_ok_update [simp]:
  "parser_ok d (p\<lparr>itCurrentQueryDef := it\<rparr>) = parser_ok d p"
  "parser_ok d (p\<lparr>currentQueryDefWdbdb := m\<rparr>) = parser_ok d p"
  "parser_ok d (p\<lparr>currentQueryDefPrognosisLengthSeconds := n\<rparr>) = parser_ok d p"
  "parser_ok d (p\<lparr>currentParamDefsId := m\<rparr>) = parser_ok d p"
  "parser_ok d (p\<lparr>currentParamDefOverrid := b\<rparr>) = parser_ok d p"
  "parser_ok d (p\<lparr>inChardata := b\<rparr>) = parser_ok d p"
  "parser_ok d (p\<lparr>chardata := m\<rparr>) = parser_ok d p"
  "parser_ok d (p\<lparr>xmlState := st\<rparr>) = parser_ok d p"
  "parser_ok d (p\<lparr>errMsg := m\<rparr>) = parser_ok d p"
  "parser_ok d (p\<lparr>fresh := k\<rparr>) = parser_ok d p"
  by (simp_all add: parser_ok_def)

lemma good_queryDef: "parser_ok d p \<Longrightarrow> good d (doQueryDef as p)"
proof -
  assume p: "parser_ok d p"
  let ?i = "snd (getAttr as ''id'' [])"
  let ?p1 = "(set_query ?i query_def p)\<lparr>itCurrentQueryDef := Q_at ?i\<rparr>"
  have "parser_ok d ?p1" using p by (simp add: set_query_ok)
  note P = keeps_good [OF keeps_prognosis this]
  show ?thesis
    unfolding doQueryDef_def keeps_simps
    using p by (auto simp: set_query_ok split: option.split intro!: post_bind [OF P])
qed

lemma doRequestConf_ok:
  "conf_ok c \<Longrightarrow> conf_ok (fst (doRequestConf as va (c, p))) \<and> same_core p (snd (doRequestConf as va (c, p)))
     \<and> rc_params (fst (doRequestConf as va (c, p))) = rc_params c"
proof -
  define f where "f = (\<lambda>(k, v) (c, p).
        if k = ''wdbdb'' then (c\<lparr>wdbDB := Some v\<rparr>, p)
        else if k = ''action'' then (c\<lparr>action := Some v\<rparr>, p)
        else if k = ''queryid'' then (c\<lparr>queryid := Some v\<rparr>, p)
        else if k = va then (c\<lparr>rversion := ver_of_string v\<rparr>, p)
        else if k = ''path'' then (c, p)
        else if k = ''schema'' then (c\<lparr>schema := Some v\<rparr>, p)
        else (c :: ('a, unit) request_conf,
              warning_msg (''Unknown attribute '' @ quote k @ '' value='' @ quote v @ ''.'') (p :: 'a parser)))"
  have step: "\<exists>c' q'. f kv (c, q) = (c', q') \<and> conf_ok c' \<and> same_core p q' \<and> rc_params c' = rc_params c"
    if "conf_ok c" "same_core p q" for kv c q
    using that by (cases kv) (simp add: f_def conf_ok_def)
  have "conf_ok (fst (fold f kvs (c, q))) \<and> same_core p (snd (fold f kvs (c, q)))
      \<and> rc_params (fst (fold f kvs (c, q))) = rc_params c"
    if "conf_ok c" "same_core p q" for kvs c q
    using that
  proof (induction kvs arbitrary: c q)
    case (Cons kv kvs)
    from step [OF Cons.prems] obtain c' q' where
      "f kv (c, q) = (c', q')" "conf_ok c'" "same_core p q'" "rc_params c' = rc_params c" by blast
    with Cons.IH [of c' q'] show ?case by simp
  qed simp
  from this [of c p as] show "conf_ok c \<Longrightarrow> ?thesis" by (simp add: doRequestConf_def f_def)
qed

lemma request_new_ok: "conf_ok c \<Longrightarrow> request_ok \<lparr>requestDefault = c, requestVersions = [], rpath = v\<rparr>"
  by (simp add: request_ok_def versions_sorted_def)

lemma ok_currentRequest:
  "parser_ok d p \<Longrightarrow> request_ok r \<Longrightarrow> named path r \<Longrightarrow> parser_ok d (p\<lparr>currentRequest := Some r\<rparr>)"
  by (auto simp: parser_ok_def)

lemma ok_currentVersion:
  "parser_ok d p \<Longrightarrow> (\<forall>v. vo = Some v \<longrightarrow> conf_ok (snd v)) \<Longrightarrow> parser_ok d (p\<lparr>currentRequestVersion := vo\<rparr>)"
  by (auto simp: parser_ok_def)

lemma doRequest_ok: "parser_ok d p \<Longrightarrow> parser_ok d (snd (doRequest as p))"
proof -
  assume p: "parser_ok d p"
  obtain c q where q: "doRequestConf as ''default_version'' (request_conf_new, p) = (c, q)" by fastforce
  with doRequestConf_ok [of request_conf_new as "''default_version''" p]
  have "conf_ok c" "same_core p q" by simp_all
  then have "parser_ok d (q\<lparr>currentRequest := Some \<lparr>requestDefault = c, requestVersions = [], rpath = Some v\<rparr>\<rparr>)"
    if "v \<noteq> []" for v
    using same_core_ok [OF _ p] that
    by (intro ok_currentRequest [where path = v] request_new_ok) (auto simp: named_def)
  with p show ?thesis unfolding doRequest_def q keeps_simps by simp
qed

lemma actionParam_ok:
  "om_wf m \<Longrightarrow> om_wf (fst (snd (doRequestActionParam as (m, p)))) \<and> same_core p (snd (snd (doRequestActionParam as (m, p))))"
  unfolding doRequestActionParam_def keeps_simps by simp

lemma defaultActionParam_ok: "parser_ok d p \<Longrightarrow> parser_ok d (snd (doRequestDefaultActionParam as p))"
proof (cases "currentRequest p")
  case (Some r)
  assume p: "parser_ok d p"
  with Some obtain path where r: "request_ok r" "named path r" by (auto simp: parser_ok_def)
  obtain ok m q where q: "doRequestActionParam as (rc_params (requestDefault r), p) = (ok, m, q)"
    by (metis prod.collapse)
  with actionParam_ok [of "rc_params (requestDefault r)" as p] r(1)
  have m: "om_wf m" "same_core p q" by (simp_all add: request_ok_def conf_ok_def)
  let ?r = "r\<lparr>requestDefault := (requestDefault r)\<lparr>rc_params := m\<rparr>\<rparr>"
  have "request_ok ?r" "named path ?r" using r m by (simp_all add: request_ok_def conf_ok_def named_def)
  then have "parser_ok d (q\<lparr>currentRequest := Some ?r\<rparr>)" by (rule ok_currentRequest [OF same_core_ok [OF m(2) p]])
  then show ?thesis by (simp add: doRequestDefaultActionParam_def Some q)
qed (simp add: doRequestDefaultActionParam_def)

lemma doRequestVersion_ok: "parser_ok d p \<Longrightarrow> parser_ok d (snd (doRequestVersion as p))"
proof -
  assume p: "parser_ok d p"
  obtain c q where q: "doRequestConf as ''version'' (request_conf_new, p) = (c, q)" by fastforce
  with doRequestConf_ok [of request_conf_new as "''version''" p]
  have c: "conf_ok c" "same_core p q" by simp_all
  then have "parser_ok d (q\<lparr>currentRequestVersion := Some (fresh q, c)\<rparr>)"
    by (intro ok_currentVersion same_core_ok [OF _ p]) auto
  with p show ?thesis
    unfolding doRequestVersion_def q keeps_simps by simp
qed

lemma version_actionparam_ok: "parser_ok d p \<Longrightarrow> parser_ok d (version_actionparam as p)"
proof (cases "currentRequestVersion p")
  case (Some v)
  assume p: "parser_ok d p"
  obtain a c where v: "v = (a, c)" by (cases v)
  obtain ok m q where q: "doRequestActionParam as (rc_params c, p) = (ok, m, q)" by (metis prod.collapse)
  from p Some v have c: "conf_ok c" by (simp add: parser_ok_def)
  with actionParam_ok [of "rc_params c" as p] q have m: "om_wf m" "same_core p q" by (simp_all add: conf_ok_def)
  have "parser_ok d (q\<lparr>currentRequestVersion := Some (a, c\<lparr>rc_params := m\<rparr>)\<rparr>)"
    using c m(1) by (intro ok_currentVersion same_core_ok [OF m(2) p]) (simp add: conf_ok_def)
  then show ?thesis by (simp add: version_actionparam_def Some v q)
qed (simp add: version_actionparam_def)

lemma end_version_ok: "parser_ok d p \<Longrightarrow> post (parser_ok d) (end_version p)"
proof (cases "currentRequest p")
  case None
  assume "parser_ok d p"
  then show ?thesis by (simp add: end_version_def None ok_currentVersion)
next
  case (Some r)
  assume p: "parser_ok d p"
  with Some obtain path where r: "request_ok r" "named path r" by (auto simp: parser_ok_def)
  show ?thesis
  proof (cases "currentRequestVersion p")
    case None
    with Some show ?thesis by (simp add: end_version_def)
  next
    case v: (Some v)
    obtain a c where v: "currentRequestVersion p = Some (a, c)" using v by (cases v) auto
    define t where "t = (if \<not> invalid (rversion c) \<and> \<not> defaultVersionHighest (rversion c)
        then addRequestVersion (Some (a, c)) r else ((True, []), r))"
    have "conf_ok c" using p v by (simp add: parser_ok_def)
    then have t: "request_ok (snd t) \<and> rpath (snd t) = rpath r"
      using addRequestVersion_ok [OF r(1), of "(a, c)"] r(1) by (simp add: t_def)
    let ?sc = "schema (requestDefault (snd t))"
    let ?r2 = "if schema c = None \<and> ?sc \<noteq> None
        then (snd t)\<lparr>requestVersions := set_schema a ?sc (requestVersions (snd t))\<rparr> else snd t"
    let ?p1 = "if fst (fst t) then p else warning_msg (snd (fst t)) p"
    have r2: "request_ok ?r2" "named path ?r2" using t r(2) set_schema_ok by (auto simp: named_def)
    have "parser_ok d ?p1" using p by simp
    from ok_currentVersion [OF ok_currentRequest [OF this r2], of None]
    have "parser_ok d (?p1\<lparr>currentRequest := Some ?r2, currentRequestVersion := None\<rparr>)" by simp
    moreover have "end_version p = Inr (?p1\<lparr>currentRequest := Some ?r2, currentRequestVersion := None\<rparr>)"
      unfolding end_version_def Some v option.case case_prod_unfold fst_conv snd_conv t_def Let_def
      by (rule refl)
    ultimately show ?thesis by simp
  qed
qed

lemma end_request_ok: "parser_ok d p \<Longrightarrow> post (parser_ok d) (end_request p)"
proof (cases "currentRequest p")
  case (Some r)
  assume p: "parser_ok d p"
  with Some obtain path where r: "request_ok r" "named path r" by (auto simp: parser_ok_def)
  then have "named path (resolve r)" by (simp add: named_def)
  from addRequest_ok [OF _ resolve_ok [OF r(1)] this, of "conf p"] p show ?thesis
    by (simp add: end_request_def Some parser_ok_def)
qed (simp add: end_request_def)

lemma end_query_ok: "parser_ok d p \<Longrightarrow> post (parser_ok d) (end_query buf p)"
  by (auto simp: end_query_def Let_def set_query_ok split: option.split qiter.split)

lemma end_paramdefs_ok: "parser_ok d p \<Longrightarrow> parser_ok d (end_paramdefs p)"
  by (simp add: end_paramdefs_def parser_ok_def config_ok_def config_merge_wf)

lemma end_request_paramdefs_ok: "parser_ok d p \<Longrightarrow> post (parser_ok d) (end_request_paramdefs p)"
proof (cases "currentRequest p")
  case (Some r)
  assume p: "parser_ok d p"
  let ?d = "requestDefault r"
  let ?r = "r\<lparr>requestDefault := ?d\<lparr>paramdef := config_merge (currentParamDefConfig p) True (paramdef ?d)\<rparr>\<rparr>"
  from p Some obtain path where r: "request_ok r" "named path r" "cfg_wf (currentParamDefConfig p)"
    by (auto simp: parser_ok_def)
  then have "request_ok ?r" "named path ?r"
    by (simp_all add: request_ok_def conf_ok_def config_merge_wf named_def)
  from ok_currentRequest [OF p this] show ?thesis by (simp add: end_request_paramdefs_def Some Let_def)
qed (simp add: end_request_paramdefs_def)

lemma end_version_paramdefs_ok: "parser_ok d p \<Longrightarrow> post (parser_ok d) (end_version_paramdefs p)"
  by (auto simp: end_version_paramdefs_def parser_ok_def conf_ok_def config_merge_wf split: option.split)

lemma parser_addParamDef_ok: "parser_ok d p \<Longrightarrow> good d (parser_addParamDef w p)"
proof -
  assume p: "parser_ok d p"
  have "cfg_wf (snd (config_addParamDef i pd ps r (currentParamDefConfig p)))" for i pd ps r
    using p by (simp add: parser_ok_def config_addParamDef_wf)
  then have "parser_ok d ((clear_def w p)\<lparr>currentParamDefConfig :=
      snd (config_addParamDef i pd ps r (currentParamDefConfig p))\<rparr>)" for i pd ps r
    using p by (simp add: parser_ok_def clear_def_def)
  moreover have "currentParamDefConfig (clear_def w p) = currentParamDefConfig p" by (simp add: clear_def_def)
  ultimately show ?thesis
    using p unfolding parser_addParamDef_def keeps_simps
    by (auto simp: make_def_def split: option.split)
qed

lemma take_ref_ok: "parser_ok d p \<Longrightarrow> cfg_wf c \<Longrightarrow> parser_ok d (take_ref i b c p)"
proof -
  assume p: "parser_ok d p" and c: "cfg_wf c"
  define f :: "string \<times> 'a param_def_list \<Rightarrow> 'a pd_config \<Rightarrow> 'a pd_config" where
    "f = (\<lambda>ktmp. merge_at (if currentParamDefsId p = undefined_id then fst ktmp else currentParamDefsId p) (snd ktmp))"
  have "cfg_wf (fold f c' defs)" if "cfg_wf defs" "\<forall>ipl \<in> set c'. pd_wf (table (snd ipl))" for defs c'
    using that by (induction c' arbitrary: defs) (auto simp: f_def merge_at_wf)
  then have "cfg_wf (fold f c (currentParamDefConfig p))"
    using cfg_wf_entries [OF c] p by (simp add: parser_ok_def)
  moreover have "pd_wf (table (paramDefs c i))" using cfg_wf_at [OF c] by (simp add: paramDefs_def)
  ultimately show ?thesis
    using p by (auto simp: take_ref_def parser_ok_def Let_def merge_at_wf f_def case_prod_unfold)
qed

section \<open>The reader of other files\<close>

text \<open>
  What a call-back may rely on when it reads another file: at the depth it runs at, the reader
  keeps the invariant, returns a well-formed configuration and does not run out of fuel.
\<close>

locale config_reader =
  fixes w :: "'f world" and d :: nat and rd :: "'f reader"
  assumes reads: "parser_ok d p \<Longrightarrow>
      post (\<lambda>(c, q). parser_ok d q \<and> (\<forall>x. c = Some x \<longrightarrow> config_ok x)) (rd p f)"
begin

lemma include_ok: "parser_ok d p \<Longrightarrow> good d (doInclude rd as p)"
proof -
  assume p: "parser_ok d p"
  have "parser_ok d (q\<lparr>conf := snd (config_merge_all (Some x) fl (conf q))\<rparr>)"
    if "parser_ok d q" "config_ok x" for q x fl
    using that config_merge_all_ok [of "conf q" x fl] by (simp add: parser_ok_def)
  with p show ?thesis
    unfolding doInclude_def keeps_simps
    by (auto intro!: post_bind [OF reads] split: option.split)
qed

lemma ref_loop_ok: "parser_ok d p \<Longrightarrow> post (parser_ok d) (ref_loop rd its p)"
proof (induction its arbitrary: p)
  case (Cons it its)
  obtain i fl b where s: "split_ref it = (i, fl, b)" by (metis prod.collapse)
  have "post (parser_ok d) (case c of None \<Rightarrow> ref_loop rd its q
      | Some x \<Rightarrow> ref_loop rd its (take_ref i b (cfg_paramdef x) q))"
    if "parser_ok d q" "\<forall>x. c = Some x \<longrightarrow> config_ok x" for c q
    using that by (cases c) (auto simp: config_ok_def take_ref_ok Cons.IH)
  with Cons show ?case by (auto simp: s intro!: post_bind [OF reads])
qed simp

lemma paramDefs_ok: "parser_ok d p \<Longrightarrow> post (parser_ok d) (doParamDefs rd as p)"
proof -
  assume p: "parser_ok d p"
  have 1: "parser_ok d (q\<lparr>currentParamDefConfig := c\<rparr>)" if "parser_ok d q" "cfg_wf c" for q c
    using that by (simp add: parser_ok_def)
  have 2: "cfg_wf [(i, param_def_list)]" for i
    by (simp add: cfg_wf_def om_wf_def param_def_list_def)
  show ?thesis
    unfolding doParamDefs_def splitstr_eq Let_def
    by (rule post_bind [where P = "parser_ok d"]) (auto simp: 1 2 p intro!: ref_loop_ok)
qed

lemma start_ok: "parser_ok d p \<Longrightarrow> post (parser_ok d) (startElement w rd nm as p)"
proof -
  assume p: "parser_ok d p"
  define q where "q = p\<lparr>inChardata := False, xmlState := state_push nm (xmlState p)\<rparr>"
  have q: "parser_ok d q" using p by (simp add: q_def)
  have ign: "good d r \<Longrightarrow> post (parser_ok d) (bind_result r (\<lambda>(ok, p). Inr p))" for r :: "(bool \<times> 'f parser) result"
    by (cases r) auto
  have query: "post (parser_ok d) (bind_result (doQuery as q) (\<lambda>p1. Inr (p1\<lparr>inChardata := False, chardata := []\<rparr>)))"
    by (rule post_bind [OF keeps_query]) (simp add: same_core_ok [OF _ q])
  note keep = keeps_good [OF _ q]
  have qdef: "good d (doQueryDef as (q\<lparr>currentQueryDefWdbdb := []\<rparr>))" by (rule good_queryDef) (simp add: q)
  note branches = include_ok [OF q, THEN ign] qdef [THEN ign] query paramDefs_ok [OF q]
    keep [OF keeps_paramDef, THEN ign] keep [OF keeps_valueParameter, THEN ign]
    keep [OF keeps_levelParameter, THEN ign] keep [OF keeps_value, THEN ign]
    keep [OF keeps_dataVersion, THEN ign] doRequest_ok [OF q] defaultActionParam_ok [OF q]
    doRequestVersion_ok [OF q] version_actionparam_ok [OF q]
  show ?thesis
    unfolding startElement_def Let_def q_def [symmetric] by (use branches q in simp)
qed

lemma end_ok: "parser_ok d p \<Longrightarrow> post (parser_ok d) (endElement w nm p)"
proof -
  assume p: "parser_ok d p"
  define q where "q = p\<lparr>inChardata := False, chardata := []\<rparr>"
  have q: "parser_ok d q" using p by (simp add: q_def)
  have ign: "good d r \<Longrightarrow> post (parser_ok d) (bind_result r (\<lambda>(ok, p). Inr p))" for r :: "(bool \<times> 'f parser) result"
    by (cases r) auto
  have "parser_ok d (q\<lparr>currentQueryDefWdbdb := [], itCurrentQueryDef := Q_end\<rparr>)" using q by simp
  note branches = this end_version_ok [OF q] end_request_ok [OF q] end_query_ok [OF q] end_paramdefs_ok [OF q]
    end_request_paramdefs_ok [OF q] end_version_paramdefs_ok [OF q] parser_addParamDef_ok [OF q, THEN ign]
  show ?thesis
    unfolding endElement_def Let_def q_def [symmetric]
    by (rule post_bind [where P = "parser_ok d"], use branches q in simp, simp)
qed

lemma step_ok: "parser_ok d p \<Longrightarrow> post (parser_ok d) (sax_step w rd e p)"
  by (cases e) (auto simp: sax_step_def start_ok end_ok same_core_ok [OF same_core_characters])

lemma run_ok: "parser_ok d p \<Longrightarrow> post (parser_ok d) (sax_run w rd es p)"
  by (induction es arbitrary: p) (auto intro: post_bind [OF step_ok])

text \<open>The call-backs use the reader only where it is described by \<open>reads\<close>.\<close>

lemma agree_include:
  "(\<And>p f. parser_ok d p \<Longrightarrow> rd' p f = rd p f) \<Longrightarrow> parser_ok d p \<Longrightarrow> doInclude rd' as p = doInclude rd as p"
  unfolding doInclude_def by (simp split: prod.split)

lemma agree_ref_loop:
  "(\<And>p f. parser_ok d p \<Longrightarrow> rd' p f = rd p f) \<Longrightarrow> parser_ok d p \<Longrightarrow> ref_loop rd' its p = ref_loop rd its p"
proof (induction its arbitrary: p)
  case (Cons it its)
  obtain i fl b where s: "split_ref it = (i, fl, b)" by (metis prod.collapse)
  show ?case
  proof (cases "rd p fl")
    case (Inr cq)
    obtain c q where cq: "cq = (c, q)" by (cases cq)
    have q: "parser_ok d q" "\<forall>x. c = Some x \<longrightarrow> config_ok x"
      using reads [OF Cons.prems(2), of fl] Inr cq by simp_all
    have "ref_loop rd' its p' = ref_loop rd its p'" if "parser_ok d p'" for p'
      using Cons.IH [OF Cons.prems(1) that] by blast
    with q Cons Inr cq show ?thesis
      by (cases c) (simp_all add: s take_ref_ok config_ok_def)
  qed (use Cons in \<open>simp add: s\<close>)
qed simp

lemma agree_paramDefs:
  assumes "\<And>p f. parser_ok d p \<Longrightarrow> rd' p f = rd p f" "parser_ok d p"
  shows "doParamDefs rd' as p = doParamDefs rd as p"
proof -
  have 1: "parser_ok d (q\<lparr>currentParamDefConfig := c\<rparr>)" if "parser_ok d q" "cfg_wf c" for q c
    using that by (simp add: parser_ok_def)
  have 2: "cfg_wf [(i, param_def_list)]" for i
    by (simp add: cfg_wf_def om_wf_def param_def_list_def)
  have "ref_loop rd' its p' = ref_loop rd its p'" if "parser_ok d p'" for its p'
    using agree_ref_loop [OF assms(1) that] by blast
  with assms(2) show ?thesis
    unfolding doParamDefs_def splitstr_eq Let_def by (simp add: 1 2)
qed

lemma agree_step:
  assumes "\<And>p f. parser_ok d p \<Longrightarrow> rd' p f = rd p f" "parser_ok d p"
  shows "sax_step w rd' e p = sax_step w rd e p"
proof -
  have q: "parser_ok d (p\<lparr>inChardata := False, xmlState := st\<rparr>)" for st using assms(2) by simp
  have "doInclude rd' as q = doInclude rd as q" "doParamDefs rd' as q = doParamDefs rd as q"
    if "parser_ok d q" for as q
    using agree_include [OF assms(1) that] agree_paramDefs [OF assms(1) that] by blast+
  from this [OF q] have "startElement w rd' nm as p = startElement w rd nm as p" for nm as
    unfolding startElement_def Let_def by presburger
  then show ?thesis by (cases e) (simp_all add: sax_step_def)
qed

lemma agree_run:
  "(\<And>p f. parser_ok d p \<Longrightarrow> rd' p f = rd p f) \<Longrightarrow> parser_ok d p \<Longrightarrow> sax_run w rd' es p = sax_run w rd es p"
proof (induction es arbitrary: p)
  case (Cons e es)
  show ?case
  proof (cases "sax_step w rd e p")
    case (Inr q)
    then have "parser_ok d q" using step_ok [OF Cons.prems(2), of e] by simp
    with Cons Inr agree_step [OF Cons.prems] show ?thesis by simp
  qed (use agree_step [OF Cons.prems] in simp)
qed simp

end

section \<open>The depth of the includes\<close>

text \<open>What \<open>parseFile\<close> promises on a parser at depth \<open>d\<close>.\<close>

abbreviation read_post :: "nat \<Rightarrow> (('f, unit) config option \<times> 'f parser) result \<Rightarrow> bool" where
  "read_post d \<equiv> post (\<lambda>(c, q). parser_ok d q \<and> (\<forall>x. c = Some x \<longrightarrow> config_ok x))"

lemma parser_new_ok [simp]: "parser_ok d (parser_new w base d)"
  by (simp add: parser_ok_def parser_new_def)

lemma new_config_ok: "parser_ok d p \<Longrightarrow> parser_ok d (new_config p)"
  by (simp add: new_config_def parser_ok_def)

lemma readFile_reader:
  assumes "\<And>p f. d \<le> 30 \<Longrightarrow> parser_ok (d + 1) p \<Longrightarrow> read_post (d + 1) (pf p f)"
  shows "config_reader d (readFile w pf)"
proof
  fix p :: "'a parser" and f
  assume p: "parser_ok d p"
  obtain fl p1 where c: "checkPath f p = (fl, p1)" by fastforce
  then have p1: "parser_ok d p1" using same_core_checkPath [of p f] same_core_ok [OF _ p] by simp
  then have d: "recursionDepth p1 = d" by (simp add: parser_ok_def)
  show "read_post d (readFile w pf p f)"
  proof (cases "d \<le> 30")
    case True
    from assms [OF this parser_new_ok, of w "basedir p1" fl] p1 d show ?thesis
      by (cases "pf (parser_new w (basedir p1) (d + 1)) fl") (auto simp: readFile_def c Let_def split: option.split)
  qed (use p1 d in \<open>simp add: readFile_def c\<close>)
qed

lemma parse_result_post:
  "post (\<lambda>(ok, q). parser_ok d q) r \<Longrightarrow> read_post d (parse_result r)"
  by (cases r) (auto simp: parse_result_def parser_ok_def)

lemma parse_text_post:
  assumes "config_reader d rd" "parser_ok d p"
  shows "post (\<lambda>(ok, q). parser_ok d q) (parse_text w rd buf p)"
proof -
  obtain es ok where "sax_parse w buf = (es, ok)" by fastforce
  moreover have "post (parser_ok d) (sax_run w rd es (p\<lparr>errMsg := []\<rparr>))"
    using assms by (intro config_reader.run_ok) simp_all
  ultimately show ?thesis
    by (cases "sax_run w rd es (p\<lparr>errMsg := []\<rparr>)") (simp_all add: parse_text_def)
qed

lemma parse_text_agree:
  assumes "config_reader d rd" "\<And>p f. parser_ok d p \<Longrightarrow> rd' p f = rd p f" "parser_ok d p"
  shows "parse_text w rd' buf p = parse_text w rd buf p"
  using config_reader.agree_run [OF assms(1,2), of "p\<lparr>errMsg := []\<rparr>" w "fst (sax_parse w buf)"] assms(3)
  by (simp add: parse_text_def case_prod_unfold)

lemma parseFile_cases:
  assumes "parser_ok d p"
  obtains fl q where "parser_ok d q"
    "\<And>n. parseFile (Suc n) w p f =
       (if fl = [] then Inr (None, q)
        else case file_content w fl of
          None \<Rightarrow> Inr (None, fatalError_msg (''Cant read file: '' @ fl) (new_config q))
        | Some content \<Rightarrow> parse_result (parse_text w (readFile w (parseFile n w)) content (new_config q)))"
proof -
  obtain fl q where c: "checkPath f p = (fl, q)" by fastforce
  moreover from this have "parser_ok d q"
    using same_core_checkPath [of p f] same_core_ok [OF _ assms] by simp
  ultimately show ?thesis using that [of q fl] by (simp add: Let_def)
qed

lemma parseFile_post: "d \<le> 31 \<Longrightarrow> 32 \<le> n + d \<Longrightarrow> parser_ok d p \<Longrightarrow> read_post d (parseFile n w p f)"
proof (induction n arbitrary: d p f)
  case (Suc n)
  have "read_post (d + 1) (parseFile n w q g)" if "d \<le> 30" "parser_ok (d + 1) q" for q g
    using Suc.IH [of "d + 1" q g] Suc.prems that by simp
  then have rd: "config_reader d (readFile w (parseFile n w))" by (rule readFile_reader)
  from Suc.prems(3) show ?case
  proof (rule parseFile_cases [where w = w and f = f])
    fix fl q
    assume q: "parser_ok d q" and
      P: "\<And>n. parseFile (Suc n) w p f = (if fl = [] then Inr (None, q)
        else case file_content w fl of
          None \<Rightarrow> Inr (None, fatalError_msg (''Cant read file: '' @ fl) (new_config q))
        | Some content \<Rightarrow> parse_result (parse_text w (readFile w (parseFile n w)) content (new_config q)))"
    show ?thesis
      using parse_result_post [OF parse_text_post [OF rd new_config_ok [OF q]]] q new_config_ok [OF q]
      unfolding P by (simp split: option.split)
  qed
qed simp

lemma parseFile_reader: "d \<le> 31 \<Longrightarrow> 31 \<le> n + d \<Longrightarrow> config_reader d (readFile w (parseFile n w))"
  by (rule readFile_reader) (auto intro: parseFile_post)

lemma readFile_agree:
  assumes "\<And>p f. d \<le> 30 \<Longrightarrow> parser_ok (d + 1) p \<Longrightarrow> pf' p f = pf p f" "parser_ok d p"
  shows "readFile w pf' p f = readFile w pf p f"
proof -
  obtain fl p1 where c: "checkPath f p = (fl, p1)" by fastforce
  then have "parser_ok d p1" using same_core_checkPath [of p f] same_core_ok [OF _ assms(2)] by simp
  then have "recursionDepth p1 = d" by (simp add: parser_ok_def)
  with assms(1) c show ?thesis by (auto simp: readFile_def)
qed

text \<open>More fuel than the depth allows changes nothing.\<close>

lemma parseFile_fuel:
  "d \<le> 31 \<Longrightarrow> 32 \<le> n + d \<Longrightarrow> n \<le> m \<Longrightarrow> parser_ok d p \<Longrightarrow> parseFile m w p f = parseFile n w p f"
proof (induction n arbitrary: m d p f)
  case (Suc n)
  then obtain k where m: "m = Suc k" by (cases m) auto
  have "parseFile k w q g = parseFile n w q g" if "d \<le> 30" "parser_ok (d + 1) q" for q g
    using Suc.IH [of "d + 1" k q g] Suc.prems m that by simp
  then have rf: "readFile w (parseFile k w) q g = readFile w (parseFile n w) q g" if "parser_ok d q" for q g
    using readFile_agree [of d "parseFile k w" "parseFile n w"] that by blast
  have rd: "config_reader d (readFile w (parseFile n w))" using Suc.prems by (intro parseFile_reader) auto
  from Suc.prems(4) show ?case
  proof (rule parseFile_cases [where w = w and f = f])
    fix fl q
    assume q: "parser_ok d q" and
      P: "\<And>n. parseFile (Suc n) w p f = (if fl = [] then Inr (None, q)
        else case file_content w fl of
          None \<Rightarrow> Inr (None, fatalError_msg (''Cant read file: '' @ fl) (new_config q))
        | Some content \<Rightarrow> parse_result (parse_text w (readFile w (parseFile n w)) content (new_config q)))"
    have "parse_text w (readFile w (parseFile k w)) c (new_config q) =
        parse_text w (readFile w (parseFile n w)) c (new_config q)" for c
      using parse_text_agree [OF rd rf new_config_ok [OF q]] by blast
    then show ?thesis unfolding m P by (simp split: option.split)
  qed
qed simp

text \<open>The reader of the configuration that the application parses, at depth zero.\<close>

interpretation top_reader: config_reader w 0 "readFile w (parseFile 32 w)" for w :: "'f world"
  by (rule parseFile_reader) simp_all

section \<open>Reading a query definition\<close>

lemma clean_query_ref:
  "clean_query b = Some (replace_ref ''; '' '';'' None (replace_ref '' ,'' '','' None
     (compresSpace (replace_ref [LF] [] None (trimstr b)) False)))"
  by (simp add: clean_query_def replaceString_ref)

lemma clean_query_total: "\<exists>q. clean_query b = Some q"
  by (simp add: clean_query_ref)

text \<open>The call-backs for a query with the text \<open>concat ts\<close>, and for a definition of queries.\<close>

definition query_events :: "(string \<times> string) list \<times> string list \<Rightarrow> sax_event list" where
  "query_events q = Start ''query'' (fst q) # map Chars (snd q) @ [End ''query'']"

definition querydef_events :: "(string \<times> string) list \<Rightarrow> ((string \<times> string) list \<times> string list) list \<Rightarrow> sax_event list"
where
  "querydef_events kvs qs = Start ''querydef'' kvs # concat (map query_events qs) @ [End ''querydef'']"

text \<open>The element it stands for, given the database and the length of the definition.\<close>

definition query_elem :: "string \<Rightarrow> int \<Rightarrow> (string \<times> string) list \<times> string list \<Rightarrow> query_element" where
  "query_elem wdb len q =
     (let as = att_map (fst q); own = snd (getAttr as ''wdbdb'' [])
      in \<lparr>qe_query = the (clean_query (concat (snd q))),
          qe_probe = starts_t (snd (getAttr as ''must_have_data'' ''false'')),
          qe_stopIfData = starts_t (snd (getAttr as ''stop_if_data'' ''false'')),
          qe_wdbdb = (if own = [] then wdb else own), qe_prognosisLength = len\<rparr>)"

definition query_elems :: "string \<Rightarrow> int \<Rightarrow> ((string \<times> string) list \<times> string list) list \<Rightarrow> query_element list" where
  "query_elems wdb len qs = filter (\<lambda>e. qe_query e \<noteq> []) (map (query_elem wdb len) qs)"

definition no_length :: "(string \<times> string) list \<Rightarrow> bool" where
  "no_length kvs \<longleftrightarrow> map_of (att_map kvs) ''prognosis_length'' = None"

lemma sax_run_append: "sax_run w rd (xs @ ys) p = bind_result (sax_run w rd xs p) (sax_run w rd ys)"
proof (induction xs arbitrary: p)
  case (Cons x xs)
  show ?case by (cases "sax_step w rd x p") (simp_all add: Cons.IH)
qed simp

lemma prognosis_none: "no_length kvs \<Longrightarrow> getPrognosisLength (att_map kvs) n p = Inr (n, p)"
  by (simp add: getPrognosisLength_def getAttr_def no_length_def)

lemma chars_run:
  "inChardata p \<or> chardata p = [] \<Longrightarrow>
   \<exists>b. sax_run w rd (map Chars ts) p = Inr (p\<lparr>inChardata := b, chardata := chardata p @ concat ts\<rparr>)"
proof (induction ts arbitrary: p)
  case Nil
  show ?case by (intro exI [of _ "inChardata p"]) simp
next
  case (Cons t ts)
  let ?q = "characters t p"
  have "inChardata ?q" "chardata ?q = chardata p @ t"
    using Cons.prems by (auto simp: characters_def Let_def)
  moreover from Cons.IH [of ?q] this obtain b where
    "sax_run w rd (map Chars ts) ?q = Inr (?q\<lparr>inChardata := b, chardata := chardata ?q @ concat ts\<rparr>)" by blast
  ultimately show ?case
    by (auto simp: sax_step_def characters_def Let_def intro!: exI [of _ b])
qed

lemmas path_simps = state_is_def state_path_def state_push_def state_pop_def

text \<open>What a query leaves as it was.\<close>

definition query_frame :: "'f parser \<Rightarrow> 'f parser \<Rightarrow> bool" where
  "query_frame p q \<longleftrightarrow>
     xmlState q = xmlState p \<and> itCurrentQueryDef q = itCurrentQueryDef p
     \<and> currentQueryDefWdbdb q = currentQueryDefWdbdb p
     \<and> currentQueryDefPrognosisLengthSeconds q = currentQueryDefPrognosisLengthSeconds p
     \<and> cfg_requests (conf q) = cfg_requests (conf p) \<and> cfg_paramdef (conf q) = cfg_paramdef (conf p)"

lemma query_run:
  assumes "xmlState p = [''querydef'', ''querydefs'', ''wdb2ts'']" "itCurrentQueryDef p = Q_at i" "no_length (fst x)"
  shows "\<exists>q. sax_run w rd (query_events x) p = Inr q \<and> query_frame p q \<and>
    (\<forall>k. config_query (conf q) k =
       (if k = i
        then (config_query (conf p) i)\<lparr>qd_querys := qd_querys (config_query (conf p) i) @
               query_elems (currentQueryDefWdbdb p) (currentQueryDefPrognosisLengthSeconds p) [x]\<rparr>
        else config_query (conf p) k))"
proof -
  obtain kvs ts where x: "x = (kvs, ts)" by (cases x)
  let ?as = "att_map kvs"
  define p1 where "p1 = p\<lparr>inChardata := False, chardata := [], xmlState := ''query'' # xmlState p,
    currentQueryProbe := starts_t (snd (getAttr ?as ''must_have_data'' ''false'')),
    currentQueryStopIfData := starts_t (snd (getAttr ?as ''stop_if_data'' ''false'')),
    currentQueryWdbdb := (if snd (getAttr ?as ''wdbdb'' []) = [] then currentQueryDefWdbdb p
                          else snd (getAttr ?as ''wdbdb'' [])),
    currentQueryPrognosisLengthSeconds := currentQueryDefPrognosisLengthSeconds p\<rparr>"
  have 1: "sax_step w rd (Start ''query'' kvs) p = Inr p1"
    using assms x
    by (simp add: sax_step_def startElement_def path_simps doQuery_def p1_def prognosis_none)
  from chars_run [of p1 w rd ts] obtain b where
    2: "sax_run w rd (map Chars ts) p1 = Inr (p1\<lparr>inChardata := b, chardata := concat ts\<rparr>)"
    by (auto simp: p1_def)
  obtain c where c: "clean_query (concat ts) = Some c" using clean_query_total by blast
  define q where "q = (p1\<lparr>inChardata := False, chardata := [], xmlState := xmlState p,
    conf := (if c = [] then conf p else
      (conf p)\<lparr>cfg_querys := om_put i ((config_query (conf p) i)\<lparr>qd_querys := qd_querys (config_query (conf p) i) @
               query_elems (currentQueryDefWdbdb p) (currentQueryDefPrognosisLengthSeconds p) [x]\<rparr>)
             (cfg_querys (conf p))\<rparr>)\<rparr>)"
  have 3: "sax_step w rd (End ''query'') (p1\<lparr>inChardata := b, chardata := concat ts\<rparr>) = Inr q"
    using assms(1,2)
    by (simp add: sax_step_def endElement_def path_simps end_query_def c p1_def q_def x
        query_elems_def query_elem_def set_query_def Let_def)
  have "sax_run w rd (query_events x) p = Inr q"
    unfolding query_events_def x fst_conv snd_conv by (simp add: 1 2 3 sax_run_append)
  moreover have "query_frame p q" by (simp add: query_frame_def q_def p1_def)
  moreover have "config_query (conf q) k = (if k = i
      then (config_query (conf p) i)\<lparr>qd_querys := qd_querys (config_query (conf p) i) @
             query_elems (currentQueryDefWdbdb p) (currentQueryDefPrognosisLengthSeconds p) [x]\<rparr>
      else config_query (conf p) k)" for k
    by (simp add: q_def config_query_def x query_elems_def query_elem_def c Let_def)
  ultimately show ?thesis by blast
qed

lemma query_elems_Cons: "query_elems wdb len (x # xs) = query_elems wdb len [x] @ query_elems wdb len xs"
  by (simp add: query_elems_def)

lemma querys_run:
  assumes "xmlState p = [''querydef'', ''querydefs'', ''wdb2ts'']" "itCurrentQueryDef p = Q_at i"
    "\<forall>x \<in> set qs. no_length (fst x)"
  shows "\<exists>q. sax_run w rd (concat (map query_events qs)) p = Inr q \<and> query_frame p q \<and>
    (\<forall>k. config_query (conf q) k =
       (if k = i
        then (config_query (conf p) i)\<lparr>qd_querys := qd_querys (config_query (conf p) i) @
               query_elems (currentQueryDefWdbdb p) (currentQueryDefPrognosisLengthSeconds p) qs\<rparr>
        else config_query (conf p) k))"
  using assms
proof (induction qs arbitrary: p)
  case Nil
  then show ?case by (simp add: query_frame_def query_elems_def)
next
  case (Cons x qs)
  from query_run [OF Cons.prems(1,2), of x w rd] Cons.prems(3) obtain p1 where
    p1: "sax_run w rd (query_events x) p = Inr p1" "query_frame p p1" and
    c1: "\<forall>k. config_query (conf p1) k =
       (if k = i
        then (config_query (conf p) i)\<lparr>qd_querys := qd_querys (config_query (conf p) i) @
               query_elems (currentQueryDefWdbdb p) (currentQueryDefPrognosisLengthSeconds p) [x]\<rparr>
        else config_query (conf p) k)" by auto
  then have "xmlState p1 = [''querydef'', ''querydefs'', ''wdb2ts'']" "itCurrentQueryDef p1 = Q_at i"
    using Cons.prems by (simp_all add: query_frame_def)
  from Cons.IH [OF this] Cons.prems(3) obtain q where
    q: "sax_run w rd (concat (map query_events qs)) p1 = Inr q" "query_frame p1 q" and
    c2: "\<forall>k. config_query (conf q) k =
       (if k = i
        then (config_query (conf p1) i)\<lparr>qd_querys := qd_querys (config_query (conf p1) i) @
               query_elems (currentQueryDefWdbdb p1) (currentQueryDefPrognosisLengthSeconds p1) qs\<rparr>
        else config_query (conf p1) k)" by auto
  have "query_frame p q" using p1(2) q(2) by (simp add: query_frame_def)
  moreover have "currentQueryDefWdbdb p1 = currentQueryDefWdbdb p"
    "currentQueryDefPrognosisLengthSeconds p1 = currentQueryDefPrognosisLengthSeconds p"
    using p1(2) by (simp_all add: query_frame_def)
  ultimately show ?case
    using p1(1) q(1) c1 c2 query_elems_Cons [of _ _ x qs] by (simp add: sax_run_append)
qed

text \<open>The element of the definition itself, for a new id and for one that is there.\<close>

definition parallel_of :: "atts \<Rightarrow> int" where
  "parallel_of as =
     (case lexical_int (snd (getAttr as (if hasAttr as ''parallel'' then ''parallel'' else ''paralell'') ''1'')) of
        None \<Rightarrow> 0 | Some n \<Rightarrow> if n < 0 then 1 else n)"

lemma querydef_start:
  assumes "xmlState p = [''querydefs'', ''wdb2ts'']" "getAttr (att_map kvs) ''id'' [] = (True, i)" "i \<noteq> []"
    "no_length kvs" "map_of (cfg_querys (conf p)) i = None"
  shows "\<exists>q. sax_step w rd (Start ''querydef'' kvs) p = Inr q \<and>
    xmlState q = [''querydef'', ''querydefs'', ''wdb2ts''] \<and> itCurrentQueryDef q = Q_at i \<and>
    currentQueryDefWdbdb q = snd (getAttr (att_map kvs) ''wdbdb'' []) \<and>
    currentQueryDefPrognosisLengthSeconds q = 0 \<and>
    cfg_requests (conf q) = cfg_requests (conf p) \<and> cfg_paramdef (conf q) = cfg_paramdef (conf p) \<and>
    (\<forall>k. config_query (conf q) k =
       (if k = i then \<lparr>qd_querys = [], dbRequestsInParalells = parallel_of (att_map kvs)\<rparr>
        else config_query (conf p) k))"
  using assms
  by (simp add: sax_step_def startElement_def path_simps doQueryDef_def prognosis_none Let_def
      set_query_def config_query_def query_def_def parallel_of_def error_msg_def split: option.split)

lemma querydef_start_again:
  assumes "xmlState p = [''querydefs'', ''wdb2ts'']" "getAttr (att_map kvs) ''id'' [] = (True, i)" "i \<noteq> []"
    "map_of (cfg_querys (conf p)) i \<noteq> None"
  shows "\<exists>q. sax_step w rd (Start ''querydef'' kvs) p = Inr q \<and>
    xmlState q = [''querydef'', ''querydefs'', ''wdb2ts''] \<and> itCurrentQueryDef q = Q_at i \<and>
    currentQueryDefWdbdb q = [] \<and>
    currentQueryDefPrognosisLengthSeconds q = currentQueryDefPrognosisLengthSeconds p \<and> conf q = conf p"
  using assms
  by (simp add: sax_step_def startElement_def path_simps doQueryDef_def error_msg_def)

lemma querydef_end:
  assumes "xmlState p = [''querydef'', ''querydefs'', ''wdb2ts'']"
  shows "\<exists>q. sax_step w rd (End ''querydef'') p = Inr q \<and> xmlState q = [''querydefs'', ''wdb2ts''] \<and> conf q = conf p"
  using assms by (simp add: sax_step_def endElement_def path_simps)

lemma querydef_rest:
  assumes "xmlState p = [''querydef'', ''querydefs'', ''wdb2ts'']" "itCurrentQueryDef p = Q_at i"
    "\<forall>x \<in> set qs. no_length (fst x)"
  shows "\<exists>q. sax_run w rd (concat (map query_events qs) @ [End ''querydef'']) p = Inr q \<and>
    xmlState q = [''querydefs'', ''wdb2ts''] \<and>
    cfg_requests (conf q) = cfg_requests (conf p) \<and> cfg_paramdef (conf q) = cfg_paramdef (conf p) \<and>
    (\<forall>k. config_query (conf q) k =
       (if k = i
        then (config_query (conf p) i)\<lparr>qd_querys := qd_querys (config_query (conf p) i) @
               query_elems (currentQueryDefWdbdb p) (currentQueryDefPrognosisLengthSeconds p) qs\<rparr>
        else config_query (conf p) k))"
proof -
  from querys_run [OF assms, of w rd] obtain q where
    q: "sax_run w rd (concat (map query_events qs)) p = Inr q" "query_frame p q" and
    c: "\<forall>k. config_query (conf q) k =
       (if k = i
        then (config_query (conf p) i)\<lparr>qd_querys := qd_querys (config_query (conf p) i) @
               query_elems (currentQueryDefWdbdb p) (currentQueryDefPrognosisLengthSeconds p) qs\<rparr>
        else config_query (conf p) k)" by blast
  have "xmlState q = [''querydef'', ''querydefs'', ''wdb2ts'']" using assms(1) q(2) by (simp add: query_frame_def)
  from querydef_end [OF this, of w rd] obtain q' where
    "sax_step w rd (End ''querydef'') q = Inr q'" "xmlState q' = [''querydefs'', ''wdb2ts'']" "conf q' = conf q"
    by blast
  with q c show ?thesis by (simp add: sax_run_append query_frame_def)
qed

section \<open>Properties\<close>

text \<open>
  C6: Reading a configuration ends, also when the files include each other in a circle: the
  depth stays below 32, so that many levels of calls suffice and more change nothing.
\<close>

theorem config_reading_terminates:
  assumes "32 \<le> n"
  shows "parseFile n w (parser_new w base 0) f = parseFile 32 w (parser_new w base 0) f
    \<and> parseFile 32 w (parser_new w base 0) f \<noteq> Inl Out_of_fuel
    \<and> parseBuf n w (parser_new w base 0) buf = parseBuf 32 w (parser_new w base 0) buf
    \<and> parseBuf 32 w (parser_new w base 0) buf \<noteq> Inl Out_of_fuel"
proof -
  let ?p = "parser_new w base 0"
  have ok: "parser_ok 0 ?p" "parser_ok 0 (new_config ?p)" by (simp_all add: new_config_ok)
  have ne: "r \<noteq> Inl Out_of_fuel" if "post P r" for r P using that by auto
  have "parseFile n w q g = parseFile 32 w q g" if "parser_ok 1 q" for q g
    using parseFile_fuel [of 1 32 n q w g] assms that by simp
  then have "readFile w (parseFile n w) q g = readFile w (parseFile 32 w) q g" if "parser_ok 0 q" for q g
    using readFile_agree [of 0 "parseFile n w" "parseFile 32 w" q w g] that by simp
  then have "parse_text w (readFile w (parseFile n w)) buf (new_config ?p) =
      parse_text w (readFile w (parseFile 32 w)) buf (new_config ?p)"
    using parse_text_agree [OF top_reader.config_reader_axioms _ ok(2)] by blast
  moreover have "parseBuf 32 w ?p buf \<noteq> Inl Out_of_fuel"
    unfolding parseBuf_def
    by (rule ne, rule parse_result_post, rule parse_text_post [OF top_reader.config_reader_axioms ok(2)])
  moreover have "parseFile 32 w ?p f \<noteq> Inl Out_of_fuel"
    by (rule ne, rule parseFile_post [where d = 0]) (simp_all add: ok)
  ultimately show ?thesis
    using parseFile_fuel [of 0 32 n ?p w f] assms ok(1) by (simp add: parseBuf_def)
qed

text \<open>A file that includes itself, next to a definition of queries.\<close>

definition sample_world :: "nat world" where
  "sample_world =
     \<lparr>file_content = (\<lambda>f. if f = ''/etc/a.xml'' then Some ''A'' else None),
      sax_parse = (\<lambda>t. ([Start ''wdb2ts'' [], Start ''include'' [(''file'', '' /etc/a.xml '')], End ''include'',
         Start ''querydefs'' [], Start ''querydef'' [(''id'', ''q''), (''paralell'', ''2'')],
         Start ''query'' [(''must_have_data'', ''true'')], Chars ''select'', Chars '' 1 ; '', End ''query'',
         End ''querydef'', End ''querydefs'', End ''wdb2ts''], True)),
      float_of = (\<lambda>s. None), one_f = 1, zero_f = 0, cast_text = ''bad lexical cast''\<rparr>"

theorem config_reading_terminates_witness:
  "parseFile 40 sample_world (parser_new sample_world ''/etc'' 0) ''a.xml'' \<noteq> Inl Out_of_fuel"
  using config_reading_terminates [of 40 sample_world "''/etc''" "''a.xml''" "[]"] by simp

lemma config_read_ok: "parseBuf 32 w (parser_new w base 0) buf = Inr (Some c, q) \<Longrightarrow> config_ok c"
proof -
  have "parser_ok 0 (new_config (parser_new w base 0))" by (simp add: new_config_ok)
  from parse_result_post [OF parse_text_post [OF top_reader.config_reader_axioms this]]
  have "read_post 0 (parseBuf 32 w (parser_new w base 0) buf)" unfolding parseBuf_def .
  then show "parseBuf 32 w (parser_new w base 0) buf = Inr (Some c, q) \<Longrightarrow> config_ok c" by simp
qed

text \<open>
  C26: Whatever the files hold, a configuration that is returned is well formed: no two entries
  for one name in any of its tables, every request is stored under its own non-empty path, and
  its versions are proper ones in descending order.
\<close>

theorem config_well_formed:
  "(parseFile 32 w (parser_new w base 0) f = Inr (Some c, q) \<longrightarrow> config_ok c) \<and>
   (parseBuf 32 w (parser_new w base 0) buf = Inr (Some c, q) \<longrightarrow> config_ok c)"
proof -
  have "read_post 0 (parseFile 32 w (parser_new w base 0) f)" by (rule parseFile_post) simp_all
  then show ?thesis by (auto dest: config_read_ok)
qed

text \<open>A configuration with one request of two versions.\<close>

definition request_world :: "nat world" where
  "request_world = sample_world\<lparr>sax_parse := (\<lambda>t.
     ([Start ''wdb2ts'' [], Start ''requests'' [],
       Start ''request'' [(''path'', ''/x''), (''default_version'', ''1.0''), (''schema'', ''s'')],
       Start ''actionparam'' [(''key'', ''a''), (''value'', ''b'')], End ''actionparam'',
       Start ''version'' [(''version'', ''1.0'')], End ''version'',
       Start ''version'' [(''version'', ''1.2'')], End ''version'',
       End ''request'', End ''requests'', End ''wdb2ts''], True))\<rparr>"

definition version_numbers :: "('f, unit) config \<Rightarrow> ver list list" where
  "version_numbers c = map (\<lambda>pr. map (\<lambda>v. rversion (snd v)) (requestVersions (snd pr))) (cfg_requests c)"

theorem config_well_formed_witness:
  "\<exists>c q. parseBuf 32 request_world (parser_new request_world ''/etc'' 0) [] = Inr (Some c, q)
     \<and> config_ok c \<and> version_numbers c = [[ver 1 2, ver 1 0]]"
proof -
  have "case parseBuf 32 request_world (parser_new request_world ''/etc'' 0) [] of
      Inr (Some c, q) \<Rightarrow> version_numbers c = [[ver 1 2, ver 1 0]] | _ \<Rightarrow> False"
    by code_simp
  then show ?thesis
    using config_well_formed [where w = request_world and base = "''/etc''" and buf = "[]"]
    by (auto split: sum.splits prod.splits option.splits)
qed

text \<open>
  A definition of queries under a new id adds exactly its queries, in their order, with the
  cleaned text, the flags and the database of each, and changes no other definition, no request
  and no parameter.
\<close>

theorem querydef_read:
  assumes "xmlState p = [''querydefs'', ''wdb2ts'']" "getAttr (att_map kvs) ''id'' [] = (True, i)" "i \<noteq> []"
    "no_length kvs" "\<forall>x \<in> set qs. no_length (fst x)" "map_of (cfg_querys (conf p)) i = None"
  shows "\<exists>q. sax_run w rd (querydef_events kvs qs) p = Inr q \<and> xmlState q = xmlState p \<and>
    cfg_requests (conf q) = cfg_requests (conf p) \<and> cfg_paramdef (conf q) = cfg_paramdef (conf p) \<and>
    (\<forall>k. config_query (conf q) k =
       (if k = i
        then \<lparr>qd_querys = query_elems (snd (getAttr (att_map kvs) ''wdbdb'' [])) 0 qs,
              dbRequestsInParalells = parallel_of (att_map kvs)\<rparr>
        else config_query (conf p) k))"
proof -
  from querydef_start [OF assms(1-4,6), of w rd] obtain p1 where
    p1: "sax_step w rd (Start ''querydef'' kvs) p = Inr p1"
      "xmlState p1 = [''querydef'', ''querydefs'', ''wdb2ts'']" "itCurrentQueryDef p1 = Q_at i"
      "currentQueryDefWdbdb p1 = snd (getAttr (att_map kvs) ''wdbdb'' [])"
      "currentQueryDefPrognosisLengthSeconds p1 = 0"
      "cfg_requests (conf p1) = cfg_requests (conf p)" "cfg_paramdef (conf p1) = cfg_paramdef (conf p)"
    and c1: "\<forall>k. config_query (conf p1) k =
       (if k = i then \<lparr>qd_querys = [], dbRequestsInParalells = parallel_of (att_map kvs)\<rparr>
        else config_query (conf p) k)" by blast
  from querydef_rest [OF p1(2,3) assms(5), of w rd] show ?thesis
    using p1 c1 assms(1) by (auto simp: querydef_events_def)
qed

text \<open>
  When the id is defined already the error is reported, but the queries of the second
  definition are appended to those of the first one all the same, with the length left by the
  definition before.
\<close>

theorem querydef_again_appends:
  assumes "xmlState p = [''querydefs'', ''wdb2ts'']" "getAttr (att_map kvs) ''id'' [] = (True, i)" "i \<noteq> []"
    "\<forall>x \<in> set qs. no_length (fst x)" "map_of (cfg_querys (conf p)) i = Some d"
  shows "\<exists>q. sax_run w rd (querydef_events kvs qs) p = Inr q \<and>
    config_query (conf q) i = d\<lparr>qd_querys := qd_querys d @
      query_elems [] (currentQueryDefPrognosisLengthSeconds p) qs\<rparr>"
proof -
  have "map_of (cfg_querys (conf p)) i \<noteq> None" using assms(5) by simp
  from querydef_start_again [OF assms(1-3) this, of w rd] obtain p1 where
    p1: "sax_step w rd (Start ''querydef'' kvs) p = Inr p1"
      "xmlState p1 = [''querydef'', ''querydefs'', ''wdb2ts'']" "itCurrentQueryDef p1 = Q_at i"
      "currentQueryDefWdbdb p1 = []"
      "currentQueryDefPrognosisLengthSeconds p1 = currentQueryDefPrognosisLengthSeconds p" "conf p1 = conf p"
    by blast
  from querydef_rest [OF p1(2,3) assms(4), of w rd] show ?thesis
    using p1 assms(5) by (auto simp: querydef_events_def config_query_def)
qed

definition sample_parser :: "nat parser" where
  "sample_parser = (parser_new sample_world ''/etc'' 0)\<lparr>xmlState := [''querydefs'', ''wdb2ts'']\<rparr>"

theorem querydef_read_witness:
  "\<exists>q. sax_run sample_world (parseFile 0 sample_world)
      (querydef_events [(''id'', ''q''), (''parallel'', ''3'')] [([], [''select 1''])]) sample_parser = Inr q
    \<and> dbRequestsInParalells (config_query (conf q) ''q'') = 3"
proof -
  have "xmlState sample_parser = [''querydefs'', ''wdb2ts'']" "map_of (cfg_querys (conf sample_parser)) ''q'' = None"
    by (simp_all add: sample_parser_def parser_new_def config_new_def)
  moreover have "getAttr (att_map [(''id'', ''q''), (''parallel'', ''3'')]) ''id'' [] = (True, ''q'')"
    "no_length [(''id'', ''q''), (''parallel'', ''3'')]" "no_length ([] :: (string \<times> string) list)"
    "parallel_of (att_map [(''id'', ''q''), (''parallel'', ''3'')]) = 3"
    by code_simp+
  ultimately show ?thesis
    using querydef_read [where p = sample_parser and kvs = "[(''id'', ''q''), (''parallel'', ''3'')]"
        and i = "''q''" and qs = "[([], [''select 1''])]" and w = sample_world and rd = "parseFile 0 sample_world"]
    by auto
qed

theorem querydef_again_appends_witness:
  "\<exists>q. sax_run sample_world (parseFile 0 sample_world) (querydef_events [(''id'', ''q'')] [([], [''select 2''])])
      (set_query ''q'' query_def sample_parser) = Inr q
    \<and> length (qd_querys (config_query (conf q) ''q'')) = 1"
proof -
  let ?p = "set_query ''q'' query_def sample_parser"
  have "xmlState ?p = [''querydefs'', ''wdb2ts'']" "map_of (cfg_querys (conf ?p)) ''q'' = Some query_def"
    by (simp_all add: sample_parser_def set_query_def parser_new_def config_new_def)
  moreover have "getAttr (att_map [(''id'', ''q'')]) ''id'' [] = (True, ''q'')"
    "no_length ([] :: (string \<times> string) list)" "qd_querys query_def = []"
    by code_simp+
  moreover have "replace_ref ''; '' '';'' None (replace_ref '' ,'' '','' None
     (compresSpace (replace_ref [LF] [] None (trimstr ''select 2'')) False)) \<noteq> []" by code_simp
  then have "length (query_elems [] n [([], [''select 2''])]) = 1" for n
    by (simp add: query_elems_def query_elem_def Let_def clean_query_ref)
  ultimately show ?thesis
    using querydef_again_appends [where p = ?p and kvs = "[(''id'', ''q'')]"
        and i = "''q''" and qs = "[([], [''select 2''])]" and w = sample_world and rd = "parseFile 0 sample_world"]
    by auto
qed

text \<open>
  A request element without a path is reported, but at its end the null pointer of the
  request that was not made is followed.
\<close>

theorem request_without_path_undefined:
  assumes "xmlState p = [''requests'', ''wdb2ts'']" "currentRequest p = None"
    "snd (getAttr (att_map kvs) ''path'' []) = []"
  shows "\<exists>p1. sax_step w rd (Start ''request'' kvs) p = Inr p1 \<and>
      errMsg p1 = errMsg p @ ''xml error: Missing mandatory attribute '' @ quote ''path'' @ ''.'' @ [LF] \<and>
      sax_run w rd [Start ''request'' kvs, End ''request''] p = Inl Undefined_behaviour"
  using assms
  by (simp add: sax_step_def startElement_def endElement_def path_simps doRequest_def case_prod_unfold
      error_msg_def end_request_def)

theorem request_without_path_undefined_witness:
  "sax_run sample_world (parseFile 0 sample_world) [Start ''request'' [(''action'', ''x'')], End ''request'']
     (sample_parser\<lparr>xmlState := [''requests'', ''wdb2ts'']\<rparr>) = Inl Undefined_behaviour"
proof -
  let ?p = "sample_parser\<lparr>xmlState := [''requests'', ''wdb2ts'']\<rparr>"
  have "xmlState ?p = [''requests'', ''wdb2ts'']" "currentRequest ?p = None"
    by (simp_all add: sample_parser_def parser_new_def)
  moreover have "snd (getAttr (att_map [(''action'', ''x'')]) ''path'' []) = []" by code_simp
  ultimately show ?thesis using request_without_path_undefined by blast
qed

text \<open>The elements inside a parameter definition, each without content.\<close>

definition leaf_events :: "string \<times> (string \<times> string) list \<Rightarrow> sax_event list" where
  "leaf_events l = [Start (fst l) (snd l), End (fst l)]"

definition local_paramdefs :: "xstate \<Rightarrow> bool" where
  "local_paramdefs st \<longleftrightarrow>
     st = [''paramdefs'', ''request'', ''requests'', ''wdb2ts'']
     \<or> st = [''paramdefs'', ''version'', ''request'', ''requests'', ''wdb2ts'']"

lemma leaf_ignored:
  assumes "local_paramdefs st" "xmlState p = ''paramdef'' # st"
  shows "sax_run w rd (leaf_events l) p = Inr (p\<lparr>inChardata := False, chardata := []\<rparr>)"
  using assms by (auto simp: leaf_events_def local_paramdefs_def sax_step_def startElement_def
      endElement_def path_simps)

lemma leaves_ignored:
  assumes "local_paramdefs st" "xmlState p = ''paramdef'' # st"
  shows "\<exists>q. sax_run w rd (concat (map leaf_events ls)) p = Inr q \<and> same_core p q \<and> xmlState q = xmlState p
    \<and> currentParamDef q = currentParamDef p \<and> errMsg q = errMsg p"
  using assms(2)
proof (induction ls arbitrary: p)
  case (Cons l ls)
  let ?p = "p\<lparr>inChardata := False, chardata := []\<rparr>"
  from Cons.IH [of ?p] Cons.prems show ?case
    by (simp add: sax_run_append leaf_ignored [OF assms(1) Cons.prems] same_core_def)
qed simp

lemma prov_loop_frame:
  "xmlState (snd (prov_loop i vs p)) = xmlState p \<and> currentParamDef (snd (prov_loop i vs p)) = currentParamDef p
   \<and> (\<exists>m. errMsg (snd (prov_loop i vs p)) = errMsg p @ m)"
  by (induction i vs p rule: prov_loop.induct) (simp_all add: Let_def error_msg_def)

lemma doParamDef_frame:
  "\<exists>ok q m. doParamDef w as p = Inr (ok, q) \<and> same_core p q \<and> xmlState q = xmlState p
     \<and> errMsg q = errMsg p @ m \<and> rd_valueparameterName (currentParamDef q) = None"
proof -
  let ?p1 = "p\<lparr>currentParamDef := raw_clear w, currentParamDefProvider := []\<rparr>"
  have n: "rd_valueparameterName (raw_clear w) = None" by (simp add: raw_clear_def)
  show ?thesis
  proof (cases "snd (getAttr as ''id'' []) = [] \<or> \<not> fst (getAttr as ''id'' [])")
    case True
    then show ?thesis
      by (auto simp: doParamDef_def Let_def case_prod_unfold error_msg_def n same_core_def)
  next
    case False
    let ?r = "prov_loop (snd (getAttr as ''id'' []))
      (split_fields (snd (getAttr as ''dataprovider'' [])) (CHR '';'') dquote) ?p1"
    have "same_core p (snd ?r)" by (intro prov_loop_core) simp
    with False n prov_loop_frame [of "snd (getAttr as ''id'' [])"
        "split_fields (snd (getAttr as ''dataprovider'' [])) (CHR '';'') dquote" ?p1]
    show ?thesis
      by (cases "fst ?r") (auto simp: doParamDef_def Let_def case_prod_unfold splitstr_eq)
  qed
qed

lemma addParamDef_unnamed:
  "rd_valueparameterName (currentParamDef p) = None \<Longrightarrow>
   \<exists>m. parser_addParamDef w p = Inr (False, clear_def w (error_msg m p))"
  by (auto simp: parser_addParamDef_def Let_def raw_valid_def asString_or_def split: option.split)

text \<open>
  Inside a request or one of its versions no parameter can be defined: the elements that
  name it are not looked at there, so that every definition ends with an error and adds nothing.
\<close>

theorem request_paramdefs_rejected:
  assumes "local_paramdefs (xmlState p)"
  shows "\<exists>q. sax_run w rd (Start ''paramdef'' kvs # concat (map leaf_events ls) @ [End ''paramdef'']) p = Inr q
    \<and> conf q = conf p \<and> currentParamDefConfig q = currentParamDefConfig p
    \<and> currentRequest q = currentRequest p \<and> currentRequestVersion q = currentRequestVersion p
    \<and> xmlState q = xmlState p \<and> length (errMsg q) > length (errMsg p)"
proof -
  let ?p0 = "p\<lparr>inChardata := False, xmlState := ''paramdef'' # xmlState p\<rparr>"
  obtain ok p1 m where d: "doParamDef w (att_map kvs) ?p0 = Inr (ok, p1)" "same_core ?p0 p1"
    "xmlState p1 = ''paramdef'' # xmlState p" "errMsg p1 = errMsg p @ m"
    "rd_valueparameterName (currentParamDef p1) = None"
    using doParamDef_frame [of w "att_map kvs" ?p0] by auto
  have 1: "sax_step w rd (Start ''paramdef'' kvs) p = Inr p1"
    using assms d(1)
    by (auto simp: local_paramdefs_def sax_step_def startElement_def path_simps)
  obtain p2 where 2: "sax_run w rd (concat (map leaf_events ls)) p1 = Inr p2" "same_core p1 p2"
    "xmlState p2 = ''paramdef'' # xmlState p" "currentParamDef p2 = currentParamDef p1" "errMsg p2 = errMsg p1"
    using leaves_ignored [OF assms d(3)] d(3) by metis
  let ?p3 = "p2\<lparr>inChardata := False, chardata := []\<rparr>"
  obtain m' where "parser_addParamDef w ?p3 = Inr (False, clear_def w (error_msg m' ?p3))"
    using addParamDef_unnamed [of ?p3 w] 2(4) d(5) by auto
  then have 3: "sax_step w rd (End ''paramdef'') p2 =
      Inr ((clear_def w (error_msg m' ?p3))\<lparr>xmlState := xmlState p\<rparr>)"
    using assms 2(3)
    by (auto simp: local_paramdefs_def sax_step_def endElement_def path_simps clear_def_def error_msg_def)
  show ?thesis
    using d(2,4) 2(2,5) by (simp add: 1 sax_run_append 2(1) 3 clear_def_def error_msg_def same_core_def)
qed

theorem request_paramdefs_rejected_witness:
  "\<exists>q. sax_run sample_world (parseFile 0 sample_world)
     (Start ''paramdef'' [(''id'', ''T'')]
      # concat (map leaf_events [(''valueparameter'', [(''name'', ''temp''), (''unit'', ''K'')])]) @ [End ''paramdef''])
     (sample_parser\<lparr>xmlState := [''paramdefs'', ''request'', ''requests'', ''wdb2ts'']\<rparr>) = Inr q
   \<and> currentParamDefConfig q = [] \<and> errMsg q \<noteq> []"
proof -
  let ?p = "sample_parser\<lparr>xmlState := [''paramdefs'', ''request'', ''requests'', ''wdb2ts'']\<rparr>"
  have "local_paramdefs (xmlState ?p)" by (simp add: local_paramdefs_def)
  moreover have "currentParamDefConfig ?p = []" "errMsg ?p = []"
    by (simp_all add: sample_parser_def parser_new_def)
  ultimately show ?thesis
    using request_paramdefs_rejected [of ?p sample_world "parseFile 0 sample_world" "[(''id'', ''T'')]"
        "[(''valueparameter'', [(''name'', ''temp''), (''unit'', ''K'')])]"]
    by fastforce
qed

end
