(* ===== verification/App.thy ===== *)
theory App
  imports ConfReading HandlerManager
begin

text \<open>
  \<open>Wdb2TsApp\<close> (\<open>src/src/mod_wdb2ts/wdb2TsApp.cpp\<close>) and \<open>requestHandlerFactory\<close>: the handlers of
  a configuration are made and registered. What the virtual \<open>configure\<close> of a handler does with
  its configuration is outside; the calls are recorded with their arguments.
\<close>

section \<open>Making the handlers\<close>

text \<open>A handler is named by its class and, in brackets, its note.\<close>

definition make_handler :: "string \<Rightarrow> ver \<Rightarrow> handler" where
  "make_handler cls v = \<lparr>hname = cls, majorVersion = majorVer v, minorVersion = minorVer v\<rparr>"

definition requestHandlerFactory :: "string \<Rightarrow> ver \<Rightarrow> handler option" where
  "requestHandlerFactory i v =
     (if i = ''Location'' then Some (make_handler ''LocationHandler'' v)
      else if i = ''LocationForecast'' then Some (make_handler ''LocationForecastHandler()'' v)
      else if i = ''LocationForecast2'' then Some (make_handler ''LocationForecastHandler(2)'' v)
      else if i = ''LocationForecast3'' then Some (make_handler ''LocationForecastHandler(3)'' v)
      else if i = ''LocationForecastUpdate'' then Some (make_handler ''LocationForecastUpdateHandler'' v)
      else if i = ''LocationForecastGml'' then Some (make_handler ''LocationForecastGmlHandler'' v)
      else if i = ''LocationForecast4'' then Some (make_handler ''LocationForecastHandler2(3)'' v)
      else if i = ''LocationForecast5'' then Some (make_handler ''LocationForecastHandler2(4)'' v)
      else None)"

section \<open>Configuring them\<close>

text \<open>\<open>doConfigure\<close>: the handler with its log prefix, configuration and query.\<close>

record 'f app_state =
  app_reg :: registry
  app_calls :: "(string \<times> handler \<times> string \<times> ('f, unit) request_conf \<times> query_def) list"
  app_paramDefs :: "'f param_def_list"

definition app_start :: "'f app_state" where
  "app_start = \<lparr>app_reg = [], app_calls = [], app_paramDefs = param_def_list\<rparr>"

definition log_prefix :: "string \<Rightarrow> ver \<Rightarrow> string result" where
  "log_prefix path v =
     (case replaceString path '' '' ''_'' 0 of
        None \<Rightarrow> Inl Undefined_behaviour
      | Some s1 \<Rightarrow>
          (case replaceString s1 ''/'' ''.'' 0 of
             None \<Rightarrow> Inl Undefined_behaviour
           | Some s2 \<Rightarrow>
               Inr ((if s2 \<noteq> [] \<and> hd s2 = CHR ''.'' then str_erase s2 0 1 else s2) @ ''_'' @ ver_asString v)))"

definition asString_throw :: "val \<Rightarrow> string result" where
  "asString_throw v = (case v of None \<Rightarrow> Inl (Logic_error ''Value is undefined.'') | Some s \<Rightarrow> Inr s)"

text \<open>
  One version of a request. \<open>asString\<close> throws for a version without an action; the exception
  leaves \<open>configureRequestsHandlers\<close>.
\<close>

definition configure_version ::
  "('f, unit) config \<Rightarrow> string \<Rightarrow> ('f, unit) request_conf \<Rightarrow> 'f app_state \<Rightarrow> 'f app_state result"
where
  "configure_version c path v s =
     bind_result (asString_throw (action v)) (\<lambda>act.
       case requestHandlerFactory act (rversion v) of
         None \<Rightarrow> Inr s
       | Some h \<Rightarrow>
           bind_result (log_prefix path (rversion v)) (\<lambda>prefix.
             let (ok, reg) = addRequestHandler (app_reg s) h path;
                 s1 = s\<lparr>app_reg := reg\<rparr>
             in if \<not> ok then Inr s1
                else Inr (s1\<lparr>app_calls := app_calls s1 @
                       [(path, h, prefix, v, config_query c (asString_or (queryid v) []))]\<rparr>)))"

fun configure_versions ::
  "('f, unit) config \<Rightarrow> string \<Rightarrow> (nat \<times> ('f, unit) request_conf) list \<Rightarrow> 'f app_state \<Rightarrow> 'f app_state result"
where
  "configure_versions c path [] s = Inr s"
| "configure_versions c path (v # vs) s =
     bind_result (configure_version c path (snd v) s) (configure_versions c path vs)"

definition install_default :: "string \<Rightarrow> ver \<Rightarrow> 'f app_state \<Rightarrow> 'f app_state" where
  "install_default path v s =
     (if \<not> invalid v \<and> majorVer v \<ge> 0 \<and> minorVer v \<ge> 0
      then s\<lparr>app_reg := snd (setDefaultRequestHandler (app_reg s) path (majorVer v) (minorVer v))\<rparr>
      else s)"

definition configure_request ::
  "('f, unit) config \<Rightarrow> ('f, unit) request \<Rightarrow> 'f app_state \<Rightarrow> 'f app_state result"
where
  "configure_request c r s =
     (case rpath r of
        None \<Rightarrow> Inr s
      | Some path \<Rightarrow>
          bind_result (configure_versions c path (requestVersions r) s) (\<lambda>s1.
            Inr (install_default path (rversion (requestDefault r)) s1)))"

fun configure_requests ::
  "('f, unit) config \<Rightarrow> (string \<times> ('f, unit) request) list \<Rightarrow> 'f app_state \<Rightarrow> 'f app_state result"
where
  "configure_requests c [] s = Inr s"
| "configure_requests c (pr # prs) s =
     bind_result (configure_request c (snd pr) s) (configure_requests c prs)"

definition configureRequestsHandlers :: "('f, unit) config \<Rightarrow> 'f app_state \<Rightarrow> 'f app_state result" where
  "configureRequestsHandlers c s = configure_requests c (cfg_requests c) s"

text \<open>
  \<open>readConfiguration\<close>: nothing happens when the file cannot be read (\<^const>\<open>None\<close>) or parsed.
\<close>

definition readConfiguration ::
  "'f world \<Rightarrow> string \<Rightarrow> string option \<Rightarrow> 'f app_state \<Rightarrow> 'f app_state result"
where
  "readConfiguration w sysconfdir content s =
     (case content of
        None \<Rightarrow> Inr s
      | Some buf \<Rightarrow>
          bind_result (parseBuf 32 w (parser_new w sysconfdir 0) buf) (\<lambda>(config, q).
            case config of
              None \<Rightarrow> Inr s
            | Some c \<Rightarrow> configureRequestsHandlers c (s\<lparr>app_paramDefs := paramDefs (cfg_paramdef c) []\<rparr>)))"

section \<open>The protocol of the database\<close>

text \<open>
  \<open>wciProtocol\<close>. The argument is the version the database reports, \<^const>\<open>None\<close> when the query
  throws. A number outside \<open>int\<close> is undefined.
\<close>

definition protocol_of :: "int \<Rightarrow> int \<Rightarrow> int \<Rightarrow> int" where
  "protocol_of major minor patch =
     (if major = 0 \<and> minor \<le> 7 then 1
      else if major = 0 \<and> minor = 8 then 2
      else if major = 0 \<and> minor = 9 \<and> patch > 1 \<and> patch \<le> 4 then 3
      else if major = 0 \<and> minor = 9 \<and> patch = 5 then 4
      else if major = 0 \<and> minor = 9 \<and> patch = 6 then 5
      else if major = 0 \<and> minor = 9 \<and> patch \<ge> 7 then 6
      else if major = 1 \<and> minor = 0 then 6
      else 6)"

definition wciProtocol :: "string option \<Rightarrow> int result" where
  "wciProtocol reported =
     (case reported of
        None \<Rightarrow> Inr (-1)
      | Some vtext \<Rightarrow>
          (case find_idx isdigit vtext of
             None \<Rightarrow> Inr 1
           | Some i \<Rightarrow>
               (case splitstr (drop i vtext) (CHR ''.'') dquote of
                  None \<Rightarrow> Inl Undefined_behaviour
                | Some (a # b # rest) \<Rightarrow>
                    (case (sscanf_d (c_str a), sscanf_d (c_str b)) of
                       (Scan_overflow, _) \<Rightarrow> Inl Undefined_behaviour
                     | (No_match, _) \<Rightarrow> Inr 1
                     | (Scanned major, Scan_overflow) \<Rightarrow> Inl Undefined_behaviour
                     | (Scanned major, No_match) \<Rightarrow> Inr 1
                     | (Scanned major, Scanned minor) \<Rightarrow>
                         (case rest of
                            [] \<Rightarrow> Inr (protocol_of major minor (-1))
                          | p # _ \<Rightarrow>
                              (case sscanf_d (c_str p) of
                                 Scan_overflow \<Rightarrow> Inl Undefined_behaviour
                               | No_match \<Rightarrow> Inr (protocol_of major minor (-1))
                               | Scanned patch \<Rightarrow> Inr (protocol_of major minor patch))))
                | Some _ \<Rightarrow> Inr 1)))"

section \<open>What a configuration serves\<close>

definition hver :: "ver \<Rightarrow> hversion" where
  "hver v = HVersion (majorVer v) (minorVer v)"

text \<open>The handler of the first of these versions that has this number and a known action.\<close>

definition handler_in :: "(nat \<times> ('f, unit) request_conf) list \<Rightarrow> hversion \<Rightarrow> handler option" where
  "handler_in vs v =
     first_some (\<lambda>w. if hver (rversion (snd w)) = v
                     then requestHandlerFactory (the (action (snd w))) (rversion (snd w)) else None) vs"

definition default_version :: "('f, unit) request \<Rightarrow> hversion option" where
  "default_version r =
     (let v = rversion (requestDefault r)
      in if \<not> invalid v \<and> majorVer v \<ge> 0 \<and> minorVer v \<ge> 0 then Some (hver v) else None)"

definition request_table :: "('f, unit) request \<Rightarrow> hversion \<Rightarrow> handler option" where
  "request_table r v =
     (case handler_in (requestVersions r) v of
        Some h \<Rightarrow> Some h
      | None \<Rightarrow> (if v = version0
                 then (case default_version r of None \<Rightarrow> None | Some d \<Rightarrow> handler_in (requestVersions r) d)
                 else None))"

definition config_table :: "('f, unit) config \<Rightarrow> string \<times> hversion \<Rightarrow> handler option" where
  "config_table c = (\<lambda>(path, v).
     case map_of (cfg_requests c) path of None \<Rightarrow> None | Some r \<Rightarrow> request_table r v)"

definition actions_set :: "('f, unit) config \<Rightarrow> bool" where
  "actions_set c \<longleftrightarrow> (\<forall>pr \<in> set (cfg_requests c). \<forall>v \<in> set (requestVersions (snd pr)). action (snd v) \<noteq> None)"

lemma log_prefix_total: "\<exists>s. log_prefix path v = Inr s"
  by (simp add: log_prefix_def replaceString_ref)

lemma factory_version:
  "requestHandlerFactory i v = Some h \<Longrightarrow> HVersion (majorVersion h) (minorVersion h) = hver v"
  by (auto simp: requestHandlerFactory_def make_handler_def hver_def split: if_splits)

lemma configure_version_ok:
  assumes "action v \<noteq> None"
  shows "\<exists>s'. configure_version c path v s = Inr s' \<and>
    reg_abs (app_reg s') = (\<lambda>(p, u).
      if p = path \<and> reg_abs (app_reg s) (p, u) = None \<and> hver (rversion v) = u
      then requestHandlerFactory (the (action v)) (rversion v) else reg_abs (app_reg s) (p, u))"
proof -
  obtain act where act: "action v = Some act" using assms by auto
  show ?thesis
  proof (cases "requestHandlerFactory act (rversion v)")
    case None
    with act show ?thesis by (auto simp: configure_version_def asString_throw_def fun_eq_iff)
  next
    case (Some h)
    obtain pre where pre: "log_prefix path (rversion v) = Inr pre" using log_prefix_total by blast
    obtain ok reg where a: "addRequestHandler (app_reg s) h path = (ok, reg)" by fastforce
    then have "ok \<longleftrightarrow> reg_abs (app_reg s) (path, hver (rversion v)) = None"
      "reg_abs reg = (if reg_abs (app_reg s) (path, hver (rversion v)) = None
         then (reg_abs (app_reg s))((path, hver (rversion v)) \<mapsto> h) else reg_abs (app_reg s))"
      using put_version_abs [of "app_reg s" path "hver (rversion v)" h] factory_version [OF Some]
      by (simp_all add: add_abs)
    with act Some pre a show ?thesis
      by (auto simp: configure_version_def asString_throw_def fun_eq_iff)
  qed
qed

lemma configure_versions_ok:
  "\<forall>v \<in> set vs. action (snd v) \<noteq> None \<Longrightarrow>
   \<exists>s'. configure_versions c path vs s = Inr s' \<and>
     reg_abs (app_reg s') = (\<lambda>(p, u).
       if p = path \<and> reg_abs (app_reg s) (p, u) = None then handler_in vs u else reg_abs (app_reg s) (p, u))"
proof (induction vs arbitrary: s)
  case Nil
  then show ?case by (auto simp: handler_in_def fun_eq_iff)
next
  case (Cons v vs)
  from configure_version_ok [of "snd v" c path s] Cons.prems obtain s1 where
    s1: "configure_version c path (snd v) s = Inr s1"
      "reg_abs (app_reg s1) = (\<lambda>(p, u).
        if p = path \<and> reg_abs (app_reg s) (p, u) = None \<and> hver (rversion (snd v)) = u
        then requestHandlerFactory (the (action (snd v))) (rversion (snd v)) else reg_abs (app_reg s) (p, u))"
    by auto
  from Cons.IH [of s1] Cons.prems obtain s' where
    s': "configure_versions c path vs s1 = Inr s'"
      "reg_abs (app_reg s') = (\<lambda>(p, u).
        if p = path \<and> reg_abs (app_reg s1) (p, u) = None then handler_in vs u else reg_abs (app_reg s1) (p, u))"
    by auto
  have "reg_abs (app_reg s') (p, u) =
      (if p = path \<and> reg_abs (app_reg s) (p, u) = None then handler_in (v # vs) u else reg_abs (app_reg s) (p, u))"
    for p u
    unfolding s'(2) s1(2) by (auto simp: handler_in_def split: option.split)
  with s1(1) s'(1) show ?case by (auto simp: fun_eq_iff)
qed

lemma install_default_reg:
  "reg_abs (app_reg (install_default path v s)) =
     (if \<not> invalid v \<and> majorVer v \<ge> 0 \<and> minorVer v \<ge> 0
      then (case reg_abs (app_reg s) (path, hver v) of
              None \<Rightarrow> reg_abs (app_reg s)
            | Some h \<Rightarrow> if reg_abs (app_reg s) (path, version0) = None
                       then (reg_abs (app_reg s))((path, version0) \<mapsto> h) else reg_abs (app_reg s))
      else reg_abs (app_reg s))"
  by (simp add: install_default_def set_default_abs hver_def)

lemma configure_request_ok:
  assumes "\<forall>v \<in> set (requestVersions r). action (snd v) \<noteq> None" "rpath r = Some path"
    and "\<forall>u. reg_abs (app_reg s) (path, u) = None"
  shows "\<exists>s'. configure_request c r s = Inr s' \<and>
    reg_abs (app_reg s') = (\<lambda>(p, u). if p = path then request_table r u else reg_abs (app_reg s) (p, u))"
proof -
  from configure_versions_ok [OF assms(1), of c path s] assms(3) obtain s1 where
    s1: "configure_versions c path (requestVersions r) s = Inr s1"
      "reg_abs (app_reg s1) = (\<lambda>(p, u). if p = path then handler_in (requestVersions r) u else reg_abs (app_reg s) (p, u))"
    by fastforce
  have "reg_abs (app_reg (install_default path (rversion (requestDefault r)) s1)) (p, u) =
      (if p = path then request_table r u else reg_abs (app_reg s) (p, u))" for p u
    unfolding install_default_reg s1(2)
    by (auto simp: request_table_def default_version_def Let_def split: option.split)
  with s1(1) assms(2) show ?thesis by (auto simp: configure_request_def fun_eq_iff)
qed

lemma configure_requests_ok:
  assumes "distinct (map fst prs)" "\<forall>pr \<in> set prs. rpath (snd pr) = Some (fst pr)"
    "\<forall>pr \<in> set prs. \<forall>v \<in> set (requestVersions (snd pr)). action (snd v) \<noteq> None"
    "\<forall>pr \<in> set prs. \<forall>u. reg_abs (app_reg s) (fst pr, u) = None"
  shows "\<exists>s'. configure_requests c prs s = Inr s' \<and>
    reg_abs (app_reg s') = (\<lambda>(p, u). case map_of prs p of
      Some r \<Rightarrow> request_table r u | None \<Rightarrow> reg_abs (app_reg s) (p, u))"
  using assms
proof (induction prs arbitrary: s)
  case Nil
  then show ?case by (auto simp: fun_eq_iff)
next
  case (Cons pr prs)
  from configure_request_ok [of "snd pr" "fst pr" s c] Cons.prems obtain s1 where
    s1: "configure_request c (snd pr) s = Inr s1"
      "reg_abs (app_reg s1) = (\<lambda>(p, u). if p = fst pr then request_table (snd pr) u else reg_abs (app_reg s) (p, u))"
    by auto
  have "\<forall>pr' \<in> set prs. \<forall>u. reg_abs (app_reg s1) (fst pr', u) = None"
    using Cons.prems unfolding s1(2) by (auto simp: image_iff)
  from Cons.IH [OF _ _ _ this] Cons.prems obtain s' where
    s': "configure_requests c prs s1 = Inr s'"
      "reg_abs (app_reg s') = (\<lambda>(p, u). case map_of prs p of
        Some r \<Rightarrow> request_table r u | None \<Rightarrow> reg_abs (app_reg s1) (p, u))" by auto
  have "map_of prs (fst pr) = None" using Cons.prems(1) by (simp add: map_of_eq_None_iff)
  then have "reg_abs (app_reg s') (p, u) = (case map_of (pr # prs) p of
      Some r \<Rightarrow> request_table r u | None \<Rightarrow> reg_abs (app_reg s) (p, u))" for p u
    unfolding s'(2) s1(2) by (auto split: option.split)
  with s1(1) s'(1) show ?case by (auto simp: fun_eq_iff)
qed

lemma configure_config:
  assumes "config_ok c" "actions_set c" "app_reg s = []"
  shows "\<exists>s'. configureRequestsHandlers c s = Inr s' \<and> reg_abs (app_reg s') = config_table c"
proof -
  have e: "reg_abs (app_reg s) x = None" for x using assms(3) by (cases x) (simp add: reg_abs_def versions_of_def)
  have d: "distinct (map fst (cfg_requests c))" using assms(1) omap.keys_distinct by (auto simp: config_ok_def)
  then have "\<forall>pr \<in> set (cfg_requests c). rpath (snd pr) = Some (fst pr)"
    using assms(1) by (auto simp: config_ok_def named_def)
  from configure_requests_ok [OF d this assms(2) [unfolded actions_set_def], of s c] show ?thesis
    by (auto simp: configureRequestsHandlers_def config_table_def e fun_eq_iff split: option.split)
qed

section \<open>Properties\<close>

text \<open>
  After the configuration file was read, the registry holds exactly what the file says: for
  every request and version the handler of the first version element with that number and a
  known action, under the number 0.0 the handler of the default version, and nothing else.
\<close>

theorem readConfiguration_correct:
  assumes "parseBuf 32 w (parser_new w base 0) buf = Inr (Some c, q)" "actions_set c"
  shows "\<exists>s. readConfiguration w base (Some buf) app_start = Inr s \<and> reg_abs (app_reg s) = config_table c"
proof -
  have "config_ok c" using config_read_ok [OF assms(1)] .
  from configure_config [OF this assms(2), of "app_start\<lparr>app_paramDefs := paramDefs (cfg_paramdef c) []\<rparr>"]
  show ?thesis by (simp add: readConfiguration_def assms(1) app_start_def)
qed

abbreviation no_action :: "'a app_state result" where "no_action \<equiv> Inl (Logic_error ''Value is undefined.'')"

lemma version_done_or_aborts: "(\<exists>s'. configure_version c p v s = Inr s') \<or> configure_version c p v s = no_action"
  using configure_version_ok [of v c p s]
  by (cases "action v") (auto simp: configure_version_def asString_throw_def)

lemma versions_done_or_abort: "(\<exists>s'. configure_versions c p vs s = Inr s') \<or> configure_versions c p vs s = no_action"
proof (induction vs arbitrary: s)
  case (Cons x xs)
  from version_done_or_aborts [of c p "snd x" s] show ?case
  proof (elim disjE exE)
    fix s' assume "configure_version c p (snd x) s = Inr s'"
    then show ?thesis using Cons.IH [of s'] by simp
  qed simp
qed simp

lemma request_done_or_aborts: "(\<exists>s'. configure_request c r s = Inr s') \<or> configure_request c r s = no_action"
  using versions_done_or_abort [of c "the (rpath r)" "requestVersions r" s]
  by (auto simp: configure_request_def split: option.split)

lemma versions_abort:
  assumes "(a, v) \<in> set vs" "action v = None"
  shows "configure_versions c p vs s = no_action"
  using assms(1)
proof (induction vs arbitrary: s)
  case (Cons x xs)
  show ?case
  proof (cases "x = (a, v)")
    case True
    then show ?thesis using assms(2) by (simp add: configure_version_def asString_throw_def)
  next
    case False
    with Cons show ?thesis using version_done_or_aborts [of c p "snd x" s] by auto
  qed
qed simp

lemma requests_abort:
  assumes "(path, r) \<in> set prs" "\<And>s. configure_request c r s = no_action"
  shows "configure_requests c prs s = no_action"
  using assms(1)
proof (induction prs arbitrary: s)
  case (Cons x xs)
  show ?case
  proof (cases "x = (path, r)")
    case False
    with Cons show ?thesis using request_done_or_aborts [of c "snd x" s] by auto
  qed (simp add: assms(2))
qed simp

text \<open>
  One version element without an action, and no default for it, is enough: the exception of
  \<open>asString\<close> leaves the configuration of the whole application.
\<close>

theorem missing_action_aborts:
  assumes "(path, r) \<in> set (cfg_requests c)" "rpath r \<noteq> None" "(a, v) \<in> set (requestVersions r)" "action v = None"
  shows "configureRequestsHandlers c s = Inl (Logic_error ''Value is undefined.'')"
proof -
  have "configure_request c r s = no_action" for s
    using assms(2) versions_abort [OF assms(3,4)] by (auto simp: configure_request_def)
  from requests_abort [OF assms(1) this] show ?thesis by (simp add: configureRequestsHandlers_def)
qed

theorem missing_action_aborts_witness:
  "configureRequestsHandlers sample_config app_start = Inl (Logic_error ''Value is undefined.'')"
  by (rule missing_action_aborts [where path = "''/x''" and r = sample_request and a = 0 and v = "sample_conf (ver 1 0)"])
    (simp_all add: sample_config_def sample_request_def sample_conf_def)

text \<open>A file with one request of two versions, both with the default action.\<close>

definition app_world :: "nat world" where
  "app_world = sample_world\<lparr>sax_parse := (\<lambda>t.
     ([Start ''wdb2ts'' [], Start ''requests'' [],
       Start ''request'' [(''path'', ''/pf''), (''action'', ''Location''), (''default_version'', ''1.0'')],
       Start ''version'' [(''version'', ''1.0'')], End ''version'',
       Start ''version'' [(''version'', ''1.2'')], End ''version'',
       End ''request'', End ''requests'', End ''wdb2ts''], True))\<rparr>"

lemma app_world_config:
  "\<exists>c q r. parseBuf 32 app_world (parser_new app_world ''/etc'' 0) [] = Inr (Some c, q) \<and> actions_set c
     \<and> map_of (cfg_requests c) ''/pf'' = Some r
     \<and> handler_in (requestVersions r) (HVersion 1 2) = requestHandlerFactory ''Location'' (ver 1 2)
     \<and> request_table r version0 = requestHandlerFactory ''Location'' (ver 1 0)"
proof -
  have "case parseBuf 32 app_world (parser_new app_world ''/etc'' 0) [] of
      Inr (Some c, q) \<Rightarrow>
        list_all (\<lambda>pr. list_all (\<lambda>v. action (snd v) \<noteq> None) (requestVersions (snd pr))) (cfg_requests c)
        \<and> (case map_of (cfg_requests c) ''/pf'' of
             None \<Rightarrow> False
           | Some r \<Rightarrow> handler_in (requestVersions r) (HVersion 1 2) = requestHandlerFactory ''Location'' (ver 1 2)
               \<and> request_table r version0 = requestHandlerFactory ''Location'' (ver 1 0))
    | _ \<Rightarrow> False"
    by code_simp
  then show ?thesis
    by (auto simp: actions_set_def list_all_iff split: sum.splits prod.splits option.splits)
qed

theorem readConfiguration_correct_witness:
  "\<exists>s. readConfiguration app_world ''/etc'' (Some []) app_start = Inr s
     \<and> reg_abs (app_reg s) (''/pf'', version0) = requestHandlerFactory ''Location'' (ver 1 0)"
proof -
  obtain c q r where c: "parseBuf 32 app_world (parser_new app_world ''/etc'' 0) [] = Inr (Some c, q)"
    "actions_set c" "map_of (cfg_requests c) ''/pf'' = Some r"
    "request_table r version0 = requestHandlerFactory ''Location'' (ver 1 0)"
    using app_world_config by blast
  with readConfiguration_correct [OF c(1,2)] show ?thesis by (auto simp: config_table_def)
qed

end
