(* ===== verification/Times.thy ===== *)
theory Times
  imports StringUtil
begin

text \<open>
  Times and their texts: \<open>src/src/miutil/ptimeutil.cpp\<close>. The calendar of \<open>boost\<close> is an argument,
  \<open>calendar\<close>: the fields of a time, the time of some fields (which throws for a date that does not
  exist), the weekday, and the ticks of a number of seconds. The scanning and the printing of the
  texts, character by character, are the source's.
\<close>

section \<open>Times\<close>

text \<open>
  The values of a \<open>ptime\<close> that is not \<open>not_a_date_time\<close>, in \<open>boost\<close>'s order. A proper time is the
  number of ticks since 1970-01-01.
\<close>

datatype vtime = Neg_infin | At int | Pos_infin

instantiation vtime :: linorder
begin

definition less_eq_vtime :: "vtime \<Rightarrow> vtime \<Rightarrow> bool" where
  "less_eq_vtime a b =
     (case a of
        Neg_infin \<Rightarrow> True
      | At x \<Rightarrow> (case b of Neg_infin \<Rightarrow> False | At y \<Rightarrow> x \<le> y | Pos_infin \<Rightarrow> True)
      | Pos_infin \<Rightarrow> b = Pos_infin)"

definition less_vtime :: "vtime \<Rightarrow> vtime \<Rightarrow> bool" where
  "less_vtime a b \<longleftrightarrow> a \<le> b \<and> a \<noteq> b"

instance
  by standard (auto simp: less_eq_vtime_def less_vtime_def split: vtime.splits)

end

text \<open>\<open>is_special\<close> of a \<open>ptime\<close>; \<^const>\<open>None\<close> is \<open>not_a_date_time\<close>.\<close>

definition time_special :: "vtime option \<Rightarrow> bool" where
  "time_special t = (case t of Some (At _) \<Rightarrow> False | _ \<Rightarrow> True)"

record civil =
  cyear :: nat
  cmonth :: nat
  cday :: nat
  chour :: nat
  cminute :: nat
  csecond :: nat

record calendar =
  civil_of :: "int \<Rightarrow> civil"
  ptime_of :: "civil \<Rightarrow> int result"
  weekday_of :: "int \<Rightarrow> nat"
  ticks_of :: "int \<Rightarrow> int"

section \<open>Printing\<close>

text \<open>\<open>%04d\<close> and \<open>%02d\<close> of a number that is not negative.\<close>

definition padded :: "nat \<Rightarrow> nat \<Rightarrow> string" where
  "padded w n = replicate (w - length (dec_nat n)) (CHR ''0'') @ dec_nat n"

definition civil_text :: "civil \<Rightarrow> string \<Rightarrow> string" where
  "civil_text c sep =
     padded 4 (cyear c) @ ''-'' @ padded 2 (cmonth c) @ ''-'' @ padded 2 (cday c) @ sep
     @ padded 2 (chour c) @ '':'' @ padded 2 (cminute c) @ '':'' @ padded 2 (csecond c)"

definition isotimeString :: "calendar \<Rightarrow> vtime option \<Rightarrow> bool \<Rightarrow> bool \<Rightarrow> string" where
  "isotimeString cal pt useTseparator markAsZulu =
     (case pt of
        None \<Rightarrow> []
      | Some Neg_infin \<Rightarrow> ''-infinity''
      | Some Pos_infin \<Rightarrow> ''infinity''
      | Some (At t) \<Rightarrow>
          civil_text (civil_of cal t) (if useTseparator then ''T'' else '' '') @ (if markAsZulu then ''Z'' else []))"

definition day_names :: "string list" where
  "day_names = [''Sun'', ''Mon'', ''Tue'', ''Wed'', ''Thu'', ''Fri'', ''Sat'']"

definition month_names :: "string list" where
  "month_names = [''Jan'', ''Feb'', ''Mar'', ''Apr'', ''May'', ''Jun'', ''Jul'', ''Aug'', ''Sep'', ''Oct'', ''Nov'', ''Dec'']"

definition rfc1123_string :: "calendar \<Rightarrow> vtime option \<Rightarrow> string" where
  "rfc1123_string cal pt =
     (case pt of
        Some (At t) \<Rightarrow>
          let c = civil_of cal t
          in if weekday_of cal t < 7 \<and> 1 \<le> cmonth c \<and> cmonth c \<le> 12
             then day_names ! weekday_of cal t @ '', '' @ padded 2 (cday c) @ '' '' @ month_names ! (cmonth c - 1)
                  @ '' '' @ padded 4 (cyear c) @ '' '' @ padded 2 (chour c) @ '':'' @ padded 2 (cminute c)
                  @ '':'' @ padded 2 (csecond c) @ '' GMT''
             else []
      | _ \<Rightarrow> [])"

section \<open>Reading ISO times\<close>

fun getInt_loop :: "string \<Rightarrow> nat \<Rightarrow> nat \<Rightarrow> string \<Rightarrow> (string \<times> nat) result" where
  "getInt_loop s i 0 buf = Inr (buf, i)"
| "getInt_loop s i (Suc k) buf =
     (if i \<ge> length s then Inl (Logic_error (''Invalid timeformat (to few characters). Index: '' @ dec_nat i))
      else if \<not> isdigit (s ! i) then Inl (Logic_error (''Invalid timeformat (expect a digit). Index: '' @ dec_nat i))
      else getInt_loop s (i + 1) k (buf @ [s ! i]))"

definition getInt :: "string \<Rightarrow> nat \<Rightarrow> nat \<Rightarrow> (int \<times> nat) result" where
  "getInt s i n =
     (if n > 9 then Inl (Logic_error ''Buffer owerflow.'')
      else bind_result (getInt_loop s i n []) (\<lambda>(buf, j).
             case atoi buf of None \<Rightarrow> Inl Undefined_behaviour | Some v \<Rightarrow> Inr (v, j)))"

text \<open>The table \<open>DEF def[]\<close>: the number of characters, the separators, whether there must be more.\<close>

definition iso_defs :: "(nat \<times> string \<times> bool) list" where
  "iso_defs = [(4, ''-'', True), (2, ''-'', True), (2, ''T '', False), (2, '':'', False), (2, '':'', False), (2, '' '', False)]"

text \<open>The loop over the table: the numbers read and the position, \<^const>\<open>None\<close> for \<open>npos\<close>.\<close>

fun iso_fields :: "string \<Rightarrow> (nat \<times> string \<times> bool) list \<Rightarrow> nat \<Rightarrow> int list \<Rightarrow> (int list \<times> nat option) result" where
  "iso_fields s [] i ns = Inr (ns, Some i)"
| "iso_fields s ((n, sep, must) # ds) i ns =
     bind_result (getInt s i n) (\<lambda>(v, j).
       if j \<ge> length s
       then (if must then Inl (Logic_error (''Invalid timeformat ('' @ s @ ''). Expect more characters.''))
             else Inr (ns @ [v], None))
       else (case find_idx_from (\<lambda>c. c \<notin> set sep) s j of
               None \<Rightarrow>
                 (if must then Inl (Logic_error (''Invalid timeformat ('' @ s @ ''),  decoded: '' @ quote (take j s) @ ''.''))
                  else Inr (ns @ [v], None))
             | Some j' \<Rightarrow> iso_fields s ds j' (ns @ [v])))"

text \<open>
  The offset from UTC: hours and minutes. Reading \<open>isoTime[iIsoTime]\<close> at the end of a constant string
  gives the character 0.
\<close>

definition char_at :: "string \<Rightarrow> nat \<Rightarrow> char" where
  "char_at s i = (if i < length s then s ! i else CHR 0x00)"

definition iso_offset :: "string \<Rightarrow> nat option \<Rightarrow> (int \<times> int) result" where
  "iso_offset s pos =
     (case pos of
        None \<Rightarrow> Inr (0, 0)
      | Some i \<Rightarrow>
          let ch = char_at s i
          in if ch = CHR ''z'' \<or> ch = CHR ''Z'' then Inr (0, 0)
             else if ch = CHR ''+'' \<or> ch = CHR ''-'' \<or> isdigit ch
             then (let i1 = (if isdigit ch then i else i + 1); sign = (if ch = CHR ''-'' then -1 else 1)
                   in if \<not> isdigit (char_at s i1) then Inl (Logic_error ''Invallid timeformat, expecting UTC offset'')
                      else bind_result (getInt s i1 2) (\<lambda>(h, j).
                             if j < length s \<and> isdigit (s ! j)
                             then bind_result (getInt s j 2) (\<lambda>(m, _). Inr (sign * h, m))
                             else Inr (sign * h, 0)))
             else Inr (0, 0))"

text \<open>\<open>time_duration(h, m, 0)\<close>: negative as a whole when one of its parts is.\<close>

definition duration_secs :: "int \<Rightarrow> int \<Rightarrow> int" where
  "duration_secs h m = (if h < 0 \<or> m < 0 then - (abs h * 3600 + abs m * 60) else h * 3600 + m * 60)"

definition nth_or_0 :: "int list \<Rightarrow> nat \<Rightarrow> nat" where
  "nth_or_0 ns i = (if i < length ns then nat (ns ! i) else 0)"

definition civil_of_numbers :: "int list \<Rightarrow> civil" where
  "civil_of_numbers ns =
     \<lparr>cyear = nth_or_0 ns 0, cmonth = nth_or_0 ns 1, cday = nth_or_0 ns 2,
      chour = nth_or_0 ns 3, cminute = nth_or_0 ns 4, csecond = nth_or_0 ns 5\<rparr>"

definition midnight :: "calendar \<Rightarrow> int \<Rightarrow> int result" where
  "midnight cal t = ptime_of cal ((civil_of cal t)\<lparr>chour := 0, cminute := 0, csecond := 0\<rparr>)"

section \<open>Reading RFC 1123 times\<close>

text \<open>
  The directives of \<open>sscanf(s, "%3s, %02d %3s %04d %02d:%02d:%02d %3s", ...)\<close>; a scan that fails is
  \<^const>\<open>None\<close>. A blank in the format skips any white space, also none.
\<close>

definition scan_word :: "nat \<Rightarrow> string \<Rightarrow> (string \<times> string) option" where
  "scan_word w s =
     (let s1 = dropWhile isspace s; x = takeWhile (\<lambda>c. \<not> isspace c) (take w s1)
      in if x = [] then None else Some (x, drop (length x) s1))"

definition scan_number :: "nat \<Rightarrow> string \<Rightarrow> (int \<times> string) option" where
  "scan_number w s =
     (let s1 = dropWhile isspace s; signed = (s1 \<noteq> [] \<and> (hd s1 = CHR ''-'' \<or> hd s1 = CHR ''+''));
          neg = (s1 \<noteq> [] \<and> hd s1 = CHR ''-''); s2 = (if signed then tl s1 else s1);
          ds = takeWhile isdigit (take (if signed then w - 1 else w) s2)
      in if ds = [] then None
         else Some (if neg then - int (digits_val ds) else int (digits_val ds), drop (length ds) s2))"

definition scan_lit :: "char \<Rightarrow> string \<Rightarrow> string option" where
  "scan_lit c s = (case s of [] \<Rightarrow> None | d # r \<Rightarrow> if d = c then Some r else None)"

definition rfc1123_scan :: "string \<Rightarrow> (string \<times> int \<times> string \<times> int \<times> int \<times> int \<times> int \<times> string) option" where
  "rfc1123_scan s0 =
     Option.bind (scan_word 3 s0) (\<lambda>(sday, s1).
     Option.bind (scan_lit (CHR '','') s1) (\<lambda>s2.
     Option.bind (scan_number 2 s2) (\<lambda>(day, s3).
     Option.bind (scan_word 3 s3) (\<lambda>(smon, s4).
     Option.bind (scan_number 4 s4) (\<lambda>(year, s5).
     Option.bind (scan_number 2 s5) (\<lambda>(h, s6).
     Option.bind (scan_lit (CHR '':'') s6) (\<lambda>s7.
     Option.bind (scan_number 2 s7) (\<lambda>(m, s8).
     Option.bind (scan_lit (CHR '':'') s8) (\<lambda>s9.
     Option.bind (scan_number 2 s9) (\<lambda>(s, s10).
     Option.bind (scan_word 3 s10) (\<lambda>(gmt, s11).
       Some (sday, day, smon, year, h, m, s, gmt))))))))))))"

text \<open>The result \<^const>\<open>None\<close> is \<open>not_a_date_time\<close>; \<open>ptime_of\<close> throws where \<open>boost\<close>'s constructors do.
  The year goes to them as an \<open>unsigned short\<close>.\<close>

definition rfc1123date :: "calendar \<Rightarrow> string \<Rightarrow> int option result" where
  "rfc1123date cal txt =
     (case rfc1123_scan (c_str txt) of
        None \<Rightarrow> Inr None
      | Some (sday, day, smon, year, h, m, s, gmt) \<Rightarrow>
          if gmt \<noteq> ''GMT'' then Inr None
          else (case find_idx (\<lambda>x. x = smon) month_names of
                  None \<Rightarrow> Inr None
                | Some mon \<Rightarrow>
                    (case find_idx (\<lambda>x. x = sday) day_names of
                       None \<Rightarrow> Inr None
                     | Some wd \<Rightarrow>
                         if day < 0 \<or> day > 31 \<or> h < 0 \<or> h > 23 \<or> m < 0 \<or> m > 59 \<or> s < 0 \<or> s > 60 then Inr None
                         else bind_result (ptime_of cal \<lparr>cyear = nat (year mod 65536), cmonth = mon + 1, cday = nat day,
                                                         chour = nat h, cminute = nat m, csecond = nat s\<rparr>)
                                (\<lambda>t. Inr (if wd = weekday_of cal t then Some t else None)))))"

text \<open>\<open>now\<close> is the clock.\<close>

definition ptimeFromIsoString :: "calendar \<Rightarrow> int \<Rightarrow> string \<Rightarrow> vtime result" where
  "ptimeFromIsoString cal now s =
     (if s = ''infinity'' then Inr Pos_infin
      else if s = ''-infinity'' then Inr Neg_infin
      else if s = ''epoch''
      then bind_result (ptime_of cal \<lparr>cyear = 1970, cmonth = 1, cday = 1, chour = 0, cminute = 0, csecond = 0\<rparr>) (\<lambda>t. Inr (At t))
      else if s = ''now'' then Inr (At now)
      else if s = ''today'' then bind_result (midnight cal now) (\<lambda>t. Inr (At t))
      else if s = ''tomorrow'' then bind_result (midnight cal (now + ticks_of cal 86400)) (\<lambda>t. Inr (At t))
      else if s = ''yesterday'' then bind_result (midnight cal (now - ticks_of cal 86400)) (\<lambda>t. Inr (At t))
      else (case find_idx (\<lambda>c. c \<noteq> CHR '' '') s of
              None \<Rightarrow> Inl (Logic_error ''No timestring to decode.'')
            | Some i \<Rightarrow>
                if \<not> isdigit (s ! i)
                then bind_result (rfc1123date cal s) (\<lambda>r.
                       case r of None \<Rightarrow> Inl (Logic_error (''Invalid timeformat '' @ quote s @ ''.'')) | Some t \<Rightarrow> Inr (At t))
                else bind_result (iso_fields s iso_defs i []) (\<lambda>(ns, pos).
                     bind_result (iso_offset s pos) (\<lambda>(h, m).
                     bind_result (ptime_of cal (civil_of_numbers ns)) (\<lambda>t.
                       Inr (At (t - ticks_of cal (duration_secs h m))))))))"

text \<open>
  \<open>to_time_t\<close>: seconds since the epoch; \<open>secs\<close> is the whole seconds of a number of ticks.
  \<open>nearesTimeInTheFuture\<close>: the next multiple of the resolution since midnight, and the offset.
\<close>

definition to_time_t :: "(int \<Rightarrow> int) \<Rightarrow> (vtime option \<Rightarrow> string) \<Rightarrow> vtime option \<Rightarrow> int result" where
  "to_time_t secs shw t =
     (case t of
        Some (At x) \<Rightarrow>
          if x < 0 then Inl (Range_error (''The time '' @ quote (shw t) @ '' is before the epoch ('' @ shw (Some (At 0)) @ '').''))
          else Inr (secs x)
      | _ \<Rightarrow> Inl (Range_error ''The time is undefined.''))"

definition day_seconds :: "civil \<Rightarrow> int" where
  "day_seconds c = int (chour c) * 3600 + int (cminute c) * 60 + int (csecond c)"

definition ceil_div :: "int \<Rightarrow> int \<Rightarrow> int" where
  "ceil_div a b = - ((- a) div b)"

definition nearesTimeInTheFuture :: "calendar \<Rightarrow> int \<Rightarrow> int \<Rightarrow> int option \<Rightarrow> int \<Rightarrow> int result" where
  "nearesTimeInTheFuture cal now res refTime offs =
     (let from = (case refTime of None \<Rightarrow> now | Some t \<Rightarrow> t)
      in if res = 0 then Inl Undefined_behaviour
         else let q = ceil_div (day_seconds (civil_of cal from)) res
              in bind_result (midnight cal from) (\<lambda>d. Inr (d + ticks_of cal (q * res + offs))))"

section \<open>Round trips\<close>

lemma length_dec_nat: "n < 10 ^ w \<Longrightarrow> 0 < w \<Longrightarrow> length (dec_nat n) \<le> w"
proof (induction w arbitrary: n)
  case (Suc w)
  show ?case
  proof (cases "n < 10")
    case False
    then have "w > 0" using Suc.prems by (cases w) auto
    moreover have "n div 10 < 10 ^ w" using Suc.prems by (simp add: less_mult_imp_div_less mult.commute)
    ultimately show ?thesis using Suc.IH [of "n div 10"] False by (simp add: dec_nat.simps [of n])
  qed (simp add: dec_nat.simps [of n])
qed simp

lemma digits_val_zeros: "digits_val (replicate k (CHR ''0'') @ s) = digits_val s"
proof -
  have "foldl (\<lambda>a c. 10 * a + digit_val c) 0 (replicate k (CHR ''0'')) = 0"
    by (induction k) (simp_all add: digit_val_def)
  then show ?thesis by (simp add: digits_val_def)
qed

lemma padded_number:
  assumes "n < 10 ^ w" "0 < w"
  shows "length (padded w n) = w" "\<forall>c \<in> set (padded w n). isdigit c" "digits_val (padded w n) = n"
  using length_dec_nat [OF assms] dec_nat_digits [of n]
  by (auto simp: padded_def digits_val_zeros isdigit_def)

lemma getInt_loop_digits:
  assumes "\<forall>c \<in> set v. isdigit c"
  shows "getInt_loop (u @ v @ w) (length u) (length v) buf = Inr (buf @ v, length u + length v)"
  using assms
proof (induction v arbitrary: u buf)
  case (Cons c v)
  from Cons.IH [of "u @ [c]" "buf @ [c]"] Cons.prems show ?case by (simp add: nth_append)
qed simp

lemma getInt_padded:
  assumes "n < 10 ^ w" "0 < w" "w \<le> 9"
  shows "getInt (u @ padded w n @ t) (length u) w = Inr (int n, length u + w)"
proof -
  note p = padded_number [OF assms(1,2)]
  have "n < 10 ^ 9" using assms(1) power_increasing [of w 9 "10::nat"] assms(3) by simp
  then have le: "int (digits_val (padded w n)) \<le> int_max" using p(3) by (simp add: int_max_def)
  have "padded w n \<noteq> []" using p(1) assms(2) by auto
  then have "atoi (padded w n) = Some (int n)"
    using sscanf_d_digits [OF _ p(2) le] p(3) by (simp add: atoi_def)
  then show ?thesis
    using getInt_loop_digits [OF p(2), of u t "[]"] p(1) assms(3) by (simp add: getInt_def)
qed

lemma find_from_after:
  "x \<notin> set sep \<Longrightarrow> y \<in> set sep \<Longrightarrow> find_idx_from (\<lambda>c. c \<notin> set sep) (u @ y # x # t) (length u) = Some (length u + 1)"
  by (simp add: find_idx_from_def)

text \<open>One round of the loop, on a number, a separator and more.\<close>

lemma iso_fields_round:
  assumes "n < 10 ^ w" "0 < w" "w \<le> 9" "y \<in> set sep" "x \<notin> set sep"
  shows "iso_fields (u @ padded w n @ y # x # t) ((w, sep, must) # ds) (length u) ns =
    iso_fields ((u @ padded w n @ [y]) @ x # t) ds (length (u @ padded w n @ [y])) (ns @ [int n])"
proof -
  have "length (padded w n) = w" using padded_number [OF assms(1,2)] by simp
  moreover from this have "find_idx_from (\<lambda>c. c \<notin> set sep) (u @ padded w n @ y # x # t) (length u + w) = Some (length u + w + 1)"
    using find_from_after [OF assms(5,4), of "u @ padded w n" t] by simp
  ultimately show ?thesis using getInt_padded [OF assms(1-3), of u "y # x # t"] by simp
qed

text \<open>The last number, with nothing or a \<open>Z\<close> after it.\<close>

lemma iso_fields_last:
  assumes "n < 100" "z = [] \<or> z = ''Z''"
  shows "iso_fields (u @ padded 2 n @ z) [(2, '' '', False)] (length u) ns =
    Inr (ns @ [int n], if z = [] then None else Some (length u + 2))"
proof -
  have "n < 10 ^ 2" using assms(1) by simp
  note p = padded_number(1) [OF this] and g = getInt_padded [OF this, of u z]
  have "find_idx_from (\<lambda>c. c \<notin> {CHR '' ''}) (u @ padded 2 n @ ''Z'') (length u + 2) = Some (length u + 2)"
    using p by (simp add: find_idx_from_def)
  with p g assms(2) show ?thesis by auto
qed

definition civil_ok :: "civil \<Rightarrow> bool" where
  "civil_ok c \<longleftrightarrow> cyear c < 10000 \<and> 1 \<le> cmonth c \<and> cmonth c \<le> 12 \<and> 1 \<le> cday c \<and> cday c \<le> 31
     \<and> chour c < 24 \<and> cminute c < 60 \<and> csecond c < 60"

lemma padded_head: "n < 100 \<Longrightarrow> \<exists>x r. padded 2 n @ t = x # r \<and> isdigit x"
proof -
  assume "n < 100"
  then have "n < 10 ^ 2" by simp
  note p = padded_number [OF this]
  then obtain x r where "padded 2 n = x # r" by (cases "padded 2 n") auto
  with p(2) show ?thesis by auto
qed

lemma iso_fields_civil:
  assumes "civil_ok c" "sep = CHR ''T'' \<or> sep = CHR '' ''" "z = [] \<or> z = ''Z''"
  shows "iso_fields (civil_text c [sep] @ z) iso_defs 0 [] =
    Inr ([int (cyear c), int (cmonth c), int (cday c), int (chour c), int (cminute c), int (csecond c)],
         if z = [] then None else Some 19)"
proof -
  have lt: "cyear c < 10 ^ 4" "cmonth c < 100" "cday c < 100" "chour c < 100" "cminute c < 100" "csecond c < 100"
    using assms(1) by (simp_all add: civil_ok_def)
  have two: "n < 10 ^ 2" if "n < 100" for n :: nat using that by simp
  note len = padded_number(1) [OF lt(1)] padded_number(1) [OF two [OF lt(2)]] padded_number(1) [OF two [OF lt(3)]]
    padded_number(1) [OF two [OF lt(4)]] padded_number(1) [OF two [OF lt(5)]]
  obtain x5 r5 where s5: "padded 2 (csecond c) @ z = x5 # r5" "isdigit x5" using padded_head [OF lt(6)] by blast
  obtain x4 r4 where s4: "padded 2 (cminute c) @ CHR '':'' # x5 # r5 = x4 # r4" "isdigit x4" using padded_head [OF lt(5)] by blast
  obtain x3 r3 where s3: "padded 2 (chour c) @ CHR '':'' # x4 # r4 = x3 # r3" "isdigit x3" using padded_head [OF lt(4)] by blast
  obtain x2 r2 where s2: "padded 2 (cday c) @ sep # x3 # r3 = x2 # r2" "isdigit x2" using padded_head [OF lt(3)] by blast
  obtain x1 r1 where s1: "padded 2 (cmonth c) @ CHR ''-'' # x2 # r2 = x1 # r1" "isdigit x1" using padded_head [OF lt(2)] by blast
  have no: "x \<notin> set ''-''" "x \<notin> set '':''" "x \<notin> set ''T ''" if "isdigit x" for x
    using that by (auto simp: isdigit_def)
  let ?u1 = "padded 4 (cyear c) @ ''-''"
  let ?u2 = "?u1 @ padded 2 (cmonth c) @ ''-''"
  let ?u3 = "?u2 @ padded 2 (cday c) @ [sep]"
  let ?u4 = "?u3 @ padded 2 (chour c) @ '':''"
  let ?u5 = "?u4 @ padded 2 (cminute c) @ '':''"
  let ?n = "[int (cyear c), int (cmonth c), int (cday c), int (chour c), int (cminute c)]"
  have "civil_text c [sep] @ z = padded 4 (cyear c) @ CHR ''-'' # x1 # r1"
    by (simp add: civil_text_def flip: s1(1) s2(1) s3(1) s4(1) s5(1))
  then have "iso_fields (civil_text c [sep] @ z) iso_defs 0 []
      = iso_fields (?u1 @ x1 # r1) (tl iso_defs) (length ?u1) (take 1 ?n)"
    using iso_fields_round [OF lt(1), of "CHR ''-''" "''-''" x1 "[]" r1 True "tl iso_defs" "[]"] no(1) [OF s1(2)]
    by (simp add: iso_defs_def del: iso_fields.simps)
  also have "\<dots> = iso_fields (?u2 @ x2 # r2) (drop 2 iso_defs) (length ?u2) (take 2 ?n)"
    using iso_fields_round [OF two [OF lt(2)], of "CHR ''-''" "''-''" x2 ?u1 r2 True "drop 2 iso_defs" "take 1 ?n"] no(1) [OF s2(2)]
    unfolding s1(1) by (simp add: iso_defs_def numeral_2_eq_2 del: iso_fields.simps)
  also have "\<dots> = iso_fields (?u3 @ x3 # r3) (drop 3 iso_defs) (length ?u3) (take 3 ?n)"
    using iso_fields_round [OF two [OF lt(3)], of sep "''T ''" x3 ?u2 r3 False "drop 3 iso_defs" "take 2 ?n"] no(3) [OF s3(2)] assms(2)
    unfolding s2(1) by (auto simp add: iso_defs_def simp del: iso_fields.simps)
  also have "\<dots> = iso_fields (?u4 @ x4 # r4) (drop 4 iso_defs) (length ?u4) (take 4 ?n)"
    using iso_fields_round [OF two [OF lt(4)], of "CHR '':''" "'':''" x4 ?u3 r4 False "drop 4 iso_defs" "take 3 ?n"] no(2) [OF s4(2)]
    unfolding s3(1) by (simp add: iso_defs_def del: iso_fields.simps)
  also have "\<dots> = iso_fields (?u5 @ x5 # r5) (drop 5 iso_defs) (length ?u5) ?n"
    using iso_fields_round [OF two [OF lt(5)], of "CHR '':''" "'':''" x5 ?u4 r5 False "drop 5 iso_defs" "take 4 ?n"] no(2) [OF s5(2)]
    unfolding s4(1) by (simp add: iso_defs_def del: iso_fields.simps)
  also have "\<dots> = Inr (?n @ [int (csecond c)], if z = [] then None else Some 19)"
    using iso_fields_last [OF lt(6) assms(3), of ?u5 ?n] len
    unfolding s5(1) by (simp add: iso_defs_def del: iso_fields.simps)
  finally show ?thesis by simp
qed

lemma civil_text_length: "civil_ok c \<Longrightarrow> length (civil_text c [sep]) = 19"
  using padded_number(1) [of "cyear c" 4] padded_number(1) [of _ 2]
  by (simp add: civil_ok_def civil_text_def)

lemma isotime_read:
  assumes "civil_ok (civil_of cal t)" "ptime_of cal (civil_of cal t) = Inr t" "ticks_of cal 0 = 0"
  shows "ptimeFromIsoString cal now (isotimeString cal (Some (At t)) useT zulu) = Inr (At t)"
proof -
  let ?c = "civil_of cal t" and ?sep = "if useT then CHR ''T'' else CHR '' ''" and ?z = "if zulu then ''Z'' else []"
  let ?s = "civil_text ?c [?sep] @ ?z"
  have s: "isotimeString cal (Some (At t)) useT zulu = ?s" by (simp add: isotimeString_def)
  have "cyear ?c < 10 ^ 4" using assms(1) by (simp add: civil_ok_def)
  note y = padded_number [OF this]
  obtain x r where x: "padded 4 (cyear ?c) = x # r" using y(1) by (cases "padded 4 (cyear ?c)") auto
  then have digit: "isdigit x" using y(2) by simp
  have sx: "?s = x # tl ?s" by (simp add: civil_text_def x)
  have words: "?s \<noteq> w" if "w \<noteq> [] \<and> \<not> isdigit (hd w)" for w
    using that digit sx by (metis list.sel(1))
  have "x \<noteq> CHR '' ''" using digit by (auto simp: isdigit_def)
  then have first: "find_idx (\<lambda>c. c \<noteq> CHR '' '') ?s = Some 0" by (subst sx) simp
  have "?s ! 0 = x" by (subst sx) simp
  moreover have "iso_fields ?s iso_defs 0 [] = Inr ([int (cyear ?c), int (cmonth ?c), int (cday ?c), int (chour ?c),
      int (cminute ?c), int (csecond ?c)], if ?z = [] then None else Some 19)"
    by (rule iso_fields_civil [OF assms(1)]) auto
  moreover have "iso_offset ?s (if ?z = [] then None else Some 19) = Inr (0, 0)"
    using civil_text_length [OF assms(1), of ?sep] by (simp add: iso_offset_def char_at_def nth_append)
  moreover have "civil_of_numbers [int (cyear ?c), int (cmonth ?c), int (cday ?c), int (chour ?c), int (cminute ?c), int (csecond ?c)] = ?c"
    by (simp add: civil_of_numbers_def nth_or_0_def)
  ultimately have "ptimeFromIsoString cal now ?s = Inr (At t)"
    using digit assms(2,3) words first unfolding ptimeFromIsoString_def
    by (simp add: isdigit_def duration_secs_def)
  then show ?thesis unfolding s .
qed


definition time_ok :: "calendar \<Rightarrow> int \<Rightarrow> bool" where
  "time_ok cal t \<longleftrightarrow> civil_ok (civil_of cal t) \<and> ptime_of cal (civil_of cal t) = Inr t"

lemma iso_chars:
  assumes "time_ok cal t"
  shows "\<forall>c \<in> set (isotimeString cal (Some (At t)) True z). isdigit c \<or> c \<in> set ''-:TZ''"
    and "isotimeString cal (Some (At t)) True z \<noteq> []" "isdigit (hd (isotimeString cal (Some (At t)) True z))"
proof -
  let ?c = "civil_of cal t"
  have lt: "cyear ?c < 10 ^ 4" "cmonth ?c < 10 ^ 2" "cday ?c < 10 ^ 2" "chour ?c < 10 ^ 2" "cminute ?c < 10 ^ 2" "csecond ?c < 10 ^ 2"
    using assms by (simp_all add: time_ok_def civil_ok_def)
  have p: "\<forall>c \<in> set (padded w n). isdigit c \<or> c \<in> set ''-:TZ''" if "n < 10 ^ w" "0 < w" for n w
    using padded_number(2) [OF that] by blast
  show "\<forall>c \<in> set (isotimeString cal (Some (At t)) True z). isdigit c \<or> c \<in> set ''-:TZ''"
    using p [OF lt(1)] p [OF lt(2)] p [OF lt(3)] p [OF lt(4)] p [OF lt(5)] p [OF lt(6)]
    by (simp add: isotimeString_def civil_text_def ball_Un)
  obtain x r where "padded 4 (cyear ?c) = x # r" using padded_number(1) [OF lt(1)] by (cases "padded 4 (cyear ?c)") auto
  with padded_number(2) [OF lt(1)]
  show "isotimeString cal (Some (At t)) True z \<noteq> []" "isdigit (hd (isotimeString cal (Some (At t)) True z))"
    by (simp_all add: isotimeString_def civil_text_def)
qed

lemma digit_chars:
  "digit_char 0 = CHR ''0''" "digit_char (Suc 0) = CHR ''1''" "digit_char 1 = CHR ''1''" "digit_char 2 = CHR ''2''"
  "digit_char 3 = CHR ''3''" "digit_char 4 = CHR ''4''" "digit_char 5 = CHR ''5''" "digit_char 6 = CHR ''6''"
  "digit_char 7 = CHR ''7''" "digit_char 8 = CHR ''8''" "digit_char 9 = CHR ''9''"
  by code_simp+

text \<open>A calendar of months of 30 days.\<close>

definition simple_calendar :: calendar where
  "simple_calendar =
     \<lparr>civil_of = (\<lambda>t. let d = nat (t div 86400); s = nat (t mod 86400)
                      in \<lparr>cyear = 1970 + d div 360, cmonth = d mod 360 div 30 + 1, cday = d mod 30 + 1,
                          chour = s div 3600, cminute = s mod 3600 div 60, csecond = s mod 60\<rparr>),
      ptime_of = (\<lambda>c. if 1970 \<le> cyear c \<and> 1 \<le> cmonth c \<and> cmonth c \<le> 12 \<and> 1 \<le> cday c \<and> cday c \<le> 30
                      then Inr (((int (cyear c) - 1970) * 360 + (int (cmonth c) - 1) * 30 + (int (cday c) - 1)) * 86400
                                + int (chour c) * 3600 + int (cminute c) * 60 + int (csecond c))
                      else Inl (Logic_error ''date'')),
      weekday_of = (\<lambda>t. nat (t div 86400 mod 7)), ticks_of = (\<lambda>s. s)\<rparr>"


lemma scan_number_padded:
  assumes "n < 10 ^ w" "0 < w" "\<forall>c \<in> set ws. isspace c"
  shows "scan_number w (ws @ padded w n @ t) = Some (int n, t)"
proof -
  note p = padded_number [OF assms(1,2)]
  obtain x r where x: "padded w n = x # r" using p(1) assms(2) by (cases "padded w n") auto
  with p(2) have "isdigit x" by simp
  then have nosign: "\<not> isspace x" "x \<noteq> CHR ''-''" "x \<noteq> CHR ''+''" by (auto simp: isdigit_def isspace_def)
  then have skip: "dropWhile isspace (ws @ padded w n @ t) = padded w n @ t" using assms(3) by (simp add: x)
  have digits: "takeWhile isdigit (padded w n) = padded w n" using p(2) by (simp add: takeWhile_eq_all_conv)
  have hd: "hd (padded w n @ t) = x" "padded w n @ t \<noteq> []" "padded w n \<noteq> []" by (simp_all add: x)
  show ?thesis unfolding scan_number_def skip Let_def using p(1,3) nosign hd by (simp add: digits)
qed

lemma scan_word_three:
  assumes "length x = 3" "\<forall>c \<in> set x. \<not> isspace c" "\<forall>c \<in> set ws. isspace c"
  shows "scan_word 3 (ws @ x @ t) = Some (x, t)"
proof -
  have ne: "x \<noteq> []" using assms(1) by auto
  then have skip: "dropWhile isspace (ws @ x @ t) = x @ t" using assms(2,3) by (cases x) simp_all
  have word: "takeWhile (\<lambda>c. \<not> isspace c) (take 3 (x @ t)) = x"
    using assms(1,2) by (simp add: takeWhile_eq_all_conv)
  show ?thesis unfolding scan_word_def skip Let_def word using ne assms(1) by simp
qed

lemma name_scan:
  assumes "k < length names" "names = day_names \<or> names = month_names"
  shows "length (names ! k) = 3" "\<forall>c \<in> set (names ! k). \<not> isspace c \<and> c \<noteq> CHR 0x00"
    "find_idx (\<lambda>x. x = names ! k) names = Some k"
proof -
  have "\<forall>x \<in> set day_names \<union> set month_names. length x = 3 \<and> (\<forall>c \<in> set x. \<not> isspace c \<and> c \<noteq> CHR 0x00)"
    by code_simp
  moreover have "names ! k \<in> set names" using assms(1) by simp
  ultimately show "length (names ! k) = 3" "\<forall>c \<in> set (names ! k). \<not> isspace c \<and> c \<noteq> CHR 0x00"
    using assms(2) by blast+
  have "distinct day_names" "distinct month_names" by code_simp+
  then have "distinct names" using assms(2) by auto
  then have "\<forall>i < k. names ! i \<noteq> names ! k" using assms(1) by (auto simp: nth_eq_iff_index_eq)
  then show "find_idx (\<lambda>x. x = names ! k) names = Some k"
    using assms(1) by (auto simp: find_idx_Some intro!: takeWhile_eq_take_P_nth)
qed

text \<open>
  A time printed by \<open>rfc1123date\<close> is read back as the same time, if the calendar gives its fields in
  their ranges and a day of the week, and takes them back.
\<close>

theorem rfc1123_roundtrip:
  assumes "civil_ok (civil_of cal t)" "ptime_of cal (civil_of cal t) = Inr t" "weekday_of cal t < 7"
  shows "rfc1123date cal (rfc1123_string cal (Some (At t))) = Inr (Some t)"
proof -
  let ?c = "civil_of cal t" and ?d = "day_names ! weekday_of cal t" and ?m = "month_names ! (cmonth (civil_of cal t) - 1)"
  have lt: "cyear ?c < 10 ^ 4" "cday ?c < 10 ^ 2" "chour ?c < 10 ^ 2" "cminute ?c < 10 ^ 2" "csecond ?c < 10 ^ 2"
      "cmonth ?c - 1 < length month_names" "weekday_of cal t < length day_names"
    using assms(1,3) by (simp_all add: civil_ok_def month_names_def day_names_def) linarith?
  note D = name_scan [OF lt(7) disjI1 [OF refl]] and M = name_scan [OF lt(6) disjI2 [OF refl]]
  let ?s = "?d @ '', '' @ padded 2 (cday ?c) @ '' '' @ ?m @ '' '' @ padded 4 (cyear ?c) @ '' '' @ padded 2 (chour ?c)
    @ '':'' @ padded 2 (cminute ?c) @ '':'' @ padded 2 (csecond ?c) @ '' GMT''"
  have s: "rfc1123_string cal (Some (At t)) = ?s"
    using assms(1,3) by (simp add: rfc1123_string_def civil_ok_def Let_def)
  have nul: "\<forall>c \<in> set (padded w n). c \<noteq> CHR 0x00" if "n < 10 ^ w" "0 < w" for n w
    using padded_number(2) [OF that] by (auto simp: isdigit_def)
  have "\<forall>c \<in> set ?d. c \<noteq> CHR 0x00" "\<forall>c \<in> set ?m. c \<noteq> CHR 0x00" using D(2) M(2) by blast+
  then have "\<forall>c \<in> set ?s. c \<noteq> CHR 0x00"
    using nul [OF lt(1)] nul [OF lt(2)] nul [OF lt(3)] nul [OF lt(4)] nul [OF lt(5)] by (simp add: ball_Un)
  then have cs: "c_str ?s = ?s" unfolding c_str_def takeWhile_eq_all_conv .
  have num: "scan_number w (padded w n @ t) = Some (int n, t)" "scan_number w (CHR '' '' # padded w n @ t) = Some (int n, t)"
    if "n < 10 ^ w" "0 < w" for n w t
    using scan_number_padded [OF that, of "[]" t] scan_number_padded [OF that, of "'' ''" t] by (simp_all add: isspace_def)
  have word: "scan_word 3 (x @ t) = Some (x, t)" "scan_word 3 (CHR '' '' # x @ t) = Some (x, t)"
    if "length x = 3" "\<forall>c \<in> set x. \<not> isspace c \<and> c \<noteq> CHR 0x00" for x t
    using scan_word_three [OF that(1), of "[]" t] scan_word_three [OF that(1), of "'' ''" t] that(2) by (simp_all add: isspace_def)
  have gmt: "scan_word 3 '' GMT'' = Some (''GMT'', [])" by (simp add: scan_word_def isspace_def)
  have scan: "rfc1123_scan ?s = Some (?d, int (cday ?c), ?m, int (cyear ?c), int (chour ?c), int (cminute ?c), int (csecond ?c), ''GMT'')"
    by (simp add: rfc1123_scan_def scan_lit_def num [OF lt(1)] num [OF lt(2)] num [OF lt(3)] num [OF lt(4)] num [OF lt(5)]
        word [OF D(1,2)] word [OF M(1,2)] gmt del: One_nat_def)
  have fields: "\<lparr>cyear = cyear ?c, cmonth = cmonth ?c, cday = cday ?c, chour = chour ?c, cminute = cminute ?c, csecond = csecond ?c\<rparr> = ?c"
    by simp
  show ?thesis using assms D(3) M(3)
    unfolding s rfc1123date_def cs scan by (simp add: civil_ok_def fields)
qed

text \<open>And the texts that are none: a wrong weekday is refused.\<close>

theorem rfc1123_roundtrip_witness:
  "rfc1123date simple_calendar ''Sun, 01 Mar 1971 10:20:30 GMT'' = Inr (Some 36325230)"
proof -
  have printed: "rfc1123_string simple_calendar (Some (At 36325230)) = ''Sun, 01 Mar 1971 10:20:30 GMT''"
    by (simp add: simple_calendar_def rfc1123_string_def day_names_def month_names_def padded_def dec_nat.simps digit_chars Let_def)
  have "rfc1123date simple_calendar (rfc1123_string simple_calendar (Some (At 36325230))) = Inr (Some 36325230)"
    by (rule rfc1123_roundtrip) (simp_all add: simple_calendar_def civil_ok_def Let_def)
  then show ?thesis unfolding printed .
qed

section \<open>The next full interval\<close>

lemma ceil_div_bounds: "0 < b \<Longrightarrow> a \<le> ceil_div a b * b \<and> ceil_div a b * b < a + b"
proof -
  assume "0 < b"
  then have "- a = (- a) div b * b + (- a) mod b" "0 \<le> (- a) mod b" "(- a) mod b < b" by simp_all
  then show ?thesis unfolding ceil_div_def by (simp only: minus_mult_left [symmetric]) linarith
qed

text \<open>
  Without an offset \<open>nearesTimeInTheFuture\<close> gives the first time from the given one on that is a
  whole number of intervals after midnight; a resolution of 0 has no meaning.
\<close>

theorem nearest_time_correct:
  assumes "0 < res" "0 < k" "\<And>s. ticks_of cal s = k * s" "midnight cal t = Inr d" "t = d + k * day_seconds (civil_of cal t)"
  shows "\<exists>r q. nearesTimeInTheFuture cal now res (Some t) 0 = Inr r \<and> r = d + k * (q * res)
    \<and> t \<le> r \<and> r < t + k * res \<and> nearesTimeInTheFuture cal now 0 (Some t) 0 = Inl Undefined_behaviour"
proof -
  let ?s = "day_seconds (civil_of cal t)"
  let ?q = "ceil_div ?s res"
  have "nearesTimeInTheFuture cal now res (Some t) 0 = Inr (d + k * (?q * res))"
    using assms(1,3,4) by (simp add: nearesTimeInTheFuture_def Let_def)
  moreover have "?s \<le> ?q * res" "?q * res < ?s + res" using ceil_div_bounds [OF assms(1)] by blast+
  then have "k * ?s \<le> k * (?q * res)" "k * (?q * res) < k * (?s + res)" using assms(2) by simp_all
  then have "t \<le> d + k * (?q * res)" "d + k * (?q * res) < t + k * res"
    by (subst assms(5), simp, subst assms(5), simp add: distrib_left)
  moreover have "nearesTimeInTheFuture cal now 0 (Some t) 0 = Inl Undefined_behaviour"
    by (simp add: nearesTimeInTheFuture_def Let_def)
  ultimately show ?thesis by blast
qed

theorem nearest_time_correct_witness:
  "\<exists>r q. nearesTimeInTheFuture simple_calendar 0 900 (Some 36325230) 0 = Inr r \<and> r = 36288000 + 1 * (q * 900)
    \<and> 36325230 \<le> r \<and> r < 36325230 + 1 * 900
    \<and> nearesTimeInTheFuture simple_calendar 0 0 (Some 36325230) 0 = Inl Undefined_behaviour"
  by (rule nearest_time_correct)
    (simp_all add: simple_calendar_def midnight_def day_seconds_def Let_def)

end
