(* ===== verification/PointData.thy ===== *)
theory PointData
  imports ParamDefs Times
begin

text \<open>
  The rows of the database as tables of weather data: \<open>PData\<close>, \<open>TimeSerie\<close>,
  \<open>LocationPointData\<close> and \<open>decodePData\<close> of \<open>src/src/mod_wdb2ts/PointDataHelper.cpp\<close>, with the
  order of \<open>LocationPoint\<close>. The columns of a row are texts, as \<open>libpqxx\<close> gives them; their
  conversions, the arithmetic of \<open>float\<close> and \<open>ptimeFromIsoString\<close> are arguments. A
  \<open>shared_ptr\<close> to a \<open>TimeSerie\<close> is its value: no table is written through two pointers.
\<close>

section \<open>Points\<close>

definition constFieldTime :: vtime where
  "constFieldTime = At 0"

text \<open>\<open>LocationPoint\<close>: latitude and longitude; the value a point may carry is not used here.\<close>

datatype point = Point (latitude: int) (longitude: int)

instantiation point :: linorder
begin

definition less_point :: "point \<Rightarrow> point \<Rightarrow> bool" where
  "less_point p q \<longleftrightarrow> latitude p < latitude q \<or> latitude p = latitude q \<and> longitude p < longitude q"

definition less_eq_point :: "point \<Rightarrow> point \<Rightarrow> bool" where
  "less_eq_point p q \<longleftrightarrow> p < q \<or> p = q"

instance
proof
  fix x y :: point
  show "x \<le> y \<or> y \<le> x"
    by (cases x; cases y) (auto simp: less_eq_point_def less_point_def)
qed (auto simp: less_eq_point_def less_point_def)

end

section \<open>PData\<close>

text \<open>
  The members of \<open>PData\<close>, all \<open>float\<close>. A member is unset when it is \<open>FLT_MAX\<close>; an object is the map
  of the members that are set, and the default constructor makes the empty one.
\<close>

definition pdata_members :: "string list" where
  "pdata_members =
    [''windV10m'', ''windU10m'', ''windGust'', ''areaMaxWindSpeed'', ''globalRadiation'', ''PP'', ''PR'',
     ''TA'', ''T2M'', ''T2M_LAND'', ''T2M_NO_ADIABATIC_HIGHT_CORRECTION'', ''maxTemperature_6h'',
     ''minTemperature_6h'', ''temperatureCorrected'', ''dewPointTemperature'', ''UU'', ''PRECIP_PROBABILITY'',
     ''PRECIP_MIN'', ''PRECIP_MAX'', ''PRECIP_MEAN'', ''PRECIP'', ''PRECIP_ACCUMULATED'', ''PRECIP_1T'',
     ''PRECIP_3T'', ''PRECIP_6T'', ''PRECIP_12T'', ''PRECIP_24T'', ''precipIntensity'',
     ''significantSwellWaveHeight'', ''meanSwellWavePeriode'', ''meanSwellWaveDirection'',
     ''peakSwellWavePeriode'', ''peakSwellWaveDirection'', ''seaCurrentVelocityU'', ''seaCurrentVelocityV'',
     ''seaSalinity'', ''seaSurfaceHeight'', ''seaTemperature'', ''meanTotalWaveDirection'',
     ''meanTotalWavePeriode'', ''maximumTotalWaveHeight'', ''significantTotalWaveHeight'', ''seaIcePresence'',
     ''iceingIndex'', ''seaBottomTopography'', ''NN'', ''visibility'', ''fog'', ''highCloud'', ''mediumCloud'',
     ''lowCloud'', ''RH2M'', ''thunderProability'', ''fogProability'', ''WIND_PROBABILITY'',
     ''T2M_PROBABILITY_1'', ''T2M_PROBABILITY_2'', ''T2M_PROBABILITY_3'', ''T2M_PROBABILITY_4'',
     ''T2M_PERCENTILE_10'', ''T2M_PERCENTILE_25'', ''T2M_PERCENTILE_50'', ''T2M_PERCENTILE_75'',
     ''T2M_PERCENTILE_90'', ''PRECIP_PERCENTILE_10'', ''PRECIP_PERCENTILE_25'', ''PRECIP_PERCENTILE_50'',
     ''PRECIP_PERCENTILE_75'', ''PRECIP_PERCENTILE_90'', ''PRECIP_PROBABILITY_0_1MM'',
     ''PRECIP_PROBABILITY_0_2MM'', ''PRECIP_PROBABILITY_0_5MM'', ''PRECIP_PROBABILITY_1_0MM'',
     ''PRECIP_PROBABILITY_2_0MM'', ''PRECIP_PROBABILITY_5_0MM'', ''symbol'', ''symbol_PROBABILITY'',
     ''modeltopography'', ''topography'', ''LANDCOVER'']"

type_synonym 'f pdata = "(string, 'f) omap"

definition pdata_new :: "'f pdata" where
  "pdata_new = []"

definition pdata_set :: "'f \<Rightarrow> string \<Rightarrow> 'f \<Rightarrow> 'f pdata \<Rightarrow> 'f pdata" where
  "pdata_set flt_max m v d = (if v = flt_max then om_erase m d else om_put m v d)"

definition pdata_merge :: "'f pdata \<Rightarrow> 'f pdata \<Rightarrow> 'f pdata" where
  "pdata_merge other d =
     fold (\<lambda>m d. case map_of other m of None \<Rightarrow> d | Some v \<Rightarrow> om_put m v d) pdata_members d"

definition pdata_count :: "'f pdata \<Rightarrow> nat" where
  "pdata_count d = length (filter (\<lambda>m. map_of d m \<noteq> None) pdata_members)"

section \<open>The tables\<close>

type_synonym 'f provider_data = "(string, 'f pdata) omap"
type_synonym 'f from_serie = "(vtime, 'f provider_data) omap"
type_synonym 'f time_serie = "(vtime, 'f from_serie) omap"
type_synonym 'f location_data = "(point, 'f time_serie) omap"

text \<open>\<open>operator[]\<close> of \<open>std::map\<close>: a missing element is made; and a change of the element.\<close>

definition om_at :: "'v \<Rightarrow> ('k, 'v) omap \<Rightarrow> 'k \<Rightarrow> 'v" where
  "om_at d m k = (case map_of m k of None \<Rightarrow> d | Some v \<Rightarrow> v)"

definition om_change :: "'v \<Rightarrow> 'k::linorder \<Rightarrow> ('v \<Rightarrow> 'v) \<Rightarrow> ('k, 'v) omap \<Rightarrow> ('k, 'v) omap" where
  "om_change d k f m = om_put k (f (om_at d m k)) m"

text \<open>\<open>ts[to][from][provider]\<close>, changed by \<open>f\<close>.\<close>

definition ts_change :: "vtime \<Rightarrow> vtime \<Rightarrow> string \<Rightarrow> ('f pdata \<Rightarrow> 'f pdata) \<Rightarrow> 'f time_serie \<Rightarrow> 'f time_serie" where
  "ts_change t fr p f = om_change [] t (om_change [] fr (om_change pdata_new p f))"

section \<open>Where a parameter is stored\<close>

text \<open>
  The cascade of \<open>decodePData\<close> over the alias of the parameter: the member, in the element of the
  row, in the element of the constant fields, or there under a provider with a suffix.
\<close>

datatype pd_place = Here string | At_const string | At_suffix string string

definition alias_places :: "(string \<times> pd_place) list" where
  "alias_places =
    [(''WIND.U10M'', Here ''windU10m''), (''WIND.V10M'', Here ''windV10m''),
     (''WIND.GUST'', Here ''windGust''), (''areaMaxWindSpeed'', Here ''areaMaxWindSpeed''),
     (''globalRadiation'', Here ''globalRadiation''), (''PP'', Here ''PP''), (''MSLP'', Here ''PR''),
     (''T.2M'', Here ''T2M''), (''T.2M.LAND'', Here ''T2M_LAND''),
     (''T.2M.NO_ADIABATIC_HIGHT_CORRECTION'', Here ''T2M_NO_ADIABATIC_HIGHT_CORRECTION''),
     (''maxTemperature.6H'', Here ''maxTemperature_6h''), (''minTemperature.6H'', Here ''minTemperature_6h''),
     (''UU'', Here ''UU''), (''PRECIP.ACCUMULATED'', Here ''PRECIP_ACCUMULATED''),
     (''PRECIP.PROBABILITY'', Here ''PRECIP_PROBABILITY''), (''PRECIP.MIN'', Here ''PRECIP_MIN''),
     (''PRECIP.MAX'', Here ''PRECIP_MAX''), (''PRECIP.MEAN'', Here ''PRECIP_MEAN''),
     (''PRECIP'', Here ''PRECIP''), (''PRECIP.1H'', Here ''PRECIP_1T''), (''PRECIP.3H'', Here ''PRECIP_3T''),
     (''PRECIP.6H'', Here ''PRECIP_6T''), (''PRECIP.12H'', Here ''PRECIP_12T''),
     (''PRECIP.24H'', Here ''PRECIP_24T''), (''PRECIP.INTENSITY'', Here ''precipIntensity''),
     (''significantSwellWaveHeight'', Here ''significantSwellWaveHeight''),
     (''meanSwellWavePeriode'', Here ''meanSwellWavePeriode''),
     (''meanSwellWaveDirection'', Here ''meanSwellWaveDirection''),
     (''peakSwellWavePeriode'', Here ''peakSwellWavePeriode''),
     (''peakSwellWaveDirection'', Here ''peakSwellWaveDirection''),
     (''seaCurrentVelocityV'', Here ''seaCurrentVelocityV''),
     (''seaCurrentVelocityU'', Here ''seaCurrentVelocityU''), (''seaSalinity'', Here ''seaSalinity''),
     (''seaSurfaceHeight'', Here ''seaSurfaceHeight''), (''seaTemperature'', Here ''seaTemperature''),
     (''meanTotalWavePeriode'', Here ''meanTotalWavePeriode''),
     (''meanTotalWaveDirection'', Here ''meanTotalWaveDirection''),
     (''maximumTotalWaveHeight'', Here ''maximumTotalWaveHeight''),
     (''significantTotalWaveHeight'', Here ''significantTotalWaveHeight''),
     (''seaBottomTopography'', At_const ''seaBottomTopography''),
     (''seaIcePresence'', At_const ''seaIcePresence''), (''iceingIndex'', Here ''iceingIndex''),
     (''MODEL.TOPOGRAPHY'', At_suffix ''__MODEL_TOPO__'' ''modeltopography''),
     (''TOPOGRAPHY'', At_suffix ''__TOPOGRAPHY__'' ''topography''), (''LANDCOVER'', Here ''LANDCOVER''),
     (''TOTAL.CLOUD'', Here ''NN''), (''visibility'', Here ''visibility''), (''FOG'', Here ''fog''),
     (''LOW.CLOUD'', Here ''lowCloud''), (''MEDIUM.CLOUD'', Here ''mediumCloud''),
     (''HIGH.CLOUD'', Here ''highCloud''), (''RH.2M'', Here ''RH2M''),
     (''T.DEWPOINT'', Here ''dewPointTemperature''), (''SYMBOL'', Here ''symbol''),
     (''SYMBOL.PROBABILITY'', Here ''symbol_PROBABILITY''),
     (''THUNDER.PROBABILITY'', Here ''thunderProability''), (''FOG.PROBABILITY'', Here ''fogProability''),
     (''WIND.PROBABILITY'', Here ''WIND_PROBABILITY''), (''T.2M.PROBABILITY.1'', Here ''T2M_PROBABILITY_1''),
     (''T.2M.PROBABILITY.2'', Here ''T2M_PROBABILITY_2''),
     (''T.2M.PROBABILITY.3'', Here ''T2M_PROBABILITY_3''),
     (''T.2M.PROBABILITY.4'', Here ''T2M_PROBABILITY_4''),
     (''T.2M.PERCENTILE.10'', Here ''T2M_PERCENTILE_10''),
     (''T.2M.PERCENTILE.25'', Here ''T2M_PERCENTILE_25''),
     (''T.2M.PERCENTILE.50'', Here ''T2M_PERCENTILE_50''),
     (''T.2M.PERCENTILE.75'', Here ''T2M_PERCENTILE_75''),
     (''T.2M.PERCENTILE.90'', Here ''T2M_PERCENTILE_90''),
     (''PRECIP.PERCENTILE.10'', Here ''PRECIP_PERCENTILE_10''),
     (''PRECIP.PERCENTILE.25'', Here ''PRECIP_PERCENTILE_25''),
     (''PRECIP.PERCENTILE.50'', Here ''PRECIP_PERCENTILE_50''),
     (''PRECIP.PERCENTILE.75'', Here ''PRECIP_PERCENTILE_75''),
     (''PRECIP.PERCENTILE.90'', Here ''PRECIP_PERCENTILE_90''),
     (''PRECIP.PROBABILITY.0,1MM'', Here ''PRECIP_PROBABILITY_0_1MM''),
     (''PRECIP.PROBABILITY.0,2MM'', Here ''PRECIP_PROBABILITY_0_2MM''),
     (''PRECIP.PROBABILITY.0,5MM'', Here ''PRECIP_PROBABILITY_0_5MM''),
     (''PRECIP.PROBABILITY.1,0MM'', Here ''PRECIP_PROBABILITY_1_0MM''),
     (''PRECIP.PROBABILITY.2,0MM'', Here ''PRECIP_PROBABILITY_2_0MM''),
     (''PRECIP.PROBABILITY.5,0MM'', Here ''PRECIP_PROBABILITY_5_0MM'')]"

text \<open>
  The cascade of the second \<open>decodePData\<close> (for an \<open>ITupleContainer\<close>): two aliases are missing, one has
  another name, and one is stored with the constant fields.
\<close>

definition alias_places_tuple :: "(string \<times> pd_place) list" where
  "alias_places_tuple =
     (''precipIntensity'', Here ''precipIntensity'') #
     map (\<lambda>(a, pl). if a = ''LANDCOVER'' then (a, At_const ''LANDCOVER'') else (a, pl))
       (filter (\<lambda>(a, pl). a \<notin> {''maxTemperature.6H'', ''minTemperature.6H'', ''PRECIP.INTENSITY''}) alias_places)"

text \<open>\<open>SetPDataHelper\<close>: the member of a parameter.\<close>

definition place_member :: "pd_place \<Rightarrow> string" where
  "place_member pl = (case pl of Here m \<Rightarrow> m | At_const m \<Rightarrow> m | At_suffix s m \<Rightarrow> m)"

definition setter_members :: "(string \<times> string) list" where
  "setter_members =
     [(''seaTotalSwellWaveHeight'', ''significantSwellWaveHeight''),
      (''seaMeanSwellWavePeriode'', ''meanSwellWavePeriode''),
      (''seaMeanSwellWaveDirection'', ''meanSwellWaveDirection''),
      (''seaPeakSwellWavePeriode'', ''peakSwellWavePeriode''),
      (''seaPeakSwellWaveDirection'', ''peakSwellWaveDirection'')] @
     map (\<lambda>(a, pl). (a, place_member pl))
       (filter (\<lambda>(a, pl). a \<notin> {''PRECIP.INTENSITY'', ''significantSwellWaveHeight'', ''meanSwellWavePeriode'',
            ''meanSwellWaveDirection'', ''peakSwellWavePeriode'', ''peakSwellWaveDirection'', ''T.DEWPOINT''})
         alias_places)"

definition setter_init :: "string \<Rightarrow> bool \<times> string option" where
  "setter_init param = (case map_of setter_members param of None \<Rightarrow> (False, None) | Some m \<Rightarrow> (True, Some m))"

definition setter_set :: "'f \<Rightarrow> string option \<Rightarrow> 'f \<Rightarrow> 'f pdata \<Rightarrow> 'f pdata" where
  "setter_set flt_max pm v d = (case pm of None \<Rightarrow> d | Some m \<Rightarrow> pdata_set flt_max m v d)"

definition setter_get :: "'f \<Rightarrow> 'f \<Rightarrow> string option \<Rightarrow> 'f pdata \<Rightarrow> 'f" where
  "setter_get flt_min flt_max pm d = (case pm of None \<Rightarrow> flt_min | Some m \<Rightarrow> om_at flt_max d m)"

section \<open>Rows\<close>

record 'f denv =
  time_of :: "string \<Rightarrow> vtime result"
  int_of :: "string \<Rightarrow> int result"
  flt_of :: "string \<Rightarrow> 'f result"
  scan_two :: "string \<Rightarrow> ('f \<times> 'f) option"
  flt_lt :: "'f \<Rightarrow> int \<Rightarrow> bool"
  flt_gt :: "'f \<Rightarrow> int \<Rightarrow> bool"
  flt_round :: "'f \<Rightarrow> int"
  flt_affine :: "'f \<Rightarrow> 'f \<Rightarrow> 'f \<Rightarrow> 'f"
  flt_deg :: "'f \<Rightarrow> int result"
  flt_max :: 'f

record data_row =
  dr_row :: row
  dr_referencetime :: string
  dr_from :: string
  dr_to :: string
  dr_placename :: string
  dr_dataversion :: string
  dr_point :: string
  dr_value :: "string option"

text \<open>
  \<open>LocationPoint::set\<close>, of which \<open>decodePoint\<close> catches the range errors, and the point of a text
  \<open>point( longitude latitude )\<close>.
\<close>

definition point_set :: "'f denv \<Rightarrow> 'f \<Rightarrow> 'f \<Rightarrow> point result" where
  "point_set e lat lon =
     (if flt_gt e lat 90 \<or> flt_lt e lat (-90)
      then Inl (Range_error ''Latitude out of range. Valid range [-90,90].'')
      else if flt_gt e lon 180 \<or> flt_lt e lon (-180)
      then Inl (Range_error ''Longitude out of range. Valid range [-180,180].'')
      else bind_result (flt_deg e lat) (\<lambda>a. bind_result (flt_deg e lon) (\<lambda>b. Inr (Point a b))))"

definition decodePoint :: "'f denv \<Rightarrow> string \<Rightarrow> point option result" where
  "decodePoint e sPoint =
     (case find_sub ''('' sPoint of
        None \<Rightarrow> Inr None
      | Some iStart \<Rightarrow>
          (case find_sub_from '')'' sPoint iStart of
             None \<Rightarrow> Inr None
           | Some iEnd \<Rightarrow>
               (let buf = str_substr sPoint (iStart + 1) (iEnd - iStart - 1)
                in if buf = [] then Inr None
                   else (case scan_two e (c_str buf) of
                           None \<Rightarrow> Inr None
                         | Some (lon, lat) \<Rightarrow>
                             (case point_set e lat lon of
                                Inl (Range_error m) \<Rightarrow> Inr None
                              | Inl x \<Rightarrow> Inl x
                              | Inr p \<Rightarrow> Inr (Some p))))))"

text \<open>
  What a row is about, before the table is looked at: nothing when it is skipped, else its point,
  its times, its provider and its parameter definition. \<open>tuples\<close> tells the second \<open>decodePData\<close>,
  which does not replace the infinite times of constant fields.
\<close>

definition row_times :: "'f denv \<Rightarrow> bool \<Rightarrow> data_row \<Rightarrow> (vtime \<times> vtime) result" where
  "row_times e tuples r =
     bind_result (time_of e (dr_referencetime r)) (\<lambda>reftime.
     bind_result (time_of e (dr_from r)) (\<lambda>fr.
     bind_result (time_of e (dr_to r)) (\<lambda>t.
       Inr (if \<not> tuples \<and> t = Pos_infin \<and> fr = Neg_infin then (constFieldTime, constFieldTime) else (t, fr)))))"

definition row_param :: "'f param_def_list \<Rightarrow> data_row \<Rightarrow> 'f param_def option \<times> string" where
  "row_param defs r =
     (let (found, providerGroup) = findParam_row defs (dr_row r)
      in (map_option (\<lambda>(k, i). pd_at (table defs) k ! i) found, providerGroup))"

definition row_provider_name :: "provider_item list \<Rightarrow> 'f param_def \<Rightarrow> data_row \<Rightarrow> string option result" where
  "row_provider_name providers pd r =
     bind_result (findProviderPoint providers (row_provider (dr_row r)) (dr_placename r)) (\<lambda>(found, pwp).
       Inr (if found = None \<and> pwp = []
            then (if alias_of pd = ''TOPOGRAPHY'' then Some (row_provider (dr_row r)) else None)
            else Some pwp))"

definition row_version_ok :: "'f denv \<Rightarrow> reftimes \<Rightarrow> string \<Rightarrow> data_row \<Rightarrow> bool result" where
  "row_version_ok e refTimes pwp r =
     (let dv = getDataversion refTimes pwp
      in if dv > -1 then bind_result (int_of e (dr_dataversion r)) (\<lambda>n. Inr (n = dv)) else Inr True)"

definition row_subject ::
  "'f denv \<Rightarrow> bool \<Rightarrow> 'f param_def_list \<Rightarrow> provider_item list \<Rightarrow> reftimes \<Rightarrow> data_row
    \<Rightarrow> (point \<times> (vtime \<times> vtime \<times> string) \<times> 'f param_def) option result"
where
  "row_subject e tuples defs providers refTimes r =
     (case row_param defs r of
        (None, providerGroup) \<Rightarrow> Inr None
      | (Some pd, providerGroup) \<Rightarrow>
          bind_result (row_times e tuples r) (\<lambda>(t, fr).
          bind_result (row_provider_name providers pd r) (\<lambda>nm. case nm of None \<Rightarrow> Inr None | Some pwp \<Rightarrow>
          bind_result (row_version_ok e refTimes pwp r) (\<lambda>ok. if \<not> ok then Inr None else
          bind_result (decodePoint e (dr_point r)) (\<lambda>pt. case pt of None \<Rightarrow> Inr None | Some q \<Rightarrow>
            Inr (Some (q, (t, fr, renameProvider pwp providerGroup), pd)))))))"

text \<open>The value of a row: none for a null value, of the database or by the configuration.\<close>

definition row_number :: "'f denv \<Rightarrow> 'f param_def \<Rightarrow> data_row \<Rightarrow> 'f option result" where
  "row_number e pd r =
     (case dr_value r of
        None \<Rightarrow> Inr None
      | Some s \<Rightarrow>
          bind_result (flt_of e s) (\<lambda>v.
            Inr (if isNullValue (flt_lt e) (flt_gt e) (flt_round e) pd v then None
                 else Some (flt_affine e v (scale_of pd) (offset_of pd)))))"

text \<open>The element and the member a value goes to.\<close>

definition value_place ::
  "(string \<times> pd_place) list \<Rightarrow> 'f param_def \<Rightarrow> vtime \<times> vtime \<times> string
    \<Rightarrow> ((vtime \<times> vtime \<times> string) \<times> string) option"
where
  "value_place places pd k =
     (let (t, fr, pwp) = k
      in case map_of places (alias_of pd) of
           None \<Rightarrow> None
         | Some (Here m) \<Rightarrow> Some (k, m)
         | Some (At_const m) \<Rightarrow> Some ((constFieldTime, constFieldTime, pwp), m)
         | Some (At_suffix s m) \<Rightarrow> Some ((constFieldTime, constFieldTime, pwp @ s), m))"

definition element_change :: "vtime \<times> vtime \<times> string \<Rightarrow> ('f pdata \<Rightarrow> 'f pdata) \<Rightarrow> 'f time_serie \<Rightarrow> 'f time_serie" where
  "element_change k f = (let (t, fr, p) = k in ts_change t fr p f)"

definition store_number ::
  "'f denv \<Rightarrow> (string \<times> pd_place) list \<Rightarrow> 'f param_def \<Rightarrow> vtime \<times> vtime \<times> string \<Rightarrow> 'f
    \<Rightarrow> 'f time_serie \<Rightarrow> 'f time_serie"
where
  "store_number e places pd k v ts =
     (case value_place places pd k of
        None \<Rightarrow> ts
      | Some (k', m) \<Rightarrow> element_change k' (pdata_set (flt_max e) m v) ts)"

text \<open>The location of the table that a row goes to; it is made when the table has none to take.\<close>

definition row_location :: "bool \<Rightarrow> point \<Rightarrow> 'f location_data \<Rightarrow> point" where
  "row_location isPolygonRequest q d =
     (if map_of d q = None \<and> \<not> isPolygonRequest \<and> d \<noteq> [] then fst (hd d) else q)"

text \<open>
  One row. The element is made (line 739) before the value is read, so it stays when there is no
  value and when the value cannot be read. The exception, if any, leaves the table as it is.
\<close>

definition decode_row ::
  "'f denv \<Rightarrow> bool \<Rightarrow> 'f param_def_list \<Rightarrow> provider_item list \<Rightarrow> reftimes \<Rightarrow> bool \<Rightarrow> data_row
    \<Rightarrow> 'f location_data \<Rightarrow> exn option \<times> 'f location_data"
where
  "decode_row e tuples defs providers refTimes isPolygonRequest r d =
     (case row_subject e tuples defs providers refTimes r of
        Inl x \<Rightarrow> (Some x, d)
      | Inr None \<Rightarrow> (None, d)
      | Inr (Some (q, k, pd)) \<Rightarrow>
          (let l = row_location isPolygonRequest q d;
               d1 = om_change [] l (element_change k (\<lambda>pd. pd)) d
           in case row_number e pd r of
                Inl x \<Rightarrow> (Some x, d1)
              | Inr None \<Rightarrow> (None, d1)
              | Inr (Some v) \<Rightarrow>
                  (None, om_change [] l (store_number e (if tuples then alias_places_tuple else alias_places) pd k v) d1)))"

fun decode_rows ::
  "'f denv \<Rightarrow> bool \<Rightarrow> 'f param_def_list \<Rightarrow> provider_item list \<Rightarrow> reftimes \<Rightarrow> bool \<Rightarrow> data_row list
    \<Rightarrow> 'f location_data \<Rightarrow> exn option \<times> 'f location_data"
where
  "decode_rows e tuples defs providers refTimes poly [] d = (None, d)"
| "decode_rows e tuples defs providers refTimes poly (r # rs) d =
     (let (x, d') = decode_row e tuples defs providers refTimes poly r d
      in if x \<noteq> None then (x, d') else decode_rows e tuples defs providers refTimes poly rs d')"

definition decodePData ::
  "'f denv \<Rightarrow> 'f param_def_list \<Rightarrow> provider_item list \<Rightarrow> reftimes \<Rightarrow> data_row list \<Rightarrow> bool
    \<Rightarrow> 'f location_data \<Rightarrow> exn option \<times> 'f location_data"
where
  "decodePData e defs providers refTimes rows poly d =
     decode_rows e False defs providers refTimes poly rows d"

definition decodePData_tuple ::
  "'f denv \<Rightarrow> 'f param_def_list \<Rightarrow> provider_item list \<Rightarrow> reftimes \<Rightarrow> data_row list \<Rightarrow> bool
    \<Rightarrow> 'f location_data \<Rightarrow> exn option \<times> 'f location_data"
where
  "decodePData_tuple e defs providers refTimes rows poly d =
     decode_rows e True defs providers refTimes poly rows d"

section \<open>Looking through the tables\<close>

definition onlyConst_serie :: "'f time_serie \<Rightarrow> bool" where
  "onlyConst_serie ts \<longleftrightarrow>
     list_all (\<lambda>(t, frs). t = constFieldTime \<and> list_all (\<lambda>(fr, pds). fr = constFieldTime) frs) ts"

definition onlyConstFieldsOrEmpty :: "'f location_data \<Rightarrow> bool" where
  "onlyConstFieldsOrEmpty d \<longleftrightarrow> list_all (\<lambda>(l, ts). onlyConst_serie ts) d"

text \<open>
  \<open>removeEmptyData\<close>: three nested loops, each over a container from which it erases. The loop
  changes an element and then keeps or erases it; \<open>sweep\<close> is that loop.
\<close>

fun sweep :: "('v \<Rightarrow> 'v) \<Rightarrow> ('v \<Rightarrow> bool) \<Rightarrow> ('k \<times> 'v) list \<Rightarrow> ('k \<times> 'v) list" where
  "sweep f erase [] = []"
| "sweep f erase ((k, v) # m) = (if erase (f v) then sweep f erase m else (k, f v) # sweep f erase m)"

definition sweep_providers :: "'f provider_data \<Rightarrow> 'f provider_data" where
  "sweep_providers = sweep (\<lambda>pd. pd) (\<lambda>pd. pdata_count pd = 0)"

definition sweep_from :: "'f from_serie \<Rightarrow> 'f from_serie" where
  "sweep_from = sweep sweep_providers (\<lambda>m. m = [])"

definition removeEmpty_serie :: "'f time_serie \<Rightarrow> 'f time_serie" where
  "removeEmpty_serie = sweep sweep_from (\<lambda>m. m = [])"

definition removeEmptyData :: "'f location_data \<Rightarrow> 'f location_data" where
  "removeEmptyData = sweep removeEmpty_serie (\<lambda>m. m = [])"

section \<open>Nested tables\<close>

text \<open>A map in order whose values all have a property; the tables are nested such maps.\<close>

definition omv :: "('v \<Rightarrow> bool) \<Rightarrow> ('k::linorder, 'v) omap \<Rightarrow> bool" where
  "omv P m \<longleftrightarrow> om_wf m \<and> (\<forall>v \<in> snd ` set m. P v)"

lemma omv_Nil [simp]: "omv P []"
  by (simp add: omv_def)

lemma om_put_values: "snd ` set (om_put k v m) \<subseteq> insert v (snd ` set m)"
  by (induction k v m rule: om_put.induct) auto

lemma omv_put: "omv P m \<Longrightarrow> P v \<Longrightarrow> omv P (om_put k v m)"
  using om_put_values [of k v m] unfolding omv_def by (blast intro: om_wf_put)

lemma omv_erase: "omv P m \<Longrightarrow> omv P (om_erase k m)"
  unfolding omv_def by (auto simp: om_erase_def om_wf_def sorted_wrt_filter sorted_wrt_map)

lemma omv_at: "omv P m \<Longrightarrow> P d \<Longrightarrow> P (om_at d m k)"
  by (auto simp: omv_def om_at_def split: option.split dest!: map_of_SomeD intro: rev_image_eqI)

lemma omv_change: "omv P m \<Longrightarrow> P d \<Longrightarrow> (\<And>v. P v \<Longrightarrow> P (f v)) \<Longrightarrow> omv P (om_change d k f m)"
  by (simp add: om_change_def omv_put omv_at)

lemma set_sweep: "set (sweep f er m) = {(k, f v) | k v. (k, v) \<in> set m \<and> \<not> er (f v)}"
  by (induction f er m rule: sweep.induct) auto

lemma sweep_keys: "om_wf m \<Longrightarrow> om_wf (sweep f er m)"
  by (induction f er m rule: sweep.induct) (auto simp: om_wf_def set_sweep)

lemma omv_sweep: "omv P m \<Longrightarrow> (\<And>v. P v \<Longrightarrow> Q (f v)) \<Longrightarrow> omv Q (sweep f er m)"
  by (auto simp: omv_def sweep_keys set_sweep)

lemma omv_sweep_kept: "omv P m \<Longrightarrow> (\<And>v. P v \<Longrightarrow> \<not> er (f v) \<Longrightarrow> Q (f v)) \<Longrightarrow> omv Q (sweep f er m)"
  by (force simp: omv_def sweep_keys set_sweep)

lemma map_of_sweep:
  "om_wf m \<Longrightarrow> map_of (sweep f er m) k = Option.bind (map_of m k) (\<lambda>v. if er (f v) then None else Some (f v))"
proof (induction f er m rule: sweep.induct)
  case (2 f er a v m)
  then have wf: "om_wf m" and none: "map_of m a = None"
    by (auto simp: om_wf_def map_of_eq_None_iff)
  with 2 show ?case by auto
qed simp

lemma map_of_change [simp]:
  "map_of (om_change d k f m) k' = (if k' = k then Some (f (om_at d m k)) else map_of m k')"
  by (simp add: om_change_def)

lemma om_change_ne [simp]: "om_change d k f m \<noteq> []"
  using map_of_change [of d k f m k] by (metis map_of.simps(1) option.discI)

text \<open>The shape of all tables: sorted keys at every level, and only members of \<open>PData\<close>.\<close>

definition pdata_ok :: "'f pdata \<Rightarrow> bool" where
  "pdata_ok d \<longleftrightarrow> om_wf d \<and> fst ` set d \<subseteq> set pdata_members"

definition serie_wf :: "'f time_serie \<Rightarrow> bool" where
  "serie_wf = omv (omv (omv pdata_ok))"

definition data_wf :: "'f location_data \<Rightarrow> bool" where
  "data_wf = omv serie_wf"

text \<open>The element of a key, and the value of a member there.\<close>

definition serie_element :: "'f time_serie \<Rightarrow> vtime \<times> vtime \<times> string \<Rightarrow> 'f pdata option" where
  "serie_element ts k =
     (let (t, fr, p) = k
      in Option.bind (map_of ts t) (\<lambda>frs. Option.bind (map_of frs fr) (\<lambda>pds. map_of pds p)))"

definition serie_value :: "'f time_serie \<Rightarrow> vtime \<times> vtime \<times> string \<Rightarrow> string \<Rightarrow> 'f option" where
  "serie_value ts k m = Option.bind (serie_element ts k) (\<lambda>pd. map_of pd m)"

definition element :: "'f location_data \<Rightarrow> point \<Rightarrow> vtime \<times> vtime \<times> string \<Rightarrow> 'f pdata option" where
  "element d l k = Option.bind (map_of d l) (\<lambda>ts. serie_element ts k)"

definition value_at :: "'f location_data \<Rightarrow> point \<Rightarrow> vtime \<times> vtime \<times> string \<Rightarrow> string \<Rightarrow> 'f option" where
  "value_at d l k m = Option.bind (element d l k) (\<lambda>pd. map_of pd m)"

lemma serie_element_Nil [simp]: "serie_element [] k = None"
  by (simp add: serie_element_def case_prod_unfold)

lemma value_at_Nil [simp]: "value_at [] l k m = None"
  by (simp add: value_at_def element_def)

lemma value_at_serie: "value_at d l k m = serie_value (om_at [] d l) k m"
  by (simp add: value_at_def element_def serie_value_def om_at_def split: option.split)

lemma element_change_element [simp]:
  "serie_element (element_change k f ts) k' =
     (if k' = k then Some (f (case serie_element ts k of None \<Rightarrow> pdata_new | Some pd \<Rightarrow> pd)) else serie_element ts k')"
  by (cases k; cases k')
    (auto simp: serie_element_def element_change_def ts_change_def om_at_def split: option.split)

lemma element_change_same [simp]: "serie_value (element_change k (\<lambda>pd. pd) ts) k' m = serie_value ts k' m"
  by (simp add: serie_value_def pdata_new_def split: option.split)

lemma map_of_pdata_set [simp]:
  "map_of (pdata_set fm m v d) m' = (if m' = m then (if v = fm then None else Some v) else map_of d m')"
  by (simp add: pdata_set_def)

lemma element_change_set [simp]:
  "serie_value (element_change k (pdata_set fm m v) ts) k' m' =
     (if k' = k \<and> m' = m then (if v = fm then None else Some v) else serie_value ts k' m')"
  by (simp add: serie_value_def pdata_new_def split: option.split)

lemma value_at_change [simp]:
  "value_at (om_change [] l f d) l' k m = (if l' = l then serie_value (f (om_at [] d l)) k m else value_at d l' k m)"
  by (simp add: value_at_def element_def serie_value_def)

lemma serie_wf_change:
  assumes "serie_wf ts" "\<And>pd. pdata_ok pd \<Longrightarrow> pdata_ok (f pd)"
  shows "serie_wf (element_change k f ts)"
proof -
  have "pdata_ok pdata_new" by (simp add: pdata_ok_def pdata_new_def)
  with assms show ?thesis
    unfolding serie_wf_def element_change_def ts_change_def
    by (auto split: prod.split intro!: omv_change)
qed

section \<open>What the rows write\<close>

text \<open>The value a row writes: its point, the element, the member and the number.\<close>

definition row_write ::
  "'f denv \<Rightarrow> bool \<Rightarrow> 'f param_def_list \<Rightarrow> provider_item list \<Rightarrow> reftimes \<Rightarrow> data_row
    \<Rightarrow> (point \<times> (vtime \<times> vtime \<times> string) \<times> string \<times> 'f) option"
where
  "row_write e tuples defs providers refTimes r =
     (case row_subject e tuples defs providers refTimes r of
        Inr (Some (q, k, pd)) \<Rightarrow>
          (case row_number e pd r of
             Inr (Some v) \<Rightarrow>
               map_option (\<lambda>(k', m). (q, k', m, v))
                 (value_place (if tuples then alias_places_tuple else alias_places) pd k)
           | _ \<Rightarrow> None)
      | _ \<Rightarrow> None)"

definition row_point :: "'f denv \<Rightarrow> bool \<Rightarrow> 'f param_def_list \<Rightarrow> provider_item list \<Rightarrow> reftimes \<Rightarrow> data_row \<Rightarrow> point option" where
  "row_point e tuples defs providers refTimes r =
     (case row_subject e tuples defs providers refTimes r of Inr (Some (q, k, pd)) \<Rightarrow> Some q | _ \<Rightarrow> None)"

lemma store_number_value:
  "serie_value (store_number e places pd n v ts) k m =
     (case value_place places pd n of
        Some (k', m') \<Rightarrow> if k = k' \<and> m = m' then (if v = flt_max e then None else Some v) else serie_value ts k m
      | None \<Rightarrow> serie_value ts k m)"
  by (auto simp: store_number_def split: option.split)

lemma om_change_keys [simp]: "fst ` set (om_change d k f m) = insert k (fst ` set m)"
  by (simp add: om_change_def)

lemma made_element [simp]: "value_at (om_change [] l (element_change k (\<lambda>pd. pd)) d) l' k' m = value_at d l' k' m"
  by (simp add: value_at_serie [of d])

lemma decode_row_cases:
  assumes "decode_row e tuples defs ps refs poly r d = (None, d')"
  obtains "row_subject e tuples defs ps refs r = Inr None" "d' = d"
  | q k pd where "row_subject e tuples defs ps refs r = Inr (Some (q, k, pd))" "row_number e pd r = Inr None"
      "d' = om_change [] (row_location poly q d) (element_change k (\<lambda>pd. pd)) d"
  | q k pd v where "row_subject e tuples defs ps refs r = Inr (Some (q, k, pd))" "row_number e pd r = Inr (Some v)"
      "d' = om_change [] (row_location poly q d)
              (store_number e (if tuples then alias_places_tuple else alias_places) pd k v)
              (om_change [] (row_location poly q d) (element_change k (\<lambda>pd. pd)) d)"
  using assms by (auto simp: decode_row_def Let_def split: sum.splits option.splits)

lemma decode_row_value:
  assumes "decode_row e tuples defs ps refs poly r d = (None, d')"
  shows "value_at d' l k m =
    (case row_write e tuples defs ps refs r of
       Some (q, k', m', v) \<Rightarrow>
         if l = row_location poly q d \<and> k = k' \<and> m = m' then (if v = flt_max e then None else Some v)
         else value_at d l k m
     | None \<Rightarrow> value_at d l k m)"
  using assms
proof (cases rule: decode_row_cases)
  case (3 q k0 pd v)
  then have "value_at d' l k m = (if l = row_location poly q d
      then serie_value (store_number e (if tuples then alias_places_tuple else alias_places) pd k0 v
             (element_change k0 (\<lambda>pd. pd) (om_at [] d l))) k m
      else value_at d l k m)"
    by (simp add: om_at_def [of _ "om_change _ _ _ _"])
  with 3 show ?thesis
    by (simp add: row_write_def store_number_value value_at_serie split: option.split)
qed (simp_all add: row_write_def value_at_serie [of d])

lemma decode_row_location:
  assumes "decode_row e tuples defs ps refs poly r d = (None, d')"
  shows "fst ` set d' = (case row_point e tuples defs ps refs r of
      None \<Rightarrow> fst ` set d | Some q \<Rightarrow> insert (row_location poly q d) (fst ` set d))"
  using assms by (cases rule: decode_row_cases) (simp_all add: row_point_def)

lemma row_write_point: "row_write e tuples defs ps refs r = Some (q, w) \<Longrightarrow> row_point e tuples defs ps refs r = Some q"
  by (auto simp: row_write_def row_point_def split: sum.splits option.splits prod.splits)

text \<open>The last row that writes to a place decides; \<open>FLT_MAX\<close> leaves the member unset.\<close>

definition last_write ::
  "'f \<Rightarrow> (point \<Rightarrow> bool) \<Rightarrow> vtime \<times> vtime \<times> string \<Rightarrow> string \<Rightarrow> (point \<times> (vtime \<times> vtime \<times> string) \<times> string \<times> 'f) list
    \<Rightarrow> 'f option \<Rightarrow> 'f option"
where
  "last_write fm P k m ws old =
     fold (\<lambda>(q, k', m', v) x. if P q \<and> k' = k \<and> m' = m then (if v = fm then None else Some v) else x) ws old"

lemma last_write_Cons [simp]:
  "last_write fm P k m ((q, k', m', v) # ws) old =
     last_write fm P k m ws (if P q \<and> k' = k \<and> m' = m then (if v = fm then None else Some v) else old)"
  by (simp add: last_write_def)

lemma last_write_Nil [simp]: "last_write fm P k m [] old = old"
  by (simp add: last_write_def)

lemma decode_rows_polygon:
  "decode_rows e tuples defs ps refs True rs d = (None, d') \<Longrightarrow>
     value_at d' l k m =
       last_write (flt_max e) (\<lambda>q. q = l) k m (List.map_filter (row_write e tuples defs ps refs) rs) (value_at d l k m)"
proof (induction rs arbitrary: d)
  case (Cons r rs)
  then obtain d1 where d1: "decode_row e tuples defs ps refs True r d = (None, d1)"
      "decode_rows e tuples defs ps refs True rs d1 = (None, d')"
    by (auto simp: Let_def split: if_splits prod.splits)
  show ?case
    using Cons.IH [OF d1(2)] decode_row_value [OF d1(1), of l k m]
    by (auto simp: List.map_filter_simps row_location_def split: option.splits prod.splits)
qed (simp add: List.map_filter_simps)

lemma decode_rows_single:
  assumes "decode_rows e tuples defs ps refs False rs d = (None, d')" "fst ` set d = {l}"
  shows "fst ` set d' = {l} \<and> value_at d' l k m =
       last_write (flt_max e) (\<lambda>q. True) k m (List.map_filter (row_write e tuples defs ps refs) rs) (value_at d l k m)"
  using assms
proof (induction rs arbitrary: d)
  case (Cons r rs)
  then obtain d1 where d1: "decode_row e tuples defs ps refs False r d = (None, d1)"
      "decode_rows e tuples defs ps refs False rs d1 = (None, d')"
    by (auto simp: Let_def split: if_splits prod.splits)
  from Cons.prems(2) have ne: "d \<noteq> []" by auto
  then have "fst (hd d) \<in> fst ` set d" by simp
  with Cons.prems(2) have "fst (hd d) = l" by simp
  moreover have "q = l" if "map_of d q \<noteq> None" for q
    using that Cons.prems(2) by (metis domIff dom_map_of_conv_image_fst singletonD)
  ultimately have loc: "row_location False q d = l" for q
    using ne by (auto simp: row_location_def)
  then have "fst ` set d1 = {l}"
    using decode_row_location [OF d1(1)] Cons.prems(2) by (simp split: option.splits)
  from Cons.IH [OF d1(2) this] show ?case
    using decode_row_value [OF d1(1), of l k m] loc
    by (auto simp: List.map_filter_simps split: option.splits prod.splits)
qed (simp add: List.map_filter_simps)

lemma decode_rows_first:
  assumes "decode_rows e tuples defs ps refs False rs [] = (None, d)"
  shows "(case List.map_filter (row_point e tuples defs ps refs) rs of
     [] \<Rightarrow> d = []
   | l # ls \<Rightarrow> fst ` set d = {l} \<and> value_at d l k m =
       last_write (flt_max e) (\<lambda>q. True) k m (List.map_filter (row_write e tuples defs ps refs) rs) None)"
  using assms
proof (induction rs)
  case (Cons r rs)
  then obtain d1 where d1: "decode_row e tuples defs ps refs False r [] = (None, d1)"
      "decode_rows e tuples defs ps refs False rs d1 = (None, d)"
    by (auto simp: Let_def split: if_splits prod.splits)
  note keys = decode_row_location [OF d1(1)] and val = decode_row_value [OF d1(1), of _ k m]
  show ?case
  proof (cases "row_point e tuples defs ps refs r")
    case None
    with keys have "d1 = []" by simp
    moreover from None have "row_write e tuples defs ps refs r = None"
      using row_write_point by (cases "row_write e tuples defs ps refs r") fastforce+
    ultimately show ?thesis using Cons.IH d1(2) None
      by (simp add: List.map_filter_simps split: list.splits)
  next
    case (Some q)
    with keys have "fst ` set d1 = {q}" by (simp add: row_location_def)
    from decode_rows_single [OF d1(2) this, of k m] Some show ?thesis
      using val [of q] row_write_point [of e tuples defs ps refs r]
      by (auto simp: List.map_filter_simps row_location_def split: option.splits prod.splits)
  qed
qed (simp add: List.map_filter_simps)

text \<open>
  C10: What \<open>decodePData\<close> makes of the rows of an answer. For a polygon every point has its own
  tables; otherwise all rows go to the first point that is accepted. In both cases the value of a
  member of an element is the value of the last row that writes there, rows for other parameters,
  providers, times, data versions and null values having no effect, and \<open>FLT_MAX\<close> leaves the
  member unset.
\<close>

theorem decodePData_correct:
  assumes "decodePData e defs ps refs rows poly [] = (None, d)"
  defines "ws \<equiv> List.map_filter (row_write e False defs ps refs) rows"
    and "pts \<equiv> List.map_filter (row_point e False defs ps refs) rows"
  shows "if poly then value_at d l k m = last_write (flt_max e) (\<lambda>q. q = l) k m ws None
    else case pts of
        [] \<Rightarrow> d = []
      | q # qs \<Rightarrow> fst ` set d = {q} \<and> value_at d q k m = last_write (flt_max e) (\<lambda>q. True) k m ws None"
proof (cases poly)
  case True
  with assms(1) show ?thesis
    using decode_rows_polygon [of e False defs ps refs rows "[]" d l k m] by (simp add: decodePData_def ws_def)
next
  case False
  with assms(1) show ?thesis
    using decode_rows_first [of e False defs ps refs rows d k m]
    by (simp add: decodePData_def ws_def pts_def split: list.splits)
qed

text \<open>An answer with a null value, a value, and a later value for the same member.\<close>

definition sample_denv :: "int denv" where
  "sample_denv =
     \<lparr>time_of = (\<lambda>s. Inr (if s = ''infinity'' then Pos_infin else if s = ''-infinity'' then Neg_infin else At 5)),
      int_of = (\<lambda>s. Inr 1), flt_of = (\<lambda>s. Inr (int (length s))), scan_two = (\<lambda>s. Some (10, 60)),
      flt_lt = (<), flt_gt = (>), flt_round = (\<lambda>x. x), flt_affine = (\<lambda>v a b. v * a + b),
      flt_deg = (\<lambda>x. Inr (x * 10000000)), flt_max = 100\<rparr>"

definition sample_row :: "string \<Rightarrow> string option \<Rightarrow> data_row" where
  "sample_row par v =
     \<lparr>dr_row = \<lparr>row_provider = ''met'', row_parameter = par, row_unit = None, row_level = [], row_levelunit = None,
        row_levelfrom = 0, row_levelto = 0\<rparr>,
      dr_referencetime = ''t'', dr_from = ''t'', dr_to = ''t'', dr_placename = ''grid'', dr_dataversion = ''1'',
      dr_point = ''POINT(10 60)'', dr_value = v\<rparr>"

definition sample_defs :: "int param_def_list" where
  "sample_defs =
     param_def_list\<lparr>table := [(defaultProvider,
       [\<lparr>alias_of = ''T.2M'', valueparametername = ''air'', valueparameterunit = [], levelparametername = [],
         levelfrom = 0, levelto = 0, levelunitname = [], scale_of = 2, offset_of = 1, dataversion_of = -1,
         compare_of = Cmp_undef, compareValue = 0, interpolation = ''nearest''\<rparr>])]\<rparr>"

definition sample_rows :: "data_row list" where
  "sample_rows =
     [sample_row ''air'' (Some ''abc''), sample_row ''sea'' (Some ''a''), sample_row ''air'' None,
      sample_row ''air'' (Some ''abcd'')]"

lemma sample_decoded:
  "decodePData sample_denv sample_defs [item ''met'' ''grid''] [] sample_rows False []
   = (None, [(Point 600000000 100000000, [(At 5, [(At 5, [(''met [grid]'', [(''T2M'', 9)])])])])])"
  by code_simp

theorem decodePData_correct_witness:
  "\<exists>d q. decodePData sample_denv sample_defs [item ''met'' ''grid''] [] sample_rows False [] = (None, d)
     \<and> fst ` set d = {q}
     \<and> value_at d q (At 5, At 5, ''met [grid]'') ''T2M'' = Some 9
     \<and> last_write 100 (\<lambda>q. True) (At 5, At 5, ''met [grid]'') ''T2M''
         (List.map_filter (row_write sample_denv False sample_defs [item ''met'' ''grid''] []) sample_rows) None = Some 9"
proof -
  have nine: "value_at [(Point 600000000 100000000, [(At 5, [(At 5, [(''met [grid]'', [(''T2M'', 9::int)])])])])]
      (Point 600000000 100000000) (At 5, At 5, ''met [grid]'') ''T2M'' = Some 9"
    by (simp add: value_at_def element_def serie_element_def)
  have "flt_max sample_denv = 100" by (simp add: sample_denv_def)
  with decodePData_correct [OF sample_decoded, of undefined "(At 5, At 5, ''met [grid]'')" "''T2M''"] nine
    sample_decoded show ?thesis
    by (auto split: list.splits)
qed

section \<open>Removing what is empty\<close>

lemma pdata_count_0: "pdata_ok d \<Longrightarrow> pdata_count d = 0 \<longleftrightarrow> d = []"
proof
  assume ok: "pdata_ok d" and "pdata_count d = 0"
  then have none: "map_of d m = None" if "m \<in> set pdata_members" for m
    using that by (auto simp: pdata_count_def filter_empty_conv)
  show "d = []"
  proof (cases d)
    case (Cons x xs)
    with ok have "fst x \<in> set pdata_members" by (auto simp: pdata_ok_def)
    from none [OF this] Cons show ?thesis by (cases x) simp
  qed
qed (simp add: pdata_count_def)

text \<open>No level of the tables is empty.\<close>

definition no_empty :: "'f location_data \<Rightarrow> bool" where
  "no_empty = omv (\<lambda>ts. ts \<noteq> [] \<and> omv (\<lambda>frs. frs \<noteq> [] \<and> omv (\<lambda>pds. pds \<noteq> [] \<and> omv (\<lambda>pd. pd \<noteq> [] \<and> pdata_ok pd) pds) frs) ts)"

lemma removeEmpty_shape:
  assumes "data_wf d"
  shows "no_empty (removeEmptyData d)"
proof -
  have p: "omv (\<lambda>pd. pd \<noteq> [] \<and> pdata_ok pd) (sweep_providers pds)" if "omv pdata_ok pds" for pds :: "'f provider_data"
    unfolding sweep_providers_def by (rule omv_sweep_kept [OF that]) (auto simp: pdata_count_0)
  have f: "omv (\<lambda>pds. pds \<noteq> [] \<and> omv (\<lambda>pd. pd \<noteq> [] \<and> pdata_ok pd) pds) (sweep_from frs)"
    if "omv (omv pdata_ok) frs" for frs :: "'f from_serie"
    unfolding sweep_from_def by (rule omv_sweep_kept [OF that]) (auto intro: p)
  have t: "omv (\<lambda>frs. frs \<noteq> [] \<and> omv (\<lambda>pds. pds \<noteq> [] \<and> omv (\<lambda>pd. pd \<noteq> [] \<and> pdata_ok pd) pds) frs) (removeEmpty_serie ts)"
    if "serie_wf ts" for ts :: "'f time_serie"
    unfolding removeEmpty_serie_def using that unfolding serie_wf_def
    by (rule omv_sweep_kept) (auto intro: f)
  show ?thesis
    unfolding no_empty_def removeEmptyData_def using assms unfolding data_wf_def
    by (rule omv_sweep_kept) (auto intro: t)
qed

lemma sweep_empty:
  "om_wf m \<Longrightarrow> g [] = None \<Longrightarrow>
     Option.bind (map_of (sweep f (\<lambda>v. v = []) m) k) g = Option.bind (map_of m k) (\<lambda>v. g (f v))"
  by (cases "map_of m k") (auto simp: map_of_sweep)

lemma omv_find: "omv P m \<Longrightarrow> map_of m k = Some v \<Longrightarrow> P v"
  by (auto simp: omv_def dest!: map_of_SomeD intro: rev_image_eqI)

lemma omv_wf: "omv P m \<Longrightarrow> om_wf m"
  by (simp add: omv_def)

definition nonempty_element :: "'f pdata option \<Rightarrow> 'f pdata option" where
  "nonempty_element x = Option.bind x (\<lambda>pd. if pd = [] then None else Some pd)"

lemma removeEmpty_element:
  assumes "serie_wf ts"
  shows "serie_element (removeEmpty_serie ts) (t, fr, p) = nonempty_element (serie_element ts (t, fr, p))"
proof -
  have pds: "map_of (sweep_providers pds) p = nonempty_element (map_of pds p)" if "omv pdata_ok pds" for pds :: "'a provider_data"
    using that omv_find [OF that]
    by (cases "map_of pds p") (auto simp: sweep_providers_def map_of_sweep [OF omv_wf] nonempty_element_def pdata_count_0)
  have frs: "Option.bind (map_of (sweep_from frs) fr) (\<lambda>pds. map_of pds p)
      = nonempty_element (Option.bind (map_of frs fr) (\<lambda>pds. map_of pds p))"
    if "omv (omv pdata_ok) frs" for frs :: "'a from_serie"
    using pds omv_find [OF that]
    by (cases "map_of frs fr") (auto simp: sweep_from_def sweep_empty [OF omv_wf [OF that]] nonempty_element_def)
  show ?thesis
    using frs omv_find [OF assms [unfolded serie_wf_def]]
    by (cases "map_of ts t")
      (auto simp: removeEmpty_serie_def serie_element_def nonempty_element_def
        sweep_empty [OF omv_wf [OF assms [unfolded serie_wf_def]]])
qed

text \<open>
  \<open>removeEmptyData\<close> takes away the elements without a value and the levels that are left empty,
  and nothing else.
\<close>

theorem removeEmptyData_correct:
  assumes "data_wf d"
  shows "no_empty (removeEmptyData d)
    \<and> element (removeEmptyData d) l k = Option.bind (element d l k) (\<lambda>pd. if pd = [] then None else Some pd)"
proof (cases k)
  case (fields t fr p)
  have "element (removeEmptyData d) l k = nonempty_element (element d l k)"
    using omv_find [OF assms [unfolded data_wf_def], of l] fields
    by (cases "map_of d l")
      (auto simp: removeEmptyData_def element_def nonempty_element_def removeEmpty_element
        sweep_empty [OF omv_wf [OF assms [unfolded data_wf_def]]])
  with removeEmpty_shape [OF assms] show ?thesis by (simp add: nonempty_element_def)
qed

theorem removeEmptyData_correct_witness:
  "let d = [(Point 1 2, [(At 5, [(At 5, [(''met'', [(''T2M'', 9::int)]), (''sea'', [])])]), (At 6, [(At 6, [(''met'', [])])])])]
   in no_empty (removeEmptyData d) \<and> element d (Point 1 2) (At 5, At 5, ''sea'') = Some []
     \<and> element (removeEmptyData d) (Point 1 2) (At 5, At 5, ''sea'') = None"
proof -
  let ?d = "[(Point 1 2, [(At 5, [(At 5, [(''met'', [(''T2M'', 9::int)]), (''sea'', [])])]), (At 6, [(At 6, [(''met'', [])])])])]"
  have "data_wf ?d"
    by (simp add: data_wf_def serie_wf_def omv_def pdata_ok_def om_wf_def pdata_members_def less_vtime_def less_eq_vtime_def)
  moreover have "element ?d (Point 1 2) (At 5, At 5, ''sea'') = Some []"
    by (simp add: element_def serie_element_def)
  ultimately show ?thesis
    using removeEmptyData_correct [of ?d "Point 1 2" "(At 5, At 5, ''sea'')"] by simp
qed

section \<open>The shape of what is decoded\<close>

definition only_members :: "(string \<times> pd_place) list \<Rightarrow> bool" where
  "only_members places \<longleftrightarrow> (\<forall>pl \<in> snd ` set places. place_member pl \<in> set pdata_members)"

text \<open>The positions of the members the aliases stand for.\<close>

definition member_indices :: "nat list" where
  "member_indices =
     [1, 0, 2, 3, 4, 5, 6, 8, 9, 10, 11, 12, 15, 21, 16, 17, 18, 19, 20, 22, 23, 24, 25, 26, 27, 28, 29,
      30, 31, 32, 34, 33, 35, 36, 37, 39, 38, 40, 41, 44, 42, 43, 77, 78, 79, 45, 46, 47, 50, 49, 48,
      51, 14, 75, 76, 52, 53, 54, 55, 56, 57, 58, 59, 60, 61, 62, 63, 64, 65, 66, 67, 68, 69, 70, 71,
      72, 73, 74]"

lemma places_are_members: "only_members alias_places"
proof -
  have "map (\<lambda>(a, pl). place_member pl) alias_places = map (\<lambda>i. pdata_members ! i) member_indices"
    by code_simp
  moreover have "list_all (\<lambda>i. i < length pdata_members) member_indices"
    by code_simp
  ultimately have "set (map (\<lambda>(a, pl). place_member pl) alias_places) \<subseteq> set pdata_members"
    by (auto simp: list_all_iff)
  then show ?thesis by (force simp: only_members_def)
qed

lemma tuple_places_are_members: "only_members alias_places_tuple"
proof -
  have "''precipIntensity'' \<in> set pdata_members" "''LANDCOVER'' \<in> set pdata_members"
    by (simp_all add: pdata_members_def)
  with places_are_members show ?thesis
    by (auto simp: only_members_def alias_places_tuple_def place_member_def)
qed

lemma value_place_member:
  assumes "value_place places pd k = Some (k', m)" "only_members places"
  shows "m \<in> set pdata_members"
proof -
  obtain pl where "map_of places (alias_of pd) = Some pl" "m = place_member pl"
    using assms by (auto simp: value_place_def place_member_def split: option.splits pd_place.splits prod.splits)
  with assms(2) show ?thesis by (auto simp: only_members_def dest!: map_of_SomeD)
qed

lemma pdata_ok_set: "pdata_ok pd \<Longrightarrow> m \<in> set pdata_members \<Longrightarrow> pdata_ok (pdata_set fm m v pd)"
  by (cases "v = fm") (auto simp: pdata_ok_def pdata_set_def, auto simp: om_erase_def)

lemma serie_wf_Nil [simp]: "serie_wf []"
  by (simp add: serie_wf_def)

lemma store_number_wf:
  assumes "serie_wf ts" "only_members places"
  shows "serie_wf (store_number e places pd k v ts)"
proof (cases "value_place places pd k")
  case (Some km)
  then obtain k' m where km: "km = (k', m)" "m \<in> set pdata_members"
    using value_place_member [OF _ assms(2)] by (metis surj_pair)
  with Some assms show ?thesis by (auto simp: store_number_def intro!: serie_wf_change pdata_ok_set)
qed (use assms in \<open>simp add: store_number_def\<close>)

lemma decode_row_wf: "data_wf d \<Longrightarrow> data_wf (snd (decode_row e tuples defs ps refs poly r d))"
  unfolding data_wf_def decode_row_def Let_def
  by (auto split: sum.split option.split prod.split
      intro!: omv_change store_number_wf serie_wf_change simp: places_are_members tuple_places_are_members)

lemma decode_rows_wf: "data_wf d \<Longrightarrow> data_wf (snd (decode_rows e tuples defs ps refs poly rows d))"
proof (induction rows arbitrary: d)
  case (Cons r rs)
  with decode_row_wf [of d e tuples defs ps refs poly r] show ?case by (simp add: case_prod_unfold Let_def)
qed simp

lemma decodePData_keeps: "data_wf d \<Longrightarrow> data_wf (snd (decodePData e defs ps refs rows poly d))"
  by (simp add: decodePData_def decode_rows_wf)

lemma removeEmpty_wf: "data_wf d \<Longrightarrow> data_wf (removeEmptyData d)"
  unfolding data_wf_def removeEmptyData_def serie_wf_def removeEmpty_serie_def sweep_from_def sweep_providers_def
  by (intro omv_sweep) simp_all

text \<open>
  The tables always have their shape, also when decoding stops with an exception: every level is
  a map in the order of its keys, and an element has only members of \<open>PData\<close>.
\<close>

theorem decodePData_wf:
  "data_wf d \<Longrightarrow> data_wf (snd (decodePData e defs ps refs rows poly d)) \<and> data_wf (snd (decodePData_tuple e defs ps refs rows poly d))"
  by (simp add: decodePData_def decodePData_tuple_def decode_rows_wf)

theorem decodePData_wf_witness:
  "data_wf (snd (decodePData sample_denv sample_defs [item ''met'' ''grid''] [] sample_rows False []))"
  using decodePData_wf [of "[]" sample_denv sample_defs "[item ''met'' ''grid'']" "[]" sample_rows False]
  by (simp add: data_wf_def)

text \<open>\<open>PData::merge\<close>: the members the other object has set win.\<close>

lemma pdata_merge_lookup:
  assumes "pdata_ok other"
  shows "map_of (pdata_merge other d) m = (case map_of other m of None \<Rightarrow> map_of d m | Some v \<Rightarrow> Some v)"
proof -
  have "map_of (fold (\<lambda>m d. case map_of other m of None \<Rightarrow> d | Some v \<Rightarrow> om_put m v d) ms d) m
      = (if m \<in> set ms then (case map_of other m of None \<Rightarrow> map_of d m | Some v \<Rightarrow> Some v) else map_of d m)" for ms
    by (induction ms arbitrary: d) (auto split: option.splits)
  moreover have "map_of other m = None" if "m \<notin> set pdata_members"
    using that assms by (auto simp: pdata_ok_def map_of_eq_None_iff)
  ultimately show ?thesis by (auto simp: pdata_merge_def)
qed

lemma pdata_ok_merge: "pdata_ok d \<Longrightarrow> pdata_ok (pdata_merge other d)"
proof -
  have "pdata_ok (fold (\<lambda>m d. case map_of other m of None \<Rightarrow> d | Some v \<Rightarrow> om_put m v d) ms d)"
    if "pdata_ok d" "set ms \<subseteq> set pdata_members" for ms
    using that by (induction ms arbitrary: d) (auto simp: pdata_ok_def split: option.split)
  then show "pdata_ok d \<Longrightarrow> pdata_ok (pdata_merge other d)" by (simp add: pdata_merge_def)
qed

text \<open>The setter does not know every alias that is decoded.\<close>

lemma setter_unknown:
  "\<not> fst (setter_init ''T.DEWPOINT'') \<and> map_of alias_places ''T.DEWPOINT'' = Some (Here ''dewPointTemperature'')"
  by code_simp

end
