(* ===== verification/DataRequest.thy ===== *)
theory DataRequest
  imports PointData
begin

text \<open>
  The requests for data: \<open>WdbDataRequestCommand\<close>, which runs one query and checks its answer, and
  \<open>WdbDataRequestManager::mergeData\<close>, which puts the answers together
  (\<open>src/src/mod_wdb2ts/WdbDataRequestCommand.cpp\<close>, \<open>WdbDataRequest.cpp\<close>,
  \<open>transactor/WciRead.cpp\<close>). The database is an argument: what it answers to each attempt.
\<close>

section \<open>A command\<close>

text \<open>\<open>minPrognosisEndTime\<close> is \<^const>\<open>None\<close> when it is special, that is, when no length is asked for.\<close>

record 'f command =
  cmd_data :: "'f location_data"
  cmd_ok :: bool
  cmd_errMsg :: string
  cmd_minEnd :: "int option"

definition command_new :: "int option \<Rightarrow> 'f command" where
  "command_new minEnd = \<lparr>cmd_data = [], cmd_ok = True, cmd_errMsg = [], cmd_minEnd = minEnd\<rparr>"

text \<open>
  The loop of \<open>validatePrognosisLength\<close>: \<open>rest\<close> starts at the iterator, \<open>kept\<close> is what was passed. The
  second \<open>continue\<close> of the loop (line 166) leaves the iterator where it is.
\<close>

partial_function (option) validate_from ::
  "vtime \<Rightarrow> 'f location_data \<Rightarrow> 'f location_data \<Rightarrow> 'f location_data option"
where
  "validate_from minEnd kept rest =
     (case rest of
        [] \<Rightarrow> Some kept
      | x # rest' \<Rightarrow>
          if snd x = [] then validate_from minEnd kept rest'
          else if fst (last (snd x)) = constFieldTime then validate_from minEnd kept rest
          else if fst (last (snd x)) < minEnd then validate_from minEnd kept rest'
          else validate_from minEnd (kept @ [x]) rest')"

definition validatePrognosisLength :: "int option \<Rightarrow> 'f location_data \<Rightarrow> 'f location_data option" where
  "validatePrognosisLength minEnd d =
     (case minEnd of None \<Rightarrow> Some d | Some x \<Rightarrow> validate_from (At x) [] d)"

definition validate :: "int option \<Rightarrow> 'f location_data \<Rightarrow> 'f location_data option" where
  "validate minEnd d = map_option removeEmptyData (validatePrognosisLength minEnd d)"

text \<open>
  One attempt of the transactor \<open>WciRead\<close>: the data are cleared, the query is run and its rows are
  decoded. \<open>perform\<close> of \<open>libpqxx\<close> repeats an attempt that throws; the exception of the last one
  goes to the caller.
\<close>

definition read_once ::
  "'f denv \<Rightarrow> 'f param_def_list \<Rightarrow> provider_item list \<Rightarrow> reftimes \<Rightarrow> bool \<Rightarrow> data_row list result
    \<Rightarrow> exn option \<times> 'f location_data"
where
  "read_once e defs ps refs poly answer =
     (case answer of
        Inl x \<Rightarrow> (Some x, [])
      | Inr rows \<Rightarrow> decodePData e defs ps refs rows poly [])"

fun perform :: "(data_row list result \<Rightarrow> exn option \<times> 'f location_data) \<Rightarrow> data_row list result list \<Rightarrow> exn option \<times> 'f location_data" where
  "perform attempt [] = (None, [])"
| "perform attempt [a] = attempt a"
| "perform attempt (a # b # as) = (let r = attempt a in if fst r = None then r else perform attempt (b # as))"

text \<open>
  \<open>operator()\<close>; the two attempts get the answers \<open>a\<close> and \<open>b\<close>. A run that does not return is
  \<^const>\<open>None\<close>.
\<close>

definition run_command ::
  "'f denv \<Rightarrow> 'f param_def_list \<Rightarrow> provider_item list \<Rightarrow> reftimes \<Rightarrow> bool
    \<Rightarrow> data_row list result \<times> data_row list result \<Rightarrow> 'f command \<Rightarrow> 'f command option"
where
  "run_command e defs ps refs poly answers c =
     (let (a, b) = answers;
          (x, d) = perform (read_once e defs ps refs poly) [a, b]
      in case x of
           Some ex \<Rightarrow> Some (c\<lparr>cmd_data := d, cmd_ok := False, cmd_errMsg := exn_text ex\<rparr>)
         | None \<Rightarrow> map_option (\<lambda>d'. c\<lparr>cmd_data := d'\<rparr>) (validate (cmd_minEnd c) d))"

section \<open>Putting the answers together\<close>

record 'f tinfo =
  ti_command :: "'f command"
  ti_mustHaveData :: bool
  ti_stopIfData :: bool
  ti_completed :: bool

text \<open>The nested loops over the elements of a table, as the list of what they visit.\<close>

definition flat :: "('v \<Rightarrow> ('b \<times> 'w) list) \<Rightarrow> ('a \<times> 'v) list \<Rightarrow> (('a \<times> 'b) \<times> 'w) list" where
  "flat f m = concat (map (\<lambda>(a, v). map (\<lambda>(b, w). ((a, b), w)) (f v)) m)"

definition serie_entries :: "'f time_serie \<Rightarrow> ((vtime \<times> vtime \<times> string) \<times> 'f pdata) list" where
  "serie_entries ts = flat (flat (\<lambda>pds. pds)) ts"

text \<open>
  The body of the innermost loop. \<open>missing\<close> is the test \<open>itd1 == data->end()\<close>; the iterator is set
  once for the location, before its elements are visited.
\<close>

definition merge_element ::
  "bool \<Rightarrow> point \<Rightarrow> bool \<Rightarrow> (vtime \<times> vtime \<times> string) \<times> 'f pdata \<Rightarrow> 'f location_data \<Rightarrow> 'f location_data"
where
  "merge_element isPolygon l missing kp d =
     (let (k, pd) = kp
      in if isPolygon \<or> length d = 0
         then om_change [] l (element_change k (pdata_merge pd)) (if missing then om_put l [] d else d)
         else om_change [] (fst (hd d)) (element_change k (pdata_merge pd)) d)"

definition merge_location :: "bool \<Rightarrow> point \<times> 'f time_serie \<Rightarrow> 'f location_data \<Rightarrow> 'f location_data" where
  "merge_location isPolygon lts d =
     (let (l, ts) = lts
      in fold (merge_element isPolygon l (map_of d l = None)) (serie_entries ts) d)"

fun merge_infos :: "bool \<Rightarrow> bool \<Rightarrow> 'f tinfo list \<Rightarrow> 'f location_data \<Rightarrow> 'f location_data" where
  "merge_infos isPolygon first [] d = d"
| "merge_infos isPolygon first (i # is) d =
     (if \<not> ti_completed i then merge_infos isPolygon first is d
      else if \<not> cmd_ok (ti_command i) then []
      else if ti_mustHaveData i \<and> cmd_data (ti_command i) = [] then []
      else if first then merge_infos isPolygon False is (cmd_data (ti_command i))
      else merge_infos isPolygon False is (fold (merge_location isPolygon) (cmd_data (ti_command i)) d))"

definition mergeData :: "bool \<Rightarrow> 'f tinfo list \<Rightarrow> 'f location_data" where
  "mergeData isPolygon infos = merge_infos isPolygon True infos []"

section \<open>Does the validation end\<close>

definition ends :: "'f time_serie \<Rightarrow> bool" where
  "ends ts \<longleftrightarrow> ts = [] \<or> fst (last ts) \<noteq> constFieldTime"

lemma validate_from_filter:
  "\<forall>ts \<in> snd ` set rest. ends ts \<Longrightarrow>
     validate_from minEnd kept rest = Some (kept @ filter (\<lambda>x. snd x \<noteq> [] \<and> \<not> fst (last (snd x)) < minEnd) rest)"
proof (induction rest arbitrary: kept)
  case Nil
  show ?case by (simp add: validate_from.simps)
next
  case (Cons x rest)
  then show ?case by (subst validate_from.simps) (auto simp: ends_def)
qed

lemma validate_from_returns:
  assumes "validate_from minEnd kept rest = Some d"
  shows "\<forall>ts \<in> snd ` set rest. ends ts"
proof (rule validate_from.raw_induct [where P = "\<lambda>m k rest d. \<forall>ts \<in> snd ` set rest. ends ts", OF _ assms])
  fix f :: "vtime \<Rightarrow> 'a location_data \<Rightarrow> 'a location_data \<Rightarrow> 'a location_data option" and m k rest d
  assume "\<And>m k rest d. f m k rest = Some d \<Longrightarrow> \<forall>ts \<in> snd ` set rest. ends ts"
    and "(case rest of [] \<Rightarrow> Some k
      | x # rest' \<Rightarrow>
          if snd x = [] then f m k rest'
          else if fst (last (snd x)) = constFieldTime then f m k rest
          else if fst (last (snd x)) < m then f m k rest'
          else f m (k @ [x]) rest') = Some d"
  then show "\<forall>ts \<in> snd ` set rest. ends ts"
    by (cases rest) (force simp: ends_def split: if_splits)+
qed

lemma validatePrognosisLength_filter:
  "validatePrognosisLength minEnd d = Some d' \<Longrightarrow> \<exists>P. d' = filter P d"
proof (cases minEnd)
  case None
  then show "validatePrognosisLength minEnd d = Some d' \<Longrightarrow> \<exists>P. d' = filter P d"
    by (auto simp: validatePrognosisLength_def intro: exI [of _ "\<lambda>_. True"])
next
  case (Some x)
  assume "validatePrognosisLength minEnd d = Some d'"
  with Some have v: "validate_from (At x) [] d = Some d'" by (simp add: validatePrognosisLength_def)
  from validate_from_filter [OF validate_from_returns [OF v], of "At x" "[]"] v show ?thesis by auto
qed

text \<open>
  The check of the forecast length ends exactly when no location of the answer has constant
  fields as its last time; otherwise it loops for ever. When it ends it has removed the locations
  without data and those that end before the time asked for.
\<close>

theorem validatePrognosisLength_ends:
  "validatePrognosisLength (Some x) d =
     (if \<forall>ts \<in> snd ` set d. ends ts
      then Some (filter (\<lambda>lts. snd lts \<noteq> [] \<and> \<not> fst (last (snd lts)) < At x) d) else None)"
proof (cases "validate_from (At x) [] d")
  case None
  then show ?thesis
    using validate_from_filter [of d "At x" "[]"] by (auto simp: validatePrognosisLength_def)
next
  case (Some d')
  with validate_from_returns [OF this] show ?thesis
    using validate_from_filter [of d "At x" "[]"] by (simp add: validatePrognosisLength_def)
qed

text \<open>An answer with the height of the model only, when a forecast of some length is asked for.\<close>

theorem validatePrognosisLength_ends_witness:
  "let d = [(Point 1 2, [(constFieldTime, [(constFieldTime, [(''met__MODEL_TOPO__'', [(''modeltopography'', 7::int)])])])])]
   in \<not> (\<forall>ts \<in> snd ` set d. ends ts) \<and> validatePrognosisLength (Some 3600) d = None"
  unfolding Let_def validatePrognosisLength_ends by (simp add: ends_def)

section \<open>Merging two tables\<close>

lemma flat_simps [simp]:
  "flat f [] = []"
  "flat f ((a, v) # m) = map (\<lambda>(b, w). ((a, b), w)) (f v) @ flat f m"
  by (simp_all add: flat_def)

lemma map_of_pairs: "map_of (map (\<lambda>(b, w). ((c, b), w)) l) (a, b) = (if c = a then map_of l b else None)"
  by (induction l) auto

lemma keys_of_pairs: "map fst (map (\<lambda>(b, w). ((c, b), w)) l) = map (Pair c) (map fst l)"
  by (induction l) auto

lemma flat_keys: "x \<in> fst ` set (flat f m) \<Longrightarrow> fst x \<in> fst ` set m"
  by (force simp: flat_def)

lemma map_of_flat:
  "distinct (map fst m) \<Longrightarrow> map_of (flat f m) (a, b) = Option.bind (map_of m a) (\<lambda>v. map_of (f v) b)"
proof (induction m)
  case (Cons x m)
  obtain c v where x: "x = (c, v)" by (cases x)
  with Cons.prems have c: "map_of m c = None" by (simp add: map_of_eq_None_iff)
  have "map_of (flat f m) (a, b) = Option.bind (map_of m a) (\<lambda>v. map_of (f v) b)"
    using Cons by simp
  then show ?case using c x by (cases "map_of (f v) b") (auto simp: map_of_pairs map_add_def)
qed simp

lemma distinct_flat:
  "distinct (map fst m) \<Longrightarrow> (\<And>v. v \<in> snd ` set m \<Longrightarrow> distinct (map fst (f v))) \<Longrightarrow> distinct (map fst (flat f m))"
proof (induction m)
  case (Cons x m)
  obtain c v where x: "x = (c, v)" by (cases x)
  have "distinct (map fst (flat f m))" using Cons by simp
  moreover have "distinct (map (Pair c) (map fst (f v)))"
    using Cons.prems(2) [of v] x by (simp add: distinct_map inj_on_def)
  moreover have "set (map (Pair c) (map fst (f v))) \<inter> set (map fst (flat f m)) = {}"
  proof (rule ccontr)
    assume "set (map (Pair c) (map fst (f v))) \<inter> set (map fst (flat f m)) \<noteq> {}"
    then obtain y where "(c, y) \<in> fst ` set (flat f m)" by auto
    from flat_keys [OF this] Cons.prems(1) x show False by simp
  qed
  ultimately show ?case unfolding x flat_simps map_append keys_of_pairs by simp
qed simp

lemma wf_distinct: "om_wf m \<Longrightarrow> distinct (map fst m)"
  by (simp add: om_wf_def strict_sorted_iff)

lemma serie_entries_wf:
  assumes "serie_wf ts"
  shows "distinct (map fst (serie_entries ts))" "map_of (serie_entries ts) = serie_element ts"
proof -
  have frs: "distinct (map fst (flat (\<lambda>pds. pds) frs))
      \<and> map_of (flat (\<lambda>pds. pds) frs) (fr, p) = Option.bind (map_of frs fr) (\<lambda>pds. map_of pds p)"
    if "omv (omv pdata_ok) frs" for frs :: "'a from_serie" and fr p
    using that by (auto simp: map_of_flat omv_def wf_distinct intro!: distinct_flat)
  have ts: "om_wf ts" "\<forall>frs \<in> snd ` set ts. omv (omv pdata_ok) frs"
    using assms by (auto simp: serie_wf_def omv_def)
  show "distinct (map fst (serie_entries ts))"
    unfolding serie_entries_def by (rule distinct_flat) (use ts frs in \<open>auto simp: wf_distinct\<close>)
  show "map_of (serie_entries ts) = serie_element ts"
  proof
    fix k
    show "map_of (serie_entries ts) k = serie_element ts k"
      using ts frs by (cases k; cases "map_of ts (fst k)")
        (auto simp: serie_entries_def map_of_flat wf_distinct serie_element_def dest!: map_of_SomeD)
  qed
qed

lemma serie_value_merge:
  assumes "pdata_ok pd"
  shows "serie_value (element_change k (pdata_merge pd) ts) k' m =
    (if k' = k then (case map_of pd m of Some v \<Rightarrow> Some v | None \<Rightarrow> serie_value ts k m) else serie_value ts k' m)"
  using pdata_merge_lookup [OF assms] by (auto simp: serie_value_def pdata_new_def split: option.split)

text \<open>Merging all elements of one table into another: the values of the first win.\<close>

definition merge_series :: "'f time_serie \<Rightarrow> 'f time_serie \<Rightarrow> 'f time_serie" where
  "merge_series new ts = fold (\<lambda>(k, pd). element_change k (pdata_merge pd)) (serie_entries new) ts"

lemma fold_merge_value:
  assumes "distinct (map fst es)" "\<forall>pd \<in> snd ` set es. pdata_ok pd"
  shows "serie_value (fold (\<lambda>(k, pd). element_change k (pdata_merge pd)) es ts) k m =
    (case Option.bind (map_of es k) (\<lambda>pd. map_of pd m) of Some v \<Rightarrow> Some v | None \<Rightarrow> serie_value ts k m)"
  using assms
proof (induction es arbitrary: ts)
  case (Cons x es)
  obtain k0 pd where x: "x = (k0, pd)" by (cases x)
  have none: "map_of es k = None" if "k = k0"
    using that Cons.prems(1) x by (simp add: map_of_eq_None_iff)
  have "serie_value (fold (\<lambda>(k, pd). element_change k (pdata_merge pd)) es (element_change k0 (pdata_merge pd) ts)) k m =
    (case Option.bind (map_of es k) (\<lambda>pd. map_of pd m) of Some v \<Rightarrow> Some v
       | None \<Rightarrow> serie_value (element_change k0 (pdata_merge pd) ts) k m)"
    using Cons.prems by (intro Cons.IH) simp_all
  moreover have "pdata_ok pd" using Cons.prems(2) x by simp
  ultimately show ?case
    using none x by (cases "k = k0") (simp_all add: serie_value_merge split: option.splits)
qed simp

lemma serie_entries_ok: "serie_wf ts \<Longrightarrow> \<forall>pd \<in> snd ` set (serie_entries ts). pdata_ok pd"
  by (fastforce simp: serie_wf_def omv_def serie_entries_def flat_def)

lemma merge_series_value:
  assumes "serie_wf new"
  shows "serie_value (merge_series new ts) k m =
    (case serie_value new k m of Some v \<Rightarrow> Some v | None \<Rightarrow> serie_value ts k m)"
  using fold_merge_value [OF serie_entries_wf(1) [OF assms] serie_entries_ok [OF assms]]
  by (simp add: merge_series_def serie_entries_wf(2) [OF assms] serie_value_def [of new])

lemma merge_series_wf: "serie_wf ts \<Longrightarrow> serie_wf (merge_series new ts)"
proof -
  have "serie_wf (fold (\<lambda>(k, pd). element_change k (pdata_merge pd)) es ts)" if "serie_wf ts" for es :: "((vtime \<times> vtime \<times> string) \<times> 'a pdata) list"
    using that by (induction es arbitrary: ts) (auto intro!: serie_wf_change pdata_ok_merge)
  then show "serie_wf ts \<Longrightarrow> serie_wf (merge_series new ts)" by (simp add: merge_series_def)
qed

section \<open>Merging the answers for one point\<close>

definition the_serie :: "'f location_data \<Rightarrow> 'f time_serie" where
  "the_serie d = (case d of [] \<Rightarrow> [] | x # _ \<Rightarrow> snd x)"

lemma merge_element_one:
  "merge_element False l missing (k, pd) [(l0, ts)] = [(l0, element_change k (pdata_merge pd) ts)]"
  by (simp add: merge_element_def om_change_def om_at_def)

lemma merge_elements_one:
  "fold (merge_element False l missing) es [(l0, ts)] = [(l0, fold (\<lambda>(k, pd). element_change k (pdata_merge pd)) es ts)]"
  by (induction es arbitrary: ts) (auto simp: merge_element_one)

lemma merge_location_one: "merge_location False (l, ts) [(l0, ts0)] = [(l0, merge_series ts ts0)]"
  by (simp add: merge_location_def merge_elements_one merge_series_def)

lemma merge_location_none:
  "merge_location False (l, ts) [] = (if serie_entries ts = [] then [] else [(l, merge_series ts [])])"
proof (cases "serie_entries ts")
  case (Cons x es)
  obtain k pd where "x = (k, pd)" by (cases x)
  with Cons show ?thesis
    by (simp add: merge_location_def merge_element_def om_change_def om_at_def merge_elements_one merge_series_def)
qed (simp add: merge_location_def)

lemma short_cases: "length d \<le> 1 \<Longrightarrow> (d = [] \<Longrightarrow> P) \<Longrightarrow> (\<And>l ts. d = [(l, ts)] \<Longrightarrow> P) \<Longrightarrow> P"
  by (cases d; cases "tl d") auto

lemma merge_single:
  assumes "length d \<le> 1" "length new \<le> 1" "data_wf new" "data_wf d"
  defines "r \<equiv> fold (merge_location False) new d"
  shows "length r \<le> 1 \<and> data_wf r \<and> serie_value (the_serie r) k m =
    (case serie_value (the_serie new) k m of Some v \<Rightarrow> Some v | None \<Rightarrow> serie_value (the_serie d) k m)"
proof (rule short_cases [OF assms(2)])
  assume "new = []"
  with assms show ?thesis by (simp add: the_serie_def serie_value_def)
next
  fix l ts
  assume new: "new = [(l, ts)]"
  then have ts: "serie_wf ts" using assms(3) by (simp add: data_wf_def omv_def)
  have empty: "serie_value ts k m = None" if "serie_entries ts = []"
    using serie_entries_wf(2) [OF ts, THEN fun_cong, of k] that by (simp add: serie_value_def)
  show ?thesis
  proof (rule short_cases [OF assms(1)])
    assume "d = []"
    with new ts empty show ?thesis
      by (auto simp: r_def merge_location_none the_serie_def merge_series_value data_wf_def omv_def om_wf_def
          merge_series_wf serie_value_def [of "[]"] split: option.split)
  next
    fix l0 ts0
    assume "d = [(l0, ts0)]"
    with new ts assms(4) show ?thesis
      by (simp add: r_def merge_location_one the_serie_def merge_series_value data_wf_def omv_def om_wf_def merge_series_wf
          split: option.split)
  qed
qed

text \<open>A completed query that failed, or that has no data and must have.\<close>

definition spoils :: "'f tinfo \<Rightarrow> bool" where
  "spoils i \<longleftrightarrow> ti_completed i \<and> (\<not> cmd_ok (ti_command i) \<or> ti_mustHaveData i \<and> cmd_data (ti_command i) = [])"

text \<open>Of the completed queries the last that has a value decides.\<close>

definition latest_value :: "vtime \<times> vtime \<times> string \<Rightarrow> string \<Rightarrow> 'f tinfo list \<Rightarrow> 'f option \<Rightarrow> 'f option" where
  "latest_value k m is old =
     fold (\<lambda>i x. case serie_value (the_serie (cmd_data (ti_command i))) k m of Some v \<Rightarrow> Some v | None \<Rightarrow> x)
       (filter ti_completed is) old"

definition answer_ok :: "'f tinfo \<Rightarrow> bool" where
  "answer_ok i \<longleftrightarrow> data_wf (cmd_data (ti_command i)) \<and> length (cmd_data (ti_command i)) \<le> 1"

lemma merge_spoiled: "\<exists>i \<in> set is. spoils i \<Longrightarrow> merge_infos poly first is d = []"
proof (induction "is" arbitrary: first d)
  case (Cons i "is")
  have "merge_infos poly first (i # is) d =
      (if spoils i then [] else if \<not> ti_completed i then merge_infos poly first is d
       else if first then merge_infos poly False is (cmd_data (ti_command i))
       else merge_infos poly False is (fold (merge_location poly) (cmd_data (ti_command i)) d))"
    by (auto simp: spoils_def)
  with Cons show ?case by auto
qed simp

lemma merge_infos_value:
  assumes "\<forall>i \<in> set is. \<not> spoils i \<and> answer_ok i" "length d \<le> 1" "data_wf d" "first \<Longrightarrow> d = []"
  shows "length (merge_infos False first is d) \<le> 1 \<and>
    serie_value (the_serie (merge_infos False first is d)) k m = latest_value k m is (serie_value (the_serie d) k m)"
  using assms
proof (induction "is" arbitrary: first d)
  case Nil
  then show ?case by (simp add: latest_value_def)
next
  case (Cons i "is")
  let ?new = "cmd_data (ti_command i)"
  have ok: "\<not> spoils i" "length ?new \<le> 1" "data_wf ?new" and rest: "\<forall>i \<in> set is. \<not> spoils i \<and> answer_ok i"
    using Cons.prems(1) by (auto simp: answer_ok_def)
  note step = merge_single [OF Cons.prems(2) ok(2,3) Cons.prems(3), of k m]
  show ?case
  proof (cases "ti_completed i")
    case False
    with Cons.IH [OF rest Cons.prems(2-4)] show ?thesis by (simp add: latest_value_def)
  next
    case True
    with ok(1) have good: "cmd_ok (ti_command i)" "\<not> (ti_mustHaveData i \<and> ?new = [])" by (auto simp: spoils_def)
    show ?thesis
    proof (cases first)
      case f: True
      with Cons.prems(4) have "serie_value (the_serie d) k m = None" by (simp add: the_serie_def serie_value_def)
      with Cons.IH [of ?new False] rest ok True good f show ?thesis
        by (auto simp: latest_value_def split: option.split)
    next
      case f: False
      with Cons.IH [of "fold (merge_location False) ?new d" False] rest step True good show ?thesis
        by (auto simp: latest_value_def)
    qed
  qed
qed

lemma merged_value:
  assumes "\<forall>i \<in> set is. answer_ok i"
  shows "if \<exists>i \<in> set is. spoils i then mergeData False is = []
    else length (mergeData False is) \<le> 1 \<and>
      serie_value (the_serie (mergeData False is)) k m = latest_value k m is None"
proof (cases "\<exists>i \<in> set is. spoils i")
  case False
  with assms have "\<forall>i \<in> set is. \<not> spoils i \<and> answer_ok i" by blast
  from merge_infos_value [OF this, of "[]" True k m] False show ?thesis
    by (simp add: mergeData_def data_wf_def the_serie_def serie_value_def)
qed (simp add: mergeData_def merge_spoiled)

text \<open>
  C30: The answers for one point put together: nothing when one of the completed queries failed or
  lacks the data it must have; otherwise one table, in which every value is that of the last
  completed query that has one.
\<close>

theorem mergeData_correct:
  assumes "\<forall>i \<in> set is. answer_ok i"
  shows "if \<exists>i \<in> set is. spoils i then mergeData False is = []
    else length (mergeData False is) \<le> 1 \<and>
      serie_value (the_serie (mergeData False is)) k m = latest_value k m is None"
  using merged_value [OF assms] .

definition sample_info :: "bool \<Rightarrow> (string \<times> int) list \<Rightarrow> int tinfo" where
  "sample_info ok vs =
     \<lparr>ti_command = (command_new None)\<lparr>cmd_ok := ok, cmd_data := [(Point 1 2, [(At 5, [(At 5, [(''met'', vs)])])])]\<rparr>,
      ti_mustHaveData = True, ti_stopIfData = False, ti_completed = True\<rparr>"

theorem mergeData_correct_witness:
  "let is = [sample_info True [(''PP'', 1), (''T2M'', 1)], sample_info True [(''T2M'', 2)]]
   in (\<forall>i \<in> set is. answer_ok i \<and> \<not> spoils i) \<and> latest_value (At 5, At 5, ''met'') ''T2M'' is None = Some 2
     \<and> serie_value (the_serie (mergeData False is)) (At 5, At 5, ''met'') ''T2M'' = Some 2"
proof -
  let ?is = "[sample_info True [(''PP'', 1), (''T2M'', 1)], sample_info True [(''T2M'', 2)]]"
  have ok: "\<forall>i \<in> set ?is. answer_ok i" "\<forall>i \<in> set ?is. \<not> spoils i"
    by (simp_all add: answer_ok_def spoils_def sample_info_def command_new_def data_wf_def serie_wf_def omv_def om_wf_def
        pdata_ok_def pdata_members_def)
  have "latest_value (At 5, At 5, ''met'') ''T2M'' ?is None = Some 2"
    by (simp add: latest_value_def sample_info_def command_new_def the_serie_def serie_value_def serie_element_def)
  with mergeData_correct [OF ok(1), of "(At 5, At 5, ''met'')" "''T2M''"] ok show ?thesis
    by (auto simp: Let_def)
qed

section \<open>Polygons\<close>

lemma merge_element_polygon:
  "merge_element True l missing (k, pd) d =
     om_change [] l (element_change k (pdata_merge pd)) (if missing then om_put l [] d else d)"
  by (simp add: merge_element_def)

lemma merge_known:
  "map_of d l = Some ts0 \<Longrightarrow>
     map_of (fold (merge_element True l False) es d) = (map_of d)(l \<mapsto> fold (\<lambda>(k, pd). element_change k (pdata_merge pd)) es ts0)"
proof (induction es arbitrary: d ts0)
  case (Cons x es)
  obtain k pd where x: "x = (k, pd)" by (cases x)
  have "map_of (merge_element True l False (k, pd) d) = (map_of d)(l \<mapsto> element_change k (pdata_merge pd) ts0)"
    using Cons.prems by (auto simp: merge_element_polygon om_at_def)
  with Cons.IH [of "merge_element True l False (k, pd) d" "element_change k (pdata_merge pd) ts0"] x show ?case
    by (simp add: fun_eq_iff)
qed (simp add: map_upd_triv)

lemma merge_element_new:
  "map_of (merge_element True l True x d) = (map_of d)(l \<mapsto> element_change (fst x) (pdata_merge (snd x)) [])"
  by (cases x) (auto simp: merge_element_polygon om_at_def)

lemma merge_new:
  assumes "es \<noteq> []"
  shows "map_of (fold (merge_element True l True) es d) =
    (map_of d)(l \<mapsto> element_change (fst (last es)) (pdata_merge (snd (last es))) [])"
  using assms
proof (induction es rule: rev_induct)
  case (snoc x es)
  then show ?case by (cases "es = []") (simp_all add: merge_element_new fun_eq_iff)
qed simp

text \<open>
  For a polygon, a location that the answers so far have gets all elements of the next answer
  merged in; but of a location that is new only the last element visited is kept, because the test
  for a new location is made with an iterator from before the first element was stored.
\<close>

theorem merge_polygon:
  "(map_of d l = Some ts0 \<longrightarrow> map_of (merge_location True (l, ts) d) = (map_of d)(l \<mapsto> merge_series ts ts0))
   \<and> (map_of d l = None \<and> serie_entries ts \<noteq> [] \<longrightarrow>
        map_of (merge_location True (l, ts) d) =
          (map_of d)(l \<mapsto> element_change (fst (last (serie_entries ts))) (pdata_merge (snd (last (serie_entries ts)))) []))"
  by (simp add: merge_location_def merge_known merge_new merge_series_def)

text \<open>Two times for a new point: the first is lost.\<close>

theorem merge_polygon_witness:
  "let ts = [(At 5, [(At 5, [(''met'', [(''T2M'', 1::int)])])]), (At 6, [(At 6, [(''met'', [(''T2M'', 2)])])])];
       d = merge_location True (Point 1 2, ts) []
   in value_at d (Point 1 2) (At 5, At 5, ''met'') ''T2M'' = None
     \<and> value_at d (Point 1 2) (At 6, At 6, ''met'') ''T2M'' = Some 2"
proof -
  let ?ts = "[(At 5, [(At 5, [(''met'', [(''T2M'', 1::int)])])]), (At 6, [(At 6, [(''met'', [(''T2M'', 2)])])])]"
  let ?d = "merge_location True (Point 1 2, ?ts) []"
  have es: "serie_entries ?ts = [((At 5, At 5, ''met''), [(''T2M'', 1)]), ((At 6, At 6, ''met''), [(''T2M'', 2)])]"
    by (simp add: serie_entries_def)
  have m: "map_of (pdata_merge [(''T2M'', 2::int)] []) ''T2M'' = Some 2"
    by (subst pdata_merge_lookup) (simp_all add: pdata_ok_def om_wf_def pdata_members_def)
  have "map_of ?d (Point 1 2) = Some (element_change (At 6, At 6, ''met'') (pdata_merge [(''T2M'', 2)]) [])"
    using merge_polygon [of "[]" "Point 1 2" "[]" ?ts] es by simp
  with m show ?thesis
    by (simp add: Let_def value_at_def element_def pdata_new_def)
qed

section \<open>Running a command\<close>

lemma decode_row_short:
  assumes "length d \<le> 1"
  shows "length (snd (decode_row e tuples defs ps refs False r d)) \<le> 1"
proof (rule short_cases [OF assms])
  assume "d = []"
  then show ?thesis
    by (auto simp: decode_row_def row_location_def om_change_def Let_def split: sum.split option.split)
next
  fix l ts
  assume d: "d = [(l, ts)]"
  then have "row_location False q d = l" for q by (simp add: row_location_def)
  with d show ?thesis
    by (auto simp: decode_row_def om_change_def Let_def split: sum.split option.split)
qed

lemma decodePData_short: "length (snd (decodePData e defs ps refs rows False [])) \<le> 1"
proof -
  have "length (snd (decode_rows e False defs ps refs False rows d)) \<le> 1" if "length d \<le> 1" for d
    using that
  proof (induction rows arbitrary: d)
    case (Cons r rs)
    with decode_row_short [of d e False defs ps refs r] show ?case by (simp add: case_prod_unfold Let_def)
  qed simp
  then show ?thesis by (simp add: decodePData_def)
qed

lemma length_sweep: "length (sweep f er m) \<le> length m"
  by (induction f er m rule: sweep.induct) auto

lemma read_once_ok:
  "data_wf (snd (read_once e defs ps refs poly answer)) \<and> (\<not> poly \<longrightarrow> length (snd (read_once e defs ps refs poly answer)) \<le> 1)"
proof -
  have "data_wf []" by (simp add: data_wf_def)
  with decodePData_keeps decodePData_short show ?thesis
    by (cases poly) (auto simp: read_once_def split: sum.split)
qed

lemma validate_ok:
  assumes "validate minEnd d = Some d'" "data_wf d"
  shows "data_wf d' \<and> no_empty d' \<and> length d' \<le> length d"
proof -
  obtain P where d': "d' = removeEmptyData (filter P d)"
    using assms(1) validatePrognosisLength_filter [of minEnd d] by (auto simp: validate_def)
  have "data_wf (filter P d)"
    using assms(2) by (auto simp: data_wf_def omv_def om_wf_def sorted_wrt_filter sorted_wrt_map)
  then have "no_empty d'" "data_wf d'"
    using removeEmpty_shape removeEmpty_wf by (auto simp: d')
  moreover have "length d' \<le> length d"
    using length_sweep length_filter_le unfolding d' removeEmptyData_def by (rule order_trans)
  ultimately show ?thesis by simp
qed

lemma run_command_ok:
  assumes "run_command e defs ps refs poly answers c = Some c'"
  shows "data_wf (cmd_data c')" "\<not> poly \<Longrightarrow> length (cmd_data c') \<le> 1" "cmd_ok c' \<Longrightarrow> cmd_ok c \<Longrightarrow> no_empty (cmd_data c')"
proof -
  obtain a b where ab: "answers = (a, b)" by (cases answers)
  let ?r = "perform (read_once e defs ps refs poly) [a, b]"
  have r: "data_wf (snd ?r) \<and> (\<not> poly \<longrightarrow> length (snd ?r) \<le> 1)"
    using read_once_ok [of e defs ps refs poly a] read_once_ok [of e defs ps refs poly b] by (simp add: Let_def)
  have "data_wf (cmd_data c') \<and> (\<not> poly \<longrightarrow> length (cmd_data c') \<le> 1) \<and> (cmd_ok c' \<and> cmd_ok c \<longrightarrow> no_empty (cmd_data c'))"
  proof (cases "fst ?r")
    case (Some x)
    with assms ab r show ?thesis by (auto simp: run_command_def case_prod_unfold simp del: perform.simps)
  next
    case None
    with assms ab obtain d' where "validate (cmd_minEnd c) (snd ?r) = Some d'" "c' = c\<lparr>cmd_data := d'\<rparr>"
      by (auto simp: run_command_def case_prod_unfold simp del: perform.simps)
    with validate_ok [OF this(1)] r show ?thesis by (auto simp del: perform.simps)
  qed
  then show "data_wf (cmd_data c')" "\<not> poly \<Longrightarrow> length (cmd_data c') \<le> 1" "cmd_ok c' \<Longrightarrow> cmd_ok c \<Longrightarrow> no_empty (cmd_data c')"
    by blast+
qed

text \<open>
  A command that returns has well-formed data, also when it failed, and for a request that is
  not for a polygon the data are for one point at most; when it did not fail, no level of the data
  is empty. So its answer can be merged.
\<close>

theorem run_command_correct:
  assumes "run_command e defs ps refs poly answers c = Some c'"
  shows "data_wf (cmd_data c') \<and> (\<not> poly \<longrightarrow> length (cmd_data c') \<le> 1) \<and> (cmd_ok c' \<and> cmd_ok c \<longrightarrow> no_empty (cmd_data c'))"
  using run_command_ok [OF assms] by blast

theorem run_command_correct_witness:
  "\<exists>c'. run_command sample_denv sample_defs [item ''met'' ''grid''] [] False
       (Inl (Logic_error ''lost''), Inr sample_rows) (command_new None) = Some c'
     \<and> cmd_ok c' \<and> no_empty (cmd_data c') \<and> length (cmd_data c') \<le> 1"
proof -
  obtain c' where c': "run_command sample_denv sample_defs [item ''met'' ''grid''] [] False
       (Inl (Logic_error ''lost''), Inr sample_rows) (command_new None) = Some c'" "cmd_ok c'"
    by (simp add: run_command_def read_once_def sample_decoded validate_def validatePrognosisLength_def command_new_def)
  from run_command_correct [OF c'(1)] c' show ?thesis by (auto simp: command_new_def)
qed

end
