(* ===== verification/DataScheduler.thy ===== *)
theory DataScheduler
  imports DataRequest QueueMt
begin

text \<open>
  Running the requests: \<open>WdbDataRequestManager::startThreads\<close>, \<open>waitForCompleted\<close> and \<open>runRequests\<close>
  (\<open>src/src/mod_wdb2ts/WdbDataRequest.cpp\<close>). The manager's thread is cut into steps, named by where
  it is; the threads of the requests run at any time and end by putting their number into the
  ready queue. The database (whether a connection is to be had), the creation of threads, the clock
  and the data of the answers are inputs of the steps.
\<close>

section \<open>The state\<close>

text \<open>What follows a wait, and where the manager is.\<close>

datatype after_wait = To_check_db | To_head | To_check_data | To_return | To_throw string

datatype req_exn = Resource_limit string | Req_logic string

datatype req_pc =
    Head
  | Starting
  | Started
  | Check_db
  | Waiting nat nat after_wait
  | Check_data
  | Returned
  | Thrown req_exn

record 'f rsys =
  threadInfos :: "'f tinfo list"
  nParalell :: int
  nextToStart :: nat
  lastStarted :: "nat option"
  waitingForDbConnection :: bool
  toManyThreads :: bool
  runningThreads :: "(nat, nat) omap"
  nextThreadId :: nat
  readyQueue :: "nat queue"
  active :: "nat list"
  stopped :: bool
  waitUntil :: "nat option"
  req_pc :: req_pc

text \<open>
  \<open>runRequests\<close> at its start. The constructor does not set \<open>toManyThreads\<close>; it may have any value.
  \<open>waitUntil\<close> is set when \<open>inWaitingForDbConnection\<close> is.
\<close>

definition runRequests_start :: "int \<Rightarrow> bool \<Rightarrow> 'f tinfo list \<Rightarrow> 'f rsys" where
  "runRequests_start n many infos =
     \<lparr>threadInfos = infos, nParalell = n, nextToStart = 0, lastStarted = None, waitingForDbConnection = False,
      toManyThreads = many, runningThreads = [], nextThreadId = 0, readyQueue = queuemt 0, active = [],
      stopped = False, waitUntil = None, req_pc = Head\<rparr>"

text \<open>What the world gives to a step: a connection or not, a thread or not, the time.\<close>

datatype conn_try = Conn_ok | Conn_busy | Conn_throws string

record req_env =
  conn_try :: conn_try
  thread_ok :: bool
  clock :: nat

section \<open>The steps\<close>

text \<open>One round of the loop of \<open>startThreads\<close>.\<close>

definition startThreads_step :: "req_env \<Rightarrow> 'f rsys \<Rightarrow> 'f rsys" where
  "startThreads_step env s =
     (if nextToStart s \<ge> length (threadInfos s) then s\<lparr>req_pc := Started\<rparr>
      else if nParalell s > 0 \<and> int (length (runningThreads s)) \<ge> nParalell s
      then s\<lparr>toManyThreads := True, req_pc := Started\<rparr>
      else (case conn_try env of
              Conn_busy \<Rightarrow> s\<lparr>waitingForDbConnection := True, req_pc := Started\<rparr>
            | Conn_throws m \<Rightarrow> s\<lparr>req_pc := Waiting 0 0 (To_throw m)\<rparr>
            | Conn_ok \<Rightarrow>
                (let s1 = s\<lparr>waitingForDbConnection := False, toManyThreads := False\<rparr>;
                     i = nextToStart s; tid = nextThreadId s
                 in if \<not> thread_ok env then s1\<lparr>req_pc := Waiting 0 0 (To_throw ''Cant start a new request thread.'')\<rparr>
                    else s1\<lparr>runningThreads := om_put tid i (runningThreads s1), active := tid # active s1,
                            nextThreadId := tid + 1, lastStarted := Some i, nextToStart := i + 1,
                            req_pc := (if ti_stopIfData (threadInfos s ! i) then Started else Starting)\<rparr>)))"

definition continue_with :: "after_wait \<Rightarrow> 'f rsys \<Rightarrow> 'f rsys" where
  "continue_with k s =
     s\<lparr>req_pc := (case k of To_check_db \<Rightarrow> Check_db | To_head \<Rightarrow> Head | To_check_data \<Rightarrow> Check_data
                          | To_return \<Rightarrow> Returned | To_throw m \<Rightarrow> Thrown (Req_logic m))\<rparr>"

definition set_completed :: "nat \<Rightarrow> 'f tinfo list \<Rightarrow> 'f tinfo list" where
  "set_completed i is = is[i := (is ! i)\<lparr>ti_completed := True\<rparr>]"

definition take_completed :: "nat \<Rightarrow> nat \<Rightarrow> after_wait \<Rightarrow> nat \<Rightarrow> 'f rsys \<Rightarrow> 'f rsys" where
  "take_completed w n k tid s =
     (let s1 = s\<lparr>req_pc := Waiting w (n + 1) k\<rparr>
      in case map_of (runningThreads s) tid of
           None \<Rightarrow> s1
         | Some i \<Rightarrow> s1\<lparr>threadInfos := set_completed i (threadInfos s),
                       runningThreads := om_erase tid (runningThreads s)\<rparr>)"

text \<open>One round of the loop of \<open>waitForCompleted\<close>; \<^const>\<open>None\<close> while \<open>waitAndPop\<close> waits.\<close>

definition waitForCompleted_step :: "nat \<Rightarrow> nat \<Rightarrow> after_wait \<Rightarrow> 'f rsys \<Rightarrow> 'f rsys option" where
  "waitForCompleted_step w n k s =
     (if runningThreads s = [] then Some (continue_with k s)
      else if w = 0 \<or> n < w
      then (case waitAndPop (readyQueue s) of
              (Ret tid, q) \<Rightarrow> Some (take_completed w n k tid (s\<lparr>readyQueue := q\<rparr>))
            | _ \<Rightarrow> None)
      else (case tryPop (readyQueue s) of
              (Ret (Some tid), q) \<Rightarrow> Some (take_completed w n k tid (s\<lparr>readyQueue := q\<rparr>))
            | (Ret None, q) \<Rightarrow> Some (continue_with k s)
            | _ \<Rightarrow> None))"

text \<open>The wait for a connection: 10 seconds from the first time there was none.\<close>

definition checkDb_step :: "req_env \<Rightarrow> 'f rsys \<Rightarrow> 'f rsys" where
  "checkDb_step env s =
     (if waitingForDbConnection s
      then (let next = (if runningThreads s \<noteq> [] then Waiting 1 0 To_head else Head)
            in case waitUntil s of
                 None \<Rightarrow> s\<lparr>waitUntil := Some (clock env + 10), req_pc := next\<rparr>
               | Some u \<Rightarrow>
                   if clock env > u
                   then s\<lparr>req_pc := Thrown (Resource_limit ''Waiting more than 10 seconds on db connection.'')\<rparr>
                   else s\<lparr>req_pc := next\<rparr>)
      else (case lastStarted s of
              None \<Rightarrow> s\<lparr>req_pc := Head\<rparr>
            | Some i \<Rightarrow> s\<lparr>req_pc := (if ti_stopIfData (threadInfos s ! i) then Waiting 0 0 To_check_data else Head)\<rparr>))"

definition has_data :: "'f tinfo \<Rightarrow> bool" where
  "has_data i \<longleftrightarrow> cmd_data (ti_command i) \<noteq> [] \<and> \<not> onlyConstFieldsOrEmpty (cmd_data (ti_command i))"

definition checkData_step :: "'f rsys \<Rightarrow> 'f rsys" where
  "checkData_step s =
     (case lastStarted s of
        None \<Rightarrow> s\<lparr>req_pc := Head\<rparr>
      | Some i \<Rightarrow> s\<lparr>stopped := (stopped s \<or> has_data (threadInfos s ! i)), req_pc := Head\<rparr>)"

definition manager_step :: "req_env \<Rightarrow> 'f rsys \<Rightarrow> 'f rsys option" where
  "manager_step env s =
     (case req_pc s of
        Head \<Rightarrow> Some (s\<lparr>req_pc := (if nextToStart s < length (threadInfos s) \<and> \<not> stopped s
                                  then Starting else Waiting 0 0 To_return)\<rparr>)
      | Starting \<Rightarrow> Some (startThreads_step env s)
      | Started \<Rightarrow> Some (s\<lparr>req_pc := (if toManyThreads s then Waiting 1 0 To_check_db else Check_db)\<rparr>)
      | Check_db \<Rightarrow> Some (checkDb_step env s)
      | Waiting w n k \<Rightarrow> waitForCompleted_step w n k s
      | Check_data \<Rightarrow> Some (checkData_step s)
      | Returned \<Rightarrow> None
      | Thrown x \<Rightarrow> None)"

text \<open>
  The end of a thread, \<open>WdbDataRequest::operator()\<close>: its command has run, with the result \<open>c\<close>, and its
  number is put into the queue.
\<close>

definition thread_end :: "nat \<Rightarrow> 'f command \<Rightarrow> 'f rsys \<Rightarrow> 'f rsys" where
  "thread_end tid c s =
     s\<lparr>active := remove1 tid (active s), readyQueue := snd (push tid (readyQueue s)),
       threadInfos := (case map_of (runningThreads s) tid of
                         None \<Rightarrow> threadInfos s
                       | Some i \<Rightarrow> (threadInfos s)[i := (threadInfos s ! i)\<lparr>ti_command := c\<rparr>])\<rparr>"

datatype 'f req_event = Manager req_env | Thread_end nat "'f command"

definition req_exec :: "'f req_event \<Rightarrow> 'f rsys \<Rightarrow> 'f rsys option" where
  "req_exec ev s =
     (case ev of
        Manager env \<Rightarrow> manager_step env s
      | Thread_end tid c \<Rightarrow> if tid \<in> set (active s) then Some (thread_end tid c s) else None)"

inductive req_step :: "'f rsys \<Rightarrow> 'f rsys \<Rightarrow> bool" where
  req_stepI: "req_exec ev s = Some t \<Longrightarrow> req_step s t"

inductive_cases req_stepE: "req_step s t"

fun req_run :: "'f req_event list \<Rightarrow> 'f rsys \<Rightarrow> 'f rsys option" where
  "req_run [] s = Some s"
| "req_run (ev # evs) s = (case req_exec ev s of None \<Rightarrow> None | Some t \<Rightarrow> req_run evs t)"

definition req_start :: "'f rsys \<Rightarrow> bool" where
  "req_start s \<longleftrightarrow> (\<exists>n many infos. (\<forall>i \<in> set infos. \<not> ti_completed i) \<and> s = runRequests_start n many infos)"

section \<open>How long it takes\<close>

text \<open>
  What is left to do: queries to start, threads to end and numbers to take; and the way to the next
  of them. A step that finds no free connection may add to it.
\<close>

definition work_left :: "'f rsys \<Rightarrow> nat" where
  "work_left s = 3 * (length (threadInfos s) - nextToStart s) + 2 * length (active s) + length (dataQueue (readyQueue s))"

definition pc_rank :: "'f rsys \<Rightarrow> nat" where
  "pc_rank s =
     (case req_pc s of
        Head \<Rightarrow> 8
      | Starting \<Rightarrow> if nextToStart s < length (threadInfos s) then 7 else 14
      | Started \<Rightarrow> if toManyThreads s \<and> runningThreads s \<noteq> [] then 6 else 13
      | Check_db \<Rightarrow> 11
      | Waiting w n k \<Rightarrow>
          (case k of
             To_return \<Rightarrow> 4
           | To_throw m \<Rightarrow> 3
           | To_check_data \<Rightarrow> 10
           | _ \<Rightarrow> if runningThreads s \<noteq> [] \<and> (w = 0 \<or> n < w) then 5 else 12)
      | Check_data \<Rightarrow> 9
      | Returned \<Rightarrow> 0
      | Thrown x \<Rightarrow> 0)"

definition steps_left :: "'f rsys \<Rightarrow> nat" where
  "steps_left s = 20 * work_left s + pc_rank s"

definition busy :: "'f req_event \<Rightarrow> bool" where
  "busy ev \<longleftrightarrow> (case ev of Manager env \<Rightarrow> conn_try env = Conn_busy | Thread_end tid c \<Rightarrow> False)"

lemma pc_rank_le: "pc_rank s \<le> 14"
  by (auto simp: pc_rank_def split: req_pc.split after_wait.split)

lemma less_work: "work_left t < work_left s \<Longrightarrow> steps_left t < steps_left s"
  using pc_rank_le [of t] by (simp add: steps_left_def)

lemma less_rank: "work_left t = work_left s \<Longrightarrow> pc_rank t < pc_rank s + d \<Longrightarrow> steps_left t < steps_left s + d"
  by (simp add: steps_left_def)

lemma startThreads_left:
  assumes "req_pc s = Starting"
  shows "steps_left (startThreads_step env s) < steps_left s + (if conn_try env = Conn_busy then 15 else 0)"
proof -
  let ?t = "startThreads_step env s"
  consider (last) "nextToStart s \<ge> length (threadInfos s)"
    | (many) "nextToStart s < length (threadInfos s)" "nParalell s > 0 \<and> int (length (runningThreads s)) \<ge> nParalell s"
    | (one) "nextToStart s < length (threadInfos s)" "\<not> (nParalell s > 0 \<and> int (length (runningThreads s)) \<ge> nParalell s)"
    by linarith
  then show ?thesis
  proof cases
    case last
    then show ?thesis using assms
      by (intro less_rank) (simp_all add: startThreads_step_def work_left_def pc_rank_def)
  next
    case many
    then have "runningThreads s \<noteq> []" by auto
    with many show ?thesis using assms
      by (intro less_rank) (simp_all add: startThreads_step_def work_left_def pc_rank_def)
  next
    case one
    show ?thesis
    proof (cases "conn_try env = Conn_ok \<and> thread_ok env")
      case True
      with one have "work_left ?t < work_left s"
        by (simp add: startThreads_step_def work_left_def Let_def)
      then show ?thesis by (auto dest: less_work)
    next
      case False
      with one show ?thesis using assms
        by (intro less_rank) (auto simp: startThreads_step_def work_left_def pc_rank_def Let_def split: conn_try.split)
    qed
  qed
qed

lemma continue_left:
  assumes "req_pc s = Waiting w n k" "\<not> (runningThreads s \<noteq> [] \<and> (w = 0 \<or> n < w))"
  shows "steps_left (continue_with k s) < steps_left s"
  using assms by (intro less_rank [where d = 0, simplified])
    (auto simp: continue_with_def work_left_def pc_rank_def split: after_wait.split)

lemma take_left: "dataQueue (readyQueue s) = tid # q \<Longrightarrow>
    steps_left (take_completed w n k tid (s\<lparr>readyQueue := q_pop (readyQueue s)\<rparr>)) < steps_left s"
  by (rule less_work)
    (simp add: take_completed_def work_left_def q_pop_def set_completed_def Let_def split: option.split)

lemma wait_left:
  assumes "req_pc s = Waiting w n k" "waitForCompleted_step w n k s = Some t"
  shows "steps_left t < steps_left s"
proof (cases "runningThreads s \<noteq> [] \<and> (w = 0 \<or> n < w)")
  case True
  with assms(2) show ?thesis
    by (auto simp: waitForCompleted_step_def waitAndPop_def take_left split: list.splits if_splits)
next
  case False
  with assms show ?thesis
    by (auto simp: waitForCompleted_step_def tryPop_def take_left continue_left split: list.splits if_splits)
qed

lemma manager_left:
  assumes "manager_step env s = Some t"
  shows "steps_left t < steps_left s + (if conn_try env = Conn_busy then 15 else 0)"
proof (cases "req_pc s")
  case Starting
  with assms startThreads_left [of s env] show ?thesis by (simp add: manager_step_def)
next
  case (Waiting w n k)
  with assms wait_left [of s w n k t] show ?thesis by (simp add: manager_step_def)
next
  case Check_db
  with assms have "steps_left t < steps_left s + 0"
    by (intro less_rank)
      (auto simp: manager_step_def checkDb_step_def work_left_def pc_rank_def Let_def split: option.splits if_splits)
  then show ?thesis by simp
qed (use assms in \<open>auto simp: manager_step_def checkData_step_def steps_left_def work_left_def pc_rank_def split: option.splits\<close>)

lemma thread_end_left:
  assumes "tid \<in> set (active s)"
  shows "steps_left (thread_end tid c s) < steps_left s"
proof (rule less_work)
  have "length (dataQueue (snd (push tid (readyQueue s)))) \<le> length (dataQueue (readyQueue s)) + 1"
    by (simp add: push_def push_loop_def q_push_def)
  moreover have "length (active s) = Suc (length (remove1 tid (active s)))"
    using length_pos_if_in_set [OF assms] assms by (simp add: length_remove1)
  moreover have "length (threadInfos (thread_end tid c s)) = length (threadInfos s)"
    by (simp add: thread_end_def split: option.split)
  ultimately show "work_left (thread_end tid c s) < work_left s"
    by (simp add: work_left_def) (simp add: thread_end_def)
qed

lemma req_exec_left:
  "req_exec ev s = Some t \<Longrightarrow> steps_left t < steps_left s + (if busy ev then 15 else 0)"
proof (cases ev)
  case (Manager env)
  then show "req_exec ev s = Some t \<Longrightarrow> ?thesis"
    using manager_left [of env s t] by (simp add: req_exec_def busy_def split: if_splits)
next
  case (Thread_end tid c)
  then show "req_exec ev s = Some t \<Longrightarrow> ?thesis"
    using thread_end_left [of tid s c] by (auto simp: req_exec_def busy_def split: if_splits)
qed

lemma req_run_left:
  "req_run evs s = Some t \<Longrightarrow> length evs + steps_left t \<le> steps_left s + 15 * length (filter busy evs)"
proof (induction evs arbitrary: s)
  case (Cons ev evs)
  then obtain u where u: "req_exec ev s = Some u" "req_run evs u = Some t"
    by (auto split: option.splits)
  from Cons.IH [OF u(2)] req_exec_left [OF u(1)] show ?case by (auto split: if_splits)
qed simp

section \<open>The invariant\<close>

definition fruitless :: "'f tinfo list \<Rightarrow> nat \<Rightarrow> bool" where
  "fruitless is i \<longleftrightarrow> ti_completed (is ! i) \<and> \<not> has_data (is ! i)"

text \<open>
  Threads are numbered like the queries they run; a running one is active, or its number is in the
  queue; exactly the started queries whose thread is not running any more are completed.
\<close>

definition req_core :: "'f rsys \<Rightarrow> bool" where
  "req_core s \<longleftrightarrow>
     (\<forall>tid i. map_of (runningThreads s) tid = Some i \<longrightarrow> i = tid \<and> tid < nextToStart s)
     \<and> nextThreadId s = nextToStart s \<and> nextToStart s \<le> length (threadInfos s)
     \<and> distinct (active s @ dataQueue (readyQueue s))
     \<and> set (active s @ dataQueue (readyQueue s)) = dom (map_of (runningThreads s))
     \<and> \<not> suspended (readyQueue s) \<and> maxSize (readyQueue s) = 0
     \<and> (\<forall>i < length (threadInfos s).
          ti_completed (threadInfos s ! i) \<longleftrightarrow> i < nextToStart s \<and> map_of (runningThreads s) i = None)
     \<and> lastStarted s = (if nextToStart s = 0 then None else Some (nextToStart s - 1))
     \<and> (nParalell s > 0 \<longrightarrow> int (length (runningThreads s)) \<le> nParalell s)
     \<and> (\<forall>i. i + 1 < nextToStart s \<and> ti_stopIfData (threadInfos s ! i) \<longrightarrow> fruitless (threadInfos s) i)"

definition settled :: "'f rsys \<Rightarrow> bool" where
  "settled s \<longleftrightarrow> (\<forall>i. lastStarted s = Some i \<and> ti_stopIfData (threadInfos s ! i) \<longrightarrow> fruitless (threadInfos s) i)"

definition halted :: "'f rsys \<Rightarrow> bool" where
  "halted s \<longleftrightarrow> (\<exists>i. lastStarted s = Some i \<and> ti_stopIfData (threadInfos s ! i)
                  \<and> ti_completed (threadInfos s ! i) \<and> has_data (threadInfos s ! i))"

definition probing :: "'f rsys \<Rightarrow> bool" where
  "probing s \<longleftrightarrow> (\<exists>i. lastStarted s = Some i \<and> ti_stopIfData (threadInfos s ! i))"

text \<open>What is known at each place of the manager.\<close>

definition req_place :: "'f rsys \<Rightarrow> bool" where
  "req_place s \<longleftrightarrow>
     (stopped s \<longrightarrow> halted s) \<and>
     (case req_pc s of
        Head \<Rightarrow> stopped s \<or> settled s
      | Starting \<Rightarrow> \<not> stopped s \<and> settled s
      | Started \<Rightarrow> \<not> stopped s \<and> (settled s \<or> \<not> waitingForDbConnection s)
      | Check_db \<Rightarrow> \<not> stopped s \<and> (settled s \<or> \<not> waitingForDbConnection s)
      | Check_data \<Rightarrow> \<not> stopped s \<and> probing s \<and> runningThreads s = []
      | Waiting w n k \<Rightarrow>
          (case k of
             To_check_db \<Rightarrow> \<not> stopped s \<and> (settled s \<or> \<not> waitingForDbConnection s)
           | To_head \<Rightarrow> \<not> stopped s \<and> settled s
           | To_check_data \<Rightarrow> \<not> stopped s \<and> probing s \<and> w = 0
           | To_return \<Rightarrow> w = 0 \<and> (stopped s \<or> nextToStart s = length (threadInfos s))
           | To_throw m \<Rightarrow> w = 0)
      | Returned \<Rightarrow> runningThreads s = [] \<and> (stopped s \<or> nextToStart s = length (threadInfos s))
      | Thrown x \<Rightarrow> x \<noteq> Resource_limit ''Waiting more than 10 seconds on db connection.'' \<longrightarrow> runningThreads s = [])"

definition req_inv :: "'f rsys \<Rightarrow> bool" where
  "req_inv s \<longleftrightarrow> req_core s \<and> req_place s"

lemma req_inv_start: "req_start s \<Longrightarrow> req_inv s"
  by (auto simp: req_start_def runRequests_start_def req_inv_def req_core_def req_place_def settled_def queuemt_def)

lemma core_pc [simp]:
  "req_core (s\<lparr>req_pc := x\<rparr>) = req_core s"
  "req_core (s\<lparr>toManyThreads := b\<rparr>) = req_core s"
  "req_core (s\<lparr>waitingForDbConnection := b\<rparr>) = req_core s"
  "req_core (s\<lparr>waitUntil := u\<rparr>) = req_core s"
  "req_core (s\<lparr>stopped := b\<rparr>) = req_core s"
  by (simp_all add: req_core_def)

lemma length_om_put: "map_of m k = None \<Longrightarrow> length (om_put k v m) = Suc (length m)"
  by (induction k v m rule: om_put.induct) (auto split: if_splits)

lemma length_om_erase: "length (om_erase k m) \<le> length m"
  by (simp add: om_erase_def)

text \<open>A thread is started.\<close>

lemma core_start:
  assumes "req_core s" "settled s" "nextToStart s < length (threadInfos s)"
    and room: "\<not> (nParalell s > 0 \<and> int (length (runningThreads s)) \<ge> nParalell s)"
  shows "req_core (s\<lparr>runningThreads := om_put (nextThreadId s) (nextToStart s) (runningThreads s),
      active := nextThreadId s # active s, nextThreadId := nextThreadId s + 1, lastStarted := Some (nextToStart s),
      nextToStart := nextToStart s + 1\<rparr>)"
proof -
  let ?n = "nextToStart s"
  have n: "nextThreadId s = ?n" using assms(1) by (simp add: req_core_def)
  have none: "map_of (runningThreads s) ?n = None"
    using assms(1) unfolding req_core_def by (metis less_irrefl option.exhaust)
  then have free: "?n \<notin> set (active s @ dataQueue (readyQueue s))"
    using assms(1) by (simp add: req_core_def domIff)
  have len: "nParalell s > 0 \<longrightarrow> int (length (om_put ?n ?n (runningThreads s))) \<le> nParalell s"
    using room none by (auto simp: length_om_put)
  have early: "fruitless (threadInfos s) i" if "i < ?n" "ti_stopIfData (threadInfos s ! i)" for i
  proof (cases "i + 1 < ?n")
    case True
    with that assms(1) show ?thesis by (simp add: req_core_def)
  next
    case False
    with that have "lastStarted s = Some i" using assms(1) by (simp add: req_core_def)
    with that assms(2) show ?thesis by (simp add: settled_def)
  qed
  from assms(1,3) n free len early show ?thesis
    unfolding req_core_def by (auto simp: less_Suc_eq)
qed

text \<open>The number of a thread is taken from the queue.\<close>

lemma completed_keeps:
  "ti_stopIfData (set_completed i is ! j) = ti_stopIfData (is ! j)"
  "has_data (set_completed i is ! j) = has_data (is ! j)"
  "length (set_completed i is) = length is"
  by (cases "i < length is"; cases "j = i"; simp add: set_completed_def has_data_def list_update_beyond)+

lemma completed_set: "i < length is \<Longrightarrow> ti_completed (set_completed i is ! j) \<longleftrightarrow> j = i \<or> ti_completed (is ! j)"
  by (cases "j = i") (simp_all add: set_completed_def)

lemma core_taken:
  assumes "req_core s" "dataQueue (readyQueue s) = tid # q"
  shows "map_of (runningThreads s) tid = Some tid" "tid < nextToStart s" "tid < length (threadInfos s)"
proof -
  from assms have "tid \<in> dom (map_of (runningThreads s))" by (auto simp: req_core_def)
  with assms(1) show "map_of (runningThreads s) tid = Some tid" "tid < nextToStart s"
    by (auto simp: req_core_def)
  moreover have "nextToStart s \<le> length (threadInfos s)" using assms(1) by (simp add: req_core_def)
  ultimately show "tid < length (threadInfos s)" by simp
qed

lemma core_take:
  assumes "req_core s" "dataQueue (readyQueue s) = tid # q"
  shows "req_core (take_completed w n k tid (s\<lparr>readyQueue := q_pop (readyQueue s)\<rparr>))"
proof -
  note run = core_taken [OF assms]
  have "nParalell s > 0 \<longrightarrow> int (length (om_erase tid (runningThreads s))) \<le> nParalell s"
    using assms(1) length_om_erase [of tid "runningThreads s"] by (auto simp: req_core_def)
  moreover have "set (active s @ q) = dom ((map_of (runningThreads s))(tid := None))"
    using assms by (auto simp: req_core_def)
  ultimately show ?thesis
    using assms run unfolding req_core_def
    by (auto simp: take_completed_def q_pop_def completed_keeps completed_set fruitless_def)
qed

lemma take_fruitless:
  assumes "tid < length is" "fruitless is i"
  shows "fruitless (set_completed tid is) i"
  using assms by (simp add: fruitless_def completed_keeps completed_set)

text \<open>A thread ends.\<close>

lemma core_running:
  assumes "req_core s" "tid \<in> set (active s)"
  shows "map_of (runningThreads s) tid = Some tid" "tid < nextToStart s" "tid < length (threadInfos s)"
    "\<not> ti_completed (threadInfos s ! tid)"
proof -
  from assms have "tid \<in> dom (map_of (runningThreads s))" by (auto simp: req_core_def)
  with assms(1) show run: "map_of (runningThreads s) tid = Some tid" "tid < nextToStart s"
    by (auto simp: req_core_def)
  moreover have "nextToStart s \<le> length (threadInfos s)" using assms(1) by (simp add: req_core_def)
  ultimately show len: "tid < length (threadInfos s)" by simp
  with assms(1) run show "\<not> ti_completed (threadInfos s ! tid)" by (simp add: req_core_def)
qed

lemma command_keeps:
  "i < length is \<Longrightarrow> ti_stopIfData (is[i := (is ! i)\<lparr>ti_command := c\<rparr>] ! j) = ti_stopIfData (is ! j)"
  "i < length is \<Longrightarrow> ti_completed (is[i := (is ! i)\<lparr>ti_command := c\<rparr>] ! j) = ti_completed (is ! j)"
  "\<not> ti_completed (is ! i) \<Longrightarrow> fruitless is j \<Longrightarrow> fruitless (is[i := x]) j"
  by (cases "j = i"; simp add: fruitless_def)+

lemma core_thread_end:
  assumes "req_core s" "tid \<in> set (active s)"
  shows "req_core (thread_end tid c s)"
proof -
  note run = core_running [OF assms]
  have "snd (push tid (readyQueue s)) = q_push tid (readyQueue s)"
    using assms(1) by (simp add: req_core_def push_def push_loop_def q_full_def)
  moreover have "set (remove1 tid (active s)) = set (active s) - {tid}"
    using assms(1) by (simp add: req_core_def)
  ultimately show ?thesis
    using assms run unfolding req_core_def
    by (auto simp: thread_end_def q_push_def command_keeps)
qed

lemma last_started: "req_core s \<Longrightarrow> lastStarted s = Some i \<Longrightarrow> i < length (threadInfos s)"
  by (auto simp: req_core_def split: if_splits)

lemmas place_defs = req_place_def settled_def halted_def probing_def

lemma place_cong:
  assumes "req_place s" "req_pc s = Waiting w n k" "req_pc t = Waiting w m k"
    and "stopped t = stopped s" "waitingForDbConnection t = waitingForDbConnection s"
    "nextToStart t = nextToStart s" "length (threadInfos t) = length (threadInfos s)"
    "halted s \<Longrightarrow> halted t" "settled s \<Longrightarrow> settled t" "probing s \<Longrightarrow> probing t"
  shows "req_place t"
  using assms by (cases k) (auto simp: req_place_def)

lemma place_take:
  assumes "req_core s" "req_place s" "dataQueue (readyQueue s) = tid # q" "req_pc s = Waiting w n k"
  shows "req_place (take_completed w n k tid (s\<lparr>readyQueue := q_pop (readyQueue s)\<rparr>))"
proof -
  note run = core_taken [OF assms(1,3)]
  let ?t = "take_completed w n k tid (s\<lparr>readyQueue := q_pop (readyQueue s)\<rparr>)"
  have t: "threadInfos ?t = set_completed tid (threadInfos s)" "lastStarted ?t = lastStarted s" "req_pc ?t = Waiting w (n + 1) k"
      "stopped ?t = stopped s" "waitingForDbConnection ?t = waitingForDbConnection s" "nextToStart ?t = nextToStart s"
    using run by (simp_all add: take_completed_def)
  have "halted s \<Longrightarrow> halted ?t" "probing s \<Longrightarrow> probing ?t"
    using run by (auto simp: halted_def probing_def t completed_keeps completed_set)
  moreover have "settled s \<Longrightarrow> settled ?t"
    using run take_fruitless by (auto simp: settled_def t completed_keeps)
  ultimately show ?thesis
    by (intro place_cong [OF assms(2,4) t(3)]) (simp_all add: t completed_keeps)
qed

lemma place_thread_end:
  assumes "req_core s" "req_place s" "tid \<in> set (active s)"
  shows "req_place (thread_end tid c s)"
proof -
  note run = core_running [OF assms(1,3)]
  let ?t = "thread_end tid c s"
  have t: "threadInfos ?t = (threadInfos s)[tid := (threadInfos s ! tid)\<lparr>ti_command := c\<rparr>]"
      "lastStarted ?t = lastStarted s" "req_pc ?t = req_pc s" "stopped ?t = stopped s"
      "waitingForDbConnection ?t = waitingForDbConnection s" "nextToStart ?t = nextToStart s"
      "runningThreads ?t = runningThreads s"
    using run by (simp_all add: thread_end_def)
  have "threadInfos ?t ! i = threadInfos s ! i" if "ti_completed (threadInfos s ! i)" for i
    using that run(4) by (cases "i = tid") (auto simp: t)
  then have "halted s \<Longrightarrow> halted ?t"
    by (auto simp: halted_def t(2))
  moreover have "settled s \<Longrightarrow> settled ?t" "probing s \<Longrightarrow> probing ?t"
    using run by (auto simp: settled_def probing_def t command_keeps)
  ultimately show ?thesis
    using assms(2) by (auto simp: req_place_def t split: req_pc.splits after_wait.splits)
qed

lemma startThreads_inv:
  assumes "req_core s" "req_place s" "req_pc s = Starting"
  shows "req_inv (startThreads_step env s)"
proof -
  have st: "\<not> stopped s" "settled s" using assms(2,3) by (simp_all add: req_place_def)
  let ?no_start = "nextToStart s \<ge> length (threadInfos s) \<or> nParalell s > 0 \<and> int (length (runningThreads s)) \<ge> nParalell s
    \<or> conn_try env \<noteq> Conn_ok \<or> \<not> thread_ok env"
  show ?thesis
  proof (cases ?no_start)
    case True
    with assms st show ?thesis
      by (auto simp: req_inv_def startThreads_step_def req_place_def settled_def Let_def split: conn_try.split)
  next
    case False
    let ?u = "s\<lparr>runningThreads := om_put (nextThreadId s) (nextToStart s) (runningThreads s),
        active := nextThreadId s # active s, nextThreadId := nextThreadId s + 1, lastStarted := Some (nextToStart s),
        nextToStart := nextToStart s + 1\<rparr>"
    let ?stop = "ti_stopIfData (threadInfos s ! nextToStart s)"
    have t: "startThreads_step env s = ?u\<lparr>waitingForDbConnection := False, toManyThreads := False,
        req_pc := (if ?stop then Started else Starting)\<rparr>"
      using False by (auto simp: startThreads_step_def Let_def)
    have "req_core ?u" using core_start [OF assms(1) st(2)] False by auto
    with st(1) show ?thesis
      unfolding t req_inv_def core_pc by (simp add: req_place_def settled_def)
  qed
qed

lemma wait_inv:
  assumes "req_core s" "req_place s" "req_pc s = Waiting w n k" "waitForCompleted_step w n k s = Some t"
  shows "req_inv t"
proof -
  have cont: "req_inv (continue_with k s)" if "runningThreads s = [] \<or> \<not> (w = 0 \<or> n < w)"
    using that assms(1-3) by (auto simp: req_inv_def continue_with_def req_place_def settled_def halted_def probing_def
        split: after_wait.splits)
  have taken: "req_inv (take_completed w n k tid (s\<lparr>readyQueue := q_pop (readyQueue s)\<rparr>))"
    if "dataQueue (readyQueue s) = tid # q" for tid q
    using core_take [OF assms(1) that] place_take [OF assms(1,2) that assms(3)] by (simp add: req_inv_def)
  show ?thesis
  proof (cases "runningThreads s = []")
    case True
    with assms(4) cont show ?thesis by (simp add: waitForCompleted_step_def)
  next
    case running: False
    show ?thesis
    proof (cases "dataQueue (readyQueue s)")
      case Nil
      with running assms(4) cont show ?thesis
        by (simp add: waitForCompleted_step_def waitAndPop_def tryPop_def split: if_splits)
    next
      case (Cons tid q)
      then have "t = take_completed w n k tid (s\<lparr>readyQueue := q_pop (readyQueue s)\<rparr>)"
        using running assms(4) by (simp add: waitForCompleted_step_def waitAndPop_def tryPop_def split: if_splits)
      with taken [OF Cons] show ?thesis by simp
    qed
  qed
qed

lemma check_data_inv:
  assumes "req_core s" "req_place s" "req_pc s = Check_data"
  shows "req_inv (checkData_step s)"
proof -
  from assms(2,3) obtain i where i: "lastStarted s = Some i" "ti_stopIfData (threadInfos s ! i)" "runningThreads s = []" "\<not> stopped s"
    by (auto simp: req_place_def probing_def)
  have "ti_completed (threadInfos s ! i)"
    using assms(1) i last_started [OF assms(1) i(1)] by (auto simp: req_core_def split: if_splits)
  with i assms(1) show ?thesis
    by (auto simp: req_inv_def checkData_step_def req_place_def settled_def halted_def fruitless_def)
qed

lemma check_db_inv:
  assumes "req_core s" "req_place s" "req_pc s = Check_db"
  shows "req_inv (checkDb_step env s)"
  using assms
  by (auto simp: req_inv_def checkDb_step_def req_place_def settled_def halted_def probing_def Let_def split: option.split)

lemma req_inv_exec:
  assumes "req_inv s" "req_exec ev s = Some t"
  shows "req_inv t"
proof (cases ev)
  case (Thread_end tid c)
  with assms show ?thesis
    by (auto simp: req_exec_def req_inv_def core_thread_end place_thread_end split: if_splits)
next
  case (Manager env)
  with assms have st: "req_core s" "req_place s" "manager_step env s = Some t"
    by (simp_all add: req_inv_def req_exec_def)
  show ?thesis
  proof (cases "req_pc s")
    case (Waiting w n k)
    with st wait_inv [of s w n k t] show ?thesis by (simp add: manager_step_def)
  next
    case Starting
    with st startThreads_inv show ?thesis by (auto simp: manager_step_def)
  next
    case Check_db
    with st check_db_inv show ?thesis by (auto simp: manager_step_def)
  next
    case Check_data
    with st check_data_inv show ?thesis by (auto simp: manager_step_def)
  next
    case Head
    moreover have "nextToStart s \<le> length (threadInfos s)" using st(1) by (simp add: req_core_def)
    ultimately show ?thesis using st
      by (auto simp: manager_step_def req_inv_def req_place_def settled_def halted_def)
  qed (use st in \<open>auto simp: manager_step_def req_inv_def req_place_def settled_def halted_def\<close>)
qed

interpretation requests: invariant_system req_start req_step req_inv
  by unfold_locales (auto intro: req_inv_start req_inv_exec elim!: req_stepE)

section \<open>What the manager guarantees\<close>

lemma core_parts:
  assumes "req_core s"
  shows core_keys: "set (active s) \<union> set (dataQueue (readyQueue s)) = dom (map_of (runningThreads s))"
    and core_completed: "i < length (threadInfos s) \<Longrightarrow>
      ti_completed (threadInfos s ! i) \<longleftrightarrow> i < nextToStart s \<and> map_of (runningThreads s) i = None"
    and core_early: "i + 1 < nextToStart s \<Longrightarrow> ti_stopIfData (threadInfos s ! i) \<Longrightarrow> fruitless (threadInfos s) i"
    and core_limit: "nParalell s > 0 \<Longrightarrow> int (length (runningThreads s)) \<le> nParalell s"
    and core_last: "lastStarted s = Some i \<Longrightarrow> nextToStart s = i + 1"
  using assms unfolding req_core_def set_append by (blast, blast, blast, blast, auto split: if_splits)

lemma active_running:
  assumes "req_core s"
  shows "length (active s) \<le> length (runningThreads s)"
proof -
  have "length (active s) = card (set (active s))"
    using assms by (simp add: req_core_def distinct_card)
  also have "\<dots> \<le> card (dom (map_of (runningThreads s)))"
    using assms by (intro card_mono) (auto simp: req_core_def finite_dom_map_of)
  also have "\<dots> \<le> length (runningThreads s)"
    by (metis card_length dom_map_of_conv_image_fst length_map list.set_map)
  finally show ?thesis .
qed

text \<open>
  C4: The threads of a request, whatever the database, the clock and the scheduler do: with a limit
  there are never more than it says at a time, a started query is completed exactly when its number
  has been taken, and a query after one that should stop the others is started only when that one
  is completed and gave nothing but constant fields.
\<close>

theorem requests_bounded:
  assumes "reach req_start req_step s"
  shows "(nParalell s > 0 \<longrightarrow> int (length (active s)) \<le> nParalell s)
    \<and> (\<forall>i < length (threadInfos s). ti_completed (threadInfos s ! i) \<longleftrightarrow>
         i < nextToStart s \<and> i \<notin> set (active s) \<and> i \<notin> set (dataQueue (readyQueue s)))
    \<and> (\<forall>i. i + 1 < nextToStart s \<and> ti_stopIfData (threadInfos s ! i) \<longrightarrow>
         ti_completed (threadInfos s ! i) \<and> \<not> has_data (threadInfos s ! i))"
proof -
  have core: "req_core s" using requests.inv_reach [OF assms] by (simp add: req_inv_def)
  have dom: "map_of (runningThreads s) i = None \<longleftrightarrow> i \<notin> set (active s) \<and> i \<notin> set (dataQueue (readyQueue s))" for i
    using core_keys [OF core] by blast
  have "int (length (active s)) \<le> nParalell s" if "nParalell s > 0"
    using core_limit [OF core that] active_running [OF core] by linarith
  moreover have "ti_completed (threadInfos s ! i) \<longleftrightarrow>
         i < nextToStart s \<and> i \<notin> set (active s) \<and> i \<notin> set (dataQueue (readyQueue s))"
    if "i < length (threadInfos s)" for i
    using core_completed [OF core that] dom by simp
  moreover have "ti_completed (threadInfos s ! i) \<and> \<not> has_data (threadInfos s ! i)"
    if "i + 1 < nextToStart s" "ti_stopIfData (threadInfos s ! i)" for i
    using core_early [OF core that] by (simp add: fruitless_def)
  ultimately show ?thesis by blast
qed

lemma requests_done:
  assumes "reach req_start req_step s" "req_pc s = Returned \<or> (\<exists>m. req_pc s = Thrown (Req_logic m))"
  shows "active s = [] \<and> dataQueue (readyQueue s) = []
    \<and> (\<forall>i < length (threadInfos s). ti_completed (threadInfos s ! i) \<longleftrightarrow> i < nextToStart s)
    \<and> (req_pc s = Returned \<longrightarrow> nextToStart s = length (threadInfos s)
         \<or> (\<exists>i. nextToStart s = i + 1 \<and> ti_stopIfData (threadInfos s ! i) \<and> has_data (threadInfos s ! i)))"
proof -
  have inv: "req_core s" "req_place s" using requests.inv_reach [OF assms(1)] by (simp_all add: req_inv_def)
  have none: "runningThreads s = []" using inv(2) assms(2) by (auto simp: req_place_def)
  then have "active s = []" "dataQueue (readyQueue s) = []"
    using core_keys [OF inv(1)] by simp_all
  moreover have "\<forall>i < length (threadInfos s). ti_completed (threadInfos s ! i) \<longleftrightarrow> i < nextToStart s"
    using core_completed [OF inv(1)] none by simp
  moreover have "nextToStart s = length (threadInfos s)
         \<or> (\<exists>i. nextToStart s = i + 1 \<and> ti_stopIfData (threadInfos s ! i) \<and> has_data (threadInfos s ! i))"
    if "req_pc s = Returned"
    using inv(2) that core_last [OF inv(1)] unfolding req_place_def halted_def by auto
  ultimately show ?thesis by blast
qed


lemma req_run_steps: "req_run evs s = Some t \<Longrightarrow> reach req_start req_step s \<Longrightarrow> reach req_start req_step t"
proof (induction evs arbitrary: s)
  case (Cons ev evs)
  then obtain u where u: "req_exec ev s = Some u" "req_run evs u = Some t" by (auto split: option.splits)
  with Cons.IH Cons.prems(2) show ?case by (blast intro: reach_step req_stepI)
qed simp

lemma req_progress:
  assumes "req_inv s"
  shows "(\<exists>ev t. req_exec ev s = Some t) \<or> req_pc s = Returned \<or> (\<exists>x. req_pc s = Thrown x)"
proof (cases "\<exists>tid. tid \<in> set (active s)")
  case True
  then show ?thesis by (auto simp: req_exec_def intro!: exI [of _ "Thread_end _ _"])
next
  case False
  then have idle: "active s = []" by (cases "active s") auto
  have core: "req_core s" using assms by (simp add: req_inv_def)
  then have "\<not> suspended (readyQueue s)" by (simp add: req_core_def)
  moreover have "dataQueue (readyQueue s) \<noteq> []" if "runningThreads s \<noteq> []"
    using core_keys [OF core] that idle by (auto simp: dom_map_of_conv_image_fst)
  ultimately have q: "runningThreads s \<noteq> [] \<Longrightarrow> dataQueue (readyQueue s) \<noteq> []" "\<not> suspended (readyQueue s)"
    by blast+
  have "manager_step env s \<noteq> None \<or> req_pc s = Returned \<or> (\<exists>x. req_pc s = Thrown x)" for env
    using q by (cases "req_pc s")
      (auto simp: manager_step_def waitForCompleted_step_def waitAndPop_def tryPop_def split: list.split)
  then show ?thesis
    by (metis (no_types) not_None_eq req_event.simps(5) req_exec_def)
qed

text \<open>
  C7: The manager ends, provided its queries do: as long as it has not returned or thrown it can take
  a step or a thread it waits for has yet to end, and there are at most 60 steps for every query and 15 for every time that no
  connection was free.
\<close>

theorem requests_terminate:
  assumes "req_run evs (runRequests_start n many infos) = Some s" "\<forall>i \<in> set infos. \<not> ti_completed i"
  shows "length evs \<le> 60 * length infos + 15 * length (filter busy evs) + 8
    \<and> ((\<exists>ev t. req_exec ev s = Some t) \<or> req_pc s = Returned \<or> (\<exists>x. req_pc s = Thrown x))"
proof -
  let ?s = "runRequests_start n many infos"
  have "req_start ?s" using assms(2) unfolding req_start_def by blast
  then have "reach req_start req_step s" using req_run_steps [OF assms(1)] by (blast intro: reach_start)
  then have "req_inv s" by (rule requests.inv_reach)
  moreover have "steps_left ?s = 60 * length infos + 8"
    by (simp add: steps_left_def work_left_def pc_rank_def runRequests_start_def queuemt_def)
  ultimately show ?thesis using req_run_left [OF assms(1)] req_progress by fastforce
qed

section \<open>Runs\<close>

abbreviation ok_env :: req_env where "ok_env \<equiv> \<lparr>conn_try = Conn_ok, thread_ok = True, clock = 0\<rparr>"
abbreviation no_conn :: "nat \<Rightarrow> req_env" where "no_conn t \<equiv> \<lparr>conn_try = Conn_busy, thread_ok = True, clock = t\<rparr>"

definition plain_info :: "bool \<Rightarrow> int tinfo" where
  "plain_info stop = \<lparr>ti_command = command_new None, ti_mustHaveData = False, ti_stopIfData = stop, ti_completed = False\<rparr>"

definition with_data :: "int command" where
  "with_data = (command_new None)\<lparr>cmd_data := [(Point 600000000 100000000, [(At 5, [(At 5, [(''met [grid]'', [(''T2M'', 9)])])])])]\<rparr>"

text \<open>Two queries of which the first stops the others: the second is never started.\<close>

definition stop_run :: "int req_event list" where
  "stop_run = map Manager (replicate 4 ok_env) @ [Thread_end 0 with_data] @ map Manager (replicate 5 ok_env)"

text \<open>Three queries: the third finds no connection, for 11 seconds.\<close>

definition limit_run :: "int req_event list" where
  "limit_run = map Manager ([ok_env, ok_env, ok_env] @ replicate 3 (no_conn 0)) @ [Thread_end 0 with_data] @
     map Manager (replicate 6 (no_conn 11))"

definition stop_start :: "int rsys" where
  "stop_start = runRequests_start 3 True [plain_info True, plain_info False]"

definition limit_start :: "int rsys" where
  "limit_start = runRequests_start 3 False [plain_info False, plain_info False, plain_info False]"

lemma stop_run_end:
  "case req_run stop_run stop_start of
     None \<Rightarrow> False
   | Some s \<Rightarrow> req_pc s = Returned \<and> nextToStart s = 1 \<and> length (threadInfos s) = 2"
  by code_simp

lemma limit_run_end:
  "case req_run limit_run limit_start of
     None \<Rightarrow> False
   | Some s \<Rightarrow> req_pc s = Thrown (Resource_limit ''Waiting more than 10 seconds on db connection.'')
       \<and> active s = [1] \<and> nParalell s = 3"
  by code_simp

lemma req_start_ok: "\<forall>i \<in> set infos. \<not> ti_completed i \<Longrightarrow> req_start (runRequests_start n many infos)"
  unfolding req_start_def by blast

lemma starts: "req_start stop_start" "req_start limit_start"
  unfolding stop_start_def limit_start_def by (rule req_start_ok, simp add: plain_info_def)+

lemma stop_reached:
  obtains s where "req_run stop_run stop_start = Some s" "reach req_start req_step s"
    "req_pc s = Returned" "nextToStart s = 1" "length (threadInfos s) = 2"
  using stop_run_end req_run_steps [OF _ reach_start [where start = req_start, OF starts(1)]] by (auto split: option.splits)

lemma limit_reached:
  obtains s where "req_run limit_run limit_start = Some s" "reach req_start req_step s"
    "req_pc s = Thrown (Resource_limit ''Waiting more than 10 seconds on db connection.'')" "active s = [1]" "nParalell s = 3"
  using limit_run_end req_run_steps [OF _ reach_start [where start = req_start, OF starts(2)]] by (auto split: option.splits)

theorem requests_bounded_witness:
  "\<exists>s. req_run limit_run limit_start = Some s \<and> nParalell s > 0 \<and> int (length (active s)) \<le> nParalell s"
proof -
  obtain s where s: "req_run limit_run limit_start = Some s" "reach req_start req_step s" "nParalell s = 3"
    by (rule limit_reached)
  from requests_bounded [OF s(2)] s show ?thesis by auto
qed


theorem requests_terminate_witness:
  "\<exists>s. req_run stop_run stop_start = Some s \<and> length stop_run \<le> 128"
proof -
  obtain s where s: "req_run stop_run stop_start = Some s" by (rule stop_reached)
  have "filter busy stop_run = []"
    by (auto simp: stop_run_def busy_def filter_empty_conv)
  with requests_terminate [OF s [unfolded stop_start_def]] s show ?thesis
    by (auto simp: plain_info_def)
qed

text \<open>
  When no connection is to be had for more than 10 seconds, \<open>runRequests\<close> throws at once: unlike
  after any other exception it does not wait for the threads that still run.
\<close>

theorem limit_leaves_threads:
  "\<exists>s :: int rsys. reach req_start req_step s
     \<and> req_pc s = Thrown (Resource_limit ''Waiting more than 10 seconds on db connection.'') \<and> active s \<noteq> []"
proof -
  obtain s where "reach req_start req_step s" "active s = [1]"
    "req_pc (s :: int rsys) = Thrown (Resource_limit ''Waiting more than 10 seconds on db connection.'')"
    by (rule limit_reached)
  then show ?thesis by auto
qed

section \<open>requestData\<close>

text \<open>
  \<open>requestData\<close> after the queries are made: what it returns when \<open>runRequests\<close> has returned in the
  state \<open>s\<close>.
\<close>

definition requestData_result :: "bool \<Rightarrow> 'f rsys \<Rightarrow> 'f location_data option" where
  "requestData_result isPolygon s =
     (if req_pc s = Returned then Some (mergeData isPolygon (threadInfos s)) else None)"

text \<open>The threads of a request that is not for a polygon deliver what \<open>run_command\<close> makes.\<close>

definition honest :: "'f req_event \<Rightarrow> bool" where
  "honest ev \<longleftrightarrow> (\<forall>tid c. ev = Thread_end tid c \<longrightarrow>
     (\<exists>e defs ps refs answers c0. run_command e defs ps refs False answers c0 = Some c))"

lemma answers_ok_update: "\<forall>i \<in> set is. answer_ok i \<Longrightarrow> answer_ok x \<Longrightarrow> \<forall>i \<in> set (is[j := x]). answer_ok i"
  by (auto dest: set_update_subset_insert [THEN subsetD])

lemma completed_answers:
  assumes "\<forall>i \<in> set is. answer_ok i"
  shows "\<forall>i \<in> set (set_completed j is). answer_ok i"
proof (cases "j < length is")
  case True
  then have "answer_ok ((is ! j)\<lparr>ti_completed := True\<rparr>)" using assms by (simp add: answer_ok_def)
  with assms show ?thesis unfolding set_completed_def by (rule answers_ok_update)
qed (use assms in \<open>simp add: set_completed_def list_update_beyond\<close>)

lemma answers_ok_exec:
  assumes "req_exec ev s = Some t" "honest ev" "\<forall>i \<in> set (threadInfos s). answer_ok i"
  shows "\<forall>i \<in> set (threadInfos t). answer_ok i"
proof (cases ev)
  case (Thread_end tid c)
  with assms(2) have "data_wf (cmd_data c)" "length (cmd_data c) \<le> 1"
    using run_command_ok unfolding honest_def by blast+
  then have new: "answer_ok ((threadInfos s ! j)\<lparr>ti_command := c\<rparr>)" for j
    by (simp add: answer_ok_def)
  have "threadInfos t = threadInfos s \<or> (\<exists>j. threadInfos t = (threadInfos s)[j := (threadInfos s ! j)\<lparr>ti_command := c\<rparr>])"
    using assms(1) Thread_end by (auto simp: req_exec_def thread_end_def split: if_splits option.splits)
  then show ?thesis using assms(3) new answers_ok_update by metis
next
  case (Manager env)
  with assms(1) have step: "manager_step env s = Some t" by (simp add: req_exec_def)
  define ok where "ok is = (\<forall>i \<in> set is. answer_ok i)" for "is" :: "'a tinfo list"
  have start: "ok (threadInfos s)" and set: "\<And>j. ok (set_completed j (threadInfos s))"
    using assms(3) completed_answers [OF assms(3)] by (simp_all add: ok_def)
  have take: "ok (threadInfos (take_completed w n k tid (s\<lparr>readyQueue := q\<rparr>)))" for w n k tid q
    using start set by (simp add: take_completed_def Let_def split: option.split)
  have wait: "ok (threadInfos t)" if "waitForCompleted_step w n k s = Some t" for w n k
    using that start take
    by (auto simp: waitForCompleted_step_def waitAndPop_def tryPop_def continue_with_def split: list.splits if_splits)
  have keeps: "threadInfos (startThreads_step env s) = threadInfos s" "threadInfos (checkDb_step env s) = threadInfos s"
      "threadInfos (checkData_step s) = threadInfos s"
    by (simp_all add: startThreads_step_def checkDb_step_def checkData_step_def Let_def split: conn_try.split option.split)
  have "ok (threadInfos t)"
  proof (cases "req_pc s")
    case (Waiting w n k)
    with step have "waitForCompleted_step w n k s = Some t" by (simp add: manager_step_def)
    then show ?thesis by (rule wait)
  qed (use step start keeps in \<open>auto simp: manager_step_def\<close>)
  then show ?thesis by (simp add: ok_def)
qed

lemma answers_ok_run:
  "req_run evs s = Some t \<Longrightarrow> \<forall>ev \<in> set evs. honest ev \<Longrightarrow> \<forall>i \<in> set (threadInfos s). answer_ok i \<Longrightarrow>
     \<forall>i \<in> set (threadInfos t). answer_ok i"
proof (induction evs arbitrary: s)
  case (Cons ev evs)
  then obtain u where u: "req_exec ev s = Some u" "req_run evs u = Some t" by (auto split: option.splits)
  have "honest ev" "\<forall>ev \<in> set evs. honest ev" using Cons.prems(2) by simp_all
  from Cons.IH [OF u(2) this(2) answers_ok_exec [OF u(1) this(1) Cons.prems(3)]] show ?case .
qed simp

lemma filter_prefix:
  "(\<And>i. i < length xs \<Longrightarrow> P (xs ! i) \<longleftrightarrow> i < n) \<Longrightarrow> filter P xs = take n xs"
proof (induction xs arbitrary: n)
  case (Cons x xs)
  have "P (xs ! i) \<longleftrightarrow> i < n - 1" if "i < length xs" for i
    using Cons.prems [of "Suc i"] that by auto
  from Cons.IH [OF this] Cons.prems [of 0] show ?case by (cases n) simp_all
qed simp


lemma stop_run_honest: "\<forall>ev \<in> set stop_run. honest ev"
proof -
  have "run_command sample_denv sample_defs [item ''met'' ''grid''] [] False (Inr sample_rows, Inr []) (command_new None) = Some with_data"
    by (simp add: run_command_def read_once_def sample_decoded validate_def validatePrognosisLength_def command_new_def with_data_def
        removeEmptyData_def removeEmpty_serie_def sweep_from_def sweep_providers_def pdata_count_def pdata_members_def)
  then have "honest (Thread_end 0 with_data)" unfolding honest_def by blast
  then show ?thesis by (auto simp: stop_run_def honest_def)
qed


end
