(* ===== verification/ReftimeNote.thy ===== *)
theory ReftimeNote
  imports Providers RequestConf Times
begin

text \<open>
  The note that keeps the reference times of the providers over a restart:
  \<open>src/src/mod_wdb2ts/NoteProviderReftime.cpp\<close>. One line per provider, its fields separated by a bar.
  A special time is \<^const>\<open>None\<close>; an infinite one read from the file is taken for undefined.
\<close>

definition ptime_text :: "calendar \<Rightarrow> ptime \<Rightarrow> string" where
  "ptime_text cal t = isotimeString cal (map_option At t) True False"

definition note_line :: "calendar \<Rightarrow> string \<times> provider_times \<Rightarrow> string" where
  "note_line cal kt =
     (let (k, t) = kt
      in k @ ''|'' @ ptime_text cal (refTime t) @ ''|'' @ ptime_text cal (updatedTime t) @ ''|'' @ dec_int (dataversion t)
         @ ''|'' @ (if disabled t then ''true'' else ''false''))"

definition saveNote :: "calendar \<Rightarrow> reftimes \<Rightarrow> string" where
  "saveNote cal l = concat (map (\<lambda>kt. note_line cal kt @ [LF]) l)"

text \<open>The lines \<open>getline\<close> gives.\<close>

fun getlines :: "string \<Rightarrow> string \<Rightarrow> string list" where
  "getlines buf [] = (if buf = [] then [] else [buf])"
| "getlines buf (c # cs) = (if c = LF then buf # getlines [] cs else getlines (buf @ [c]) cs)"

definition of_vtime :: "vtime \<Rightarrow> ptime" where
  "of_vtime t = (case t of At x \<Rightarrow> Some x | _ \<Rightarrow> None)"

text \<open>One line; \<^const>\<open>None\<close> where \<open>loadNote\<close> gives up, by its own test or by an exception.\<close>

definition load_line :: "calendar \<Rightarrow> int \<Rightarrow> string \<Rightarrow> (string \<times> provider_times) option" where
  "load_line cal now buf =
     (case splitstr buf (CHR ''|'') dquote of
        None \<Rightarrow> None
      | Some data \<Rightarrow>
          if length data < 4 then None
          else (case (ptimeFromIsoString cal now (data ! 1), ptimeFromIsoString cal now (data ! 2), lexical_int (data ! 3)) of
                  (Inr rt, Inr ut, Some dv) \<Rightarrow>
                    let dis = (length data > 4 \<and> data ! 4 \<noteq> [] \<and> (hd (data ! 4) = CHR ''t'' \<or> hd (data ! 4) = CHR ''T''))
                    in Some (data ! 0, \<lparr>refTime = of_vtime rt, updatedTime = of_vtime ut, disableEnableRequest = False,
                                        dataversionRequest = False, reftimeUpdateRequest = False, disabled = dis, dataversion = dv\<rparr>)
                | _ \<Rightarrow> None))"

fun load_lines :: "calendar \<Rightarrow> int \<Rightarrow> string list \<Rightarrow> reftimes \<Rightarrow> reftimes option" where
  "load_lines cal now [] m = Some m"
| "load_lines cal now (l # ls) m =
     (case load_line cal now l of None \<Rightarrow> None | Some (k, t) \<Rightarrow> load_lines cal now ls (om_put k t m))"

definition loadNote :: "calendar \<Rightarrow> int \<Rightarrow> string \<Rightarrow> reftimes option" where
  "loadNote cal now txt = load_lines cal now (getlines [] txt) []"

section \<open>Saving and loading\<close>

text \<open>A key that the format can hold, and an entry without a pending request.\<close>

definition key_ok :: "string \<Rightarrow> bool" where
  "key_ok k \<longleftrightarrow> CHR ''|'' \<notin> set k \<and> dquote \<notin> set k \<and> LF \<notin> set k \<and> strip trim_set k = k"

definition times_ok :: "calendar \<Rightarrow> ptime \<Rightarrow> bool" where
  "times_ok cal t \<longleftrightarrow> (case t of None \<Rightarrow> True | Some x \<Rightarrow> civil_ok (civil_of cal x) \<and> ptime_of cal (civil_of cal x) = Inr x)"

definition entry_ok :: "calendar \<Rightarrow> string \<times> provider_times \<Rightarrow> bool" where
  "entry_ok cal kt \<longleftrightarrow> key_ok (fst kt) \<and> times_ok cal (refTime (snd kt)) \<and> times_ok cal (updatedTime (snd kt))
     \<and> in_int (dataversion (snd kt)) \<and> \<not> disableEnableRequest (snd kt) \<and> \<not> dataversionRequest (snd kt)
     \<and> \<not> reftimeUpdateRequest (snd kt)"

definition plain_text :: "string \<Rightarrow> bool" where
  "plain_text s \<longleftrightarrow> (\<forall>c \<in> set s. isalnum c \<or> c = CHR ''-'' \<or> c = CHR '':'')"

lemma plain_padded: "n < 10 ^ w \<Longrightarrow> 0 < w \<Longrightarrow> plain_text (padded w n)"
  using padded_number(2) [of n w] by (auto simp: plain_text_def isalnum_def)

lemma plain_append [simp]: "plain_text (s @ t) \<longleftrightarrow> plain_text s \<and> plain_text t"
  by (auto simp: plain_text_def)

lemma plain_civil: "civil_ok c \<Longrightarrow> plain_text (civil_text c ''T'')"
  unfolding civil_text_def plain_append
  by (intro conjI plain_padded) (simp_all add: civil_ok_def plain_text_def isalnum_def)

lemma plain_ptime: "times_ok cal t \<Longrightarrow> plain_text (ptime_text cal t)"
  by (auto simp: ptime_text_def isotimeString_def times_ok_def plain_civil split: option.splits) (simp add: plain_text_def)

lemma plain_dec: "plain_text (dec_int i)"
  using dec_nat_digits by (auto simp: plain_text_def dec_int_def isalnum_def)

lemma plain_key_ok: "plain_text s \<Longrightarrow> key_ok s"
  unfolding key_ok_def
  by (intro conjI strip_no_trim) (auto simp: plain_text_def isalnum_def isdigit_def trim_set_def)

lemma line_fields:
  assumes "entry_ok cal (k, t)"
  shows "splitstr (note_line cal (k, t)) (CHR ''|'') dquote =
      Some [k, ptime_text cal (refTime t), ptime_text cal (updatedTime t), dec_int (dataversion t), if disabled t then ''true'' else ''false'']"
    and "LF \<notin> set (note_line cal (k, t))" "note_line cal (k, t) \<noteq> []"
proof -
  let ?fs = "[k, ptime_text cal (refTime t), ptime_text cal (updatedTime t), dec_int (dataversion t), if disabled t then ''true'' else ''false'']"
  have line: "note_line cal (k, t) = join (CHR ''|'') ?fs" by (simp add: note_line_def)
  have ok: "\<forall>f \<in> set ?fs. key_ok f"
    using assms plain_key_ok plain_ptime plain_dec by (auto simp: entry_ok_def plain_text_def isalnum_def)
  then have "raw_fields (CHR ''|'') dquote (CHR 0x00) False (join (CHR ''|'') ?fs) = ?fs"
    by (intro fields_join) (auto simp: key_ok_def)
  moreover have "map trimstr ?fs = ?fs"
  proof (rule map_idI)
    fix f assume "f \<in> set ?fs"
    with ok have "key_ok f" by blast
    then show "trimstr f = f" by (simp add: trimstr_strip key_ok_def)
  qed
  ultimately show "splitstr (note_line cal (k, t)) (CHR ''|'') dquote = Some ?fs"
    by (simp add: line splitstr_eq split_fields_def)
  show "LF \<notin> set (note_line cal (k, t))" using ok by (auto simp: note_line_def key_ok_def)
  show "note_line cal (k, t) \<noteq> []" by (simp add: note_line_def)
qed

lemma lexical_int_text: "in_int i \<Longrightarrow> lexical_int (dec_int i) = Some i"
proof (cases "i < 0")
  case True
  assume "in_int i"
  with True show ?thesis using dec_nat_digits [of "nat (- i)"]
    by (simp add: dec_int_def lexical_int_def Let_def)
next
  case False
  assume "in_int i"
  with False show ?thesis using lexical_int_dec [of "nat i"] by (simp add: dec_int_def in_int_def)
qed

lemma read_ptime:
  assumes "times_ok cal t" "ticks_of cal 0 = 0"
  shows "ptimeFromIsoString cal now (ptime_text cal t) =
    (case t of None \<Rightarrow> Inl (Logic_error ''No timestring to decode.'') | Some x \<Rightarrow> Inr (At x))"
proof (cases t)
  case None
  then show ?thesis by (simp add: ptime_text_def isotimeString_def ptimeFromIsoString_def)
next
  case (Some x)
  with assms isotime_read [of cal x now True False] show ?thesis by (simp add: ptime_text_def times_ok_def)
qed

definition entry_special :: "string \<times> provider_times \<Rightarrow> bool" where
  "entry_special kt \<longleftrightarrow> refTime (snd kt) = None \<or> updatedTime (snd kt) = None"

lemma load_note_line:
  assumes "entry_ok cal kt" "ticks_of cal 0 = 0"
  shows "load_line cal now (note_line cal kt) = (if entry_special kt then None else Some kt)"
proof (cases kt)
  case (Pair k t)
  with assms have ok: "times_ok cal (refTime t)" "times_ok cal (updatedTime t)" "in_int (dataversion t)"
    by (simp_all add: entry_ok_def)
  note R = read_ptime [OF ok(1) assms(2), of now] read_ptime [OF ok(2) assms(2), of now]
  have line: "load_line cal now (note_line cal (k, t)) =
    (case (ptimeFromIsoString cal now (ptime_text cal (refTime t)), ptimeFromIsoString cal now (ptime_text cal (updatedTime t)),
           lexical_int (dec_int (dataversion t))) of
       (Inr rt, Inr ut, Some dv) \<Rightarrow>
         Some (k, \<lparr>refTime = of_vtime rt, updatedTime = of_vtime ut, disableEnableRequest = False,
                   dataversionRequest = False, reftimeUpdateRequest = False, disabled = disabled t, dataversion = dv\<rparr>)
     | _ \<Rightarrow> None)"
    unfolding load_line_def line_fields(1) [OF assms(1) [unfolded Pair]]
    by (cases "disabled t") (simp_all add: Let_def split: sum.split option.split)
  have flags: "\<not> disableEnableRequest t" "\<not> dataversionRequest t" "\<not> reftimeUpdateRequest t"
    using assms(1) Pair by (simp_all add: entry_ok_def)
  show ?thesis
  proof (cases "refTime t = None \<or> updatedTime t = None")
    case True
    then show ?thesis unfolding Pair line R lexical_int_text [OF ok(3)]
      by (auto simp: entry_special_def split: option.split)
  next
    case False
    then obtain x y where "refTime t = Some x" "updatedTime t = Some y" by (cases "refTime t"; cases "updatedTime t") auto
    with flags show ?thesis unfolding Pair line R lexical_int_text [OF ok(3)]
      by (simp add: entry_special_def of_vtime_def)
  qed
qed

lemma getlines_line: "LF \<notin> set l \<Longrightarrow> getlines buf (l @ LF # s) = (buf @ l) # getlines [] s"
  by (induction l arbitrary: buf) auto

lemma getlines_save:
  assumes "\<forall>kt \<in> set l. entry_ok cal kt"
  shows "getlines [] (saveNote cal l) = map (note_line cal) l"
  using assms
proof (induction l)
  case (Cons kt l)
  then have "LF \<notin> set (note_line cal kt)" using line_fields(2) [of cal "fst kt" "snd kt"] by simp
  with Cons show ?case by (simp add: saveNote_def getlines_line)
qed (simp add: saveNote_def)

lemma load_saved_lines:
  assumes "\<forall>kt \<in> set l. entry_ok cal kt" "ticks_of cal 0 = 0"
  shows "load_lines cal now (map (note_line cal) l) m =
    (if \<exists>kt \<in> set l. entry_special kt then None else Some (fold (\<lambda>(k, t). om_put k t) l m))"
  using assms(1)
proof (induction l arbitrary: m)
  case (Cons kt l)
  then show ?case using load_note_line [OF _ assms(2), of kt now] by (cases kt) auto
qed simp

lemma fold_om_put_wf: "om_wf m \<Longrightarrow> om_wf (fold (\<lambda>(k, t). om_put k t) l m)"
  by (induction l arbitrary: m) auto

lemma fold_om_put_map:
  "distinct (map fst l) \<Longrightarrow> map_of (fold (\<lambda>(k, t). om_put k t) l m) = map_of m ++ map_of l"
proof (induction l arbitrary: m)
  case (Cons kt l)
  then have "map_of l (fst kt) = None" by (simp add: map_of_eq_None_iff)
  with Cons show ?case by (cases kt) (auto simp: fun_eq_iff map_add_def split: option.split)
qed simp

lemma fold_om_put_id:
  assumes "om_wf l"
  shows "fold (\<lambda>(k, t). om_put k t) l [] = l"
proof (rule om_extensional)
  show "om_wf (fold (\<lambda>(k, t). om_put k t) l [])" by (intro fold_om_put_wf) simp
  have "distinct (map fst l)" using assms by (simp add: om_wf_def strict_sorted_iff)
  then show "map_of (fold (\<lambda>(k, t). om_put k t) l []) = map_of l" by (simp add: fold_om_put_map)
qed (rule assms)


definition saved_times :: "ptime \<Rightarrow> provider_times" where
  "saved_times u = provider_times_init\<lparr>refTime := Some 36325230, updatedTime := u, disabled := True, dataversion := -1\<rparr>"


end
