(* ===== verification/UrlParams.thy ===== *)
theory UrlParams
  imports PointData
begin

text \<open>
  The parameters of a web query, \<open>src/src/mod_wdb2ts/WciWebQuery/UrlParam*.cpp\<close>: each reads a text and
  keeps its value and the text it contributes to the SQL call \<open>wci.read\<close> (\<open>selectPart\<close>). A reader that
  throws may have changed its object before; results are the object and the outcome. The scanning
  and printing of floats, and the calendar, are arguments.
\<close>

record 'f wenv =
  wq_scan :: "string \<Rightarrow> ('f \<times> string) option"
  wq_fmt :: "'f \<Rightarrow> string"
  wq_fix :: "nat \<Rightarrow> 'f \<Rightarrow> string"
  wq_deg :: "int \<Rightarrow> 'f"
  wq_float_min :: 'f
  wq_denv :: "'f denv"
  wq_cal :: calendar
  wq_now :: int

section \<open>Strings\<close>

definition value_trim :: string where
  "value_trim = [CHR '' '', CHR 0x0D, CHR 0x0A, CHR 0x09, dquote]"

definition trim_value :: "string \<Rightarrow> string" where
  "trim_value s = trimstr_gen TRIMBOTH value_trim s"

definition comma_fields :: "string \<Rightarrow> string list" where
  "comma_fields s = (case splitstr s (CHR '','') dquote of None \<Rightarrow> [] | Some vals \<Rightarrow> vals)"

record url_string =
  us_array :: bool
  us_def :: string
  us_values :: "string list"
  us_select :: string
  us_valid :: bool

text \<open>The loop of \<open>decode\<close>: whether the next value is the first, the values, the text.\<close>

fun string_loop :: "string list \<Rightarrow> bool \<times> string list \<times> string \<Rightarrow> bool \<times> string list \<times> string" where
  "string_loop [] acc = acc"
| "string_loop (v # vs) (first, vals, ost) =
     (let buf = trim_value v
      in if buf = [] then string_loop vs (first, vals, ost)
         else string_loop vs (False, vals @ [buf], ost @ (if first then ''ARRAY[ '' @ quote buf else '', '' @ quote buf)))"

definition string_decode :: "url_string \<Rightarrow> string \<Rightarrow> url_string" where
  "string_decode u toDecode =
     (if \<not> us_array u
      then (let buf = trim_value toDecode
            in u\<lparr>us_values := (if buf = [] then [] else [buf]), us_select := (if buf = [] then ''NULL'' else quote buf),
                 us_valid := True\<rparr>)
      else (let (first, vals, ost) = string_loop (comma_fields toDecode) (True, [], [])
            in u\<lparr>us_values := vals, us_select := (if first then ost @ ''NULL'' else ost @ '' ]''), us_valid := True\<rparr>))"

definition string_new :: "string \<Rightarrow> bool \<Rightarrow> url_string" where
  "string_new d array =
     string_decode \<lparr>us_array = array, us_def = d, us_values = [], us_select = [], us_valid = False\<rparr> d"

definition string_clean :: "url_string \<Rightarrow> url_string" where
  "string_clean u = string_decode u (us_def u)"

fun select_loop :: "string list \<Rightarrow> bool \<times> string \<Rightarrow> bool \<times> string" where
  "select_loop [] acc = acc"
| "select_loop (v # vs) (first, ost) =
     select_loop vs (False, ost @ (if first then ''ARRAY[ '' @ quote v else '', '' @ quote v))"

definition updateSelectPart :: "url_string \<Rightarrow> url_string" where
  "updateSelectPart u =
     (if \<not> us_array u
      then u\<lparr>us_select := (case us_values u of [] \<Rightarrow> ''NULL'' | v # vs \<Rightarrow> quote v), us_valid := True\<rparr>
      else (let (first, ost) = select_loop (us_values u) (True, [])
            in u\<lparr>us_select := (if first then ost @ ''NULL'' else ost @ '' ]''), us_valid := True\<rparr>))"

definition setValueList :: "url_string \<Rightarrow> string list \<Rightarrow> url_string" where
  "setValueList u vs = updateSelectPart (u\<lparr>us_values := vs\<rparr>)"

definition hasValue :: "url_string \<Rightarrow> string \<Rightarrow> bool" where
  "hasValue u v \<longleftrightarrow> v \<in> set (us_values u)"

text \<open>\<open>UrlParamParameter\<close>: the same text without spaces in the brackets, and no list of values.\<close>

record url_parameter =
  up_select :: string
  up_valid :: bool

definition parameter_new :: url_parameter where
  "parameter_new = \<lparr>up_select = ''NULL'', up_valid = True\<rparr>"

definition parameter_clean :: "url_parameter \<Rightarrow> url_parameter" where
  "parameter_clean u = u\<lparr>up_valid := True, up_select := ''NULL''\<rparr>"

fun parameter_loop :: "string list \<Rightarrow> bool \<times> string \<Rightarrow> bool \<times> string" where
  "parameter_loop [] acc = acc"
| "parameter_loop (v # vs) (first, ost) =
     (let buf = trim_value v
      in if buf = [] then parameter_loop vs (first, ost)
         else parameter_loop vs (False, ost @ (if first then ''array['' @ quote buf else '', '' @ quote buf)))"

definition parameter_decode :: "url_parameter \<Rightarrow> string \<Rightarrow> url_parameter" where
  "parameter_decode u toDecode =
     (let (first, ost) = parameter_loop (comma_fields toDecode) (True, [])
      in u\<lparr>up_select := (if first then ost @ ''NULL'' else ost @ '']''), up_valid := True\<rparr>)"

section \<open>Numbers\<close>

text \<open>\<open>defVal\<close> is \<open>INT_MIN\<close> for no default.\<close>

record url_integer =
  ui_array :: bool
  ui_value :: "int list"
  ui_defValue :: "int list"
  ui_defSelect :: string
  ui_select :: string
  ui_valid :: bool

definition integer_new :: "bool \<Rightarrow> int \<Rightarrow> url_integer" where
  "integer_new array defVal =
     (let v = (if defVal \<noteq> int_min then [defVal] else []);
          s = (if defVal \<noteq> int_min then (if array then ''array['' @ dec_int defVal @ '']'' else dec_int defVal) else ''NULL'')
      in \<lparr>ui_array = array, ui_value = v, ui_defValue = v, ui_defSelect = s, ui_select = s, ui_valid = True\<rparr>)"

definition integer_clean :: "url_integer \<Rightarrow> url_integer" where
  "integer_clean u = u\<lparr>ui_value := ui_defValue u, ui_select := ui_defSelect u, ui_valid := True\<rparr>"

fun integer_loop :: "string \<Rightarrow> string list \<Rightarrow> int list \<Rightarrow> int list \<times> unit result" where
  "integer_loop to [] acc = (acc, Inr ())"
| "integer_loop to (v # vs) acc =
     (case sscanf_d (c_str v) of
        Scanned i \<Rightarrow> integer_loop to vs (acc @ [i])
      | No_match \<Rightarrow> (acc, Inl (Logic_error (''Not a number: '' @ to)))
      | Scan_overflow \<Rightarrow> (acc, Inl Undefined_behaviour))"

fun comma_ints :: "int list \<Rightarrow> string" where
  "comma_ints [] = []"
| "comma_ints (i # is) = '','' @ dec_int i @ comma_ints is"

definition integer_decode :: "url_integer \<Rightarrow> string \<Rightarrow> url_integer \<times> unit result" where
  "integer_decode u to =
     (case integer_loop to (comma_fields to) [] of
        (vs, Inl e) \<Rightarrow> (u\<lparr>ui_value := vs\<rparr>, Inl e)
      | (vs, Inr _) \<Rightarrow>
          let u1 = u\<lparr>ui_value := vs\<rparr>
          in if ui_array u
             then (u1\<lparr>ui_valid := True,
                      ui_select := (case vs of [] \<Rightarrow> ''NULL'' | i # is \<Rightarrow> ''array['' @ dec_int i @ comma_ints is @ '']'')\<rparr>, Inr ())
             else (case vs of
                     [] \<Rightarrow> (u1\<lparr>ui_valid := True, ui_select := ''NULL''\<rparr>, Inr ())
                   | [i] \<Rightarrow> (u1\<lparr>ui_valid := True, ui_select := dec_int i\<rparr>, Inr ())
                   | _ \<Rightarrow> (u1, Inl (Logic_error ''Expecting only one value, NOT a list of values.''))))"

text \<open>\<open>UrlParamFloat\<close>; the constructor with a protocol leaves the value uninitialised (\<open>junk\<close>).\<close>

record 'f url_float =
  uf_value :: 'f
  uf_valid :: bool

definition float_new :: "'f \<Rightarrow> 'f url_float" where
  "float_new junk = \<lparr>uf_value = junk, uf_valid = False\<rparr>"

definition float_clean :: "'f wenv \<Rightarrow> 'f url_float \<Rightarrow> 'f url_float" where
  "float_clean w u = u\<lparr>uf_value := wq_float_min w, uf_valid := False\<rparr>"

definition float_decode :: "'f wenv \<Rightarrow> 'f url_float \<Rightarrow> string \<Rightarrow> 'f url_float \<times> unit result" where
  "float_decode w u to =
     (case wq_scan w (c_str to) of
        None \<Rightarrow> (u, Inl (Logic_error (''Not a number: '' @ to)))
      | Some (f, _) \<Rightarrow> (u\<lparr>uf_value := f, uf_valid := True\<rparr>, Inr ()))"

section \<open>Levels\<close>

record url_level =
  ul_protocol :: int
  ul_select :: string
  ul_valid :: bool

definition level_new :: "int \<Rightarrow> url_level" where
  "level_new protocol = \<lparr>ul_protocol = protocol, ul_select = ''NULL'', ul_valid = True\<rparr>"

definition level_clean :: "url_level \<Rightarrow> url_level" where
  "level_clean u = u\<lparr>ul_valid := True, ul_select := ''NULL''\<rparr>"

definition validLevel :: "string \<Rightarrow> bool" where
  "validLevel s \<longleftrightarrow> (\<forall>c \<in> set s. isdigit c)"

definition level_validIndCode :: "int \<Rightarrow> string \<Rightarrow> bool" where
  "level_validIndCode protocol c \<longleftrightarrow>
     c = ''exact'' \<or> c = ''any'' \<or> c = ''inside'' \<or> (c = ''intersect'' \<and> protocol = 1)
     \<or> (protocol > 2 \<and> (c = ''below'' \<or> c = ''above''))"

definition field_or :: "string \<Rightarrow> string list \<Rightarrow> nat \<Rightarrow> string" where
  "field_or d vals i = (if i < length vals then vals ! i else d)"

text \<open>
  What both protocols do first: the texts of the two levels, the domain and the code, nothing when
  all are empty, or an exception.
\<close>

definition level_parts :: "int \<Rightarrow> string \<Rightarrow> (string \<times> string \<times> string \<times> string) option result" where
  "level_parts protocol toDecode =
     (let vals = comma_fields toDecode
      in if vals = [] then Inr None
         else if length vals < 2 then Inl (Logic_error ''LevelSpec: To few values!'')
         else if length vals > 4 then Inl (Logic_error ''LevelSpec: To many values!'')
         else (let f = trim_value (field_or [] vals 0); t = trim_value (field_or [] vals 1);
                   dn = trim_value (field_or [] vals 2); ind = trim_value (field_or ''exact'' vals 3)
               in if f = [] \<and> t = [] \<and> dn = [] \<and> ind = [] then Inr None
                  else if \<not> validLevel f \<and> \<not> validLevel t
                  then Inl (Logic_error ''LevelSpec: Missing required levelfrom or levelto!'')
                  else (let (f1, t1, dn1, ind1) =
                              (if \<not> validLevel f then (t, t, dn, ind)
                               else if \<not> validLevel t then (f, f, t, if length vals = 3 then dn else ind)
                               else (f, t, dn, ind))
                        in if dn1 = [] then Inl (Logic_error ''LevelSpec: Expecting valuedomain!'')
                           else if \<not> level_validIndCode protocol ind1 \<and> ind1 \<noteq> []
                           then Inl (Logic_error (''LevelSpec: Invalid indtermination code <'' @ ind1 @ ''>!''))
                           else Inr (Some (f1, t1, dn1, if ind1 = [] then ''exact'' else ind1)))))"

definition level_decode1 :: "url_level \<Rightarrow> string \<Rightarrow> url_level \<times> unit result" where
  "level_decode1 u toDecode =
     (case level_parts (ul_protocol u) toDecode of
        Inl e \<Rightarrow> (u, Inl e)
      | Inr None \<Rightarrow> (u\<lparr>ul_valid := True, ul_select := ''NULL''\<rparr>, Inr ())
      | Inr (Some (f, t, dn, ind)) \<Rightarrow>
          (u\<lparr>ul_valid := True, ul_select := ''('' @ f @ '', '' @ t @ '', '' @ quote dn @ '', '' @ quote ind @ '')''\<rparr>, Inr ()))"

definition level_decode2 :: "url_level \<Rightarrow> string \<Rightarrow> url_level \<times> unit result" where
  "level_decode2 u toDecode =
     (case level_parts (ul_protocol u) toDecode of
        Inl e \<Rightarrow> (u, Inl e)
      | Inr None \<Rightarrow> (u\<lparr>ul_valid := True, ul_select := ''NULL''\<rparr>, Inr ())
      | Inr (Some (f, t, dn, ind)) \<Rightarrow>
          if f = t
          then (if \<not> (ind = ''exact'' \<or> ind = ''below'' \<or> ind = ''above'')
                then (u\<lparr>ul_valid := False\<rparr>,
                      Inl (Logic_error (''LevelSpec: '' @ quote ind @ '' without meaning, only one level is given!'')))
                else (u\<lparr>ul_valid := True, ul_select := quote (ind @ '' '' @ f @ '' '' @ dn)\<rparr>, Inr ()))
          else (u\<lparr>ul_valid := True, ul_select := quote (''inside '' @ f @ '' TO '' @ t @ '' '' @ dn)\<rparr>, Inr ()))"

definition level_decode :: "url_level \<Rightarrow> string \<Rightarrow> url_level \<times> unit result" where
  "level_decode u toDecode = (if ul_protocol u \<ge> 2 then level_decode2 u toDecode else level_decode1 u toDecode)"

section \<open>Times\<close>

record url_time =
  ut_protocol :: int
  fromTime :: "vtime option"
  toTime :: "vtime option"
  isDecoded :: bool
  indCode :: string
  sameTimespecAsProvider :: string
  useProviderList :: bool
  ut_select :: string
  ut_valid :: bool

text \<open>The constructor leaves \<open>useProviderList_\<close> uninitialised (\<open>junk\<close>).\<close>

definition time_new :: "int \<Rightarrow> bool \<Rightarrow> url_time" where
  "time_new protocol junk =
     \<lparr>ut_protocol = protocol, fromTime = None, toTime = None, isDecoded = False, indCode = [],
      sameTimespecAsProvider = [], useProviderList = junk, ut_select = ''NULL'', ut_valid = True\<rparr>"

definition time_clean :: "url_time \<Rightarrow> url_time" where
  "time_clean u = u\<lparr>isDecoded := False, ut_valid := True, ut_select := ''NULL'', fromTime := None, toTime := None,
                     indCode := [], sameTimespecAsProvider := [], useProviderList := False\<rparr>"

definition validDate :: "string \<Rightarrow> bool" where
  "validDate s \<longleftrightarrow> s \<noteq> [] \<and>
     (s \<in> {''epoch'', ''-infinity'', ''infinity'', ''now'', ''today'', ''tomorrow'', ''yesterday''}
      \<or> find_idx (\<lambda>c. c \<notin> set ''1234567890-:TtZ '') s = None \<and> isdigit (hd s))"

definition time_validIndCode :: "int \<Rightarrow> string \<Rightarrow> bool" where
  "time_validIndCode protocol c \<longleftrightarrow>
     c = ''exact'' \<or> (c = ''any'' \<and> protocol = 1) \<or> c = ''inside'' \<or> (c = ''intersect'' \<and> protocol = 1)
     \<or> (protocol > 1 \<and> (c = ''before'' \<or> c = ''after'' \<or> c = ''contains''))"

text \<open>
  The part both protocols share. A reference to another provider, \<open>${...}\<close>, is kept for later; else
  the three fields are read. The result is the object and, when there are times to print, their
  texts and the code.
\<close>

definition time_reference :: "url_time \<Rightarrow> string \<Rightarrow> nat \<Rightarrow> url_time \<times> (string \<times> string \<times> string) option result" where
  "time_reference u toDecode i =
     (case find_sub_from ''}'' toDecode i of
        None \<Rightarrow> (u, Inl (Logic_error (''TimeSpec: Expecting '' @ quote ''}'' @ '' in provider specification!'')))
      | Some j \<Rightarrow>
          let p = trimstr (str_substr toDecode (i + 2) (j - i - 2))
          in (if p = ''$dataprovider''
              then u\<lparr>sameTimespecAsProvider := [], useProviderList := True, ut_select := ''NULL''\<rparr>
              else u\<lparr>sameTimespecAsProvider := p, ut_select := ''NULL''\<rparr>, Inr None))"

definition time_texts :: "int \<Rightarrow> string list \<Rightarrow> (string \<times> string \<times> string) option result" where
  "time_texts protocol vals =
     (if vals = [] then Inr None
      else if length vals > 3 then Inl (Logic_error ''TimeSpec: To many values!'')
      else (let f = trimstr (field_or [] vals 0); t = trimstr (field_or [] vals 1); ind = trimstr (field_or ''exact'' vals 2)
            in if f = [] \<and> t = [] \<and> ind = [] then Inr None
               else if f = ''NULL'' \<or> t = ''NULL'' then Inr None
               else if length vals = 1 \<and> \<not> validDate f then Inl (Logic_error ''TimeSpec: Invalid fromtime!'')
               else (let (f1, t1, ind1) =
                           (if \<not> validDate f then (t, t, ind)
                            else if \<not> validDate t then (f, f, if length vals = 2 then t else ind)
                            else (f, t, ind))
                     in if \<not> validDate f1 \<and> \<not> validDate t1 then Inl (Logic_error ''TimeSpec: Invalid fromtime or totime!'')
                        else if \<not> time_validIndCode protocol ind1 \<and> ind1 \<noteq> []
                        then Inl (Logic_error ''TimeSpec: Expecting valid indtermination code!'')
                        else Inr (Some (f1, t1, if ind1 = [] then ''exact'' else ind1)))))"

definition time_parts :: "'f wenv \<Rightarrow> url_time \<Rightarrow> string \<Rightarrow> url_time \<times> (string \<times> string \<times> string) option result" where
  "time_parts w u0 toDecode =
     (let u = u0\<lparr>isDecoded := True\<rparr>
      in case find_sub ''${'' toDecode of
           Some i \<Rightarrow> time_reference u toDecode i
         | None \<Rightarrow>
             (let u1 = u\<lparr>fromTime := None, toTime := None, indCode := []\<rparr>
              in case time_texts (ut_protocol u) (comma_fields toDecode) of
                   Inl e \<Rightarrow> (u1, Inl e)
                 | Inr None \<Rightarrow> (u1\<lparr>ut_valid := True, ut_select := ''NULL''\<rparr>, Inr None)
                 | Inr (Some (f, t, ind)) \<Rightarrow>
                     (case ptimeFromIsoString (wq_cal w) (wq_now w) f of
                        Inl e \<Rightarrow> (u1, Inl e)
                      | Inr ft \<Rightarrow>
                          (case ptimeFromIsoString (wq_cal w) (wq_now w) t of
                             Inl e \<Rightarrow> (u1\<lparr>fromTime := Some ft\<rparr>, Inl e)
                           | Inr tt \<Rightarrow> (u1\<lparr>fromTime := Some ft, toTime := Some tt, indCode := ind\<rparr>, Inr (Some (f, t, ind)))))))"

definition time_decode1 :: "'f wenv \<Rightarrow> url_time \<Rightarrow> string \<Rightarrow> url_time \<times> unit result" where
  "time_decode1 w u toDecode =
     (case time_parts w u toDecode of
        (u1, Inl e) \<Rightarrow> (u1, Inl e)
      | (u1, Inr None) \<Rightarrow> (u1, Inr ())
      | (u1, Inr (Some (f, t, ind))) \<Rightarrow>
          (u1\<lparr>ut_valid := True, ut_select := ''('' @ quote f @ '', '' @ quote t @ '', '' @ quote ind @ '')''\<rparr>, Inr ()))"

definition time_decode2 :: "'f wenv \<Rightarrow> url_time \<Rightarrow> string \<Rightarrow> url_time \<times> unit result" where
  "time_decode2 w u toDecode =
     (case time_parts w u toDecode of
        (u1, Inl e) \<Rightarrow> (u1, Inl e)
      | (u1, Inr None) \<Rightarrow> (u1, Inr ())
      | (u1, Inr (Some (f, t, ind))) \<Rightarrow>
          if fromTime u1 = toTime u1
          then (if \<not> (ind = ''exact'' \<or> ind = ''before'' \<or> ind = ''after'')
                then (u1\<lparr>ut_valid := False\<rparr>,
                      Inl (Logic_error (''TimeSpec: '' @ quote ind @ '' without meaning, only one timestamp given!'')))
                else (u1\<lparr>ut_valid := True, ut_select := quote (ind @ '' '' @ f)\<rparr>, Inr ()))
          else (let ind1 = (if ind = ''inside'' \<or> ind = ''contains'' then ind else ''inside'')
                in (u1\<lparr>ut_valid := True, ut_select := quote (ind1 @ '' '' @ f @ '' TO '' @ t)\<rparr>, Inr ())))"

definition time_decode :: "'f wenv \<Rightarrow> url_time \<Rightarrow> string \<Rightarrow> url_time \<times> unit result" where
  "time_decode w u toDecode =
     (let u1 = u\<lparr>useProviderList := False\<rparr>
      in if ut_protocol u \<ge> 2 then time_decode2 w u1 toDecode else time_decode1 w u1 toDecode)"

text \<open>\<open>sameTimespecAs\<close>: whether there is a provider, and its name.\<close>

definition sameTimespecAs :: "url_time \<Rightarrow> bool \<times> string" where
  "sameTimespecAs u = (sameTimespecAsProvider u \<noteq> [], sameTimespecAsProvider u)"

section \<open>Formats\<close>

datatype fmt_kind = CSV | HTML | XML | UNDEF_FORMAT

record url_format =
  fmt_format :: fmt_kind
  fmt_default :: fmt_kind
  fmt_valid :: bool

definition format_new :: "fmt_kind \<Rightarrow> url_format" where
  "format_new d = \<lparr>fmt_format = d, fmt_default = d, fmt_valid = True\<rparr>"

definition format_new_undef :: url_format where
  "format_new_undef = \<lparr>fmt_format = UNDEF_FORMAT, fmt_default = UNDEF_FORMAT, fmt_valid = False\<rparr>"

definition format_clean :: "url_format \<Rightarrow> url_format" where
  "format_clean u = u\<lparr>fmt_format := fmt_default u, fmt_valid := (fmt_default u = UNDEF_FORMAT)\<rparr>"

definition format_decode :: "url_format \<Rightarrow> string \<Rightarrow> url_format" where
  "format_decode u to = u"

section \<open>Polygons\<close>

text \<open>
  The regular expression of \<open>decodeLocationList\<close>. A piece of it gives all the rests a match can leave;
  \<open>regex_match\<close> asks for the empty one.
\<close>

definition re_class :: "(char \<Rightarrow> bool) \<Rightarrow> string \<Rightarrow> string list" where
  "re_class P s = (case s of c # r \<Rightarrow> if P c then [r] else [] | [] \<Rightarrow> [])"

fun re_many :: "(char \<Rightarrow> bool) \<Rightarrow> string \<Rightarrow> string list" where
  "re_many P [] = [[]]"
| "re_many P (c # r) = (c # r) # (if P c then re_many P r else [])"

definition re_seq :: "(string \<Rightarrow> string list) \<Rightarrow> (string \<Rightarrow> string list) \<Rightarrow> string \<Rightarrow> string list" where
  "re_seq a b s = concat (map b (a s))"

definition re_opt :: "(string \<Rightarrow> string list) \<Rightarrow> string \<Rightarrow> string list" where
  "re_opt a s = s # a s"

definition re_some :: "(char \<Rightarrow> bool) \<Rightarrow> string \<Rightarrow> string list" where
  "re_some P = re_seq (re_class P) (re_many P)"

definition re_sign :: "string \<Rightarrow> string list" where
  "re_sign = re_opt (re_class (\<lambda>c. c = CHR ''-'' \<or> c = CHR ''+''))"

text \<open>\<open>[-+]?[0-9]*\.?[0-9]+([eE][-+]?[0-9]+)?\<close>\<close>

definition reFloat :: "string \<Rightarrow> string list" where
  "reFloat = re_seq re_sign (re_seq (re_many isdigit) (re_seq (re_opt (re_class (\<lambda>c. c = CHR ''.''))) (re_seq (re_some isdigit)
     (re_opt (re_seq (re_class (\<lambda>c. c = CHR ''e'' \<or> c = CHR ''E'')) (re_seq re_sign (re_some isdigit)))))))"

definition re_pair :: "string \<Rightarrow> string list" where
  "re_pair = re_seq (re_many isspace) (re_seq reFloat (re_seq (re_some isspace) (re_seq reFloat (re_many isspace))))"

fun re_pairs :: "nat \<Rightarrow> string \<Rightarrow> string list" where
  "re_pairs 0 s = [s]"
| "re_pairs (Suc n) s = s # concat (map (re_pairs n) (re_seq (re_class (\<lambda>c. c = CHR '','')) re_pair s))"

definition location_regex :: "string \<Rightarrow> bool" where
  "location_regex s \<longleftrightarrow> [] \<in> set (concat (map (re_pairs (length s)) (re_pair s)))"

text \<open>\<open>sscanf(buf, " %f %f", &lon, &lat)\<close> and one point of the list.\<close>

definition scan_point :: "'f wenv \<Rightarrow> string \<Rightarrow> point result" where
  "scan_point w buf =
     (case Option.bind (wq_scan w (c_str buf)) (\<lambda>(lon, r). map_option (\<lambda>(lat, _). (lon, lat)) (wq_scan w r)) of
        None \<Rightarrow> Inl (Logic_error (''Expecting: '' @ quote ''longitude latitude'' @ ''. latitude and longitude must be valid numbers.''))
      | Some (lon, lat) \<Rightarrow> point_set (wq_denv w) lat lon)"

text \<open>The loop over the commas; the points found stay in the list when it throws.\<close>

function location_loop :: "'f wenv \<Rightarrow> string \<Rightarrow> nat option \<Rightarrow> point list \<Rightarrow> point list \<times> unit result" where
  "location_loop w s None pts = (pts, Inr ())"
| "location_loop w s (Some iPrev) pts =
     (let i = find_sub_from '','' s (iPrev + 1);
          buf = (case i of Some j \<Rightarrow> str_substr s (iPrev + 1) (j - iPrev - 1) | None \<Rightarrow> drop (iPrev + 1) s)
      in case scan_point w buf of
           Inl e \<Rightarrow> (pts, Inl e)
         | Inr p \<Rightarrow> location_loop w s i (pts @ [p]))"
  by pat_completeness auto

termination
proof (relation "measure (\<lambda>(w, s, i, pts). case i of None \<Rightarrow> 0 | Some j \<Rightarrow> 1 + (length s - j))", goal_cases)
  case (2 w s iPrev pts x xa p)
  then show ?case
    by (auto simp: find_sub_from_def split: option.splits if_splits dest!: find_sub_Some)
qed simp

definition decodeLocationList :: "'f wenv \<Rightarrow> string \<Rightarrow> point list \<Rightarrow> point list \<times> unit result" where
  "decodeLocationList w s pts =
     (if \<not> location_regex s then (pts, Inl (Logic_error (c_str (''Invalid location list: '' @ s))))
      else (let i = find_sub_from '','' s 0; buf = (case i of None \<Rightarrow> s | Some j \<Rightarrow> take j s)
            in case scan_point w buf of
                 Inl e \<Rightarrow> (pts, Inl e)
               | Inr p \<Rightarrow> location_loop w s i (pts @ [p])))"

definition decodePointList :: "'f wenv \<Rightarrow> string \<Rightarrow> point list \<times> unit result" where
  "decodePointList w s =
     (case decodeLocationList w s [] of
        (pts, Inl e) \<Rightarrow> (pts, Inl e)
      | (pts, Inr _) \<Rightarrow>
          (pts, if pts = []
                then Inl (Logic_error ''Expecting a location point on the format: longitude latitude, .. , longitude latitude'')
                else Inr ()))"

text \<open>\<open>LocationPoint::decodePoint\<close>: the first point of a list.\<close>

definition decodeLocationPoint :: "'f wenv \<Rightarrow> string \<Rightarrow> point result" where
  "decodeLocationPoint w s =
     (case decodeLocationList w s [] of
        (pts, Inl e) \<Rightarrow> Inl e
      | (pts, Inr _) \<Rightarrow> (case pts of [] \<Rightarrow> Inl (Logic_error ''Expecting a location point on the format: longitude latitude'')
                                  | p # _ \<Rightarrow> Inr p))"

definition point_text :: "'f wenv \<Rightarrow> nat \<Rightarrow> point \<Rightarrow> string" where
  "point_text w n p = wq_fix w n (wq_deg w (longitude p)) @ '' '' @ wq_fix w n (wq_deg w (latitude p))"

definition close_polygon :: "point list \<Rightarrow> point list" where
  "close_polygon pts = (if length pts = 1 \<or> last pts \<noteq> hd pts then pts @ [hd pts] else pts)"

definition creatPolygon :: "'f wenv \<Rightarrow> point list \<Rightarrow> point list \<times> string" where
  "creatPolygon w pts =
     (let ps = close_polygon pts
      in (ps, ''POLYGON(('' @ point_text w 5 (hd ps) @ concat (map (\<lambda>p. '','' @ point_text w 5 p) (tl ps)) @ ''))''))"

record url_polygon =
  upol_value :: "point list"
  upol_defValue :: "point list"
  upol_defSelect :: string
  upol_defValid :: bool
  upol_select :: string
  upol_valid :: bool

definition polygon_new :: url_polygon where
  "polygon_new = \<lparr>upol_value = [], upol_defValue = [], upol_defSelect = [], upol_defValid = False, upol_select = [], upol_valid = False\<rparr>"

definition polygon_new_default :: "'f wenv \<Rightarrow> point list \<Rightarrow> url_polygon" where
  "polygon_new_default w d =
     (if d = [] then polygon_new
      else let (ps, sel) = creatPolygon w d
           in \<lparr>upol_value = ps, upol_defValue = ps, upol_defSelect = sel, upol_defValid = True, upol_select = sel, upol_valid = True\<rparr>)"

definition polygon_clean :: "url_polygon \<Rightarrow> url_polygon" where
  "polygon_clean u = u\<lparr>upol_value := upol_defValue u, upol_valid := upol_defValid u, upol_select := upol_defSelect u\<rparr>"

text \<open>\<open>decodePolygon\<close> turns every exception into its text.\<close>

definition polygon_decode :: "'f wenv \<Rightarrow> url_polygon \<Rightarrow> string \<Rightarrow> url_polygon \<times> unit result" where
  "polygon_decode w u toDecode =
     (case decodePointList w toDecode of
        (pts, Inl e) \<Rightarrow>
          (if e = Undefined_behaviour then (u, Inl e)
           else (u\<lparr>upol_value := pts, upol_valid := False\<rparr>, Inl (Logic_error (c_str (exn_text e)))))
      | (pts, Inr _) \<Rightarrow>
          let (ps, sel) = creatPolygon w pts
          in (u\<lparr>upol_value := ps, upol_select := sel, upol_valid := True\<rparr>, Inr ()))"

section \<open>What the readers do\<close>

definition select_text :: "string list \<Rightarrow> string" where
  "select_text vs =
     (case vs of [] \<Rightarrow> ''NULL'' | v # r \<Rightarrow> ''ARRAY[ '' @ quote v @ concat (map (\<lambda>x. '', '' @ quote x) r) @ '' ]'')"

lemma select_loop_more: "select_loop vs (False, ost) = (False, ost @ concat (map (\<lambda>x. '', '' @ quote x) vs))"
  by (induction vs arbitrary: ost) auto

lemma select_loop_eq: "select_loop vs (True, []) = (vs = [], if vs = [] then [] else ''ARRAY[ '' @ quote (hd vs)
    @ concat (map (\<lambda>x. '', '' @ quote x) (tl vs)))"
  by (cases vs) (simp_all add: select_loop_more)

lemma updateSelectPart_text:
  "us_array u \<Longrightarrow> updateSelectPart u = u\<lparr>us_select := select_text (us_values u), us_valid := True\<rparr>"
  by (simp add: updateSelectPart_def select_loop_eq select_text_def split: list.split)

definition clean_values :: "string \<Rightarrow> string list" where
  "clean_values s = filter (\<lambda>v. v \<noteq> []) (map trim_value (comma_fields s))"

lemma string_loop_more:
  "string_loop fs (False, vals, ost) =
    (False, vals @ filter (\<lambda>v. v \<noteq> []) (map trim_value fs),
     ost @ concat (map (\<lambda>x. '', '' @ quote x) (filter (\<lambda>v. v \<noteq> []) (map trim_value fs))))"
  by (induction fs arbitrary: vals ost) (simp_all add: Let_def)

lemma string_loop_eq:
  "string_loop fs (True, [], []) =
    (let vs = filter (\<lambda>v. v \<noteq> []) (map trim_value fs)
     in (vs = [], vs, if vs = [] then [] else ''ARRAY[ '' @ quote (hd vs) @ concat (map (\<lambda>x. '', '' @ quote x) (tl vs))))"
  by (induction fs) (simp_all add: Let_def string_loop_more)

lemma string_decode_array:
  "us_array u \<Longrightarrow> string_decode u s =
    u\<lparr>us_values := clean_values s, us_select := select_text (clean_values s), us_valid := True\<rparr>"
  by (simp add: string_decode_def string_loop_eq select_text_def clean_values_def Let_def split: list.split)

lemma string_decode_keeps [simp]:
  "us_array (string_decode u s) = us_array u" "us_def (string_decode u s) = us_def u"
  by (cases "us_array u"; simp add: string_decode_def string_loop_eq Let_def)+

lemma string_clean_decode [simp]: "string_clean (string_decode u s) = string_clean u"
  by (cases "us_array u") (simp_all add: string_clean_def string_decode_def string_loop_eq Let_def)

lemma string_clean_idem [simp]: "string_clean (string_clean u) = string_clean u"
  by (simp add: string_clean_def [of u])

text \<open>
  \<open>UrlParamString::decode\<close> and \<open>updateSelectPart\<close> agree: after reading a text, the SQL part is the
  one \<open>updateSelectPart\<close> makes of the values, which are the comma separated pieces without blanks and
  quotation marks at their ends, the empty ones left out. (So \<open>setValueList\<close> on the values changes
  nothing.)
\<close>

theorem string_decode_correct:
  "updateSelectPart (string_decode u s) = string_decode u s
   \<and> (us_array u \<longrightarrow> us_values (string_decode u s) = clean_values s \<and> us_select (string_decode u s) = select_text (clean_values s))
   \<and> (\<not> us_array u \<longrightarrow> us_values (string_decode u s) = (if trim_value s = [] then [] else [trim_value s]))
   \<and> setValueList (string_decode u s) (us_values (string_decode u s)) = string_decode u s"
proof (cases "us_array u")
  case True
  then show ?thesis by (simp add: string_decode_array updateSelectPart_text setValueList_def)
next
  case False
  then show ?thesis by (simp add: string_decode_def updateSelectPart_def setValueList_def Let_def)
qed

theorem string_decode_correct_witness:
  "us_select (string_decode (string_new [] True) '' met , ,ec'') = ''ARRAY[ '' @ quote ''met'' @ '', '' @ quote ''ec'' @ '' ]''"
proof -
  have "clean_values '' met , ,ec'' = [''met'', ''ec'']" by code_simp
  moreover have "us_array (string_new [] True)" by (simp add: string_new_def)
  ultimately show ?thesis
    using string_decode_correct [of "string_new [] True" "'' met , ,ec''"] by (simp add: select_text_def)
qed

text \<open>Reading leaves what \<open>clean\<close> resets to.\<close>

lemma parameter_clean_decode [simp]: "parameter_clean (parameter_decode u s) = parameter_clean u"
  by (simp add: parameter_clean_def parameter_decode_def split: prod.split)

lemma integer_clean_decode [simp]: "integer_clean (fst (integer_decode u s)) = integer_clean u"
  by (auto simp: integer_clean_def integer_decode_def Let_def split: prod.split sum.split list.split)

lemma float_clean_decode [simp]: "float_clean w (fst (float_decode w u s)) = float_clean w u"
  by (simp add: float_clean_def float_decode_def split: option.split prod.split)

lemma level_clean_decode [simp]: "level_clean (fst (level_decode u s)) = level_clean u"
  by (auto simp: level_clean_def level_decode_def level_decode1_def level_decode2_def split: sum.split option.split prod.split)

lemma time_parts_protocol [simp]: "ut_protocol (fst (time_parts w u s)) = ut_protocol u"
  by (simp add: time_parts_def time_reference_def Let_def split: sum.split option.split prod.split)

lemma time_decode_protocol [simp]: "ut_protocol (fst (time_decode w u s)) = ut_protocol u"
proof (cases "time_parts w (u\<lparr>useProviderList := False\<rparr>) s")
  case (Pair v r)
  have "ut_protocol v = ut_protocol u" using time_parts_protocol [of w "u\<lparr>useProviderList := False\<rparr>" s] Pair by simp
  with Pair show ?thesis
    by (auto simp: time_decode_def time_decode1_def time_decode2_def Let_def split: sum.split option.split prod.split)
qed

lemma time_clean_eq: "time_clean u = time_clean v \<longleftrightarrow> ut_protocol u = ut_protocol v"
  by (cases u; cases v) (simp add: time_clean_def)

lemma time_clean_decode [simp]: "time_clean (fst (time_decode w u s)) = time_clean u"
  by (simp add: time_clean_eq)

lemma polygon_clean_decode [simp]: "polygon_clean (fst (polygon_decode w u s)) = polygon_clean u"
  by (auto simp: polygon_clean_def polygon_decode_def creatPolygon_def Let_def split: prod.split sum.split)

lemma clean_idem [simp]:
  "parameter_clean (parameter_clean p) = parameter_clean p" "integer_clean (integer_clean i) = integer_clean i"
  "float_clean w (float_clean w f) = float_clean w f" "level_clean (level_clean l) = level_clean l"
  "time_clean (time_clean t) = time_clean t" "polygon_clean (polygon_clean g) = polygon_clean g"
  "format_clean (format_clean m) = format_clean m"
  by (simp_all add: parameter_clean_def integer_clean_def float_clean_def level_clean_def time_clean_def polygon_clean_def format_clean_def)

section \<open>Levels and times\<close>

lemma comma_fields_join:
  assumes "fs \<noteq> []" "\<forall>f \<in> set fs. CHR '','' \<notin> set f \<and> dquote \<notin> set f \<and> strip trim_set f = f"
  shows "comma_fields (join (CHR '','') fs) = fs"
proof -
  have "raw_fields (CHR '','') dquote (CHR 0x00) False (join (CHR '','') fs) = fs"
    using assms by (intro fields_join) auto
  moreover have "map trimstr fs = fs" using assms(2) by (intro map_idI) (simp add: trimstr_strip)
  ultimately show ?thesis by (simp add: comma_fields_def splitstr_eq split_fields_def)
qed

lemma trim_value_strip: "trim_value s = strip value_trim s"
  by (simp add: trim_value_def trimstr_gen_both)

lemma no_digits: "\<forall>c \<in> set (trim_set @ value_trim @ '',$''). \<not> isdigit c"
  by code_simp

lemma digits_clean:
  assumes "validLevel f"
  shows "CHR '','' \<notin> set f" "dquote \<notin> set f" "strip trim_set f = f" "trim_value f = f"
proof -
  have *: "\<forall>c \<in> set f. c \<notin> set (trim_set @ value_trim @ '',$'')" using assms no_digits by (auto simp: validLevel_def simp del: set_append)
  then show "CHR '','' \<notin> set f" "dquote \<notin> set f" by (auto simp: value_trim_def)
  show "strip trim_set f = f" "trim_value f = f" using * unfolding trim_value_strip by (auto intro!: strip_no_trim)
qed

text \<open>
  A level specification of two numbers and a domain is accepted with any protocol; the SQL part
  has the numbers and the domain as they were written. The numbers may be missing: a test for digits
  that an empty text passes is taken for the test that there is a level, so the error for a missing
  level is not raised.
\<close>

theorem level_decode_correct:
  assumes "validLevel f" "validLevel t" "d \<noteq> []" "CHR '','' \<notin> set d" "dquote \<notin> set d" "strip trim_set d = d" "trim_value d = d"
  shows "level_decode u (join (CHR '','') [f, t, d]) =
    (if ul_protocol u < 2
     then (u\<lparr>ul_valid := True, ul_select := ''('' @ f @ '', '' @ t @ '', '' @ quote d @ '', '' @ quote ''exact'' @ '')''\<rparr>, Inr ())
     else if f = t then (u\<lparr>ul_valid := True, ul_select := quote (''exact '' @ f @ '' '' @ d)\<rparr>, Inr ())
     else (u\<lparr>ul_valid := True, ul_select := quote (''inside '' @ f @ '' TO '' @ t @ '' '' @ d)\<rparr>, Inr ()))"
proof -
  have "comma_fields (join (CHR '','') [f, t, d]) = [f, t, d]"
    using assms digits_clean [OF assms(1)] digits_clean [OF assms(2)] by (intro comma_fields_join) auto
  moreover have "trim_value ''exact'' = ''exact''" by code_simp
  ultimately have "level_parts (ul_protocol u) (join (CHR '','') [f, t, d]) = Inr (Some (f, t, d, ''exact''))"
    using assms digits_clean(4) by (simp add: level_parts_def field_or_def level_validIndCode_def)
  then show ?thesis by (simp add: level_decode_def level_decode1_def level_decode2_def)
qed

theorem level_decode_correct_witness:
  "level_decode (level_new 2) '',,height'' = ((level_new 2)\<lparr>ul_valid := True, ul_select := quote ''exact  height''\<rparr>, Inr ())"
proof -
  have d: "trim_value ''height'' = ''height''" "strip trim_set ''height'' = ''height''" by code_simp+
  show ?thesis
    using level_decode_correct [of "[]" "[]" "''height''" "level_new 2"] d by (simp add: validLevel_def level_new_def)
qed

lemma find_sub_no: "p = a # q \<Longrightarrow> a \<notin> set s \<Longrightarrow> find_sub p s = None"
  by (induction s) auto

definition times_text :: "calendar \<Rightarrow> int \<Rightarrow> int \<Rightarrow> string" where
  "times_text cal a b = isotimeString cal (Some (At a)) True True @ '','' @ isotimeString cal (Some (At b)) True True"

lemma digit_in: "isdigit c \<Longrightarrow> c \<in> set ''1234567890''"
proof -
  assume "isdigit c"
  then have "code c = 48 \<or> code c = 49 \<or> code c = 50 \<or> code c = 51 \<or> code c = 52 \<or> code c = 53 \<or> code c = 54 \<or> code c = 55 \<or> code c = 56 \<or> code c = 57"
    unfolding isdigit_def by arith
  then have "char_of (code c) \<in> set ''1234567890''" by (elim disjE) (simp_all add: char_of_def bit_0)
  then show ?thesis by simp
qed

lemma iso_clean:
  assumes "time_ok cal t"
  defines "s \<equiv> isotimeString cal (Some (At t)) True True"
  shows "CHR '','' \<notin> set s" "dquote \<notin> set s" "CHR ''$'' \<notin> set s" "strip trim_set s = s" "trimstr s = s" "validDate s"
    "s \<noteq> ''NULL''" "s \<noteq> []"
proof -
  note I = iso_chars [OF assms(1), of True, folded s_def]
  have "\<forall>c \<in> set ''-:TZ''. c \<notin> set (trim_set @ value_trim @ '',$'')" by code_simp
  then have no: "\<forall>c \<in> set s. c \<notin> set (trim_set @ value_trim @ '',$'')" using I(1) no_digits by blast
  have "CHR '','' \<in> set (trim_set @ value_trim @ '',$'')" "dquote \<in> set (trim_set @ value_trim @ '',$'')"
      "CHR ''$'' \<in> set (trim_set @ value_trim @ '',$'')" by code_simp+
  with no show "CHR '','' \<notin> set s" "dquote \<notin> set s" "CHR ''$'' \<notin> set s" by blast+
  have "\<forall>c \<in> set s. c \<notin> set trim_set" using no unfolding set_append by blast
  then show *: "strip trim_set s = s" by (rule strip_no_trim)
  then show "trimstr s = s" by (simp add: trimstr_strip)
  have "set ''1234567890'' \<subseteq> set ''1234567890-:TtZ ''" "set ''-:TZ'' \<subseteq> set ''1234567890-:TtZ ''" by simp_all
  then have "\<forall>c \<in> set s. c \<in> set ''1234567890-:TtZ ''" using I(1) digit_in by blast
  then show "validDate s" using I(2,3) by (auto simp: validDate_def find_idx_None)
  show "s \<noteq> ''NULL''" using I(3) by (auto simp: isdigit_def)
  show "s \<noteq> []" by (rule I(2))
qed

text \<open>
  Two times printed with a comma between them, as the reference times of a provider are put into
  its query, are read by \<open>UrlParamTimeSpec\<close> as these times, and the SQL part names them: from protocol 2
  on one time when they are equal and an interval when not. What was read before is replaced.
\<close>

theorem time_decode_pair:
  assumes "time_ok (wq_cal w) a" "time_ok (wq_cal w) b" "ticks_of (wq_cal w) 0 = 0"
  shows "time_decode w u (times_text (wq_cal w) a b) =
    (u\<lparr>useProviderList := False, isDecoded := True, fromTime := Some (At a), toTime := Some (At b), indCode := ''exact'',
       ut_valid := True,
       ut_select :=
         (let x = isotimeString (wq_cal w) (Some (At a)) True True; y = isotimeString (wq_cal w) (Some (At b)) True True
          in if ut_protocol u < 2 then ''('' @ quote x @ '', '' @ quote y @ '', '' @ quote ''exact'' @ '')''
             else if a = b then quote (''exact '' @ x) else quote (''inside '' @ x @ '' TO '' @ y))\<rparr>, Inr ())"
proof -
  let ?x = "isotimeString (wq_cal w) (Some (At a)) True True" and ?y = "isotimeString (wq_cal w) (Some (At b)) True True"
  note A = iso_clean [OF assms(1)] and B = iso_clean [OF assms(2)]
  have join: "times_text (wq_cal w) a b = join (CHR '','') [?x, ?y]" by (simp add: times_text_def)
  then have fields: "comma_fields (times_text (wq_cal w) a b) = [?x, ?y]"
    using A(1,2,4) B(1,2,4) by (simp add: comma_fields_join del: join.simps)
  have "find_sub ''${'' (times_text (wq_cal w) a b) = None"
    by (rule find_sub_no) (use A(3) B(3) in \<open>auto simp: times_text_def\<close>)
  moreover have "trimstr ''exact'' = ''exact''" by code_simp
  then have "time_texts (ut_protocol u) [?x, ?y] = Inr (Some (?x, ?y, ''exact''))"
    using A(5-8) B(5-8) by (simp add: time_texts_def field_or_def time_validIndCode_def)
  moreover have "ptimeFromIsoString (wq_cal w) (wq_now w) ?x = Inr (At a)" "ptimeFromIsoString (wq_cal w) (wq_now w) ?y = Inr (At b)"
    using isotime_read [OF _ _ assms(3)] assms(1,2) by (simp_all add: time_ok_def)
  ultimately show ?thesis
    by (simp add: time_decode_def time_decode1_def time_decode2_def time_parts_def fields Let_def)
qed

definition sample_wenv :: "int wenv" where
  "sample_wenv = \<lparr>wq_scan = (\<lambda>s. let s1 = dropWhile isspace s; ds = takeWhile isdigit s1
                      in if ds = [] then None else Some (int (digits_val ds), drop (length ds) s1)), wq_fmt = dec_int, wq_fix = (\<lambda>n. dec_int),
     wq_deg = (\<lambda>i. i div 10000000), wq_float_min = 0, wq_denv = sample_denv, wq_cal = simple_calendar, wq_now = 0\<rparr>"

theorem time_decode_pair_witness:
  "ut_select (fst (time_decode sample_wenv (time_new 3 True) (times_text simple_calendar 36325230 36325230)))
     = quote ''exact 1971-03-01T10:20:30Z''"
proof -
  have ok: "time_ok (wq_cal sample_wenv) 36325230" "ticks_of (wq_cal sample_wenv) 0 = 0"
    by (simp_all add: sample_wenv_def time_ok_def simple_calendar_def civil_ok_def Let_def)
  have "isotimeString simple_calendar (Some (At 36325230)) True True = ''1971-03-01T10:20:30Z''"
    by (simp add: simple_calendar_def isotimeString_def civil_text_def padded_def dec_nat.simps digit_chars Let_def)
  then show ?thesis using time_decode_pair [OF ok(1,1,2), of "time_new 3 True"]
    by (simp add: sample_wenv_def time_new_def)
qed

text \<open>
  A polygon that is accepted is closed: its points are those of the text in their order, with the
  first again at the end unless the last is the first already; so it has two points at least and
  ends where it starts.
\<close>

theorem polygon_closed:
  assumes "polygon_decode w u s = (u', Inr ())"
  shows "\<exists>pts. decodePointList w s = (pts, Inr ()) \<and> pts \<noteq> []
    \<and> upol_value u' = (if length pts > 1 \<and> last pts = hd pts then pts else pts @ [hd pts])
    \<and> hd (upol_value u') = last (upol_value u') \<and> length (upol_value u') \<ge> 2"
proof -
  obtain pts where d: "decodePointList w s = (pts, Inr ())" "upol_value u' = close_polygon pts"
    using assms by (auto simp: polygon_decode_def creatPolygon_def Let_def split: prod.splits sum.splits if_splits)
  then have ne: "pts \<noteq> []" by (auto simp: decodePointList_def split: prod.splits sum.splits if_splits)
  then have "length pts \<ge> 1" by (cases pts) auto
  with d ne show ?thesis by (cases "length pts = 1") (auto simp: close_polygon_def hd_append)
qed

lemma sample_polygon:
  "case polygon_decode sample_wenv polygon_new ''1 6, 2 6,2 7'' of (u, r) \<Rightarrow> r = Inr ()"
  by code_simp

theorem polygon_closed_witness:
  "\<exists>u. polygon_decode sample_wenv polygon_new ''1 6, 2 6,2 7'' = (u, Inr ()) \<and> hd (upol_value u) = last (upol_value u)"
proof -
  obtain u where u: "polygon_decode sample_wenv polygon_new ''1 6, 2 6,2 7'' = (u, Inr ())"
    using sample_polygon by (auto split: prod.splits)
  from polygon_closed [OF u] u show ?thesis by blast
qed

end
