(* ===== verification/WciQuery.thy ===== *)
theory WciQuery
  imports UrlParams UrlQuery
begin

text \<open>
  \<open>src/src/mod_wdb2ts/WciWebQuery/WciWebQuery.cpp\<close>: a web query as the text of an SQL call of
  \<open>wci.read\<close>. The object keeps one reader for each parameter and is used for many queries.
\<close>

record 'f wci_query =
  returnColoumns :: string
  wq_dataprovider :: url_string
  wq_latitude :: "'f url_float"
  wq_longitude :: "'f url_float"
  wq_pointInterpolation :: url_string
  wq_reftime :: url_time
  wq_validtime :: url_time
  wq_parameter :: url_parameter
  wq_levelspec :: url_level
  wq_dataversion :: url_integer
  wq_format :: url_format
  wq_altitude :: "'f url_float"
  wq_polygon :: url_polygon
  wq_isPolygon :: bool

text \<open>\<open>junk\<close> and \<open>up\<close> are what the uninitialised members hold.\<close>

definition wci_new :: "int \<Rightarrow> string \<Rightarrow> 'f \<Rightarrow> bool \<Rightarrow> 'f wci_query" where
  "wci_new protocol cols junk up =
     \<lparr>returnColoumns = cols, wq_dataprovider = string_new [] True, wq_latitude = float_new junk, wq_longitude = float_new junk,
      wq_pointInterpolation = string_new ''nearest'' False, wq_reftime = time_new protocol up, wq_validtime = time_new protocol up,
      wq_parameter = parameter_new, wq_levelspec = level_new protocol, wq_dataversion = integer_new True (-1),
      wq_format = format_new CSV, wq_altitude = float_new junk, wq_polygon = polygon_new, wq_isPolygon = False\<rparr>"

definition wci_clean :: "'f wenv \<Rightarrow> 'f wci_query \<Rightarrow> 'f wci_query" where
  "wci_clean w q = q
     \<lparr>wq_latitude := float_clean w (wq_latitude q), wq_longitude := float_clean w (wq_longitude q),
      wq_pointInterpolation := string_clean (wq_pointInterpolation q), wq_altitude := float_clean w (wq_altitude q),
      wq_reftime := time_clean (wq_reftime q), wq_validtime := time_clean (wq_validtime q),
      wq_parameter := parameter_clean (wq_parameter q), wq_dataprovider := string_clean (wq_dataprovider q),
      wq_dataversion := integer_clean (wq_dataversion q), wq_levelspec := level_clean (wq_levelspec q),
      wq_format := format_clean (wq_format q), wq_polygon := polygon_clean (wq_polygon q)\<rparr>"

definition known_keys :: "string list" where
  "known_keys = [''lat'', ''long'', ''lon'', ''point_interpolation'', ''alt'', ''reftime'', ''validtime'', ''parameter'',
                 ''dataprovider'', ''dataversion'', ''levelspec'', ''format'', ''polygon'']"

text \<open>The reader of a key on its value.\<close>

definition decode_key :: "'f wenv \<Rightarrow> string \<Rightarrow> string \<Rightarrow> 'f wci_query \<Rightarrow> 'f wci_query \<times> unit result" where
  "decode_key w key val q =
     (if key = ''lat'' then (let (u, r) = float_decode w (wq_latitude q) val in (q\<lparr>wq_latitude := u\<rparr>, r))
      else if key = ''long'' \<or> key = ''lon'' then (let (u, r) = float_decode w (wq_longitude q) val in (q\<lparr>wq_longitude := u\<rparr>, r))
      else if key = ''point_interpolation''
      then (q\<lparr>wq_pointInterpolation := string_decode (wq_pointInterpolation q) val\<rparr>, Inr ())
      else if key = ''alt'' then (let (u, r) = float_decode w (wq_altitude q) val in (q\<lparr>wq_altitude := u\<rparr>, r))
      else if key = ''reftime'' then (let (u, r) = time_decode w (wq_reftime q) val in (q\<lparr>wq_reftime := u\<rparr>, r))
      else if key = ''validtime'' then (let (u, r) = time_decode w (wq_validtime q) val in (q\<lparr>wq_validtime := u\<rparr>, r))
      else if key = ''parameter'' then (q\<lparr>wq_parameter := parameter_decode (wq_parameter q) val\<rparr>, Inr ())
      else if key = ''dataprovider'' then (q\<lparr>wq_dataprovider := string_decode (wq_dataprovider q) val\<rparr>, Inr ())
      else if key = ''dataversion'' then (let (u, r) = integer_decode (wq_dataversion q) val in (q\<lparr>wq_dataversion := u\<rparr>, r))
      else if key = ''levelspec'' then (let (u, r) = level_decode (wq_levelspec q) val in (q\<lparr>wq_levelspec := u\<rparr>, r))
      else if key = ''format'' then (q\<lparr>wq_format := format_decode (wq_format q) val\<rparr>, Inr ())
      else (let (u, r) = polygon_decode w (wq_polygon q) val
            in (q\<lparr>wq_polygon := u, wq_isPolygon := (wq_isPolygon q \<or> (case r of Inr _ \<Rightarrow> True | _ \<Rightarrow> False))\<rparr>, r)))"

text \<open>Every exception the readers throw is a \<open>logic_error\<close>; it is thrown again with the key.\<close>

definition bad_argument :: "string \<Rightarrow> exn \<Rightarrow> exn" where
  "bad_argument key e = (case e of Logic_error m \<Rightarrow> Logic_error (''Invalid value for <'' @ key @ ''>. '' @ m) | _ \<Rightarrow> e)"

text \<open>The loop over the keys of the query, with their values.\<close>

fun decode_keys :: "'f wenv \<Rightarrow> (string \<times> string) list \<Rightarrow> 'f wci_query \<Rightarrow> 'f wci_query \<times> unit result" where
  "decode_keys w [] q = (q, Inr ())"
| "decode_keys w ((key, val) # kvs) q =
     (if key = [] then decode_keys w kvs q
      else if key \<notin> set known_keys then (q, Inl (Logic_error (''Unknown key: '' @ key @ ''.'')))
      else if val = [] then decode_keys w kvs q
      else (case decode_key w key val q of
              (q1, Inr _) \<Rightarrow> decode_keys w kvs q1
            | (q1, Inl e) \<Rightarrow> (q1, Inl (bad_argument key e))))"

definition endl :: string where
  "endl = [LF]"

definition interpolation_text :: "string \<Rightarrow> string" where
  "interpolation_text sel =
     (let s = (if sel = ''NULL'' then [] else trimstr_gen TRIMBOTH [CHR 0x27] sel)
      in if s = [] then ''NEAREST'' else s)"

definition wciReadQuery :: "'f wenv \<Rightarrow> 'f wci_query \<Rightarrow> string result" where
  "wciReadQuery w q =
     (if \<not> wq_isPolygon q \<and> (\<not> uf_valid (wq_latitude q) \<or> \<not> uf_valid (wq_longitude q))
      then Inl (Logic_error (''Missing '' @ quote ''lat'' @ '' or '' @ quote ''lon/long'' @ ''.''))
      else Inr (
        ''SELECT '' @ returnColoumns q @ '' FROM wci.read('' @ endl
        @ ''   '' @ us_select (wq_dataprovider q) @ '', '' @ endl
        @ ''   '' @ quote (if wq_isPolygon q then upol_select (wq_polygon q)
                         else interpolation_text (us_select (wq_pointInterpolation q)) @ '' POINT(''
                              @ wq_fmt w (uf_value (wq_longitude q)) @ '' '' @ wq_fmt w (uf_value (wq_latitude q)) @ '')'') @ '', '' @ endl
        @ ''   '' @ ut_select (wq_reftime q) @ '', '' @ endl
        @ ''   '' @ ut_select (wq_validtime q) @ '', '' @ endl
        @ ''   '' @ up_select (wq_parameter q) @ '', '' @ endl
        @ ''   '' @ ul_select (wq_levelspec q) @ '', '' @ endl
        @ ''   '' @ ui_select (wq_dataversion q) @ '', '' @ endl
        @ ''   NULL::wci.returnfloat )'' @ endl))"

text \<open>\<open>urlQuery.decode\<close> is called on a fresh \<open>UrlQuery\<close>, without a path.\<close>

definition wci_decode :: "'f wenv \<Rightarrow> 'f wci_query \<Rightarrow> string \<Rightarrow> 'f wci_query \<times> string result" where
  "wci_decode w q query =
     (let q1 = wci_clean w q
      in case decode url_query_init query False of
           (uq, Inl e) \<Rightarrow> (q1, Inl (if e = Undefined_behaviour then e else Logic_error (exn_text e)))
         | (uq, Inr _) \<Rightarrow>
             (case decode_keys w (map (\<lambda>k. (k, asString_def_val uq k [])) (keys uq)) q1 of
                (q2, Inl e) \<Rightarrow> (q2, Inl e)
              | (q2, Inr _) \<Rightarrow> (q2, wciReadQuery w q2)))"

section \<open>What a query depends on\<close>

text \<open>What \<open>clean\<close> makes of an object, apart from the flag that it does not touch.\<close>

definition core_query :: "'f wenv \<Rightarrow> 'f wci_query \<Rightarrow> 'f wci_query" where
  "core_query w q = (wci_clean w q)\<lparr>wq_isPolygon := False\<rparr>"

lemma format_clean_decode [simp]: "format_clean (format_decode u s) = format_clean u"
  by (simp add: format_decode_def)

lemma core_decode_key: "core_query w (fst (decode_key w k v q)) = core_query w q"
  by (simp add: core_query_def decode_key_def wci_clean_def case_prod_unfold Let_def)

lemma core_decode_keys: "core_query w (fst (decode_keys w kvs q)) = core_query w q"
proof (induction kvs arbitrary: q)
  case (Cons kv kvs)
  obtain k v where kv: "kv = (k, v)" by (cases kv)
  obtain q1 r where q1: "decode_key w k v q = (q1, r)" by (cases "decode_key w k v q")
  with core_decode_key [of w k v q] have "core_query w q1 = core_query w q" by simp
  with Cons q1 kv show ?case by (simp split: sum.split)
qed simp

lemma clean_clean: "wci_clean w (wci_clean w q) = wci_clean w q"
  by (simp add: wci_clean_def)

lemma core_wci_decode: "core_query w (fst (wci_decode w q s)) = core_query w q"
proof -
  have "core_query w (wci_clean w q) = core_query w q" by (simp add: core_query_def clean_clean)
  moreover have "core_query w q2 = core_query w q1" if "decode_keys w kvs q1 = (q2, r)" for kvs q1 q2 r
    using core_decode_keys [of w kvs q1] that by simp
  ultimately show ?thesis
    by (auto simp: wci_decode_def Let_def split: prod.split sum.split)
qed

lemma clean_from_core: "wci_clean w q = (core_query w q)\<lparr>wq_isPolygon := wq_isPolygon q\<rparr>"
  by (simp add: core_query_def wci_clean_def)

lemma wci_decode_core:
  "core_query w q = core_query w q' \<Longrightarrow> wq_isPolygon q = wq_isPolygon q' \<Longrightarrow> wci_decode w q s = wci_decode w q' s"
  by (simp add: wci_decode_def clean_from_core)

definition after_queries :: "'f wenv \<Rightarrow> string list \<Rightarrow> 'f wci_query \<Rightarrow> 'f wci_query" where
  "after_queries w ss q = foldl (\<lambda>q s. fst (wci_decode w q s)) q ss"

lemma core_after: "core_query w (after_queries w ss q) = core_query w q"
  by (induction ss arbitrary: q) (simp_all add: after_queries_def core_wci_decode)

text \<open>
  What a \<open>WciWebQuery\<close> makes of a text does not depend on the texts it has read before, whether
  they were accepted or not, except for one thing: whether it has ever read a polygon.
\<close>

theorem wci_decode_history:
  "wci_decode w (after_queries w ss q) s = wci_decode w (q\<lparr>wq_isPolygon := wq_isPolygon (after_queries w ss q)\<rparr>) s"
proof (rule wci_decode_core)
  have "core_query w (q\<lparr>wq_isPolygon := b\<rparr>) = core_query w q" for b by (simp add: core_query_def wci_clean_def)
  then show "core_query w (after_queries w ss q) = core_query w (q\<lparr>wq_isPolygon := wq_isPolygon (after_queries w ss q)\<rparr>)"
    by (simp add: core_after)
qed simp

lemma provider_query: "decode url_query_init ''dataprovider=met'' False = (url_query_init\<lparr>params := [(''dataprovider'', ''met'')]\<rparr>, Inr ())"
  by code_simp

text \<open>
  That one thing is wrong: an object that has read a polygon accepts a query without any position
  and makes a call with an empty polygon of it; a new object reports that the position is missing.
\<close>

theorem polygon_remembered:
  "snd (wci_decode w ((wci_new p cols junk up)\<lparr>wq_isPolygon := b\<rparr>) ''dataprovider=met'') =
    (if b then Inr (''SELECT '' @ cols @ '' FROM wci.read('' @ endl @ ''   ARRAY[ '' @ quote ''met'' @ '' ], '' @ endl
        @ ''   '' @ quote [] @ '', '' @ endl @ ''   NULL, '' @ endl @ ''   NULL, '' @ endl @ ''   NULL, '' @ endl
        @ ''   NULL, '' @ endl @ ''   array[-1], '' @ endl @ ''   NULL::wci.returnfloat )'' @ endl)
     else Inl (Logic_error (''Missing '' @ quote ''lat'' @ '' or '' @ quote ''lon/long'' @ ''.'')))"
proof -
  have met: "clean_values ''met'' = [''met'']" by code_simp
  have one: "integer_clean (integer_new True (-1)) = integer_new True (-1)" "ui_select (integer_new True (-1)) = ''array[-1]''"
    by code_simp+
  let ?q = "(wci_new p cols junk up)\<lparr>wq_isPolygon := b\<rparr>"
  let ?q1 = "(wci_clean w ?q)\<lparr>wq_dataprovider := string_decode (string_clean (string_new [] True)) ''met''\<rparr>"
  have "decode_keys w [(''dataprovider'', ''met'')] (wci_clean w ?q) = (?q1, Inr ())"
    by (simp add: known_keys_def decode_key_def wci_clean_def wci_new_def)
  then have "wci_decode w ?q ''dataprovider=met'' = (?q1, wciReadQuery w ?q1)"
    by (simp add: wci_decode_def provider_query keys_def asString_def_val_def Let_def del: decode_keys.simps)
  moreover have arr: "us_array (string_clean (string_new [] True))" by (simp add: string_new_def string_clean_def)
  ultimately show ?thesis
    by (simp add: wciReadQuery_def string_decode_array met select_text_def wci_new_def wci_clean_def one float_clean_def float_new_def
        time_clean_def parameter_clean_def level_clean_def polygon_clean_def polygon_new_def)
qed

section \<open>What becomes of the parameters\<close>

text \<open>A part of the object that only one key writes, by a function of the value.\<close>

lemma keys_component:
  assumes other: "\<And>key v q. key \<in> set known_keys \<Longrightarrow> key \<noteq> k \<Longrightarrow> g (fst (decode_key w key v q)) = g q"
    and own: "\<And>v q. g (fst (decode_key w k v q)) = h v (g q)"
    and run: "distinct (map fst kvs)" "decode_keys w kvs q = (q', Inr ())" "k \<noteq> []"
  shows "g q' = (case map_of kvs k of None \<Rightarrow> g q | Some v \<Rightarrow> if v = [] then g q else h v (g q))"
  using run(1,2)
proof (induction kvs arbitrary: q)
  case (Cons kv kvs)
  obtain key v where kv: "kv = (key, v)" by (cases kv)
  show ?case
  proof (cases "key = [] \<or> v = []")
    case True
    with Cons.prems kv have run: "decode_keys w kvs q = (q', Inr ())" by (auto split: if_splits)
    have "map_of kvs key = None" using Cons.prems(1) kv by (simp add: map_of_eq_None_iff)
    with Cons.IH [OF _ run] Cons.prems(1) kv True assms(5) show ?thesis by auto
  next
    case False
    with Cons.prems kv obtain q1 where q1: "decode_key w key v q = (q1, Inr ())" "decode_keys w kvs q1 = (q', Inr ())"
        "key \<in> set known_keys"
      by (auto split: if_splits prod.splits sum.splits)
    note IH = Cons.IH [OF _ q1(2)]
    show ?thesis
    proof (cases "key = k")
      case True
      then have "map_of kvs k = None" using Cons.prems(1) kv by (simp add: map_of_eq_None_iff)
      with IH Cons.prems(1) kv True False own [of v q] q1(1) show ?thesis by simp
    next
      case False
      have "g q1 = g q" using other [OF q1(3) False, of v q] q1(1) by simp
      with IH Cons.prems(1) kv False show ?thesis by (simp split: option.split)
    qed
  qed
qed simp

lemma keys_known:
  "decode_keys w kvs q = (q', Inr ()) \<Longrightarrow> kv \<in> set kvs \<Longrightarrow> fst kv = [] \<or> fst kv \<in> set known_keys"
proof (induction kvs arbitrary: q)
  case (Cons x kvs)
  then show ?case by (cases x) (fastforce split: if_splits prod.splits sum.splits)
qed simp

lemma decode_params_om_wf: "om_wf m \<Longrightarrow> om_wf (fst (decode_params ps m))"
  by (induction ps arbitrary: m) (auto split: sum.split option.split)

lemma map_of_keyed: "map_of (map (\<lambda>k. (k, f k)) ks) k = (if k \<in> set ks then Some (f k) else None)"
  by (induction ks) auto

lemma decode_keys_distinct:
  assumes "decode url_query_init s False = (uq, r)"
  shows "distinct (keys uq)"
proof -
  have "om_wf (params (fst (decode uq0 s False)))" if "om_wf (params uq0)" for uq0
    using that by (simp add: decode_def decode_query_def Let_def case_prod_unfold decode_params_om_wf del: decode_params.simps split: option.split)
  from this [of url_query_init] have "om_wf (params uq)" using assms by (simp add: url_query_init_def)
  then show ?thesis by (simp add: keys_def om_wf_def strict_sorted_iff)
qed

definition read_arg :: "(string \<Rightarrow> 'a \<Rightarrow> 'a) \<Rightarrow> string \<Rightarrow> 'a \<Rightarrow> 'a" where
  "read_arg f v u = (if v = [] then u else f v u)"

lemma wci_decode_component:
  assumes "wci_decode w q s = (q', Inr sql)" "decode url_query_init s False = (uq, Inr ())" "k \<noteq> []"
    and "\<And>key v q. key \<in> set known_keys \<Longrightarrow> key \<noteq> k \<Longrightarrow> g (fst (decode_key w key v q)) = g q"
    and "\<And>v q. g (fst (decode_key w k v q)) = h v (g q)"
  shows "g q' = read_arg h (asString_def_val uq k []) (g (wci_clean w q))"
proof -
  let ?kvs = "map (\<lambda>k. (k, asString_def_val uq k [])) (keys uq)"
  have run: "decode_keys w ?kvs (wci_clean w q) = (q', Inr ())"
    using assms(1,2) by (auto simp: wci_decode_def Let_def split: prod.splits sum.splits)
  have d: "distinct (map fst ?kvs)" using decode_keys_distinct [OF assms(2)] by (simp add: comp_def)
  have m: "map_of ?kvs k = (if k \<in> set (keys uq) then Some (asString_def_val uq k []) else None)"
    by (rule map_of_keyed)
  have "k \<notin> set (keys uq) \<Longrightarrow> asString_def_val uq k [] = []"
    by (simp add: asString_def_val_def keys_def map_of_eq_None_iff [symmetric] split: option.split)
  with keys_component [OF assms(4,5) d run assms(3)] m show ?thesis by (auto simp: read_arg_def)
qed


lemma sample_url: "decode url_query_init ''dataprovider=met;polygon=1 6, 2 6'' False =
    (url_query_init\<lparr>params := [(''dataprovider'', ''met''), (''polygon'', ''1 6, 2 6'')], seperator := 59\<rparr>, Inr ())"
  by code_simp

lemma sample_wci:
  "case snd (wci_decode sample_wenv (wci_new 1 [] 0 False) ''dataprovider=met;polygon=1 6, 2 6'') of Inr _ \<Rightarrow> True | _ \<Rightarrow> False"
  by code_simp


end
