(* ===== verification/QueryHelper.thy ===== *)
theory QueryHelper
  imports WciQuery Providers RequestConf DataRequest
begin

text \<open>
  \<open>src/src/mod_wdb2ts/WdbQueryHelper.cpp\<close>: the iterator that makes the SQL texts of a request from the
  queries of its definition, with one text for each provider of a query whose reference time is looked
  up, and \<open>WdbDataRequest.cpp\<close>'s \<open>populateThreadInfos\<close>, which runs it to its end. \<open>pless\<close> is \<open>boost\<close>'s
  \<open><\<close> on times; \<^const>\<open>None\<close> is the undefined time. Iterators are positions, the length stands for \<open>end()\<close>.
\<close>

section \<open>The object\<close>

record 'f query_helper =
  urlQuerys :: "query_element list"
  hp_next :: nat
  position :: string
  hp_reftimes :: reftimes
  hp_priority :: "provider_item list"
  hp_cur :: nat
  curProviderPriority :: "provider_item list"
  hp_first :: bool
  dataProviders :: string
  reftimeProvider :: string
  webQuery :: "'f wci_query"
  queryMustHaveData :: bool
  stopIfQueryHasData :: bool
  prognosisLengthSeconds :: int
  refTimeFrom_IsEqualTo_ReftTimeTo :: bool
  hp_isPolygon :: bool
  validTime :: string
  hp_wdbid :: string

definition getReturnColoumns :: "int \<Rightarrow> string" where
  "getReturnColoumns wciProtocol =
     (if wciProtocol < 3
      then ''value, dataprovidername, placename, referencetime, validfrom, validto, valueparametername, valueparameterunit, levelparametername, levelunitname, levelfrom, levelto, dataversion, ST_AsText(placegeometry) as point''
      else ''value, dataprovidername, placename, referencetime, validtimefrom, validtimeto, valueparametername, valueparameterunit, levelparametername, levelunitname, levelfrom, levelto, dataversion, ST_AsText(placegeometry) as point'')"

text \<open>\<open>junk\<close>, \<open>up\<close> and \<open>eq\<close> are what the uninitialised members hold; \<open>init\<close> sets the other ones.\<close>

definition helper_new :: "query_element list \<Rightarrow> int \<Rightarrow> 'f \<Rightarrow> bool \<Rightarrow> bool \<Rightarrow> 'f query_helper" where
  "helper_new qs protocol junk up eq =
     \<lparr>urlQuerys = qs, hp_next = length qs, position = [], hp_reftimes = [], hp_priority = [], hp_cur = 0,
      curProviderPriority = [], hp_first = True, dataProviders = [], reftimeProvider = [],
      webQuery = wci_new protocol (getReturnColoumns protocol) junk up, queryMustHaveData = False, stopIfQueryHasData = False,
      prognosisLengthSeconds = 0, refTimeFrom_IsEqualTo_ReftTimeTo = eq, hp_isPolygon = False, validTime = [], hp_wdbid = []\<rparr>"

section \<open>Reference times\<close>

text \<open>The loop of \<open>doGetProviderReftime\<close> on the two times.\<close>

definition widen :: "(ptime \<Rightarrow> ptime \<Rightarrow> bool) \<Rightarrow> ptime \<Rightarrow> ptime \<times> ptime \<Rightarrow> ptime \<times> ptime" where
  "widen pless t ft =
     (case ft of (f, to) \<Rightarrow>
        if f = None then (t, t) else if pless to t then (f, t) else if pless t f then (t, to) else (f, to))"

fun reftime_loop :: "(ptime \<Rightarrow> ptime \<Rightarrow> bool) \<Rightarrow> provider_item \<Rightarrow> reftimes \<Rightarrow> ptime \<times> ptime \<Rightarrow> ptime \<times> ptime" where
  "reftime_loop pless pin [] ft = ft"
| "reftime_loop pless pin ((k, t) # l) ft =
     (if disabled t then reftime_loop pless pin l ft
      else if item_matches pin k
      then (if placename pin \<noteq> [] then widen pless (refTime t) ft
            else reftime_loop pless pin l (widen pless (refTime t) ft))
      else reftime_loop pless pin l ft)"

definition doGetProviderReftime :: "(ptime \<Rightarrow> ptime \<Rightarrow> bool) \<Rightarrow> reftimes \<Rightarrow> string \<Rightarrow> ptime \<times> ptime \<Rightarrow> ptime \<times> ptime" where
  "doGetProviderReftime pless l p ft = reftime_loop pless (decodeItem p) l ft"

text \<open>The flag only changes when a time is found. The second one is for a list of providers.\<close>

definition found_reftime :: "'f query_helper \<Rightarrow> ptime \<times> ptime \<Rightarrow> 'f query_helper \<times> (ptime \<times> ptime) option" where
  "found_reftime h ft =
     (if fst ft = None then (h, None) else (h\<lparr>refTimeFrom_IsEqualTo_ReftTimeTo := (snd ft = fst ft)\<rparr>, Some ft))"

definition getProviderReftime ::
    "(ptime \<Rightarrow> ptime \<Rightarrow> bool) \<Rightarrow> 'f query_helper \<Rightarrow> string \<Rightarrow> 'f query_helper \<times> (ptime \<times> ptime) option" where
  "getProviderReftime pless h p = found_reftime h (doGetProviderReftime pless (hp_reftimes h) p (None, None))"

definition getProviderReftime_list ::
    "(ptime \<Rightarrow> ptime \<Rightarrow> bool) \<Rightarrow> 'f query_helper \<Rightarrow> string list \<Rightarrow> 'f query_helper \<times> (ptime \<times> ptime) option" where
  "getProviderReftime_list pless h ps = found_reftime h (fold (doGetProviderReftime pless (hp_reftimes h)) ps (None, None))"

text \<open>The data versions of the providers, ordered and without repetitions, also of disabled ones.\<close>

fun provider_versions :: "provider_item \<Rightarrow> reftimes \<Rightarrow> int list" where
  "provider_versions pin [] = []"
| "provider_versions pin ((k, t) # l) =
     (if item_matches pin k
      then dataversion t # (if placename pin \<noteq> [] then [] else provider_versions pin l)
      else provider_versions pin l)"

definition getDataversionString :: "reftimes \<Rightarrow> string list \<Rightarrow> string" where
  "getDataversionString l ps =
     (case sorted_list_of_set (set (concat (map (\<lambda>p. provider_versions (decodeItem p) l) ps))) of
        [] \<Rightarrow> ''-1''
      | v # vs \<Rightarrow> dec_int v @ comma_ints vs)"

section \<open>Starting\<close>

definition coordinate :: "'f wenv \<Rightarrow> int \<Rightarrow> string result" where
  "coordinate w v =
     (if v = int_min then Inl (Logic_error ''The locationpoint is not initialized.'') else Inr (wq_fix w 4 (wq_deg w v)))"

definition lonlat :: "'f wenv \<Rightarrow> point \<Rightarrow> string result" where
  "lonlat w p = bind_result (coordinate w (longitude p)) (\<lambda>a. bind_result (coordinate w (latitude p)) (\<lambda>b. Inr (a @ '' '' @ b)))"

fun lonlats :: "'f wenv \<Rightarrow> point list \<Rightarrow> string result" where
  "lonlats w [] = Inr []"
| "lonlats w (p # ps) = bind_result (lonlat w p) (\<lambda>a. bind_result (lonlats w ps) (\<lambda>b. Inr ('','' @ a @ b)))"

definition location_text :: "'f wenv \<Rightarrow> point list \<Rightarrow> bool \<Rightarrow> string result" where
  "location_text w pts poly =
     (case pts of
        [] \<Rightarrow> Inl (Logic_error ''No location is given in the request.'')
      | p # ps \<Rightarrow>
          if \<not> poly
          then bind_result (coordinate w (latitude p)) (\<lambda>a. bind_result (coordinate w (longitude p)) (\<lambda>b.
                 Inr (''lat='' @ a @ '';lon='' @ b @ '';'')))
          else bind_result (lonlat w p) (\<lambda>a. bind_result (lonlats w ps) (\<lambda>b. Inr (''polygon='' @ a @ b @ '';''))))"

definition extra_text :: "string \<Rightarrow> string" where
  "extra_text ex =
     (if ex = [] then []
      else (if hd ex = CHR '';'' then tl ex else ex) @ (if last ex = CHR '';'' then [] else '';''))"

text \<open>The valid time of an earlier call stays when there is none in this one.\<close>

definition helper_init ::
    "'f wenv \<Rightarrow> point list \<Rightarrow> ptime \<Rightarrow> bool \<Rightarrow> reftimes \<Rightarrow> provider_item list \<Rightarrow> string \<Rightarrow> 'f query_helper
     \<Rightarrow> 'f query_helper \<times> unit result" where
  "helper_init w pts toT poly refs prio extra h =
     (let h1 = h\<lparr>hp_isPolygon := poly, hp_first := True\<rparr>
      in if pts = [] then (h1, Inl (Logic_error ''No location is given in the request.''))
         else (let h2 = h1\<lparr>hp_reftimes := refs, hp_priority := prio, hp_cur := length (curProviderPriority h1)\<rparr>
               in case location_text w pts poly of
                    Inl e \<Rightarrow> (h2, Inl e)
                  | Inr loc \<Rightarrow>
                      (h2\<lparr>validTime := (case toT of
                             None \<Rightarrow> validTime h2
                           | Some t \<Rightarrow> ''epoch,'' @ isotimeString (wq_cal w) (Some (At t)) True True @ '',inside''),
                          position := loc @ extra_text extra\<rparr>, Inr ())))"

section \<open>Stepping\<close>

text \<open>The first provider at or after a position that has a reference time.\<close>

function seek :: "(ptime \<Rightarrow> ptime \<Rightarrow> bool) \<Rightarrow> 'f query_helper \<Rightarrow> bool \<Rightarrow> nat \<Rightarrow> 'f query_helper \<times> (ptime \<times> ptime) option" where
  "seek pless h useRp i =
     (if i \<ge> length (curProviderPriority h) then (h\<lparr>hp_cur := i\<rparr>, None)
      else (case getProviderReftime pless h
                   (if useRp \<and> reftimeProvider h \<noteq> [] then reftimeProvider h else provider (curProviderPriority h ! i)) of
              (h1, Some ft) \<Rightarrow> (h1\<lparr>hp_cur := i\<rparr>, Some ft)
            | (h1, None) \<Rightarrow> seek pless h useRp (i + 1)))"
  by pat_completeness auto

termination
  by (relation "measure (\<lambda>(_, h, _, i). length (curProviderPriority h) - i)") auto

text \<open>
  The parameters that the iterator sets in the decoded query: the reference time of one or more
  providers, the data version and the valid time. \<open>change_query\<close> runs a reader on a part of the query.
\<close>

definition iso_pair :: "'f wenv \<Rightarrow> ptime \<times> ptime \<Rightarrow> string" where
  "iso_pair w ft = isotimeString (wq_cal w) (map_option At (fst ft)) True True @ '',''
     @ isotimeString (wq_cal w) (map_option At (snd ft)) True True"

definition set_reftime :: "'f wenv \<Rightarrow> ptime \<times> ptime \<Rightarrow> 'f wci_query \<Rightarrow> 'f wci_query \<times> unit result" where
  "set_reftime w ft q = (let (u, r) = time_decode w (wq_reftime q) (iso_pair w ft) in (q\<lparr>wq_reftime := u\<rparr>, r))"

definition set_dataversion :: "'f wenv \<Rightarrow> reftimes \<Rightarrow> 'f wci_query \<Rightarrow> 'f wci_query \<times> unit result" where
  "set_dataversion w refs q =
     (let (u, r) = integer_decode (wq_dataversion q) (getDataversionString refs (us_values (wq_dataprovider q)))
      in (q\<lparr>wq_dataversion := u\<rparr>, r))"

definition set_validtime :: "'f wenv \<Rightarrow> string \<Rightarrow> 'f wci_query \<Rightarrow> 'f wci_query \<times> unit result" where
  "set_validtime w v q =
     (if v \<noteq> [] \<and> \<not> isDecoded (wq_validtime q)
      then (let (u, r) = time_decode w (wq_validtime q) v in (q\<lparr>wq_validtime := u\<rparr>, r))
      else (q, Inr ()))"

definition and_then :: "'q \<times> unit result \<Rightarrow> ('q \<Rightarrow> 'q \<times> unit result) \<Rightarrow> 'q \<times> unit result" where
  "and_then x f = (case x of (q, Inr _) \<Rightarrow> f q | (q, Inl e) \<Rightarrow> (q, Inl e))"

text \<open>The rest of a query for one provider, and of one with a reference time of its own.\<close>

definition ask_provider :: "'f wenv \<Rightarrow> reftimes \<Rightarrow> string \<Rightarrow> string \<Rightarrow> ptime \<times> ptime \<Rightarrow> 'f wci_query \<Rightarrow> 'f wci_query \<times> unit result" where
  "ask_provider w refs vt p ft q =
     and_then (and_then (set_reftime w ft (q\<lparr>wq_dataprovider := string_decode (wq_dataprovider q) p\<rparr>))
       (set_dataversion w refs)) (set_validtime w vt)"

definition ask_explicit :: "'f wenv \<Rightarrow> reftimes \<Rightarrow> string \<Rightarrow> (ptime \<times> ptime) option \<Rightarrow> 'f wci_query \<Rightarrow> 'f wci_query \<times> unit result" where
  "ask_explicit w refs vt ft q =
     and_then (and_then (case ft of None \<Rightarrow> (q, Inr ()) | Some t \<Rightarrow> set_reftime w t q) (set_dataversion w refs)) (set_validtime w vt)"

definition finish :: "'f query_helper \<Rightarrow> 'f wci_query \<times> unit result \<Rightarrow> 'f query_helper \<times> bool option result" where
  "finish h qr = (h\<lparr>webQuery := fst qr\<rparr>, map_sum id (\<lambda>_. Some True) (snd qr))"

text \<open>The providers of the query's own list that are not disabled.\<close>

definition enabled_values :: "reftimes \<Rightarrow> string list \<Rightarrow> provider_item list" where
  "enabled_values refs vs = map (\<lambda>v. item v []) (filter (\<lambda>v. reftime_disabled refs v \<noteq> Some True) vs)"

definition missing_provider :: exn where
  "missing_provider = Logic_error ''EXCEPTION: missing provider in the query.''"

definition looked_up :: "'f wenv \<Rightarrow> (ptime \<Rightarrow> ptime \<Rightarrow> bool) \<Rightarrow> 'f query_helper \<Rightarrow> 'f query_helper \<times> bool option result" where
  "looked_up w pless h =
     (let vs = us_values (wq_dataprovider (webQuery h))
      in if vs = [] \<and> hp_priority h = [] then (h, Inl missing_provider)
         else (let cur = (if vs = [] then hp_priority h else enabled_values (hp_reftimes h) vs)
               in case seek pless (h\<lparr>curProviderPriority := cur\<rparr>) False 0 of
                    (h1, None) \<Rightarrow> (h1, Inr None)
                  | (h1, Some ft) \<Rightarrow>
                      finish h1 (ask_provider w (hp_reftimes h1) (validTime h1) (provider (cur ! hp_cur h1)) ft (webQuery h1))))"

definition explicit :: "'f wenv \<Rightarrow> (ptime \<Rightarrow> ptime \<Rightarrow> bool) \<Rightarrow> 'f query_helper \<Rightarrow> 'f query_helper \<times> bool option result" where
  "explicit w pless h =
     (let q = webQuery h; vs = us_values (wq_dataprovider q);
          ps = (if vs = [] then hp_priority h else enabled_values (hp_reftimes h) vs)
      in if vs = [] \<and> hp_priority h = [] then (h, Inl missing_provider)
         else if ps = [] then (h, Inr None)
         else (let q1 = q\<lparr>wq_dataprovider := setValueList (wq_dataprovider q) (providerWithoutPlacename ps)\<rparr>;
                   (same, rp) = sameTimespecAs (wq_reftime q1);
                   h1 = h\<lparr>webQuery := q1, reftimeProvider := rp\<rparr>
               in if same
                  then (case getProviderReftime pless h1 rp of
                          (h2, None) \<Rightarrow> (h2, Inr None)
                        | (h2, ft) \<Rightarrow> finish h2 (ask_explicit w (hp_reftimes h2) (validTime h2) ft q1))
                  else if useProviderList (wq_reftime q1)
                  then (case getProviderReftime_list pless h1 (us_values (wq_dataprovider q1)) of
                          (h2, None) \<Rightarrow> (h2, Inr None)
                        | (h2, ft) \<Rightarrow> finish h2 (ask_explicit w (hp_reftimes h2) (validTime h2) ft q1))
                  else finish h1 (ask_explicit w (hp_reftimes h1) (validTime h1) None q1)))"

text \<open>
  The body of the loop over the queries: an exception, \<open>continue\<close> (\<^const>\<open>None\<close>) or \<open>return true\<close>. The
  test for a time the query gives itself takes infinite times for none.
\<close>

definition try_query :: "'f wenv \<Rightarrow> (ptime \<Rightarrow> ptime \<Rightarrow> bool) \<Rightarrow> query_element \<Rightarrow> 'f query_helper \<Rightarrow> 'f query_helper \<times> bool option result" where
  "try_query w pless qe h =
     (let h1 = h\<lparr>reftimeProvider := [], queryMustHaveData := qe_probe qe, stopIfQueryHasData := qe_stopIfData qe,
                 prognosisLengthSeconds := qe_prognosisLength qe, hp_wdbid := qe_wdbdb qe\<rparr>
      in case wci_decode w (webQuery h1) (position h1 @ qe_query qe) of
           (q, Inl e) \<Rightarrow> (h1\<lparr>webQuery := q\<rparr>, Inl e)
         | (q, Inr _) \<Rightarrow>
             (let h2 = h1\<lparr>webQuery := q, curProviderPriority := [], hp_cur := 0\<rparr>
              in if time_special (fromTime (wq_reftime q)) \<and> \<not> isDecoded (wq_reftime q)
                 then looked_up w pless h2 else explicit w pless h2))"

text \<open>The loop over the queries from a position on.\<close>

fun query_loop ::
    "'f wenv \<Rightarrow> (ptime \<Rightarrow> ptime \<Rightarrow> bool) \<Rightarrow> query_element list \<Rightarrow> nat \<Rightarrow> 'f query_helper \<Rightarrow> 'f query_helper \<times> bool result" where
  "query_loop w pless [] i h = (h\<lparr>hp_next := i\<rparr>, Inr False)"
| "query_loop w pless (qe # qes) i h =
     (case try_query w pless qe (h\<lparr>hp_next := i\<rparr>) of
        (h1, Inl e) \<Rightarrow> (h1, Inl e)
      | (h1, Inr (Some b)) \<Rightarrow> (h1, Inr b)
      | (h1, Inr None) \<Rightarrow> query_loop w pless qes (i + 1) h1)"

definition next_queries :: "'f wenv \<Rightarrow> (ptime \<Rightarrow> ptime \<Rightarrow> bool) \<Rightarrow> 'f query_helper \<Rightarrow> 'f query_helper \<times> bool result" where
  "next_queries w pless h =
     (let i = hp_next h
      in if hp_first h
         then (if urlQuerys h = [] then (h, Inr False)
               else query_loop w pless (urlQuerys h) 0 (h\<lparr>hp_first := False\<rparr>))
         else if i \<ge> length (urlQuerys h) then (h, Inr False)
         else query_loop w pless (drop (i + 1) (urlQuerys h)) (i + 1) h)"

definition hasNext :: "'f wenv \<Rightarrow> (ptime \<Rightarrow> ptime \<Rightarrow> bool) \<Rightarrow> 'f query_helper \<Rightarrow> 'f query_helper \<times> bool result" where
  "hasNext w pless h0 =
     (let h = h0\<lparr>dataProviders := [], hp_next := (if hp_first h0 then 0 else hp_next h0)\<rparr>
      in if hp_cur h \<ge> length (curProviderPriority h) then next_queries w pless h
         else (case seek pless h True (hp_cur h + 1) of
                 (h1, None) \<Rightarrow> next_queries w pless h1
               | (h1, Some ft) \<Rightarrow>
                   (let (q, r) = ask_provider w (hp_reftimes h1) (validTime h1) (provider (curProviderPriority h1 ! hp_cur h1)) ft (webQuery h1)
                    in (h1\<lparr>webQuery := q\<rparr>, map_sum id (\<lambda>_. True) r))))"

definition next_text :: "'f wenv \<Rightarrow> 'f wci_query \<Rightarrow> bool \<Rightarrow> string result" where
  "next_text w q eq = bind_result (wciReadQuery w q) (\<lambda>s. Inr (if eq then s else s @ '' ORDER BY referencetime''))"

definition helper_next :: "'f wenv \<Rightarrow> 'f query_helper \<Rightarrow> (string \<times> bool \<times> bool \<times> int) result" where
  "helper_next w h = bind_result (next_text w (webQuery h) (refTimeFrom_IsEqualTo_ReftTimeTo h)) (\<lambda>s.
     Inr (s, queryMustHaveData h, stopIfQueryHasData h, prognosisLengthSeconds h))"

text \<open>\<open>dataprovider\<close>: the providers of the query, kept until the next \<open>hasNext\<close>.\<close>

definition helper_dataprovider :: "'f query_helper \<Rightarrow> 'f query_helper \<times> string" where
  "helper_dataprovider h =
     (if dataProviders h \<noteq> [] then (h, dataProviders h)
      else let s = join (CHR '','') (us_values (wq_dataprovider (webQuery h))) in (h\<lparr>dataProviders := s\<rparr>, s))"

declare seek.simps [simp del]

text \<open>
  \<open>getProviderWithPrognosisLength\<close>: the longest prognosis for each provider; a map ordered by the
  providers' texts, with the first provider of each. Its cache is never filled. Only a \<open>logic_error\<close> is
  caught.
\<close>

type_synonym lengths = "(string, provider_item \<times> int) omap"

definition setMaxPrognosisLength :: "provider_item \<Rightarrow> int \<Rightarrow> lengths \<Rightarrow> lengths" where
  "setMaxPrognosisLength it n m =
     (let k = providerWithPlacename it
      in case map_of m k of
           None \<Rightarrow> om_put k (it, n) m
         | Some (i, v) \<Rightarrow> om_put k (i, if v < n then n else v) m)"

definition provider_lengths :: "provider_item list \<Rightarrow> int \<Rightarrow> string list \<Rightarrow> lengths \<Rightarrow> lengths" where
  "provider_lengths prio n vs m =
     fold (\<lambda>v. fold (\<lambda>it. if provider it = v then setMaxPrognosisLength it n else (\<lambda>x. x)) prio) vs m"

definition is_logic_error :: "exn \<Rightarrow> bool" where
  "is_logic_error e = (case e of Logic_error _ \<Rightarrow> True | _ \<Rightarrow> False)"

fun length_loop :: "'f wenv \<Rightarrow> provider_item list \<Rightarrow> query_element list \<Rightarrow> 'f wci_query \<Rightarrow> lengths \<Rightarrow> 'f wci_query \<times> lengths result" where
  "length_loop w prio [] q m = (q, Inr m)"
| "length_loop w prio (qe # qes) q m =
     (let (q1, r) = wci_decode w q (qe_query qe); vs = us_values (wq_dataprovider q1);
          m1 = provider_lengths prio (qe_prognosisLength qe) vs m
      in case r of
           Inr _ \<Rightarrow> length_loop w prio qes q1 m1
         | Inl e \<Rightarrow> if \<not> is_logic_error e then (q1, Inl e)
                    else length_loop w prio qes q1 (if vs = [] then m else m1))"

definition getProviderWithPrognosisLength :: "'f wenv \<Rightarrow> 'f query_helper \<Rightarrow> 'f query_helper \<times> lengths result" where
  "getProviderWithPrognosisLength w h =
     (let (q, r) = length_loop w (hp_priority h) (urlQuerys h) (webQuery h) [] in (h\<lparr>webQuery := q\<rparr>, r))"

section \<open>All queries of a request\<close>

text \<open>
  The number of queries and of providers left. Every call of \<open>hasNext\<close> that returns true makes it smaller.
\<close>

definition helper_work :: "'f query_helper \<Rightarrow> nat \<times> nat" where
  "helper_work h = ((if hp_first h then length (urlQuerys h) + 1 else length (urlQuerys h) - hp_next h),
                  length (curProviderPriority h) - hp_cur h)"

lemma eq_flag: "\<exists>eq. h = h\<lparr>refTimeFrom_IsEqualTo_ReftTimeTo := eq\<rparr>"
  by (rule exI [of _ "refTimeFrom_IsEqualTo_ReftTimeTo h"]) simp

lemma getProviderReftime_frame:
  "getProviderReftime pless h p = (h1, r) \<Longrightarrow>
     \<exists>eq. h1 = h\<lparr>refTimeFrom_IsEqualTo_ReftTimeTo := eq\<rparr>"
  by (auto simp: getProviderReftime_def found_reftime_def eq_flag split: if_splits)

lemma getProviderReftime_list_frame:
  "getProviderReftime_list pless h ps = (h1, r) \<Longrightarrow>
     \<exists>eq. h1 = h\<lparr>refTimeFrom_IsEqualTo_ReftTimeTo := eq\<rparr>"
  by (auto simp: getProviderReftime_list_def found_reftime_def eq_flag split: if_splits)

lemma seek_frame:
  "seek pless h b i = (h1, r) \<Longrightarrow> i \<le> length (curProviderPriority h) \<Longrightarrow>
     (\<exists>eq c. h1 = h\<lparr>refTimeFrom_IsEqualTo_ReftTimeTo := eq, hp_cur := c\<rparr> \<and> i \<le> c \<and>
       (if r = None then c = length (curProviderPriority h) else c < length (curProviderPriority h)))"
proof (induction pless h b i rule: seek.induct)
  case (1 pless h b i)
  show ?case
  proof (cases "i = length (curProviderPriority h)")
    case True
    with 1(2) show ?thesis by (auto simp: seek.simps [of pless h] intro!: exI [of _ "refTimeFrom_IsEqualTo_ReftTimeTo h"])
  next
    case False
    with 1(3) have i: "i < length (curProviderPriority h)" by simp
    let ?p = "if b \<and> reftimeProvider h \<noteq> [] then reftimeProvider h else provider (curProviderPriority h ! i)"
    obtain h2 x where g: "getProviderReftime pless h ?p = (h2, x)" by fastforce
    note f = getProviderReftime_frame [OF g]
    show ?thesis
    proof (cases x)
      case None
      with 1(2) i g have s: "seek pless h b (i + 1) = (h1, r)" by (simp add: seek.simps [of pless h b i])
      from 1(1) [OF _ g [symmetric] None s] i show ?thesis by force
    next
      case (Some ft)
      with 1(2) i g have "h1 = h2\<lparr>hp_cur := i\<rparr>" "r = Some ft" by (simp_all add: seek.simps [of pless h b i])
      moreover obtain eq where "h2 = h\<lparr>refTimeFrom_IsEqualTo_ReftTimeTo := eq\<rparr>" using f by blast
      ultimately show ?thesis using i by (intro exI [of _ eq] exI [of _ i]) simp
    qed
  qed
qed

text \<open>What \<open>hasNext\<close> never changes, and the loop over the queries besides.\<close>

definition same_setup :: "'f query_helper \<Rightarrow> 'f query_helper \<Rightarrow> bool" where
  "same_setup h h' \<longleftrightarrow> urlQuerys h' = urlQuerys h \<and> position h' = position h \<and> hp_reftimes h' = hp_reftimes h
     \<and> hp_priority h' = hp_priority h \<and> validTime h' = validTime h"

definition same_place :: "'f query_helper \<Rightarrow> 'f query_helper \<Rightarrow> bool" where
  "same_place h h' \<longleftrightarrow> same_setup h h' \<and> hp_first h' = hp_first h \<and> hp_next h' = hp_next h"

lemmas same_defs = same_place_def same_setup_def

lemma same_refl [simp]: "same_place h h" "same_setup h h"
  by (simp_all add: same_defs)

lemma same_place_trans: "same_place h h1 \<Longrightarrow> same_place h1 h2 \<Longrightarrow> same_place h h2"
  by (simp add: same_defs)

lemma seek_place: "seek pless h b i = (h1, r) \<Longrightarrow> i \<le> length (curProviderPriority h) \<Longrightarrow> same_place h h1"
  by (drule (1) seek_frame) (auto simp: same_defs)

lemma finish_place: "finish h qr = (h1, r) \<Longrightarrow> same_place h h1"
  by (auto simp: finish_def same_defs)

lemma looked_up_place: "looked_up w pless h = (h1, r) \<Longrightarrow> same_place h h1"
proof -
  assume a: "looked_up w pless h = (h1, r)"
  let ?vs = "us_values (wq_dataprovider (webQuery h))"
  define cur where "cur = (if ?vs = [] then hp_priority h else enabled_values (hp_reftimes h) ?vs)"
  obtain h2 x where s: "seek pless (h\<lparr>curProviderPriority := cur\<rparr>) False 0 = (h2, x)" by fastforce
  from seek_place [OF s] have p: "same_place h h2" by (simp add: same_defs)
  show ?thesis
    using a s p by (auto simp: looked_up_def Let_def cur_def [symmetric] 
        split: if_splits option.splits dest!: finish_place intro: same_place_trans)
qed

lemma explicit_place: "explicit w pless h = (h1, r) \<Longrightarrow> same_place h h1"
proof -
  assume a: "explicit w pless h = (h1, r)"
  have f: "same_place h h3" if "same_place h h2" "finish h2 x = (h3, y)" for h2 h3 x y
    using that same_place_trans finish_place by blast
  have g: "same_place h h3" if "getProviderReftime pless h2 p = (h3, y)" "same_place h h2" for h2 h3 p y
    using getProviderReftime_frame [OF that(1)] that(2) by (auto simp: same_defs)
  have gl: "same_place h h3" if "getProviderReftime_list pless h2 p = (h3, y)" "same_place h h2" for h2 h3 p y
    using getProviderReftime_list_frame [OF that(1)] that(2) by (auto simp: same_defs)
  have q: "same_place h (h\<lparr>webQuery := q1, reftimeProvider := rp\<rparr>)" "same_place h h" for q1 rp by (simp_all add: same_defs)
  show ?thesis
    using a by (auto simp: explicit_def Let_def sameTimespecAs_def q split: if_splits option.splits prod.splits
        intro: f [OF q(1)] g [OF _ q(1)] gl [OF _ q(1)] f [OF g [OF _ q(1)]] f [OF gl [OF _ q(1)]])
qed

lemma try_query_place: "try_query w pless qe h = (h1, r) \<Longrightarrow> same_place h h1"
proof -
  assume a: "try_query w pless qe h = (h1, r)"
  obtain q x where q: "wci_decode w (webQuery h) (position h @ qe_query qe) = (q, x)" by fastforce
  show ?thesis
  proof (cases x)
    case (Inl e)
    with a q show ?thesis by (auto simp: try_query_def Let_def same_defs)
  next
    case (Inr u)
    with a q show ?thesis
      by (auto simp: try_query_def Let_def same_defs split: if_splits dest!: looked_up_place explicit_place)
  qed
qed

lemma query_loop_frame:
  "query_loop w pless qes i h = (h1, r) \<Longrightarrow>
     same_setup h h1 \<and> hp_first h1 = hp_first h \<and> i \<le> hp_next h1 \<and> (r = Inr True \<longrightarrow> hp_next h1 < i + length qes)"
proof (induction qes arbitrary: i h)
  case Nil
  then show ?case by (auto simp: same_defs)
next
  case (Cons qe qes)
  obtain h2 x where t: "try_query w pless qe (h\<lparr>hp_next := i\<rparr>) = (h2, x)" by fastforce
  from try_query_place [OF t] have p: "same_setup h h2" "hp_first h2 = hp_first h" "hp_next h2 = i" by (simp_all add: same_defs)
  show ?case
  proof (cases "x = Inr None")
    case True
    with Cons.prems t have "query_loop w pless qes (i + 1) h2 = (h1, r)" by simp
    from Cons.IH [OF this] p show ?thesis by (auto simp: same_defs)
  next
    case False
    with Cons.prems t p show ?thesis by (auto split: sum.splits option.splits)
  qed
qed

lemma next_queries_frame:
  "next_queries w pless h = (h1, r) \<Longrightarrow>
     same_setup h h1 \<and> (r = Inr True \<longrightarrow> \<not> hp_first h1 \<and> hp_next h1 < length (urlQuerys h) \<and> (hp_first h \<or> hp_next h < hp_next h1))"
  by (auto simp: next_queries_def Let_def same_defs split: if_splits dest!: query_loop_frame)

lemma hasNext_less:
  assumes "hasNext w pless h = (h1, Inr True)"
  shows "(helper_work h1, helper_work h) \<in> less_than <*lex*> less_than"
proof -
  let ?h = "h\<lparr>dataProviders := [], hp_next := (if hp_first h then 0 else hp_next h)\<rparr>"
  have Q: "(helper_work h2, helper_work h) \<in> less_than <*lex*> less_than"
    if "next_queries w pless h' = (h2, Inr True)" "same_place ?h h'" for h' h2
    using next_queries_frame [OF that(1)] that(2) by (auto simp: helper_work_def same_defs split: if_splits)
  show ?thesis
  proof (cases "hp_cur h \<ge> length (curProviderPriority h)")
    case True
    with assms Q [of ?h] show ?thesis by (simp add: hasNext_def Let_def same_defs)
  next
    case False
    obtain h2 x where s: "seek pless ?h True (hp_cur h + 1) = (h2, x)" by fastforce
    from seek_place [OF s] False have p: "same_place ?h h2" by simp
    show ?thesis
    proof (cases x)
      case None
      with assms s False Q [OF _ p, of h1] show ?thesis by (simp add: hasNext_def Let_def)
    next
      case (Some ft)
      from seek_frame [OF s] False Some have
        "hp_cur h < hp_cur h2 \<and> hp_cur h2 < length (curProviderPriority h) \<and> curProviderPriority h2 = curProviderPriority h"
        by auto
      with assms s False Some p show ?thesis by (auto simp: hasNext_def Let_def helper_work_def same_defs split: prod.splits)
    qed
  qed
qed

text \<open>A query of the request: its text, its database and what the rest of \<open>ThreadInfo\<close> is made of.\<close>

record planned =
  pl_text :: string
  pl_wdbid :: string
  pl_mustHaveData :: bool
  pl_stopIfData :: bool
  pl_minEnd :: ptime

definition plan_of :: "'f wenv \<Rightarrow> string \<Rightarrow> ptime \<Rightarrow> string \<Rightarrow> string \<times> bool \<times> bool \<times> int \<Rightarrow> planned" where
  "plan_of w wdbidDefault frm wdbid x =
     (case x of (s, must, stop, len) \<Rightarrow>
        \<lparr>pl_text = s, pl_wdbid = (if wdbid = [] then wdbidDefault else wdbid), pl_mustHaveData = must, pl_stopIfData = stop,
         pl_minEnd = (if len > 0 then map_option (\<lambda>t. t + ticks_of (wq_cal w) len) frm else None)\<rparr>)"

definition tinfo_of :: "planned \<Rightarrow> 'f tinfo" where
  "tinfo_of p = \<lparr>ti_command = command_new (pl_minEnd p), ti_mustHaveData = pl_mustHaveData p, ti_stopIfData = pl_stopIfData p,
                 ti_completed = False\<rparr>"

function populate_loop ::
    "'f wenv \<Rightarrow> (ptime \<Rightarrow> ptime \<Rightarrow> bool) \<Rightarrow> string \<Rightarrow> ptime \<Rightarrow> 'f query_helper \<Rightarrow> planned list \<times> unit result" where
  "populate_loop w pless wdbidDefault frm h =
     (case hasNext w pless h of
        (h1, Inl e) \<Rightarrow> ([], Inl e)
      | (h1, Inr False) \<Rightarrow> ([], Inr ())
      | (h1, Inr True) \<Rightarrow>
          (case helper_next w h1 of
             Inl e \<Rightarrow> ([], Inl e)
           | Inr x \<Rightarrow>
               (let (ps, r) = populate_loop w pless wdbidDefault frm h1
                in (plan_of w wdbidDefault frm (hp_wdbid h1) x # ps, r))))"
  by pat_completeness auto

termination
proof (relation "inv_image (less_than <*lex*> less_than) (\<lambda>(_, _, _, _, h). helper_work h)")
  show "wf (inv_image (less_than <*lex*> less_than) (\<lambda>(_, _, _, _, h). helper_work h))" by auto
qed (simp add: hasNext_less)

declare populate_loop.simps [simp del]

definition populateThreadInfos ::
    "'f wenv \<Rightarrow> (ptime \<Rightarrow> ptime \<Rightarrow> bool) \<Rightarrow> 'f \<Rightarrow> bool \<Rightarrow> bool \<Rightarrow> string \<Rightarrow> ptime \<Rightarrow> point list \<Rightarrow> ptime \<Rightarrow> bool \<Rightarrow> reftimes
     \<Rightarrow> provider_item list \<Rightarrow> query_element list \<Rightarrow> int \<Rightarrow> planned list \<times> unit result" where
  "populateThreadInfos w pless junk up eq wdbidDefault frm pts toT poly refs prio qs protocol =
     (if qs = [] then ([], Inl (Logic_error ''EXCEPTION: No wdb querys is defined.''))
      else (case helper_init w pts toT poly refs prio [] (helper_new qs protocol junk up eq) of
              (h, Inl e) \<Rightarrow> ([], Inl e)
            | (h, Inr _) \<Rightarrow> populate_loop w pless wdbidDefault frm h))"

section \<open>The iterator as nested loops\<close>

text \<open>
  The same queries as two nested loops, over the queries and over the providers of each. The state
  the loops carry is what is left from query to query: the web query and the flag that tells whether
  the last reference times found were equal. \<open>em\<close> adds a query to the list, \<open>k\<close> is what comes after.
\<close>

type_synonym plans = "planned list \<times> unit result"

definition emit :: "'f wenv \<Rightarrow> string \<Rightarrow> ptime \<Rightarrow> query_element \<Rightarrow> 'f wci_query \<times> bool \<Rightarrow> plans \<Rightarrow> plans" where
  "emit w wdbidDefault frm qe s rest =
     (case next_text w (fst s) (snd s) of
        Inl e \<Rightarrow> ([], Inl e)
      | Inr sql \<Rightarrow>
          (plan_of w wdbidDefault frm (qe_wdbdb qe) (sql, qe_probe qe, qe_stopIfData qe, qe_prognosisLength qe) # fst rest, snd rest))"

fun each_provider ::
    "'f wenv \<Rightarrow> (ptime \<Rightarrow> ptime \<Rightarrow> bool) \<Rightarrow> reftimes \<Rightarrow> string \<Rightarrow> ('f wci_query \<times> bool \<Rightarrow> plans \<Rightarrow> plans)
     \<Rightarrow> provider_item list \<Rightarrow> 'f wci_query \<times> bool \<Rightarrow> ('f wci_query \<times> bool \<Rightarrow> plans) \<Rightarrow> plans" where
  "each_provider w pless refs vt em [] s k = k s"
| "each_provider w pless refs vt em (p # ps) s k =
     (let ft = doGetProviderReftime pless refs (provider p) (None, None); eq = (snd ft = fst ft)
      in if fst ft = None then each_provider w pless refs vt em ps s k
         else (case ask_provider w refs vt (provider p) ft (fst s) of
                 (q, Inl e) \<Rightarrow> ([], Inl e)
               | (q, Inr _) \<Rightarrow> em (q, eq) (each_provider w pless refs vt em ps (q, eq) k)))"

text \<open>The reference time of an explicit query: none to set, none found, or found.\<close>

definition explicit_time :: "(ptime \<Rightarrow> ptime \<Rightarrow> bool) \<Rightarrow> reftimes \<Rightarrow> 'f wci_query \<Rightarrow> (ptime \<times> ptime) option" where
  "explicit_time pless refs q =
     (if sameTimespecAsProvider (wq_reftime q) \<noteq> []
      then Some (doGetProviderReftime pless refs (sameTimespecAsProvider (wq_reftime q)) (None, None))
      else if useProviderList (wq_reftime q)
      then Some (fold (doGetProviderReftime pless refs) (us_values (wq_dataprovider q)) (None, None))
      else None)"

definition one_query ::
    "'f wenv \<Rightarrow> (ptime \<Rightarrow> ptime \<Rightarrow> bool) \<Rightarrow> reftimes \<Rightarrow> provider_item list \<Rightarrow> string \<Rightarrow> string \<Rightarrow> ('f wci_query \<times> bool \<Rightarrow> plans \<Rightarrow> plans)
     \<Rightarrow> query_element \<Rightarrow> 'f wci_query \<times> bool \<Rightarrow> ('f wci_query \<times> bool \<Rightarrow> plans) \<Rightarrow> plans" where
  "one_query w pless refs prio vt pos em qe s k =
     (case wci_decode w (fst s) (pos @ qe_query qe) of
        (q, Inl e) \<Rightarrow> ([], Inl e)
      | (q, Inr _) \<Rightarrow>
          (let vs = us_values (wq_dataprovider q); ps = (if vs = [] then prio else enabled_values refs vs)
           in if vs = [] \<and> prio = [] then ([], Inl missing_provider)
              else if time_special (fromTime (wq_reftime q)) \<and> \<not> isDecoded (wq_reftime q)
              then each_provider w pless refs vt em ps (q, snd s) k
              else if ps = [] then k (q, snd s)
              else (let q1 = q\<lparr>wq_dataprovider := setValueList (wq_dataprovider q) (providerWithoutPlacename ps)\<rparr>;
                        ft = explicit_time pless refs q1;
                        eq = (case ft of None \<Rightarrow> snd s | Some t \<Rightarrow> snd t = fst t)
                    in if \<exists>t. ft = Some (None, t) then k (q1, snd s)
                       else (case ask_explicit w refs vt ft q1 of
                               (q2, Inl e) \<Rightarrow> ([], Inl e)
                             | (q2, Inr _) \<Rightarrow> em (q2, eq) (k (q2, eq))))))"

fun all_queries ::
    "'f wenv \<Rightarrow> (ptime \<Rightarrow> ptime \<Rightarrow> bool) \<Rightarrow> reftimes \<Rightarrow> provider_item list \<Rightarrow> string \<Rightarrow> string
     \<Rightarrow> (query_element \<Rightarrow> 'f wci_query \<times> bool \<Rightarrow> plans \<Rightarrow> plans) \<Rightarrow> query_element list \<Rightarrow> 'f wci_query \<times> bool \<Rightarrow> plans" where
  "all_queries w pless refs prio vt pos em [] s = ([], Inr ())"
| "all_queries w pless refs prio vt pos em (qe # qes) s =
     one_query w pless refs prio vt pos (em qe) qe s (all_queries w pless refs prio vt pos em qes)"

definition of_state :: "'f query_helper \<Rightarrow> 'f wci_query \<times> bool" where
  "of_state h = (webQuery h, refTimeFrom_IsEqualTo_ReftTimeTo h)"

lemma seek_each:
  assumes "seek pless h b i = (h1, r)" "b \<longrightarrow> reftimeProvider h = []" "i \<le> length (curProviderPriority h)"
  shows "each_provider w pless (hp_reftimes h) vt em (drop i (curProviderPriority h)) s k =
     (case r of
        None \<Rightarrow> k s
      | Some ft \<Rightarrow>
          (case ask_provider w (hp_reftimes h) vt (provider (curProviderPriority h ! hp_cur h1)) ft (fst s) of
             (q, Inl e) \<Rightarrow> ([], Inl e)
           | (q, Inr _) \<Rightarrow> em (q, snd ft = fst ft)
               (each_provider w pless (hp_reftimes h) vt em (drop (hp_cur h1 + 1) (curProviderPriority h)) (q, snd ft = fst ft) k)))
     \<and> refTimeFrom_IsEqualTo_ReftTimeTo h1 = (case r of None \<Rightarrow> refTimeFrom_IsEqualTo_ReftTimeTo h | Some ft \<Rightarrow> snd ft = fst ft)"
  using assms
proof (induction pless h b i rule: seek.induct)
  case (1 pless h b i)
  show ?case
  proof (cases "i = length (curProviderPriority h)")
    case True
    with 1(2) show ?thesis by (auto simp: seek.simps [of pless h])
  next
    case False
    with 1(4) have i: "i < length (curProviderPriority h)" by simp
    note d = Cons_nth_drop_Suc [OF i, symmetric]
    have p: "(if b \<and> reftimeProvider h \<noteq> [] then reftimeProvider h else provider (curProviderPriority h ! i))
        = provider (curProviderPriority h ! i)" using 1(3) by auto
    define ft where "ft = doGetProviderReftime pless (hp_reftimes h) (provider (curProviderPriority h ! i)) (None, None)"
    show ?thesis
    proof (cases "fst ft = None")
      case True
      then have g: "getProviderReftime pless h (provider (curProviderPriority h ! i)) = (h, None)"
        by (simp add: getProviderReftime_def ft_def found_reftime_def)
      with 1(2) i p have s: "seek pless h b (i + 1) = (h1, r)" by (simp add: seek.simps [of pless h b i])
      from 1(1) [OF _ _ refl s 1(3)] g p i True show ?thesis by (simp add: d ft_def [symmetric])
    next
      case False
      then have "getProviderReftime pless h (provider (curProviderPriority h ! i)) =
          (h\<lparr>refTimeFrom_IsEqualTo_ReftTimeTo := (snd ft = fst ft)\<rparr>, Some ft)"
        by (simp add: getProviderReftime_def ft_def found_reftime_def)
      with 1(2) i p have "h1 = h\<lparr>refTimeFrom_IsEqualTo_ReftTimeTo := (snd ft = fst ft), hp_cur := i\<rparr>" "r = Some ft"
        by (auto simp: seek.simps [of pless h b i])
      with False show ?thesis by (simp add: d ft_def [symmetric] Let_def del: not_None_eq)
    qed
  qed
qed

text \<open>The helper stands at a query it has just returned.\<close>

definition agrees :: "query_element \<Rightarrow> 'f query_helper \<Rightarrow> bool" where
  "agrees qe h \<longleftrightarrow> queryMustHaveData h = qe_probe qe \<and> stopIfQueryHasData h = qe_stopIfData qe
     \<and> prognosisLengthSeconds h = qe_prognosisLength qe \<and> hp_wdbid h = qe_wdbdb qe"

definition standing :: "query_element \<Rightarrow> 'f query_helper \<Rightarrow> bool" where
  "standing qe h \<longleftrightarrow> agrees qe h \<and> hp_cur h \<le> length (curProviderPriority h)
     \<and> (curProviderPriority h \<noteq> [] \<longrightarrow> reftimeProvider h = [])"

definition providers_left ::
    "'f wenv \<Rightarrow> (ptime \<Rightarrow> ptime \<Rightarrow> bool) \<Rightarrow> ('f wci_query \<times> bool \<Rightarrow> plans \<Rightarrow> plans) \<Rightarrow> 'f query_helper
     \<Rightarrow> ('f wci_query \<times> bool \<Rightarrow> plans) \<Rightarrow> plans" where
  "providers_left w pless em h k =
     each_provider w pless (hp_reftimes h) (validTime h) em (drop (hp_cur h + 1) (curProviderPriority h)) (of_state h) k"

text \<open>What the loops make of the outcome of one step of the iterator.\<close>

definition step_result ::
    "'f wenv \<Rightarrow> (ptime \<Rightarrow> ptime \<Rightarrow> bool) \<Rightarrow> ('f wci_query \<times> bool \<Rightarrow> plans \<Rightarrow> plans)
     \<Rightarrow> 'f query_helper \<times> bool option result \<Rightarrow> ('f wci_query \<times> bool \<Rightarrow> plans) \<Rightarrow> plans" where
  "step_result w pless em hr k =
     (case snd hr of
        Inl e \<Rightarrow> ([], Inl e)
      | Inr None \<Rightarrow> k (of_state (fst hr))
      | Inr (Some _) \<Rightarrow> em (of_state (fst hr)) (providers_left w pless em (fst hr) k))"

lemma looked_up_step:
  assumes "curProviderPriority h = []" "hp_cur h = 0" "reftimeProvider h = []" "agrees qe h"
    and vs: "vs = us_values (wq_dataprovider (webQuery h))" "\<not> (vs = [] \<and> hp_priority h = [])"
    and run: "looked_up w pless h = (h1, r)"
  shows "each_provider w pless (hp_reftimes h) (validTime h) em (if vs = [] then hp_priority h else enabled_values (hp_reftimes h) vs)
            (of_state h) k = step_result w pless em (h1, r) k
     \<and> (\<forall>b. r = Inr (Some b) \<longrightarrow> b \<and> standing qe h1)"
proof -
  define cur where "cur = (if vs = [] then hp_priority h else enabled_values (hp_reftimes h) vs)"
  let ?h = "h\<lparr>curProviderPriority := cur\<rparr>"
  obtain h2 x where s: "seek pless ?h False 0 = (h2, x)" by fastforce
  note each = seek_each [OF s, of w "validTime h" em "of_state h" k, simplified]
  from seek_frame [OF s] obtain eq c where h2: "h2 = h\<lparr>curProviderPriority := cur, refTimeFrom_IsEqualTo_ReftTimeTo := eq, hp_cur := c\<rparr>"
    and c: "c \<le> length cur" by (auto split: if_splits)
  from run vs s have run': "(h1, r) = (case x of None \<Rightarrow> (h2, Inr None)
      | Some ft \<Rightarrow> finish h2 (ask_provider w (hp_reftimes h2) (validTime h2) (provider (cur ! hp_cur h2)) ft (webQuery h2)))"
    unfolding looked_up_def Let_def vs(1) [symmetric] cur_def [symmetric] by (auto split: option.splits)
  show ?thesis
  proof (cases x)
    case None
    with run' have "h1 = h2" "r = Inr None" by simp_all
    with each None h2 show ?thesis by (simp add: step_result_def of_state_def cur_def)
  next
    case (Some ft)
    obtain q y where q: "ask_provider w (hp_reftimes h) (validTime h) (provider (cur ! c)) ft (webQuery h) = (q, y)" by fastforce
    with run' Some h2 have r: "h1 = h2\<lparr>webQuery := q\<rparr>" "r = map_sum id (\<lambda>_. Some True) y" by (simp_all add: finish_def)
    from each Some h2 have eq: "eq = (snd ft = fst ft)" by simp
    have "standing qe h1" using r h2 assms(3,4) c by (simp add: standing_def agrees_def)
    moreover have "each_provider w pless (hp_reftimes h) (validTime h) em cur (of_state h) k = step_result w pless em (h1, r) k"
      using each Some h2 q r eq by (cases y) (simp_all add: step_result_def of_state_def providers_left_def)
    ultimately show ?thesis using r by (cases y) (auto simp: cur_def)
  qed
qed

lemma finish_step:
  assumes "finish h (q, y) = (h1, r)" "curProviderPriority h = []" "agrees qe h" "hp_cur h = 0"
  shows "(case y of Inl e \<Rightarrow> ([], Inl e) | Inr _ \<Rightarrow> em (q, refTimeFrom_IsEqualTo_ReftTimeTo h) (k (q, refTimeFrom_IsEqualTo_ReftTimeTo h)))
      = step_result w pless em (h1, r) k
    \<and> (\<forall>b. r = Inr (Some b) \<longrightarrow> b \<and> standing qe h1)"
  using assms by (cases y) (auto simp: finish_def step_result_def providers_left_def of_state_def standing_def agrees_def)

lemma explicit_step:
  assumes "curProviderPriority h = []" "hp_cur h = 0" "agrees qe h"
    and q: "q = webQuery h" and vs: "vs = us_values (wq_dataprovider q)" "\<not> (vs = [] \<and> hp_priority h = [])"
    and ps: "ps = (if vs = [] then hp_priority h else enabled_values (hp_reftimes h) vs)" "ps \<noteq> []"
    and run: "explicit w pless h = (h1, r)"
    and q1: "q1 = q\<lparr>wq_dataprovider := setValueList (wq_dataprovider q) (providerWithoutPlacename ps)\<rparr>"
    and ft: "ft = explicit_time pless (hp_reftimes h) q1"
    and eq: "eq = (case ft of None \<Rightarrow> refTimeFrom_IsEqualTo_ReftTimeTo h | Some t \<Rightarrow> snd t = fst t)"
  shows "(if \<exists>t. ft = Some (None, t) then k (q1, refTimeFrom_IsEqualTo_ReftTimeTo h)
          else (case ask_explicit w (hp_reftimes h) (validTime h) ft q1 of
                  (q2, Inl e) \<Rightarrow> ([], Inl e) | (q2, Inr _) \<Rightarrow> em (q2, eq) (k (q2, eq)))) = step_result w pless em (h1, r) k
     \<and> (\<forall>b. r = Inr (Some b) \<longrightarrow> b \<and> standing qe h1)"
proof -
  let ?rp = "sameTimespecAsProvider (wq_reftime q1)"
  define h2 where "h2 = h\<lparr>webQuery := q1, reftimeProvider := ?rp\<rparr>"
  have a2: "curProviderPriority h2 = []" "agrees qe h2" "hp_cur h2 = 0" "hp_reftimes h2 = hp_reftimes h" "validTime h2 = validTime h"
    "refTimeFrom_IsEqualTo_ReftTimeTo h2 = refTimeFrom_IsEqualTo_ReftTimeTo h" "webQuery h2 = q1"
    using assms(1-3) by (simp_all add: h2_def agrees_def)
  obtain q2 y where q2: "ask_explicit w (hp_reftimes h) (validTime h) ft q1 = (q2, y)" by fastforce
  have E: "explicit w pless h =
      (if ?rp \<noteq> []
       then (case getProviderReftime pless h2 ?rp of
               (h3, None) \<Rightarrow> (h3, Inr None) | (h3, t) \<Rightarrow> finish h3 (ask_explicit w (hp_reftimes h3) (validTime h3) t q1))
       else if useProviderList (wq_reftime q1)
       then (case getProviderReftime_list pless h2 (us_values (wq_dataprovider q1)) of
               (h3, None) \<Rightarrow> (h3, Inr None) | (h3, t) \<Rightarrow> finish h3 (ask_explicit w (hp_reftimes h3) (validTime h3) t q1))
       else finish h2 (ask_explicit w (hp_reftimes h2) (validTime h2) None q1))"
    unfolding explicit_def Let_def q [symmetric] vs(1) [symmetric] ps(1) [symmetric] q1 [symmetric] sameTimespecAs_def h2_def
    using ps(2) by (subst if_not_P [OF vs(2)]) simp
  have G: "(h1, r) = (case ft of
        None \<Rightarrow> finish h2 (ask_explicit w (hp_reftimes h2) (validTime h2) None q1)
      | Some t \<Rightarrow> (case found_reftime h2 t of
          (h3, None) \<Rightarrow> (h3, Inr None) | (h3, t) \<Rightarrow> finish h3 (ask_explicit w (hp_reftimes h3) (validTime h3) t q1)))"
    using run unfolding E ft explicit_time_def getProviderReftime_def getProviderReftime_list_def a2(4)
    by (simp split: if_splits)
  have F: "(h1, r) = (if \<exists>t. ft = Some (None, t) then (h2, Inr None)
      else finish (h2\<lparr>refTimeFrom_IsEqualTo_ReftTimeTo := eq\<rparr>) (q2, y))"
  proof (cases ft)
    case None
    then have "h2\<lparr>refTimeFrom_IsEqualTo_ReftTimeTo := eq\<rparr> = h2" using a2(6) eq by simp
    with None G a2 q2 show ?thesis by simp
  next
    case (Some t)
    with G a2 q2 eq show ?thesis by (cases t) (auto simp: found_reftime_def split: if_splits)
  qed
  show ?thesis
  proof (cases "\<exists>t. ft = Some (None, t)")
    case True
    with F a2 show ?thesis by (auto simp: step_result_def of_state_def)
  next
    case False
    with F have f: "finish (h2\<lparr>refTimeFrom_IsEqualTo_ReftTimeTo := eq\<rparr>) (q2, y) = (h1, r)" by simp
    from finish_step [OF f, of qe em k w pless] a2 False q2 show ?thesis by (auto simp: agrees_def split: sum.splits)
  qed
qed

lemma try_query_step:
  assumes "try_query w pless qe h = (h1, r)"
  shows "one_query w pless (hp_reftimes h) (hp_priority h) (validTime h) (position h) em qe (of_state h) k
      = step_result w pless em (h1, r) k
    \<and> (\<forall>b. r = Inr (Some b) \<longrightarrow> b \<and> standing qe h1)"
proof -
  obtain q x where q: "wci_decode w (webQuery h) (position h @ qe_query qe) = (q, x)" by fastforce
  define h2 where "h2 = h\<lparr>reftimeProvider := [], queryMustHaveData := qe_probe qe, stopIfQueryHasData := qe_stopIfData qe,
     prognosisLengthSeconds := qe_prognosisLength qe, hp_wdbid := qe_wdbdb qe, webQuery := q, curProviderPriority := [], hp_cur := 0\<rparr>"
  have a2: "curProviderPriority h2 = []" "hp_cur h2 = 0" "reftimeProvider h2 = []" "agrees qe h2" "hp_reftimes h2 = hp_reftimes h"
    "validTime h2 = validTime h" "hp_priority h2 = hp_priority h" "webQuery h2 = q"
    "refTimeFrom_IsEqualTo_ReftTimeTo h2 = refTimeFrom_IsEqualTo_ReftTimeTo h" by (simp_all add: h2_def agrees_def)
  define vs where "vs = us_values (wq_dataprovider q)"
  define ps where "ps = (if vs = [] then hp_priority h else enabled_values (hp_reftimes h) vs)"
  let ?look = "time_special (fromTime (wq_reftime q)) \<and> \<not> isDecoded (wq_reftime q)"
  show ?thesis
  proof (cases x)
    case (Inl e)
    with assms q show ?thesis by (auto simp: try_query_def one_query_def Let_def of_state_def step_result_def)
  next
    case (Inr sql)
    with assms q have run: "(h1, r) = (if ?look then looked_up w pless h2 else explicit w pless h2)"
      by (auto simp: try_query_def Let_def h2_def split: if_splits)
    have O: "one_query w pless (hp_reftimes h) (hp_priority h) (validTime h) (position h) em qe (of_state h) k =
        (if vs = [] \<and> hp_priority h = [] then ([], Inl missing_provider)
         else if ?look then each_provider w pless (hp_reftimes h) (validTime h) em ps (of_state h2) k
         else if ps = [] then k (of_state h2)
         else (let q1 = q\<lparr>wq_dataprovider := setValueList (wq_dataprovider q) (providerWithoutPlacename ps)\<rparr>;
                   ft = explicit_time pless (hp_reftimes h) q1;
                   eq = (case ft of None \<Rightarrow> refTimeFrom_IsEqualTo_ReftTimeTo h | Some t \<Rightarrow> snd t = fst t)
               in if \<exists>t. ft = Some (None, t) then k (q1, refTimeFrom_IsEqualTo_ReftTimeTo h)
                  else (case ask_explicit w (hp_reftimes h) (validTime h) ft q1 of
                          (q2, Inl e) \<Rightarrow> ([], Inl e) | (q2, Inr _) \<Rightarrow> em (q2, eq) (k (q2, eq)))))"
      unfolding one_query_def of_state_def fst_conv snd_conv q Inr prod.case sum.case Let_def vs_def [symmetric] ps_def [symmetric] a2
      by (rule refl)
    show ?thesis
    proof (cases "vs = [] \<and> hp_priority h = []")
      case True
      with run a2 have "r = Inl missing_provider" by (auto simp: looked_up_def explicit_def vs_def Let_def split: if_splits)
      with O True show ?thesis by (simp add: step_result_def)
    next
      case False
      note F = False
      have v2: "vs = us_values (wq_dataprovider (webQuery h2))" by (simp add: a2 vs_def)
      have n2: "\<not> (vs = [] \<and> hp_priority h2 = [])" using F by (simp only: a2) simp
      have p2: "ps = (if vs = [] then hp_priority h2 else enabled_values (hp_reftimes h2) vs)" by (simp only: a2 ps_def)
      show ?thesis
      proof (cases ?look)
        case True
        with run have run2: "looked_up w pless h2 = (h1, r)" by simp
        note L = looked_up_step [OF a2(1-4) v2 n2 run2, where em = em and k = k, unfolded a2(5-7), folded ps_def]
        show ?thesis unfolding O if_not_P [OF F] if_P [OF True] by (rule L)
      next
        case False
        with run have run2: "explicit w pless h2 = (h1, r)" by simp
        show ?thesis
        proof (cases "ps = []")
          case True
          with run2 F a2 have "h1 = h2" "r = Inr None" by (auto simp: explicit_def Let_def vs_def ps_def split: if_splits)
          with O F False True show ?thesis by (simp add: step_result_def)
        next
          case P: False
          note X = explicit_step [OF a2(1,2,4) refl v2 n2 p2 P run2 refl refl refl, where em = em and k = k, unfolded a2(5-9)]
          show ?thesis unfolding O if_not_P [OF F] if_not_P [OF False] if_not_P [OF P] Let_def by (rule X)
        qed
      qed
    qed
  qed
qed

text \<open>One call of \<open>hasNext\<close> and what comes after it.\<close>

definition queries_left ::
    "'f wenv \<Rightarrow> (ptime \<Rightarrow> ptime \<Rightarrow> bool) \<Rightarrow> (query_element \<Rightarrow> 'f wci_query \<times> bool \<Rightarrow> plans \<Rightarrow> plans) \<Rightarrow> 'f query_helper
     \<Rightarrow> nat \<Rightarrow> 'f wci_query \<times> bool \<Rightarrow> plans" where
  "queries_left w pless em h i s =
     all_queries w pless (hp_reftimes h) (hp_priority h) (validTime h) (position h) em (drop i (urlQuerys h)) s"

definition call_result ::
    "'f wenv \<Rightarrow> (ptime \<Rightarrow> ptime \<Rightarrow> bool) \<Rightarrow> (query_element \<Rightarrow> 'f wci_query \<times> bool \<Rightarrow> plans \<Rightarrow> plans)
     \<Rightarrow> 'f query_helper \<times> bool result \<Rightarrow> plans" where
  "call_result w pless em hr =
     (case snd hr of
        Inl e \<Rightarrow> ([], Inl e)
      | Inr b \<Rightarrow>
          if b then let h = fst hr; qe = urlQuerys h ! hp_next h
                    in em qe (of_state h) (providers_left w pless (em qe) h (queries_left w pless em h (hp_next h + 1)))
          else ([], Inr ()))"

definition stands :: "'f query_helper \<Rightarrow> bool" where
  "stands h \<longleftrightarrow> \<not> hp_first h \<and> hp_next h < length (urlQuerys h) \<and> standing (urlQuerys h ! hp_next h) h"

lemma same_setup_left:
  "same_setup h h' \<Longrightarrow> queries_left w pless em h' = queries_left w pless em h"
  by (simp add: queries_left_def same_defs fun_eq_iff)

lemma query_loop_step:
  assumes "query_loop w pless qes i h = (h1, r)" "qes = drop i (urlQuerys h)" "\<not> hp_first h"
  shows "queries_left w pless em h i (of_state h) = call_result w pless em (h1, r) \<and> (r = Inr True \<longrightarrow> stands h1)"
  using assms
proof (induction qes arbitrary: i h)
  case Nil
  then show ?case by (auto simp: queries_left_def call_result_def)
next
  case (Cons qe qes)
  from Cons.prems(2) have i: "i < length (urlQuerys h)" by (metis drop_eq_Nil list.distinct(1) not_le)
  from Cons.prems(2) Cons_nth_drop_Suc [OF i] have "qe # qes = urlQuerys h ! i # drop (i + 1) (urlQuerys h)" by simp
  then have qe: "qe = urlQuerys h ! i" "qes = drop (i + 1) (urlQuerys h)" by blast+
  let ?h = "h\<lparr>hp_next := i\<rparr>"
  obtain h2 x where t: "try_query w pless qe ?h = (h2, x)" by fastforce
  from try_query_place [OF t] have p: "same_setup ?h h2" "same_setup h h2" "\<not> hp_first h2" "hp_next h2 = i" "urlQuerys h2 = urlQuerys h"
    using Cons.prems(3) by (simp_all add: same_defs)
  note T = try_query_step [OF t, of "em qe" "queries_left w pless em h (i + 1)"]
  have "queries_left w pless em h i (of_state h) = one_query w pless (hp_reftimes ?h) (hp_priority ?h) (validTime ?h) (position ?h)
      (em qe) qe (of_state ?h) (queries_left w pless em h (i + 1))"
    using Cons.prems(2) [symmetric] qe(2) by (simp add: queries_left_def [abs_def] of_state_def)
  with T have step: "queries_left w pless em h i (of_state h) = step_result w pless (em qe) (h2, x) (queries_left w pless em h (i + 1))"
    by simp
  from T have stand: "\<forall>b. x = Inr (Some b) \<longrightarrow> b \<and> standing qe h2" by blast
  show ?case
  proof (cases "x = Inr None")
    case True
    with Cons.prems(1) t have run: "query_loop w pless qes (i + 1) h2 = (h1, r)" by simp
    from Cons.IH [OF run] p qe True step show ?thesis by (simp add: step_result_def same_setup_left [OF p(2)])
  next
    case False
    have "queries_left w pless em h2 = queries_left w pless em h" by (rule same_setup_left [OF p(2)])
    with False Cons.prems(1) t step stand p i qe show ?thesis
      by (auto simp: step_result_def call_result_def stands_def Let_def split: sum.splits option.splits)
  qed
qed

lemma hasNext_step:
  assumes "stands h" "hasNext w pless h = (h1, r)"
  shows "providers_left w pless (em (urlQuerys h ! hp_next h)) h (queries_left w pless em h (hp_next h + 1))
      = call_result w pless em (h1, r) \<and> (r = Inr True \<longrightarrow> stands h1)"
proof -
  let ?qe = "urlQuerys h ! hp_next h"
  define h0 where "h0 = h\<lparr>dataProviders := []\<rparr>"
  have S: "\<not> hp_first h" "hp_next h < length (urlQuerys h)" "standing ?qe h" using assms(1) by (simp_all add: stands_def)
  have N: "queries_left w pless em h (hp_next h + 1) (of_state h2) = call_result w pless em (h1, r) \<and> (r = Inr True \<longrightarrow> stands h1)"
    if "next_queries w pless h2 = (h1, r)" "same_place h0 h2" for h2
  proof -
    have p: "same_setup h h2" "\<not> hp_first h2" "hp_next h2 = hp_next h" "urlQuerys h2 = urlQuerys h"
      using that(2) S(1) by (simp_all add: same_defs h0_def)
    with that(1) S have "query_loop w pless (drop (hp_next h + 1) (urlQuerys h2)) (hp_next h + 1) h2 = (h1, r)"
      by (simp add: next_queries_def Let_def)
    from query_loop_step [OF this refl p(2), of em] same_setup_left [OF p(1), of w pless em] show ?thesis by simp
  qed
  have H: "hasNext w pless h = (if hp_cur h \<ge> length (curProviderPriority h) then next_queries w pless h0
      else (case seek pless h0 True (hp_cur h + 1) of
              (h2, None) \<Rightarrow> next_queries w pless h2
            | (h2, Some ft) \<Rightarrow>
                (let (q, y) = ask_provider w (hp_reftimes h2) (validTime h2) (provider (curProviderPriority h2 ! hp_cur h2)) ft (webQuery h2)
                 in (h2\<lparr>webQuery := q\<rparr>, map_sum id (\<lambda>_. True) y))))"
    using S(1) by (simp add: hasNext_def h0_def Let_def split: option.split prod.split)
  show ?thesis
  proof (cases "hp_cur h \<ge> length (curProviderPriority h)")
    case True
    with H assms(2) N [of h0] show ?thesis by (simp add: providers_left_def h0_def of_state_def)
  next
    case False
    obtain h2 x where s: "seek pless h0 True (hp_cur h + 1) = (h2, x)" by fastforce
    have le: "hp_cur h + 1 \<le> length (curProviderPriority h0)" using False by (simp add: h0_def)
    from False S(3) have rp: "True \<longrightarrow> reftimeProvider h0 = []" by (auto simp: standing_def h0_def)
    note each = seek_each [OF s rp le, of w "validTime h" "em ?qe" "of_state h" "queries_left w pless em h (hp_next h + 1)"]
    from seek_frame [OF s le] obtain eq c where h2: "h2 = h\<lparr>dataProviders := [], refTimeFrom_IsEqualTo_ReftTimeTo := eq, hp_cur := c\<rparr>"
      and c: "c \<le> length (curProviderPriority h)" by (auto simp: h0_def split: if_splits)
    show ?thesis
    proof (cases x)
      case None
      with each h2 have "of_state h2 = of_state h" by (simp add: of_state_def h0_def)
      with each None H assms(2) False s N [of h2] seek_place [OF s le] show ?thesis
        by (simp add: providers_left_def h0_def)
    next
      case (Some ft)
      obtain q y where q: "ask_provider w (hp_reftimes h) (validTime h) (provider (curProviderPriority h ! c)) ft (webQuery h) = (q, y)"
        by fastforce
      from H assms(2) False s Some h2 q have r: "h1 = h2\<lparr>webQuery := q\<rparr>" "r = map_sum id (\<lambda>_. True) y" by auto
      from each Some h2 have eq: "eq = (snd ft = fst ft)" by simp
      have "stands h1" using S r h2 c by (simp add: stands_def standing_def agrees_def)
      moreover have "same_setup h h1" using r h2 by (simp add: same_defs)
      note QL = same_setup_left [OF this, of w pless em]
      from each Some h2 q r eq QL
      have "providers_left w pless (em ?qe) h (queries_left w pless em h (hp_next h + 1)) = call_result w pless em (h1, r)"
        by (cases y) (simp_all add: providers_left_def call_result_def of_state_def h0_def Let_def)
      ultimately show ?thesis by blast
    qed
  qed
qed

lemma emit_state:
  "emit w dflt frm qe (of_state h) rest =
     (case next_text w (webQuery h) (refTimeFrom_IsEqualTo_ReftTimeTo h) of
        Inl e \<Rightarrow> ([], Inl e)
      | Inr sql \<Rightarrow> (plan_of w dflt frm (qe_wdbdb qe) (sql, qe_probe qe, qe_stopIfData qe, qe_prognosisLength qe) # fst rest, snd rest))"
  by (simp add: emit_def of_state_def)

lemma populate_loop_call:
  assumes n: "hasNext w pless h = (h1, r)" and st: "r = Inr True \<Longrightarrow> stands h1"
    and IH: "\<And>x. r = Inr True \<Longrightarrow> helper_next w h1 = Inr x \<Longrightarrow> populate_loop w pless dflt frm h1 =
       providers_left w pless (emit w dflt frm (urlQuerys h1 ! hp_next h1)) h1 (queries_left w pless (emit w dflt frm) h1 (hp_next h1 + 1))"
  shows "populate_loop w pless dflt frm h = call_result w pless (emit w dflt frm) (h1, r)"
proof -
  consider e where "r = Inl e" | "r = Inr False" | "r = Inr True" by (cases r) auto
  then show ?thesis
  proof cases
    case 3
    with st have ag: "agrees (urlQuerys h1 ! hp_next h1) h1" by (simp add: stands_def standing_def)
    show ?thesis
    proof (cases "next_text w (webQuery h1) (refTimeFrom_IsEqualTo_ReftTimeTo h1)")
      case (Inl e)
      with 3 n show ?thesis
        by (simp add: populate_loop.simps [of w pless dflt frm h] helper_next_def call_result_def emit_state Let_def)
    next
      case (Inr sql)
      then have x: "helper_next w h1 = Inr (sql, queryMustHaveData h1, stopIfQueryHasData h1, prognosisLengthSeconds h1)"
        by (simp add: helper_next_def)
      from 3 n IH [OF 3 x] ag x Inr show ?thesis
        by (simp add: populate_loop.simps [of w pless dflt frm h] call_result_def emit_state Let_def agrees_def case_prod_unfold)
    qed
  qed (use n in \<open>simp_all add: populate_loop.simps [of w pless dflt frm h] call_result_def\<close>)
qed

lemma populate_loop_stands:
  "stands h \<Longrightarrow> populate_loop w pless dflt frm h =
     providers_left w pless (emit w dflt frm (urlQuerys h ! hp_next h)) h (queries_left w pless (emit w dflt frm) h (hp_next h + 1))"
proof (induction w pless dflt frm h rule: populate_loop.induct)
  case (1 w pless dflt frm h)
  obtain h1 r where n: "hasNext w pless h = (h1, r)" by fastforce
  note step = hasNext_step [OF 1(2) n, of "emit w dflt frm"]
  have "populate_loop w pless dflt frm h = call_result w pless (emit w dflt frm) (h1, r)"
  proof (rule populate_loop_call [OF n])
    assume "r = Inr True"
    with step show "stands h1" by simp
  next
    fix x
    assume r: "r = Inr True" and x: "helper_next w h1 = Inr x"
    with step have "stands h1" by simp
    from 1(1) [OF n [symmetric] r refl x this] show "populate_loop w pless dflt frm h1 =
        providers_left w pless (emit w dflt frm (urlQuerys h1 ! hp_next h1)) h1 (queries_left w pless (emit w dflt frm) h1 (hp_next h1 + 1))" .
  qed
  with step show ?case by simp
qed

section \<open>What is proved\<close>

definition valid_time_text :: "'f wenv \<Rightarrow> ptime \<Rightarrow> string" where
  "valid_time_text w toT =
     (case toT of None \<Rightarrow> [] | Some t \<Rightarrow> ''epoch,'' @ isotimeString (wq_cal w) (Some (At t)) True True @ '',inside'')"


text \<open>The entries of the table that a provider's reference time comes from.\<close>

definition enabled_times :: "provider_item \<Rightarrow> reftimes \<Rightarrow> ptime list" where
  "enabled_times pin l = map (refTime \<circ> snd) (filter (\<lambda>(k, t). \<not> disabled t \<and> item_matches pin k) l)"

lemma reftime_loop_place:
  "placename pin \<noteq> [] \<Longrightarrow>
     reftime_loop pless pin l ft = (case enabled_times pin l of [] \<Rightarrow> ft | t # _ \<Rightarrow> widen pless t ft)"
proof (induction l)
  case (Cons kt l)
  then show ?case by (cases kt) (simp add: enabled_times_def)
qed (simp add: enabled_times_def)

lemma reftime_loop_fold:
  "placename pin = [] \<Longrightarrow> reftime_loop pless pin l ft = fold (widen pless) (enabled_times pin l) ft"
proof (induction l arbitrary: ft)
  case (Cons kt l)
  then show ?case by (cases kt) (simp add: enabled_times_def)
qed (simp add: enabled_times_def)

lemma fold_widen:
  assumes "\<And>a b. pless (Some a) (Some b) \<longleftrightarrow> a < b"
  shows "f \<le> t \<Longrightarrow> fold (widen pless) (map Some ts) (Some f, Some t) = (Some (Min (set (f # ts))), Some (Max (set (t # ts))))"
proof (induction ts arbitrary: f t)
  case (Cons x ts)
  let ?f = "min f x" and ?t = "max t x"
  have "widen pless (Some x) (Some f, Some t) = (Some ?f, Some ?t)"
    using Cons.prems by (auto simp: widen_def assms min_def max_def)
  with Cons.IH [of ?f ?t] Cons.prems show ?case
    by (cases "ts = []") (auto simp: min.assoc max.assoc)
qed simp

text \<open>
  The reference times of a provider come from the entries of the table that are not disabled: with
  a place name from the first that matches; without one they span all that match, from the earliest
  to the latest. There are none if and only if no such entry matches.
\<close>

theorem provider_reftime_span:
  assumes "\<And>a b. pless (Some a) (Some b) \<longleftrightarrow> a < b" "enabled_times (decodeItem p) l = map Some ts"
  shows "doGetProviderReftime pless l p (None, None) =
    (if ts = [] then (None, None)
     else if placename (decodeItem p) \<noteq> [] then (Some (hd ts), Some (hd ts))
     else (Some (Min (set ts)), Some (Max (set ts))))"
proof (cases ts)
  case Nil
  with assms(2) show ?thesis
    by (cases "placename (decodeItem p) = []") (simp_all add: doGetProviderReftime_def reftime_loop_place reftime_loop_fold)
next
  case (Cons t r)
  have w: "widen pless (Some t) (None, None) = (Some t, Some t)" by (simp add: widen_def)
  show ?thesis
  proof (cases "placename (decodeItem p) = []")
    case True
    with assms(2) Cons have "doGetProviderReftime pless l p (None, None) = fold (widen pless) (map Some r) (Some t, Some t)"
      by (simp add: doGetProviderReftime_def reftime_loop_fold w)
    with fold_widen [OF assms(1), of t t r] Cons True show ?thesis by simp
  qed (use assms(2) Cons w in \<open>simp add: doGetProviderReftime_def reftime_loop_place\<close>)
qed

definition sample_less :: "ptime \<Rightarrow> ptime \<Rightarrow> bool" where
  "sample_less a b = (case (a, b) of (Some x, Some y) \<Rightarrow> x < y | _ \<Rightarrow> False)"

definition sample_refs :: reftimes where
  "sample_refs =
     [(''met'', provider_times_init\<lparr>refTime := Some 5\<rparr>), (''met [norge]'', provider_times_init\<lparr>refTime := Some 9, disabled := True\<rparr>),
      (''met [oslo]'', provider_times_init\<lparr>refTime := Some 7\<rparr>)]"

theorem provider_reftime_span_witness:
  "doGetProviderReftime sample_less sample_refs ''met'' (None, None) = (Some 5, Some 7)"
proof -
  have "enabled_times (decodeItem ''met'') sample_refs = map Some [5, 7]" by code_simp
  from provider_reftime_span [OF _ this, of sample_less] have
    "doGetProviderReftime sample_less sample_refs ''met'' (None, None) =
      (if placename (decodeItem ''met'') \<noteq> [] then (Some 5, Some 5) else (Some 5, Some 7))"
    by (simp add: sample_less_def)
  moreover have "placename (decodeItem ''met'') = []" by code_simp
  ultimately show ?thesis by simp
qed

end
