(* ===== verification/LocationElem.thy ===== *)
theory LocationElem
  imports PointData Providers
begin

text \<open>
  \<open>src/src/mod_wdb2ts/LocationElem.h\<close> and \<open>LocationElem.cpp\<close>: the values of one time of a table of
  weather data. A value is looked up by member, start of its period and provider; the provider that
  gave the first value is kept for the following ones. A float is \<^const>\<open>None\<close> when it is \<open>FLT_MAX\<close>;
  the functions are \<open>const\<close> in the source but change the object, here they return it. When the time
  of the element is infinite and a value is found, the source writes to the key of its map; that
  write is not modelled. The arithmetic of floats is an argument, \<open>fenv\<close>: the operations, \<open>FLT_MAX\<close>,
  \<open>FLT_MIN\<close> and \<open>0.1\<close>, the weights of the precipitation, \<open>floor(x*10)\<close> of a number and of it plus
  \<open>0.05\<close>, the number less \<open>0.0001\<close>, the conversion to \<open>int\<close> of it and of it plus \<open>0.5\<close>, the
  formulas of the corrections, and the ticks of an hour.
\<close>

section \<open>The object\<close>

record 'f fenv =
  fe_zero :: 'f
  fe_add :: "'f \<Rightarrow> 'f \<Rightarrow> 'f"
  fe_sub :: "'f \<Rightarrow> 'f \<Rightarrow> 'f"
  fe_mul :: "'f \<Rightarrow> 'f \<Rightarrow> 'f"
  fe_half :: "'f \<Rightarrow> 'f"
  fe_lt :: "'f \<Rightarrow> 'f \<Rightarrow> bool"
  fe_le :: "'f \<Rightarrow> 'f \<Rightarrow> bool"
  fe_max :: 'f
  fe_small :: 'f
  fe_tenth :: 'f
  fe_weight :: "nat \<Rightarrow> 'f"
  fe_floor10 :: "'f \<Rightarrow> int"
  fe_floor10_up :: "'f \<Rightarrow> int"
  fe_less_bit :: "'f \<Rightarrow> 'f"
  fe_int :: "'f \<Rightarrow> int"
  fe_int_half :: "'f \<Rightarrow> int"
  fe_height_corr :: "int \<Rightarrow> 'f"
  fe_wet_bulb :: "'f \<Rightarrow> 'f \<Rightarrow> 'f \<Rightarrow> int \<Rightarrow> 'f"
  fe_dew :: "'f \<Rightarrow> 'f \<Rightarrow> 'f"
  fe_in_range :: "'f \<Rightarrow> bool"
  fe_index :: "'f \<Rightarrow> nat"
  fe_rh :: "'f \<Rightarrow> 'f \<Rightarrow> 'f"
  fe_hour :: int

record loc_config =
  lc_output :: "string \<Rightarrow> bool"
  lc_thunder :: "bool option"

record 'f loc_elem =
  timeSerie :: "'f time_serie"
  le_time :: vtime
  le_priority :: "provider_item list"
  itProviderPriorityBegin :: nat
  modelTopoProviders :: "(string, string list) omap"
  forecastProvider :: string
  oceanProvider :: string
  percentileProvider :: string
  symbolProvider :: string
  symbolProbabilityProvider :: string
  lastUsedProvider :: string
  le_height :: int
  le_config :: "loc_config option"
  thunder_known :: bool
  thunder_on :: bool

definition loc_elem_new :: "provider_item list \<Rightarrow> (string, string list) omap \<Rightarrow> int \<Rightarrow> loc_config \<Rightarrow> 'f loc_elem" where
  "loc_elem_new prio topo hight cfg =
     \<lparr>timeSerie = [], le_time = At 0, le_priority = prio, itProviderPriorityBegin = 0, modelTopoProviders = topo,
      forecastProvider = [], oceanProvider = [], percentileProvider = [], symbolProvider = [],
      symbolProbabilityProvider = [], lastUsedProvider = [], le_height = hight, le_config = Some cfg,
      thunder_known = False, thunder_on = False\<rparr>"

text \<open>\<open>init\<close>: \<open>itTimeSerie\<close> is the key of the element it stands on.\<close>

definition elem_init :: "vtime \<Rightarrow> 'f time_serie \<Rightarrow> 'f loc_elem \<Rightarrow> 'f loc_elem" where
  "elem_init t ts e = e\<lparr>le_time := t, timeSerie := ts, lastUsedProvider := []\<rparr>"

definition startAtProvider :: "string \<Rightarrow> 'f loc_elem \<Rightarrow> bool \<times> 'f loc_elem" where
  "startAtProvider p e =
     (if p = [] then (True, e\<lparr>itProviderPriorityBegin := 0\<rparr>)
      else (case findProviderWithoutPlacename (le_priority e) p of
              None \<Rightarrow> (False, e\<lparr>itProviderPriorityBegin := 0\<rparr>)
            | Some i \<Rightarrow> (True, e\<lparr>itProviderPriorityBegin := i\<rparr>)))"

definition forecastprovider :: "'f loc_elem \<Rightarrow> string" where
  "forecastprovider e =
     (if forecastProvider e \<noteq> [] then forecastProvider e
      else if oceanProvider e \<noteq> [] then oceanProvider e
      else percentileProvider e)"

definition set_forecastprovider :: "string \<Rightarrow> 'f loc_elem \<Rightarrow> 'f loc_elem" where
  "set_forecastprovider p e = (if p \<noteq> [] then e\<lparr>forecastProvider := p\<rparr> else e)"

section \<open>Lookup\<close>

text \<open>The parameters of \<open>getValueImpl\<close> that it changes, and its value.\<close>

record 'f lookup =
  lk_value :: "'f option"
  lk_from :: "vtime option"
  lk_provider :: string
  lk_last :: string

text \<open>The loops: over the providers, over the times and the providers, over the times for one provider.\<close>

fun first_value :: "'f provider_data \<Rightarrow> string \<Rightarrow> provider_item list \<Rightarrow> (string \<times> 'f) option" where
  "first_value pds pm [] = None"
| "first_value pds pm (p # ps) =
     (case Option.bind (map_of pds (providerWithPlacename p)) (\<lambda>pd. map_of pd pm) of
        Some v \<Rightarrow> Some (providerWithPlacename p, v)
      | None \<Rightarrow> first_value pds pm ps)"

fun first_time :: "'f from_serie \<Rightarrow> string \<Rightarrow> provider_item list \<Rightarrow> (vtime \<times> string \<times> 'f) option" where
  "first_time [] pm ps = None"
| "first_time ((t, pds) # fs) pm ps =
     (case first_value pds pm ps of Some (p, v) \<Rightarrow> Some (t, p, v) | None \<Rightarrow> first_time fs pm ps)"

fun first_of_provider :: "'f from_serie \<Rightarrow> string \<Rightarrow> string \<Rightarrow> (vtime \<times> 'f) option" where
  "first_of_provider [] pm p = None"
| "first_of_provider ((t, pds) # fs) pm p =
     (case Option.bind (map_of pds p) (\<lambda>pd. map_of pd pm) of
        Some v \<Rightarrow> Some (t, v)
      | None \<Rightarrow> first_of_provider fs pm p)"

definition getValueImpl ::
    "provider_item list \<Rightarrow> string \<Rightarrow> 'f from_serie \<Rightarrow> vtime option \<Rightarrow> string \<Rightarrow> string \<Rightarrow> 'f lookup" where
  "getValueImpl ps pm fs ft prov used =
     (let none = \<lparr>lk_value = None, lk_from = ft, lk_provider = prov, lk_last = used\<rparr>
      in if \<not> time_special ft
         then (case map_of fs (the ft) of
                 None \<Rightarrow> none
               | Some pds \<Rightarrow>
                   if prov = []
                   then (case first_value pds pm ps of
                           None \<Rightarrow> none
                         | Some (p, v) \<Rightarrow> none\<lparr>lk_value := Some v, lk_provider := p, lk_last := p\<rparr>)
                   else (case map_of pds prov of
                           None \<Rightarrow> none
                         | Some pd \<Rightarrow> none\<lparr>lk_value := map_of pd pm, lk_last := prov\<rparr>))
         else if prov = []
         then (case first_time fs pm ps of
                 None \<Rightarrow> none
               | Some (t, p, v) \<Rightarrow> \<lparr>lk_value = Some v, lk_from = Some t, lk_provider = p, lk_last = p\<rparr>)
         else (case first_of_provider fs pm prov of
                 None \<Rightarrow> none
               | Some (t, v) \<Rightarrow> none\<lparr>lk_value := Some v, lk_from := Some t, lk_last := prov\<rparr>))"

text \<open>
  The second chance of \<open>getValue\<close>: providers of the priority list with the same name and any place.
  The provider of the caller is not changed.
\<close>

definition name_prefix :: "string \<Rightarrow> string" where
  "name_prefix prov = (case find_idx (\<lambda>c. c = LB) prov of None \<Rightarrow> prov | Some i \<Rightarrow> trimstr (take i prov))"

fun other_places ::
    "provider_item list \<Rightarrow> string \<Rightarrow> string \<Rightarrow> 'f from_serie \<Rightarrow> provider_item list \<Rightarrow> 'f lookup \<Rightarrow> 'f lookup" where
  "other_places ps prefix pm fs [] r = r"
| "other_places ps prefix pm fs (q # qs) r =
     (if provider q \<noteq> prefix then other_places ps prefix pm fs qs r
      else (let r1 = (getValueImpl ps pm fs (lk_from r) (providerWithPlacename q) (lk_last r))\<lparr>lk_provider := lk_provider r\<rparr>
            in if lk_value r1 \<noteq> None then r1 else other_places ps prefix pm fs qs r1))"

definition getValue ::
    "provider_item list \<Rightarrow> string \<Rightarrow> 'f from_serie \<Rightarrow> vtime option \<Rightarrow> string \<Rightarrow> string \<Rightarrow> bool \<Rightarrow> bool \<Rightarrow> 'f lookup" where
  "getValue ps pm fs ft prov used cleanProvider cleanFromTime =
     (let r = getValueImpl ps pm fs ft prov used;
          r1 = (if lk_value r = None \<and> lk_provider r \<noteq> [] \<and> \<not> cleanProvider
                then other_places ps (name_prefix (lk_provider r)) pm fs ps r else r)
      in if lk_value r1 \<noteq> None then r1
         else (let clean = (lk_provider r1 \<noteq> [] \<and> cleanProvider)
               in if clean \<or> cleanFromTime
                  then getValueImpl ps pm fs (if cleanFromTime then None else lk_from r1)
                         (if clean then [] else lk_provider r1) (lk_last r1)
                  else r1))"

text \<open>The provider a family of values sticks to.\<close>

datatype slot = Forecast | Ocean | Percentile

definition get_slot :: "slot \<Rightarrow> 'f loc_elem \<Rightarrow> string" where
  "get_slot s e = (case s of Forecast \<Rightarrow> forecastProvider e | Ocean \<Rightarrow> oceanProvider e | Percentile \<Rightarrow> percentileProvider e)"

definition put_slot :: "slot \<Rightarrow> string \<Rightarrow> 'f loc_elem \<Rightarrow> 'f loc_elem" where
  "put_slot s p e =
     (case s of Forecast \<Rightarrow> e\<lparr>forecastProvider := p\<rparr> | Ocean \<Rightarrow> e\<lparr>oceanProvider := p\<rparr> | Percentile \<Rightarrow> e\<lparr>percentileProvider := p\<rparr>)"

definition providers_from :: "'f loc_elem \<Rightarrow> provider_item list" where
  "providers_from e = drop (itProviderPriorityBegin e) (le_priority e)"

definition value_in ::
    "string \<Rightarrow> slot \<Rightarrow> 'f from_serie \<Rightarrow> vtime option \<Rightarrow> bool \<Rightarrow> bool \<Rightarrow> 'f loc_elem \<Rightarrow> 'f option \<times> vtime option \<times> 'f loc_elem" where
  "value_in pm s fs ft tryHard cleanFromTime e =
     (let r = getValue (providers_from e) pm fs ft (get_slot s e) (lastUsedProvider e) tryHard cleanFromTime
      in (lk_value r, lk_from r, (put_slot s (lk_provider r) e)\<lparr>lastUsedProvider := lk_last r\<rparr>))"

text \<open>The element the object stands on: \<open>itTimeSerie->second\<close>.\<close>

definition current :: "'f loc_elem \<Rightarrow> 'f from_serie" where
  "current e = om_at [] (timeSerie e) (le_time e)"

definition value_from :: "string \<Rightarrow> slot \<Rightarrow> vtime option \<Rightarrow> bool \<Rightarrow> 'f loc_elem \<Rightarrow> 'f option \<times> 'f loc_elem" where
  "value_from pm s ft tryHard e = (let (v, _, e1) = value_in pm s (current e) ft tryHard False e in (v, e1))"

definition value_now :: "string \<Rightarrow> slot \<Rightarrow> bool \<Rightarrow> 'f loc_elem \<Rightarrow> 'f option \<times> 'f loc_elem" where
  "value_now pm s tryHard e = value_from pm s (Some (le_time e)) tryHard e"

text \<open>The time some hours before that of the element.\<close>

definition vminus :: "vtime \<Rightarrow> int \<Rightarrow> vtime" where
  "vminus t d = (case t of At x \<Rightarrow> At (x - d) | _ \<Rightarrow> t)"

definition hours_back :: "'f fenv \<Rightarrow> int \<Rightarrow> 'f loc_elem \<Rightarrow> vtime" where
  "hours_back fe h e = vminus (le_time e) (h * fe_hour fe)"

definition value_back :: "'f fenv \<Rightarrow> string \<Rightarrow> slot \<Rightarrow> int \<Rightarrow> bool \<Rightarrow> 'f loc_elem \<Rightarrow> 'f option \<times> 'f loc_elem" where
  "value_back fe pm s h tryHard e = value_from pm s (Some (hours_back fe h e)) tryHard e"

text \<open>A value that the configuration may switch off.\<close>

definition value_configured :: "string \<Rightarrow> string \<Rightarrow> slot \<Rightarrow> bool \<Rightarrow> 'f loc_elem \<Rightarrow> 'f option \<times> 'f loc_elem" where
  "value_configured param pm s tryHard e =
     (case le_config e of
        Some cfg \<Rightarrow> if lc_output cfg param then value_now pm s tryHard e else (None, e)
      | None \<Rightarrow> value_now pm s tryHard e)"

section \<open>The values\<close>

type_synonym 'f accessor = "bool \<Rightarrow> 'f loc_elem \<Rightarrow> 'f option \<times> 'f loc_elem"

definition windV10m :: "'f accessor" where
  "windV10m = value_now ''windV10m'' Forecast"

definition windU10m :: "'f accessor" where
  "windU10m = value_now ''windU10m'' Forecast"

definition windGust :: "'f accessor" where
  "windGust = value_now ''windGust'' Forecast"

definition areaMaxWindSpeed :: "'f accessor" where
  "areaMaxWindSpeed = value_now ''areaMaxWindSpeed'' Forecast"

definition globalRadiation :: "'f accessor" where
  "globalRadiation = value_now ''globalRadiation'' Forecast"

definition PP :: "'f accessor" where
  "PP = value_now ''PP'' Forecast"

definition PR :: "'f accessor" where
  "PR = value_now ''PR'' Forecast"

definition T2M :: "'f accessor" where
  "T2M = value_now ''T2M'' Forecast"

definition T2M_LAND :: "'f accessor" where
  "T2M_LAND = value_now ''T2M_LAND'' Forecast"

definition T2M_NO_ADIABATIC_HIGHT_CORRECTION :: "'f accessor" where
  "T2M_NO_ADIABATIC_HIGHT_CORRECTION = value_now ''T2M_NO_ADIABATIC_HIGHT_CORRECTION'' Forecast"

definition temperatureCorrected :: "'f accessor" where
  "temperatureCorrected = value_now ''temperatureCorrected'' Forecast"

definition UU :: "'f accessor" where
  "UU = value_now ''UU'' Forecast"

definition precipIntensity :: "'f accessor" where
  "precipIntensity = value_now ''precipIntensity'' Forecast"

definition NN :: "'f accessor" where
  "NN = value_now ''NN'' Forecast"

definition visibility :: "'f accessor" where
  "visibility = value_now ''visibility'' Forecast"

definition fog :: "'f accessor" where
  "fog = value_now ''fog'' Forecast"

definition highCloud :: "'f accessor" where
  "highCloud = value_now ''highCloud'' Forecast"

definition mediumCloud :: "'f accessor" where
  "mediumCloud = value_now ''mediumCloud'' Forecast"

definition lowCloud :: "'f accessor" where
  "lowCloud = value_now ''lowCloud'' Forecast"

definition RH2MFromModel :: "'f accessor" where
  "RH2MFromModel = value_now ''RH2M'' Forecast"

definition dewPointTemperatureFromModel :: "'f accessor" where
  "dewPointTemperatureFromModel = value_now ''dewPointTemperature'' Forecast"

definition fogProbability :: "'f accessor" where
  "fogProbability = value_now ''fogProability'' Forecast"

definition WIND_PROBABILITY :: "'f accessor" where
  "WIND_PROBABILITY = value_now ''WIND_PROBABILITY'' Forecast"

definition T2M_PROBABILITY_1 :: "'f accessor" where
  "T2M_PROBABILITY_1 = value_now ''T2M_PROBABILITY_1'' Forecast"

definition T2M_PROBABILITY_2 :: "'f accessor" where
  "T2M_PROBABILITY_2 = value_now ''T2M_PROBABILITY_2'' Forecast"

definition T2M_PROBABILITY_3 :: "'f accessor" where
  "T2M_PROBABILITY_3 = value_now ''T2M_PROBABILITY_3'' Forecast"

definition T2M_PROBABILITY_4 :: "'f accessor" where
  "T2M_PROBABILITY_4 = value_now ''T2M_PROBABILITY_4'' Forecast"

definition T2M_PERCENTILE_10 :: "'f accessor" where
  "T2M_PERCENTILE_10 = value_now ''T2M_PERCENTILE_10'' Percentile"

definition T2M_PERCENTILE_25 :: "'f accessor" where
  "T2M_PERCENTILE_25 = value_now ''T2M_PERCENTILE_25'' Percentile"

definition T2M_PERCENTILE_50 :: "'f accessor" where
  "T2M_PERCENTILE_50 = value_now ''T2M_PERCENTILE_50'' Percentile"

definition T2M_PERCENTILE_75 :: "'f accessor" where
  "T2M_PERCENTILE_75 = value_now ''T2M_PERCENTILE_75'' Percentile"

definition T2M_PERCENTILE_90 :: "'f accessor" where
  "T2M_PERCENTILE_90 = value_now ''T2M_PERCENTILE_90'' Percentile"

definition PRECIP_PERCENTILE_10 :: "'f fenv \<Rightarrow> int \<Rightarrow> 'f accessor" where
  "PRECIP_PERCENTILE_10 fe h = value_back fe ''PRECIP_PERCENTILE_10'' Percentile h"

definition PRECIP_PERCENTILE_25 :: "'f fenv \<Rightarrow> int \<Rightarrow> 'f accessor" where
  "PRECIP_PERCENTILE_25 fe h = value_back fe ''PRECIP_PERCENTILE_25'' Percentile h"

definition PRECIP_PERCENTILE_50 :: "'f fenv \<Rightarrow> int \<Rightarrow> 'f accessor" where
  "PRECIP_PERCENTILE_50 fe h = value_back fe ''PRECIP_PERCENTILE_50'' Percentile h"

definition PRECIP_PERCENTILE_75 :: "'f fenv \<Rightarrow> int \<Rightarrow> 'f accessor" where
  "PRECIP_PERCENTILE_75 fe h = value_back fe ''PRECIP_PERCENTILE_75'' Percentile h"

definition PRECIP_PERCENTILE_90 :: "'f fenv \<Rightarrow> int \<Rightarrow> 'f accessor" where
  "PRECIP_PERCENTILE_90 fe h = value_back fe ''PRECIP_PERCENTILE_90'' Percentile h"

definition PRECIP_PROBABILITY_0_1_MM :: "'f fenv \<Rightarrow> int \<Rightarrow> 'f accessor" where
  "PRECIP_PROBABILITY_0_1_MM fe h = value_back fe ''PRECIP_PROBABILITY_0_1MM'' Percentile h"

definition PRECIP_PROBABILITY_0_2_MM :: "'f fenv \<Rightarrow> int \<Rightarrow> 'f accessor" where
  "PRECIP_PROBABILITY_0_2_MM fe h = value_back fe ''PRECIP_PROBABILITY_0_2MM'' Percentile h"

definition PRECIP_PROBABILITY_0_5_MM :: "'f fenv \<Rightarrow> int \<Rightarrow> 'f accessor" where
  "PRECIP_PROBABILITY_0_5_MM fe h = value_back fe ''PRECIP_PROBABILITY_0_5MM'' Percentile h"

definition PRECIP_PROBABILITY_1_0_MM :: "'f fenv \<Rightarrow> int \<Rightarrow> 'f accessor" where
  "PRECIP_PROBABILITY_1_0_MM fe h = value_back fe ''PRECIP_PROBABILITY_1_0MM'' Percentile h"

definition PRECIP_PROBABILITY_2_0_MM :: "'f fenv \<Rightarrow> int \<Rightarrow> 'f accessor" where
  "PRECIP_PROBABILITY_2_0_MM fe h = value_back fe ''PRECIP_PROBABILITY_2_0MM'' Percentile h"

definition PRECIP_PROBABILITY_5_0_MM :: "'f fenv \<Rightarrow> int \<Rightarrow> 'f accessor" where
  "PRECIP_PROBABILITY_5_0_MM fe h = value_back fe ''PRECIP_PROBABILITY_5_0MM'' Percentile h"

definition significantSwellWaveHeight :: "'f accessor" where
  "significantSwellWaveHeight = value_configured ''significantSwellWaveHeight'' ''significantSwellWaveHeight'' Ocean"

definition meanSwellWavePeriode :: "'f accessor" where
  "meanSwellWavePeriode = value_configured ''meanSwellWavePeriode'' ''meanSwellWavePeriode'' Ocean"

definition meanSwellWaveDirection :: "'f accessor" where
  "meanSwellWaveDirection = value_configured ''meanSwellWaveDirection'' ''meanSwellWaveDirection'' Ocean"

definition peakSwellWavePeriode :: "'f accessor" where
  "peakSwellWavePeriode = value_configured ''peakSwellWavePeriode'' ''peakSwellWavePeriode'' Ocean"

definition peakSwellWaveDirection :: "'f accessor" where
  "peakSwellWaveDirection = value_configured ''peakSwellWaveDirection'' ''peakSwellWaveDirection'' Ocean"

definition meanTotalWavePeriode :: "'f accessor" where
  "meanTotalWavePeriode = value_configured ''meanTotalWavePeriode'' ''meanTotalWavePeriode'' Ocean"

definition maximumTotalWaveHeight :: "'f accessor" where
  "maximumTotalWaveHeight = value_configured ''maximumTotalWaveHeight'' ''maximumTotalWaveHeight'' Ocean"

definition seaCurrentVelocityU :: "'f accessor" where
  "seaCurrentVelocityU = value_now ''seaCurrentVelocityU'' Ocean"

definition seaCurrentVelocityV :: "'f accessor" where
  "seaCurrentVelocityV = value_now ''seaCurrentVelocityV'' Ocean"

definition seaSalinity :: "'f accessor" where
  "seaSalinity = value_now ''seaSalinity'' Ocean"

definition seaSurfaceHeight :: "'f accessor" where
  "seaSurfaceHeight = value_now ''seaSurfaceHeight'' Ocean"

definition seaTemperature :: "'f accessor" where
  "seaTemperature = value_now ''seaTemperature'' Ocean"

definition meanTotalWaveDirection :: "'f accessor" where
  "meanTotalWaveDirection = value_now ''meanTotalWaveDirection'' Ocean"

definition significantTotalWaveHeight :: "'f accessor" where
  "significantTotalWaveHeight = value_now ''significantTotalWaveHeight'' Ocean"

section \<open>What a lookup finds\<close>

text \<open>The value of a provider for one period, and the rule of the choice of the provider.\<close>

definition stored :: "'f from_serie \<Rightarrow> vtime \<Rightarrow> string \<Rightarrow> string \<Rightarrow> 'f option" where
  "stored fs t p pm = Option.bind (Option.bind (map_of fs t) (\<lambda>pds. map_of pds p)) (\<lambda>pd. map_of pd pm)"

definition first_stored ::
    "(provider_item \<Rightarrow> bool) \<Rightarrow> provider_item list \<Rightarrow> 'f from_serie \<Rightarrow> vtime \<Rightarrow> string \<Rightarrow> (string \<times> 'f) option" where
  "first_stored ok ps fs t pm =
     map_option (\<lambda>q. (providerWithPlacename q, the (stored fs t (providerWithPlacename q) pm)))
       (find (\<lambda>q. ok q \<and> stored fs t (providerWithPlacename q) pm \<noteq> None) ps)"

definition lookup_choice ::
    "provider_item list \<Rightarrow> 'f from_serie \<Rightarrow> vtime \<Rightarrow> string \<Rightarrow> string \<Rightarrow> bool \<Rightarrow> (string \<times> 'f) option" where
  "lookup_choice ps fs t pm p tryHard =
     (case (if p = [] then None else stored fs t p pm) of
        Some v \<Rightarrow> Some (p, v)
      | None \<Rightarrow> first_stored (\<lambda>q. p = [] \<or> tryHard \<or> provider q = name_prefix p) ps fs t pm)"

lemma first_stored_Cons:
  "first_stored ok (q # qs) fs t pm =
     (case (if ok q then stored fs t (providerWithPlacename q) pm else None) of
        Some v \<Rightarrow> Some (providerWithPlacename q, v)
      | None \<Rightarrow> first_stored ok qs fs t pm)"
  by (auto simp: first_stored_def split: option.splits)

lemma first_stored_Nil [simp]: "first_stored ok [] fs t pm = None"
  by (simp add: first_stored_def)

lemma first_stored_absent: "map_of fs t = None \<Longrightarrow> first_stored ok ps fs t pm = None"
  by (induction ps) (simp_all add: first_stored_Cons stored_def)

lemma first_value_stored:
  "map_of fs t = Some pds \<Longrightarrow> first_value pds pm ps = first_stored (\<lambda>_. True) ps fs t pm"
  by (induction ps) (auto simp: first_stored_Cons stored_def split: option.splits)

text \<open>\<open>getValueImpl\<close> at a proper time.\<close>

lemma impl_open:
  "getValueImpl ps pm fs (Some (At x)) [] used =
     (case first_stored (\<lambda>_. True) ps fs (At x) pm of
        None \<Rightarrow> \<lparr>lk_value = None, lk_from = Some (At x), lk_provider = [], lk_last = used\<rparr>
      | Some (p, v) \<Rightarrow> \<lparr>lk_value = Some v, lk_from = Some (At x), lk_provider = p, lk_last = p\<rparr>)"
  by (cases "map_of fs (At x)")
     (auto simp: getValueImpl_def time_special_def first_stored_absent first_value_stored Let_def split: option.splits)

lemma impl_fixed:
  assumes "p \<noteq> []"
  shows "lk_value (getValueImpl ps pm fs (Some (At x)) p used) = stored fs (At x) p pm"
    and "lk_from (getValueImpl ps pm fs (Some (At x)) p used) = Some (At x)"
    and "lk_provider (getValueImpl ps pm fs (Some (At x)) p used) = p"
    and "stored fs (At x) p pm \<noteq> None \<Longrightarrow> lk_last (getValueImpl ps pm fs (Some (At x)) p used) = p"
  using assms by (auto simp: getValueImpl_def time_special_def stored_def Let_def split: option.splits)

lemma other_places_first:
  assumes "\<forall>q\<in>set qs. providerWithPlacename q \<noteq> []"
    and "lk_from r = Some (At x)" "lk_value r = None"
  shows "lk_value (other_places ps prefix pm fs qs r) =
           map_option snd (first_stored (\<lambda>q. provider q = prefix) qs fs (At x) pm)
         \<and> lk_from (other_places ps prefix pm fs qs r) = Some (At x)
         \<and> lk_provider (other_places ps prefix pm fs qs r) = lk_provider r
         \<and> (\<forall>q w. first_stored (\<lambda>q. provider q = prefix) qs fs (At x) pm = Some (q, w) \<longrightarrow>
              lk_last (other_places ps prefix pm fs qs r) = q)"
  using assms
proof (induction qs arbitrary: r)
  case (Cons q qs)
  have ne: "providerWithPlacename q \<noteq> []"
    using Cons.prems(1) by simp
  show ?case
  proof (cases "provider q = prefix")
    case True
    define r1 where "r1 = (getValueImpl ps pm fs (lk_from r) (providerWithPlacename q) (lk_last r))\<lparr>lk_provider := lk_provider r\<rparr>"
    have r1: "lk_value r1 = stored fs (At x) (providerWithPlacename q) pm" "lk_from r1 = Some (At x)"
      "lk_provider r1 = lk_provider r"
      "stored fs (At x) (providerWithPlacename q) pm \<noteq> None \<Longrightarrow> lk_last r1 = providerWithPlacename q"
      by (simp_all add: r1_def Cons.prems(2) impl_fixed [OF ne])
    have step: "other_places ps prefix pm fs (q # qs) r
        = (if lk_value r1 \<noteq> None then r1 else other_places ps prefix pm fs qs r1)"
      by (simp add: True r1_def Let_def)
    show ?thesis
    proof (cases "stored fs (At x) (providerWithPlacename q) pm")
      case None
      then show ?thesis
        unfolding step using Cons.IH [of r1] Cons.prems(1) r1 True by (simp add: first_stored_Cons)
    next
      case (Some v)
      then show ?thesis
        unfolding step using r1 True by (simp add: first_stored_Cons)
    qed
  next
    case False
    then show ?thesis
      using Cons.IH [of r] Cons.prems by (simp add: first_stored_Cons)
  qed
qed simp

text \<open>\<open>getValue\<close> at a proper time: the value, the provider the family then sticks to, the provider used.\<close>

lemma getValue_choice:
  fixes ps pm and fs :: "'f from_serie" and x p used tryHard
  assumes "\<forall>q\<in>set ps. providerWithPlacename q \<noteq> []"
  defines "r \<equiv> getValue ps pm fs (Some (At x)) p used tryHard False"
    and "c \<equiv> lookup_choice ps fs (At x) pm p tryHard"
  shows "lk_value r = map_option snd c" (is ?V)
    and "lk_provider r = (if p = [] \<or> tryHard \<and> stored fs (At x) p pm = None
           then (case c of None \<Rightarrow> [] | Some (q, _) \<Rightarrow> q) else p)" (is ?P)
    and "\<forall>q w. c = Some (q, w) \<longrightarrow> lk_last r = q" (is ?L)
    and "lk_from r = Some (At x)" (is ?F)
proof -
  have "?V \<and> ?P \<and> ?L \<and> ?F"
  proof (cases "p = []")
    case True
    then show ?thesis
      by (auto simp: r_def c_def lookup_choice_def getValue_def impl_open split: option.splits)
  next
    case ne: False
    define g where "g = getValueImpl ps pm fs (Some (At x)) p used"
    note g = impl_fixed [OF ne, where ps = ps and pm = pm and fs = fs and x = x and used = used, folded g_def]
    show ?thesis
    proof (cases "stored fs (At x) p pm")
      case (Some v)
      then show ?thesis
        using ne g by (simp add: r_def c_def lookup_choice_def getValue_def flip: g_def)
    next
      case None
      show ?thesis
      proof (cases tryHard)
        case True
        have "r = getValueImpl ps pm fs (Some (At x)) [] (lk_last g)"
          using ne g None True by (simp add: r_def getValue_def flip: g_def)
        then show ?thesis
          using ne None True by (auto simp: c_def lookup_choice_def impl_open split: option.splits)
      next
        case False
        have "r = other_places ps (name_prefix p) pm fs ps g"
          using ne g None False by (simp add: r_def getValue_def Let_def flip: g_def)
        then show ?thesis
          using ne None False g other_places_first [OF assms(1), of g x ps "name_prefix p" pm fs]
          by (simp add: c_def lookup_choice_def)
      qed
    qed
  qed
  then show ?V ?P ?L ?F by blast+
qed

lemma slot_put [simp]: "get_slot s (put_slot s p e) = p"
  by (cases s) (simp_all add: get_slot_def put_slot_def)

lemma slot_last [simp]: "get_slot s (e\<lparr>lastUsedProvider := p\<rparr>) = get_slot s e"
  by (simp add: get_slot_def split: slot.split)

lemma put_slot_frame [simp]:
  "timeSerie (put_slot s p e) = timeSerie e" "le_time (put_slot s p e) = le_time e"
  "lastUsedProvider (put_slot s p e) = lastUsedProvider e" "providers_from (put_slot s p e) = providers_from e"
  "le_height (put_slot s p e) = le_height e" "le_config (put_slot s p e) = le_config e"
  "modelTopoProviders (put_slot s p e) = modelTopoProviders e" "le_priority (put_slot s p e) = le_priority e"
  by (cases s; simp add: put_slot_def providers_from_def)+

lemma put_slot_current [simp]: "put_slot s (get_slot s e) e = e"
  by (cases s) (simp_all add: get_slot_def put_slot_def)

text \<open>
  C14: The value of a time is chosen by a rule: the provider its family of values already has, when
  that has the value; else the first provider of the priority list that has it, among those of the
  same name and any place, or among all when the family has no provider yet or the caller tries
  hard. The family keeps its provider, except that it takes the one found in the last two cases (or
  loses it when there is none), and the provider used is the one the value is stored under.
\<close>

theorem value_choice:
  assumes "le_time e = At x" "\<forall>q\<in>set (providers_from e). providerWithPlacename q \<noteq> []"
  shows "let (v, e1) = value_now pm s tryHard e;
             p = get_slot s e;
             c = lookup_choice (providers_from e) (current e) (At x) pm p tryHard
         in v = map_option snd c
            \<and> get_slot s e1 = (if p = [] \<or> tryHard \<and> stored (current e) (At x) p pm = None
                               then (case c of None \<Rightarrow> [] | Some (q, _) \<Rightarrow> q) else p)
            \<and> (\<forall>q w. c = Some (q, w) \<longrightarrow> lastUsedProvider e1 = q)
            \<and> timeSerie e1 = timeSerie e"
  using getValue_choice [OF assms(2), where pm = pm and fs = "current e" and x = x and p = "get_slot s e"
      and used = "lastUsedProvider e" and tryHard = tryHard]
  by (simp add: value_now_def value_from_def value_in_def Let_def assms(1))

section \<open>A concrete element\<close>

text \<open>Whole numbers for floats where a concrete model needs them; an hour has some number of ticks.\<close>

definition int_fenv :: "int \<Rightarrow> int fenv" where
  "int_fenv hr =
     \<lparr>fe_zero = 0, fe_add = (+), fe_sub = (-), fe_mul = (*), fe_half = (\<lambda>x. x div 2), fe_lt = (<), fe_le = (\<le>),
      fe_max = 1000000, fe_small = 1, fe_tenth = 0, fe_weight = (\<lambda>i. 1), fe_floor10 = (\<lambda>x. 10 * x),
      fe_floor10_up = (\<lambda>x. 10 * x), fe_less_bit = (\<lambda>x. x), fe_int = (\<lambda>x. x), fe_int_half = (\<lambda>x. x),
      fe_height_corr = (\<lambda>x. x), fe_wet_bulb = (\<lambda>u c r h. c), fe_dew = (\<lambda>t h. t - h),
      fe_in_range = (\<lambda>t. - 100 < t \<and> t < 105), fe_index = (\<lambda>t. nat ((t + 100) div 5)), fe_rh = (\<lambda>t d. t - d),
      fe_hour = hr\<rparr>"

text \<open>Two providers; the first of the list has no \<open>T2M\<close>.\<close>

definition sample_elem :: "int loc_elem" where
  "sample_elem =
     (loc_elem_new [item ''arome'' [], item ''ec'' ''grid''] [] 0 \<lparr>lc_output = (\<lambda>_. True), lc_thunder = None\<rparr>)
       \<lparr>le_time := At 3600,
        timeSerie := [(At 3600, [(At 3600, [(''arome'', [(''PR'', 1010)]), (''ec [grid]'', [(''T2M'', 7)])])])]\<rparr>"

theorem value_choice_witness:
  "map_option snd (lookup_choice (providers_from sample_elem) (current sample_elem) (At 3600) ''T2M'' [] False) = Some 7
   \<and> fst (value_now ''T2M'' Forecast False sample_elem) = Some 7
   \<and> get_slot Forecast (snd (value_now ''T2M'' Forecast False sample_elem)) = ''ec [grid]''"
proof -
  have e: "le_time sample_elem = At 3600" "providers_from sample_elem = [item ''arome'' [], item ''ec'' ''grid'']"
    "get_slot Forecast sample_elem = []"
    "current sample_elem = [(At 3600, [(''arome'', [(''PR'', 1010)]), (''ec [grid]'', [(''T2M'', 7)])])]"
    by (simp_all add: sample_elem_def loc_elem_new_def providers_from_def get_slot_def current_def om_at_def)
  have c: "lookup_choice (providers_from sample_elem) (current sample_elem) (At 3600) ''T2M'' [] False
      = Some (''ec [grid]'', 7)"
    by (simp add: e lookup_choice_def first_stored_def stored_def providerWithPlacename_def item_def)
  have "\<forall>q\<in>set (providers_from sample_elem). providerWithPlacename q \<noteq> []"
    by (simp add: e providerWithPlacename_def item_def)
  from value_choice [OF e(1) this, of "''T2M''" Forecast False] show ?thesis
    by (simp add: e(3) c Let_def split: prod.splits)
qed

end
