(* ===== verification/LocationValues.thy ===== *)
theory LocationValues
  imports LocationElem
begin

text \<open>
  The values of \<open>src/src/mod_wdb2ts/LocationElem.cpp\<close> that are computed from others or come from the
  constant fields: temperatures, humidity and dew point, thunder, symbols, icing, sea ice and sea
  bottom, topography of the model and of the terrain, land cover; with the two formulas of
  \<open>src/src/miutil/metfunctions.cpp\<close> they use. \<open>INT_MAX\<close>, \<open>INT_MIN\<close> and \<open>FLT_MAX\<close> as "no value" are
  \<^const>\<open>None\<close>.
\<close>

section \<open>Temperatures\<close>

text \<open>\<open>TA\<close>: the value over land when there is one; else the provider is what it was before that lookup, or nothing.\<close>

definition TA :: "'f accessor" where
  "TA tryHard e =
     (let (t2m, e1) = T2M tryHard e;
          (land, e2) = T2M_LAND tryHard e1
      in case land of
           Some x \<Rightarrow> (Some x, e2)
         | None \<Rightarrow> (t2m, e2\<lparr>forecastProvider := forecastProvider e1\<rparr>))"

definition six_hours_value :: "'f fenv \<Rightarrow> string \<Rightarrow> int \<Rightarrow> 'f accessor" where
  "six_hours_value fe pm h tryHard e =
     (if h = 6
      then (let (v, e1) = value_back fe pm Forecast h tryHard e
            in if v = None then value_now pm Forecast tryHard e1 else (v, e1))
      else (None, e))"

definition maxTemperature :: "'f fenv \<Rightarrow> int \<Rightarrow> 'f accessor" where
  "maxTemperature fe = six_hours_value fe ''maxTemperature_6h''"

definition minTemperature :: "'f fenv \<Rightarrow> int \<Rightarrow> 'f accessor" where
  "minTemperature fe = six_hours_value fe ''minTemperature_6h''"

text \<open>The writer of \<open>temperatureCorrected\<close>: it changes the table.\<close>

definition put_corrected :: "'f option \<Rightarrow> 'f pdata \<Rightarrow> 'f pdata" where
  "put_corrected v pd = (case v of None \<Rightarrow> pd | Some x \<Rightarrow> om_put ''temperatureCorrected'' x pd)"

definition fill_corrected :: "'f option \<Rightarrow> 'f pdata \<Rightarrow> 'f pdata" where
  "fill_corrected v pd = (if map_of pd ''temperatureCorrected'' = None then put_corrected v pd else pd)"

definition set_temperatureCorrected :: "'f option \<Rightarrow> string \<Rightarrow> bool \<Rightarrow> 'f loc_elem \<Rightarrow> 'f loc_elem" where
  "set_temperatureCorrected v prov all e =
     (let p = (if prov = [] \<and> \<not> all then forecastProvider e else prov);
          store = (\<lambda>pds. e\<lparr>timeSerie := om_put (le_time e) (om_put (le_time e) pds (current e)) (timeSerie e)\<rparr>)
      in if v = None \<or> (prov = [] \<and> \<not> all \<and> forecastProvider e = []) then e
         else (case map_of (current e) (le_time e) of
                 None \<Rightarrow> e
               | Some pds \<Rightarrow>
                   if all then store (map (\<lambda>(k, pd). (k, fill_corrected v pd)) pds)
                   else (case map_of pds p of None \<Rightarrow> e | Some pd \<Rightarrow> store (om_put p (put_corrected v pd) pds))))"

definition wetBulbTemperature :: "'f fenv \<Rightarrow> 'f accessor" where
  "wetBulbTemperature fe tryHard e =
     (if (case le_config e of None \<Rightarrow> False | Some cfg \<Rightarrow> \<not> lc_output cfg ''symbol:T.WB'') then (None, e)
      else (let (tUhc, e1) = T2M tryHard e;
                (tHc, e2) = temperatureCorrected tryHard e1;
                (rh, e3) = RH2MFromModel False e2
            in case (tUhc, tHc, rh) of
                 (Some u, Some c, Some r) \<Rightarrow>
                   if le_height e = int_min \<or> le_height e = int_max then (None, e3)
                   else (let tw = fe_wet_bulb fe u c r (le_height e)
                         in (Some (if fe_lt fe c tw then c else tw), e3))
               | _ \<Rightarrow> (None, e3)))"

section \<open>Humidity\<close>

text \<open>The table \<open>ewt\<close> has 41 entries; the entry after the index is read too.\<close>

definition dewPointTemperatureToRelativeHumidity :: "'f fenv \<Rightarrow> 'f option \<Rightarrow> 'f option \<Rightarrow> 'f option result" where
  "dewPointTemperatureToRelativeHumidity fe temperature dew =
     (case (temperature, dew) of
        (Some t, Some d) \<Rightarrow>
          if \<not> fe_in_range fe t \<or> \<not> fe_in_range fe d then Inr None
          else if fe_index fe t + 1 \<ge> 41 \<or> fe_index fe d + 1 \<ge> 41 then Inl Undefined_behaviour
          else Inr (Some (fe_rh fe t d))
      | _ \<Rightarrow> Inr None)"

definition dewPointTemperature_of :: "'f fenv \<Rightarrow> 'f option \<Rightarrow> 'f option \<Rightarrow> 'f option" where
  "dewPointTemperature_of fe ta rh =
     (case (ta, rh) of
        (Some t, Some h) \<Rightarrow> (let td = fe_dew fe t h in Some (if fe_le fe td t then td else t))
      | _ \<Rightarrow> None)"

text \<open>\<open>RestoreForecastProvider\<close>: what its constructor keeps and what its destructor does with it.\<close>

definition restored :: "'f loc_elem \<Rightarrow> 'f loc_elem \<Rightarrow> 'f loc_elem" where
  "restored before after = set_forecastprovider (forecastprovider before) after"

definition humidity :: "'f fenv \<Rightarrow> bool \<Rightarrow> 'f loc_elem \<Rightarrow> ('f option \<times> 'f loc_elem) result" where
  "humidity fe tryHard e =
     (let (rh, e1) = RH2MFromModel tryHard e
      in if rh \<noteq> None then Inr (rh, restored e e1)
         else (let (dew, e2) = dewPointTemperatureFromModel tryHard e1;
                   (t, e3) = T2M False e2
               in bind_result (dewPointTemperatureToRelativeHumidity fe t dew) (\<lambda>r. Inr (r, restored e e3))))"

definition dewPointTemperature :: "'f fenv \<Rightarrow> 'f option \<Rightarrow> bool \<Rightarrow> 'f loc_elem \<Rightarrow> ('f option \<times> 'f loc_elem) result" where
  "dewPointTemperature fe usedTemperature tryHard e =
     (if usedTemperature = None then Inr (None, restored e e)
      else (let (rh, e1) = RH2MFromModel tryHard e;
                d1 = dewPointTemperature_of fe usedTemperature rh
            in if d1 \<noteq> None then Inr (d1, restored e e1)
               else (let (dew, e2) = dewPointTemperatureFromModel tryHard e1;
                         (t, e3) = T2M False e2
                     in if dew = None \<or> t = None then Inr (None, restored e e3)
                        else bind_result (dewPointTemperatureToRelativeHumidity fe t dew)
                               (\<lambda>r. Inr (dewPointTemperature_of fe usedTemperature r, restored e e3)))))"

section \<open>Thunder and symbols\<close>

definition hasThunder :: "'f loc_elem \<Rightarrow> bool \<times> 'f loc_elem" where
  "hasThunder e =
     (if thunder_known e then (thunder_on e, e)
      else (let on = (case le_config e of
                        None \<Rightarrow> True
                      | Some cfg \<Rightarrow> (case lc_thunder cfg of None \<Rightarrow> thunder_on e | Some b \<Rightarrow> b))
            in (on, e\<lparr>thunder_known := True, thunder_on := on\<rparr>)))"

definition thunderProbability :: "'f accessor" where
  "thunderProbability tryHard e =
     (let (on, e1) = hasThunder e
      in if on then value_now ''thunderProability'' Forecast tryHard e1 else (None, e1))"

text \<open>A lookup with a provider that is a variable of the function: its value, the start of the period, the provider.\<close>

definition value_local ::
    "string \<Rightarrow> 'f from_serie \<Rightarrow> vtime option \<Rightarrow> string \<Rightarrow> bool \<Rightarrow> 'f loc_elem \<Rightarrow> 'f lookup \<times> 'f loc_elem" where
  "value_local pm fs ft prov tryHard e =
     (let r = getValue (providers_from e) pm fs ft prov (lastUsedProvider e) tryHard False
      in (r, e\<lparr>lastUsedProvider := lk_last r\<rparr>))"

definition symbol_PROBABILITY :: "vtime option \<Rightarrow> bool \<Rightarrow> 'f loc_elem \<Rightarrow> 'f option \<times> vtime option \<times> 'f loc_elem" where
  "symbol_PROBABILITY fromTime tryHard e =
     (let prov = (if symbolProbabilityProvider e \<noteq> [] then symbolProbabilityProvider e
                  else if symbolProvider e \<noteq> [] then symbolProvider e else forecastProvider e);
          (r, e1) = value_local ''symbol_PROBABILITY'' (current e) fromTime prov tryHard e
      in (lk_value r, lk_from r,
          if lk_value r \<noteq> None then e1\<lparr>symbolProbabilityProvider := lk_provider r\<rparr> else e1))"

definition symbol :: "'f fenv \<Rightarrow> bool \<Rightarrow> 'f loc_elem \<Rightarrow> int option \<times> vtime option \<times> 'f loc_elem" where
  "symbol fe tryHard e =
     (let prov = (if symbolProvider e \<noteq> [] then symbolProvider e else forecastProvider e);
          (r, e1) = value_local ''symbol'' (current e) None prov tryHard e
      in case lk_value r of
           None \<Rightarrow> (None, lk_from r, e1)
         | Some s \<Rightarrow> (Some (fe_int_half fe s), lk_from r, e1\<lparr>symbolProvider := lk_provider r\<rparr>))"

definition iceingIndex :: "string \<Rightarrow> 'f accessor" where
  "iceingIndex prov tryHard e =
     (if prov = [] then value_now ''iceingIndex'' Ocean tryHard e
      else (let (r, e1) = value_local ''iceingIndex'' (current e) (Some (le_time e)) prov tryHard e
            in (lk_value r, e1)))"

section \<open>Constant fields\<close>

text \<open>\<open>topoTime\<close>, \<open>seaIceTime\<close>, \<open>seaBottomTopographyTime\<close> and \<open>epoch\<close> are the same time.\<close>

definition const_fields :: "'f loc_elem \<Rightarrow> 'f provider_data option" where
  "const_fields e = Option.bind (map_of (timeSerie e) constFieldTime) (\<lambda>fs. map_of fs constFieldTime)"

text \<open>
  The loop of \<open>seaBottomTopography\<close> and \<open>seaIcePresence\<close>, over the providers that are left: the value
  and the provider last tried. \<open>retVal\<close> is \<open>FLT_MAX\<close> whenever the loop goes on.
\<close>

fun const_loop :: "string \<Rightarrow> 'f provider_data option \<Rightarrow> provider_item list \<Rightarrow> string \<Rightarrow> 'f option \<times> string" where
  "const_loop pm cf [] used = (None, used)"
| "const_loop pm cf (p # ps) used =
     (case cf of
        None \<Rightarrow> const_loop pm cf ps used
      | Some pds \<Rightarrow>
          (case Option.bind (map_of pds (providerWithPlacename p)) (\<lambda>pd. map_of pd pm) of
             Some v \<Rightarrow> (Some v, providerWithPlacename p)
           | None \<Rightarrow> const_loop pm cf ps (providerWithPlacename p)))"

definition const_providers :: "string \<Rightarrow> 'f loc_elem \<Rightarrow> provider_item list" where
  "const_providers useProvider e =
     (if useProvider = [] then le_priority e
      else (case findProvider (le_priority e) useProvider of None \<Rightarrow> [] | Some i \<Rightarrow> [le_priority e ! i]))"

definition seaBottomTopography :: "'f fenv \<Rightarrow> string \<Rightarrow> string \<Rightarrow> 'f loc_elem \<Rightarrow> int option \<times> string" where
  "seaBottomTopography fe usedProvider useProvider e =
     (let (v, u) = const_loop ''seaBottomTopography'' (const_fields e) (const_providers useProvider e) usedProvider
      in (map_option (fe_int fe) v, u))"

definition seaIcePresence :: "string \<Rightarrow> string \<Rightarrow> 'f loc_elem \<Rightarrow> 'f option \<times> string" where
  "seaIcePresence usedProvider useProvider e =
     const_loop ''seaIcePresence'' (const_fields e) (const_providers useProvider e) usedProvider"

text \<open>\<open>topoProvider\<close> may add an alias to the map of the object.\<close>

definition topoProvider :: "string \<Rightarrow> (string, string list) omap \<Rightarrow> string \<times> (string, string list) omap" where
  "topoProvider prov tp =
     (case map_of tp prov of
        Some l \<Rightarrow> (case l of [] \<Rightarrow> (prov, tp) | p # _ \<Rightarrow> (p, tp))
      | None \<Rightarrow>
          (let it = decodeItem prov
           in if placename it = [] then (prov, tp)
              else (case map_of tp (provider it) of
                      Some (p # _) \<Rightarrow> (p, om_change [] prov (\<lambda>l. l @ [p]) tp)
                    | _ \<Rightarrow> (prov, tp))))"

definition topo_value :: "'f fenv \<Rightarrow> string \<Rightarrow> 'f pdata \<Rightarrow> int option" where
  "topo_value fe pm pd = map_option (fe_int fe) (map_of pd pm)"

definition modeltopography :: "'f fenv \<Rightarrow> string \<Rightarrow> 'f loc_elem \<Rightarrow> (int option \<times> 'f loc_elem) result" where
  "modeltopography fe prov e =
     (let (p, tp) = topoProvider prov (modelTopoProviders e);
          e1 = e\<lparr>modelTopoProviders := tp\<rparr>
      in case const_fields e of
           None \<Rightarrow> Inr (None, e1)
         | Some pds \<Rightarrow>
             (case map_of pds (p @ ''__MODEL_TOPO__'') of
                Some pd \<Rightarrow> Inr (topo_value fe ''modeltopography'' pd, e1)
              | None \<Rightarrow>
                  if placename (decodeItem p) \<noteq> [] then Inr (None, e1)
                  else if placename (decodeItem prov) = [] then Inl Undefined_behaviour
                  else (let q = providerWithPlacename (item (provider (decodeItem p)) (placename (decodeItem prov)))
                        in case map_of pds (q @ ''__MODEL_TOPO__'') of
                             None \<Rightarrow> Inr (None, e1)
                           | Some pd \<Rightarrow>
                               Inr (topo_value fe ''modeltopography'' pd,
                                    e1\<lparr>modelTopoProviders := om_change [] prov (\<lambda>l. q # l) tp\<rparr>))))"

definition topography_provider :: "string \<Rightarrow> string option" where
  "topography_provider key = map_option (\<lambda>i. take i key) (find_sub ''__TOPOGRAPHY__'' key)"

definition topography :: "'f fenv \<Rightarrow> string \<Rightarrow> 'f loc_elem \<Rightarrow> int option" where
  "topography fe prov e =
     (case const_fields e of
        None \<Rightarrow> None
      | Some pds \<Rightarrow>
          (case map_of pds (prov @ ''__TOPOGRAPHY__'') of
             Some pd \<Rightarrow> topo_value fe ''topography'' pd
           | None \<Rightarrow>
               if placename (decodeItem prov) \<noteq> [] then None
               else (case find (\<lambda>(k, _). case topography_provider k of
                                           None \<Rightarrow> False
                                         | Some q \<Rightarrow> provider (decodeItem q) = provider (decodeItem prov)) pds of
                       None \<Rightarrow> None
                     | Some (_, pd) \<Rightarrow> topo_value fe ''topography'' pd)))"

definition landcover :: "'f fenv \<Rightarrow> string \<Rightarrow> 'f loc_elem \<Rightarrow> 'f option" where
  "landcover fe prov e =
     (case const_fields e of
        None \<Rightarrow> Some (fe_small fe)
      | Some pds \<Rightarrow> (case map_of pds prov of None \<Rightarrow> Some (fe_small fe) | Some pd \<Rightarrow> map_of pd ''LANDCOVER''))"

text \<open>\<open>computeTempCorrection\<close>: the correction, \<open>relTopo\<close> and \<open>modelTopo\<close>; the last two keep what the caller passed.\<close>

definition computeTempCorrection ::
    "'f fenv \<Rightarrow> string \<Rightarrow> int \<Rightarrow> int \<Rightarrow> 'f loc_elem \<Rightarrow> ('f \<times> int \<times> int \<times> 'f loc_elem) result" where
  "computeTempCorrection fe prov relTopo modelTopo e =
     (if le_height e = int_min then Inr (fe_zero fe, relTopo, modelTopo, e)
      else bind_result (modeltopography fe prov e) (\<lambda>(m, e1).
             case m of
               None \<Rightarrow> Inr (fe_zero fe, relTopo, int_min, e1)
             | Some h \<Rightarrow>
                 let rel = h - le_height e
                 in if rel < int_min \<or> int_max < rel then Inl Undefined_behaviour
                    else Inr (fe_height_corr fe rel, rel, h, e1)))"

section \<open>Properties\<close>

lemma topoProvider_again:
  "topoProvider prov tp = (p, tp1) \<Longrightarrow> topoProvider prov tp1 = (p, tp1)"
  by (auto simp: topoProvider_def om_at_def Let_def split: option.splits list.splits if_splits)

lemma topoProvider_alias:
  "topoProvider prov (om_change [] prov (\<lambda>l. q # l) tp) = (q, om_change [] prov (\<lambda>l. q # l) tp)"
  by (simp add: topoProvider_def)

text \<open>
  \<open>modeltopography\<close> remembers the alias it finds for a provider. Asked again, for the same
  provider and table, it answers the same and changes nothing more.
\<close>

theorem modeltopography_cached:
  assumes "modeltopography fe prov e = Inr (h, e1)"
  shows "modeltopography fe prov e1 = Inr (h, e1)"
proof -
  obtain p tp where tp: "topoProvider prov (modelTopoProviders e) = (p, tp)"
    by force
  have same: "const_fields (e\<lparr>modelTopoProviders := m\<rparr>) = const_fields e" for m
    by (simp add: const_fields_def)
  show ?thesis
  proof (cases "\<exists>pds. const_fields e = Some pds \<and> map_of pds (p @ ''__MODEL_TOPO__'') = None
      \<and> placename (decodeItem p) = []")
    case False
    then have "e1 = e\<lparr>modelTopoProviders := tp\<rparr>"
      using assms tp by (auto simp: modeltopography_def Let_def split: option.splits if_splits)
    then show ?thesis
      using False assms tp topoProvider_again [OF tp]
      by (auto simp: modeltopography_def same Let_def split: option.splits if_splits)
  next
    case True
    then obtain pds where pds: "const_fields e = Some pds" "map_of pds (p @ ''__MODEL_TOPO__'') = None"
      "placename (decodeItem p) = []"
      by blast
    define q where "q = providerWithPlacename (item (provider (decodeItem p)) (placename (decodeItem prov)))"
    show ?thesis
      using assms pds tp topoProvider_again [OF tp] topoProvider_alias [of prov q tp]
      by (auto simp: modeltopography_def same Let_def simp flip: q_def split: option.splits if_splits)
  qed
qed

text \<open>
  \<open>humidity\<close> means to leave the provider of the forecast as it was. When there is none yet, what it
  puts back is the provider of the ocean parameters: from then on the forecast sticks to that one.
\<close>

theorem humidity_takes_ocean:
  assumes "forecastProvider e = []" "oceanProvider e = q" "q \<noteq> []" "humidity fe tryHard e = Inr (rh, e1)"
  shows "forecastProvider e1 = q"
proof -
  have "forecastprovider e = q"
    using assms(1,2,3) by (simp add: forecastprovider_def)
  then have "forecastProvider (restored e a) = q" for a :: "'a loc_elem"
    using assms(3) by (simp add: restored_def set_forecastprovider_def)
  then show ?thesis
    using assms(4) by (auto simp: humidity_def Let_def bind_result_def split: prod.splits if_splits sum.splits)
qed

section \<open>Concrete elements\<close>

definition topo_elem :: "int loc_elem" where
  "topo_elem =
     (loc_elem_new [item ''ec'' ''grid''] [(''ec'', [''topo''])] 0 \<lparr>lc_output = (\<lambda>_. True), lc_thunder = None\<rparr>)
       \<lparr>timeSerie := [(At 0, [(At 0, [(''topo [grid]__MODEL_TOPO__'', [(''modeltopography'', 12)])])])]\<rparr>"

theorem modeltopography_cached_witness:
  "\<exists>e1. modeltopography (int_fenv 1) ''ec [grid]'' topo_elem = Inr (Some 12, e1)
     \<and> modeltopography (int_fenv 1) ''ec [grid]'' e1 = Inr (Some 12, e1)
     \<and> modelTopoProviders e1 = [(''ec'', [''topo'']), (''ec [grid]'', [''topo [grid]'', ''topo''])]"
proof -
  have d: "decodeItem ''ec [grid]'' = item ''ec'' ''grid''" "decodeItem ''topo'' = item ''topo'' []"
    by code_simp+
  have p: "topoProvider ''ec [grid]'' [(''ec'', [''topo''])] = (''topo'', [(''ec'', [''topo'']), (''ec [grid]'', [''topo''])])"
    by code_simp
  have c: "om_change [] ''ec [grid]'' (\<lambda>l. ''topo [grid]'' # l) [(''ec'', [''topo'']), (''ec [grid]'', [''topo''])]
      = [(''ec'', [''topo'']), (''ec [grid]'', [''topo [grid]'', ''topo''])]"
    by code_simp
  obtain e1 where e1: "modeltopography (int_fenv 1) ''ec [grid]'' topo_elem = Inr (Some 12, e1)"
    "modelTopoProviders e1 = [(''ec'', [''topo'']), (''ec [grid]'', [''topo [grid]'', ''topo''])]"
    by (simp add: modeltopography_def topo_elem_def loc_elem_new_def p d const_fields_def constFieldTime_def item_def
        providerWithPlacename_def topo_value_def int_fenv_def c)
  then show ?thesis
    using modeltopography_cached [OF e1(1)] by blast
qed

definition sea_elem :: "int loc_elem" where
  "sea_elem =
     (loc_elem_new [item ''ec'' [], item ''sea'' []] [] 0 \<lparr>lc_output = (\<lambda>_. True), lc_thunder = None\<rparr>)
       \<lparr>le_time := At 1, oceanProvider := ''sea'', timeSerie := [(At 1, [(At 1, [(''ec'', [(''RH2M'', 80)])])])]\<rparr>"

theorem humidity_takes_ocean_witness:
  "\<exists>e1. humidity (int_fenv 1) False sea_elem = Inr (Some 80, e1) \<and> lastUsedProvider e1 = ''ec'' \<and> forecastProvider e1 = ''sea''"
proof -
  have e: "forecastProvider sea_elem = []" "oceanProvider sea_elem = ''sea''"
    by (simp_all add: sea_elem_def loc_elem_new_def)
  obtain e1 where e1: "humidity (int_fenv 1) False sea_elem = Inr (Some 80, e1)" "lastUsedProvider e1 = ''ec''"
    by (simp add: humidity_def RH2MFromModel_def value_now_def value_from_def value_in_def getValue_def impl_open
        first_stored_def stored_def sea_elem_def loc_elem_new_def providers_from_def providerWithPlacename_def item_def
        get_slot_def put_slot_def current_def om_at_def restored_def set_forecastprovider_def Let_def)
  then show ?thesis
    using humidity_takes_ocean [OF e _ e1(1)] by auto
qed

end
