(* ===== verification/Precip.thy ===== *)
theory Precip
  imports LocationElem
begin

text \<open>
  The precipitation of a period, \<open>PRECIP_MEAN\<close>, \<open>PRECIP_1H\<close>, \<open>PRECIP_N\<close>, \<open>PRECIP\<close>,
  \<open>PRECIP_MIN_MAX_MEAN\<close> and \<open>PRECIP_DATA\<close> of \<open>src/src/mod_wdb2ts/LocationElem.cpp\<close>, with the helpers
  on vectors of the file: sums over the elements of the table from one hour after the start of the
  period to the time of the element. The theorems say what is summed and where the weights of
  \<open>PRECIP_MIN_MAX_MEAN\<close> are read out of bounds.
\<close>

section \<open>Numbers\<close>

definition max0 :: "'f fenv \<Rightarrow> 'f \<Rightarrow> 'f" where
  "max0 fe x = (if fe_lt fe (fe_zero fe) x then x else fe_zero fe)"

definition raw :: "'f fenv \<Rightarrow> 'f option \<Rightarrow> 'f" where
  "raw fe v = (case v of None \<Rightarrow> fe_max fe | Some x \<Rightarrow> x)"

definition unraw :: "'f fenv \<Rightarrow> 'f \<Rightarrow> 'f option" where
  "unraw fe x = (if x = fe_max fe then None else Some x)"

fun sum_loop :: "'f fenv \<Rightarrow> 'f list \<Rightarrow> 'f \<Rightarrow> 'f" where
  "sum_loop fe [] s = s"
| "sum_loop fe (x # xs) s = (if x = fe_max fe then fe_max fe else sum_loop fe xs (fe_add fe s x))"

definition sumVector :: "'f fenv \<Rightarrow> 'f list \<Rightarrow> 'f" where
  "sumVector fe v = sum_loop fe v (fe_zero fe)"

text \<open>\<open>std::sort\<close> with \<open>cmp\<close>, the largest first.\<close>

fun insert_desc :: "'f fenv \<Rightarrow> 'f \<Rightarrow> 'f list \<Rightarrow> 'f list" where
  "insert_desc fe x [] = [x]"
| "insert_desc fe x (y # ys) = (if fe_lt fe x y then y # insert_desc fe x ys else x # y # ys)"

definition sortVector :: "'f fenv \<Rightarrow> 'f list \<Rightarrow> 'f list option" where
  "sortVector fe v = (if fe_max fe \<in> set v then None else Some (foldr (insert_desc fe) v []))"

definition maxInVector :: "'f fenv \<Rightarrow> 'f list \<Rightarrow> 'f" where
  "maxInVector fe v = fold (\<lambda>x r. if fe_lt fe r x then x else r) v (fe_small fe)"

section \<open>Sums over the elements of a period\<close>

text \<open>\<open>timeSerie->find( t )\<close> and what follows it.\<close>

definition elements_at :: "vtime \<Rightarrow> 'f time_serie \<Rightarrow> 'f time_serie" where
  "elements_at t ts = dropWhile (\<lambda>(k, _). k \<noteq> t) ts"

text \<open>
  The value of \<open>PRECIP_MEAN\<close> for one element. Once a value was found whose period has no length, that
  is tried for all the following elements.
\<close>

definition mean_value ::
    "'f from_serie \<Rightarrow> vtime \<Rightarrow> vtime option \<Rightarrow> bool \<Rightarrow> bool \<Rightarrow> 'f loc_elem \<Rightarrow> 'f option \<times> bool \<times> vtime option \<times> 'f loc_elem" where
  "mean_value fs t ft isEqual tryHard e =
     (let (v, ft1, e1) = value_in ''PRECIP_MEAN'' Forecast fs (if isEqual then Some t else ft) tryHard False e
      in if v = None \<and> \<not> isEqual
         then (let (w, ft2, e2) = value_in ''PRECIP_MEAN'' Forecast fs (Some t) tryHard False e1
               in (w, True, ft2, e2))
         else (v, isEqual, ft1, e1))"

fun mean_loop ::
    "'f fenv \<Rightarrow> vtime \<Rightarrow> 'f time_serie \<Rightarrow> vtime option \<Rightarrow> bool \<Rightarrow> bool \<Rightarrow> 'f \<Rightarrow> nat \<Rightarrow> 'f loc_elem
       \<Rightarrow> ('f \<times> nat) option \<times> 'f loc_elem" where
  "mean_loop fe stop [] ft isEqual tryHard s n e = (Some (s, n), e)"
| "mean_loop fe stop ((t, fs) # m) ft isEqual tryHard s n e =
     (if \<not> t \<le> stop then (Some (s, n), e)
      else (let (v, eq1, _, e1) = mean_value fs t ft isEqual tryHard e
            in case v of
                 None \<Rightarrow> (None, e1)
               | Some x \<Rightarrow> mean_loop fe stop m (Some t) eq1 False (fe_add fe s (max0 fe x)) (n + 1) e1))"

text \<open>What both sums return: the sum, the start of the period, the object.\<close>

definition sum_result ::
    "'f fenv \<Rightarrow> vtime \<Rightarrow> ('f \<times> nat) option \<times> 'f loc_elem \<Rightarrow> 'f option \<times> vtime option \<times> 'f loc_elem" where
  "sum_result fe back r =
     (case r of
        (None, e1) \<Rightarrow> (None, None, e1)
      | (Some (s, n), e1) \<Rightarrow> if n = 0 then (None, None, e1) else (Some (max0 fe s), Some back, e1))"

definition PRECIP_MEAN :: "'f fenv \<Rightarrow> int \<Rightarrow> bool \<Rightarrow> 'f loc_elem \<Rightarrow> 'f option \<times> vtime option \<times> 'f loc_elem" where
  "PRECIP_MEAN fe hoursBack tryHard e =
     (let from = hours_back fe hoursBack e;
          start = vminus from (- fe_hour fe)
      in sum_result fe from
           (mean_loop fe (le_time e) (elements_at start (timeSerie e)) (Some from) False tryHard (fe_zero fe) 0 e))"

fun hour_loop ::
    "'f fenv \<Rightarrow> vtime \<Rightarrow> 'f time_serie \<Rightarrow> vtime option \<Rightarrow> bool \<Rightarrow> 'f \<Rightarrow> nat \<Rightarrow> 'f loc_elem \<Rightarrow> ('f \<times> nat) option \<times> 'f loc_elem" where
  "hour_loop fe stop [] ft tryHard s n e = (Some (s, n), e)"
| "hour_loop fe stop ((t, fs) # m) ft tryHard s n e =
     (if \<not> t \<le> stop then (Some (s, n), e)
      else (let (v, _, e1) = value_in ''PRECIP_1T'' Forecast fs ft tryHard False e
            in case v of
                 None \<Rightarrow> (None, e1)
               | Some x \<Rightarrow> hour_loop fe stop m (Some t) tryHard (fe_add fe s (max0 fe x)) (n + 1) e1))"

definition PRECIP_1H :: "'f fenv \<Rightarrow> int \<Rightarrow> bool \<Rightarrow> 'f loc_elem \<Rightarrow> 'f option \<times> vtime option \<times> 'f loc_elem" where
  "PRECIP_1H fe hoursBack tryHard e =
     (let from = hours_back fe hoursBack e;
          start = vminus from (- fe_hour fe)
      in sum_result fe from
           (hour_loop fe (le_time e) (elements_at start (timeSerie e)) (Some from) tryHard (fe_zero fe) 0 e))"

section \<open>Differences of accumulated values\<close>

text \<open>
  The walk back from the element to the start of the period; the list holds the element and those
  before it, the nearest first, and the walk gives nothing when it reaches the first of the table.
\<close>

fun walk_back :: "vtime \<Rightarrow> (vtime \<times> 'f from_serie) list \<Rightarrow> (vtime \<times> 'f from_serie) option" where
  "walk_back b [] = None"
| "walk_back b [x] = None"
| "walk_back b (x # y # r) = (if b < fst x then walk_back b (y # r) else Some x)"

text \<open>The whole hours between two times; nothing when one of them is infinite.\<close>

definition hours_between :: "'f fenv \<Rightarrow> vtime \<Rightarrow> vtime \<Rightarrow> int option" where
  "hours_between fe a b = (case (a, b) of (At x, At y) \<Rightarrow> Some (\<bar>x - y\<bar> div fe_hour fe) | _ \<Rightarrow> None)"

definition accumulated_diff ::
    "'f fenv \<Rightarrow> vtime \<Rightarrow> 'f \<Rightarrow> 'f from_serie \<Rightarrow> vtime option \<Rightarrow> bool \<Rightarrow> 'f loc_elem \<Rightarrow> 'f option \<times> vtime option \<times> 'f loc_elem" where
  "accumulated_diff fe back now fs ft tryHard e =
     (let (v, _, e1) = value_in ''PRECIP_ACCUMULATED'' Forecast fs ft tryHard False e
      in case v of
           None \<Rightarrow> (None, None, e1)
         | Some x \<Rightarrow> (Some (max0 fe (fe_sub fe (max0 fe now) (max0 fe x))), Some back, e1))"

definition PRECIP_N :: "'f fenv \<Rightarrow> int \<Rightarrow> bool \<Rightarrow> 'f loc_elem \<Rightarrow> 'f option \<times> vtime option \<times> 'f loc_elem" where
  "PRECIP_N fe hoursBack tryHard e =
     (let back = hours_back fe hoursBack e;
          (now, ft, e1) = value_in ''PRECIP_ACCUMULATED'' Forecast (current e) None tryHard True e
      in case now of
           None \<Rightarrow> (None, None, e1)
         | Some x \<Rightarrow>
             if time_special ft then (None, None, e1)
             else if ft = Some (le_time e)
             then (case walk_back back (rev (filter (\<lambda>(k, _). k \<le> le_time e) (timeSerie e))) of
                     None \<Rightarrow> (None, None, e1)
                   | Some (k, fs) \<Rightarrow> if k \<noteq> back then (None, None, e1) else accumulated_diff fe back x fs None tryHard e1)
             else if hours_between fe (le_time e) (the ft) = Some hoursBack
             then (Some (max0 fe x), Some back, e1)
             else (case map_of (timeSerie e) back of
                     None \<Rightarrow> (None, None, e1)
                   | Some fs \<Rightarrow> accumulated_diff fe back x fs ft tryHard e1))"

section \<open>PRECIP\<close>

text \<open>The first of the three that has a value, rounded.\<close>

definition precip_round :: "'f fenv \<Rightarrow> 'f \<Rightarrow> 'f" where
  "precip_round fe x =
     (let y = (if fe_floor10 fe x = fe_floor10_up fe x then fe_less_bit fe x else x)
      in if fe_le fe y (fe_tenth fe) then fe_zero fe else y)"

definition PRECIP :: "'f fenv \<Rightarrow> int \<Rightarrow> bool \<Rightarrow> 'f loc_elem \<Rightarrow> 'f option \<times> vtime option \<times> 'f loc_elem" where
  "PRECIP fe hoursBack tryHard e =
     (let (v1, b1, e1) = PRECIP_MEAN fe hoursBack tryHard e;
          (v2, b2, e2) = (if v1 = None then PRECIP_N fe hoursBack tryHard e1 else (v1, b1, e1));
          (v3, b3, e3) = (if v2 = None then PRECIP_1H fe hoursBack tryHard e2 else (v2, b2, e2))
      in (map_option (precip_round fe) v3, b3, e3))"

section \<open>PRECIP_MIN_MAX_MEAN\<close>

text \<open>One row per element of the period: \<open>min\<close>, \<open>max\<close>, \<open>mean\<close> and \<open>prob\<close>.\<close>

type_synonym 'f mmm_row = "'f \<times> 'f \<times> 'f \<times> 'f"

definition mmm_value ::
    "'f fenv \<Rightarrow> 'f from_serie \<Rightarrow> vtime \<Rightarrow> vtime option \<Rightarrow> bool \<Rightarrow> bool \<Rightarrow> 'f loc_elem
       \<Rightarrow> ('f mmm_row \<times> bool) option \<times> 'f loc_elem" where
  "mmm_value fe fs t ft isEqual tryHard e =
     (let (mean, eq1, ft1, e1) = mean_value fs t ft isEqual tryHard e
      in case mean of
           None \<Rightarrow> (None, e1)
         | Some me \<Rightarrow>
             let (mn, ft2, e2) = value_in ''PRECIP_MIN'' Forecast fs ft1 False False e1
             in case mn of
                  None \<Rightarrow> (None, e2)
                | Some mi \<Rightarrow>
                    let (mx, ft3, e3) = value_in ''PRECIP_MAX'' Forecast fs ft2 False False e2
                    in case mx of
                         None \<Rightarrow> (None, e3)
                       | Some ma \<Rightarrow>
                           let (pr, _, e4) = value_in ''PRECIP_PROBABILITY'' Forecast fs ft3 False False e3
                           in (Some ((mi, ma, me, raw fe pr), eq1), e4))"

fun mmm_loop ::
    "'f fenv \<Rightarrow> vtime \<Rightarrow> 'f time_serie \<Rightarrow> vtime option \<Rightarrow> bool \<Rightarrow> bool \<Rightarrow> 'f mmm_row list \<Rightarrow> 'f loc_elem
       \<Rightarrow> 'f mmm_row list option \<times> 'f loc_elem" where
  "mmm_loop fe stop [] ft isEqual tryHard rows e = (Some rows, e)"
| "mmm_loop fe stop ((t, fs) # m) ft isEqual tryHard rows e =
     (if \<not> t \<le> stop then (Some rows, e)
      else (case mmm_value fe fs t ft isEqual tryHard e of
              (None, e1) \<Rightarrow> (None, e1)
            | (Some (row, eq1), e1) \<Rightarrow> mmm_loop fe stop m (Some t) eq1 False (rows @ [row]) e1))"

record 'f mmm =
  minOut :: 'f
  maxOut :: 'f
  meanOut :: 'f
  probOut :: 'f

definition mmm_ordered :: "'f fenv \<Rightarrow> 'f \<Rightarrow> 'f \<Rightarrow> 'f \<Rightarrow> 'f \<Rightarrow> 'f mmm" where
  "mmm_ordered fe mi ma me pr =
     (if fe_lt fe ma mi then \<lparr>minOut = ma, maxOut = mi, meanOut = me, probOut = pr\<rparr>
      else \<lparr>minOut = mi, maxOut = ma, meanOut = me, probOut = pr\<rparr>)"

definition zero_if_le :: "'f fenv \<Rightarrow> 'f \<Rightarrow> 'f" where
  "zero_if_le fe x = (if fe_le fe x (fe_zero fe) then fe_zero fe else x)"

definition fmax :: "'f fenv \<Rightarrow> 'f \<Rightarrow> 'f \<Rightarrow> 'f" where
  "fmax fe x y = (if fe_lt fe x y then y else x)"

text \<open>The spread: half the sum of the differences, the largest first, with the weights \<open>a\<close>; there are six of them.\<close>

definition mmm_difs :: "'f fenv \<Rightarrow> 'f mmm_row list \<Rightarrow> 'f list" where
  "mmm_difs fe rows =
     [(let v = fe_sub fe ma mi in if fe_lt fe v (fe_zero fe) then fe_zero fe else v). (mi, ma, _, _) \<leftarrow> rows]"

definition mmm_spread :: "'f fenv \<Rightarrow> 'f list \<Rightarrow> 'f result" where
  "mmm_spread fe difs =
     (if 6 < length difs then Inl Undefined_behaviour
      else Inr (fe_half fe (fold (\<lambda>(d, i) v. fe_add fe v (fe_mul fe d (fe_weight fe i))) (zip difs [0..<length difs]) (fe_zero fe))))"

text \<open>After the loop: nothing is \<open>false\<close>.\<close>

definition mmm_out :: "'f fenv \<Rightarrow> int \<Rightarrow> 'f mmm_row list \<Rightarrow> 'f mmm option result" where
  "mmm_out fe hoursBack rows =
     (let mins = map fst rows;
          maxs = map (fst \<circ> snd) rows;
          means = map (fst \<circ> snd \<circ> snd) rows;
          probs = map (snd \<circ> snd \<circ> snd) rows;
          mean = max0 fe (sumVector fe means)
      in if hoursBack = 1
         then (case rows of
                 [] \<Rightarrow> Inl Undefined_behaviour
               | (mi, ma, me, pr) # _ \<Rightarrow>
                   Inr (Some (mmm_ordered fe (zero_if_le fe (max0 fe mi)) (zero_if_le fe (max0 fe ma))
                                (zero_if_le fe (max0 fe me)) (max0 fe pr))))
         else if hoursBack > 6
         then Inr (Some \<lparr>minOut = fe_max fe, maxOut = fe_max fe, meanOut = mean, probOut = fe_max fe\<rparr>)
         else (case sortVector fe (mmm_difs fe rows) of
                 None \<Rightarrow> Inr None
               | Some difs \<Rightarrow>
                   bind_result (mmm_spread fe difs) (\<lambda>v.
                     let mi = fmax fe (max0 fe (sumVector fe mins)) (max0 fe (fe_sub fe mean v));
                         ma = max0 fe (fe_add fe mean v);
                         top = fold (\<lambda>x r. if fe_lt fe r x then x else r) maxs (fe_zero fe)
                     in Inr (Some (mmm_ordered fe (zero_if_le fe mi) (if fe_lt fe ma top then top else ma) mean
                                     (max0 fe (maxInVector fe probs)))))))"

definition PRECIP_MIN_MAX_MEAN ::
    "'f fenv \<Rightarrow> int \<Rightarrow> bool \<Rightarrow> 'f loc_elem \<Rightarrow> ('f mmm option \<times> vtime option \<times> 'f loc_elem) result" where
  "PRECIP_MIN_MAX_MEAN fe hoursBack tryHard e =
     (let from = hours_back fe hoursBack e;
          start = vminus from (- fe_hour fe)
      in case elements_at start (timeSerie e) of
           [] \<Rightarrow> Inr (None, None, e)
         | m # ms \<Rightarrow>
             (case mmm_loop fe (le_time e) (m # ms) (Some from) False tryHard [] e of
                (None, e1) \<Rightarrow> Inr (None, None, e1)
              | (Some rows, e1) \<Rightarrow> bind_result (mmm_out fe hoursBack rows) (\<lambda>r. Inr (r, Some from, e1))))"

definition PRECIP_DATA ::
    "'f fenv \<Rightarrow> int \<Rightarrow> bool \<Rightarrow> 'f loc_elem \<Rightarrow> ('f option \<times> 'f mmm option \<times> vtime option \<times> 'f loc_elem) result" where
  "PRECIP_DATA fe hoursBack tryHard e =
     bind_result (PRECIP_MIN_MAX_MEAN fe hoursBack tryHard e) (\<lambda>(r, b, e1).
       case r of
         Some m \<Rightarrow> Inr (unraw fe (meanOut m), Some m, b, e1)
       | None \<Rightarrow> (let (v, b2, e2) = PRECIP fe hoursBack tryHard e1 in Inr (v, None, b2, e2)))"

section \<open>What PRECIP_MEAN sums\<close>

text \<open>The values of a provider for the consecutive periods of some elements, the first from a given time.\<close>

fun period_values :: "string \<Rightarrow> string \<Rightarrow> int \<Rightarrow> (int \<times> 'f from_serie) list \<Rightarrow> 'f option list" where
  "period_values pm p start [] = []"
| "period_values pm p start ((t, fs) # m) = stored fs (At start) p pm # period_values pm p t m"

lemma period_values_length [simp]: "length (period_values pm p start ys) = length ys"
  by (induction pm p start ys rule: period_values.induct) simp_all

lemma value_in_stored:
  assumes "get_slot s e = p" "p \<noteq> []" "stored fs (At t) p pm = Some v"
  shows "value_in pm s fs (Some (At t)) tryHard False e = (Some v, Some (At t), e\<lparr>lastUsedProvider := p\<rparr>)"
proof -
  have "getValue (providers_from e) pm fs (Some (At t)) p (lastUsedProvider e) tryHard False
      = getValueImpl (providers_from e) pm fs (Some (At t)) p (lastUsedProvider e)"
    using impl_fixed [OF assms(2), where ps = "providers_from e" and pm = pm and fs = fs and x = t
        and used = "lastUsedProvider e"] assms(3)
    by (simp add: getValue_def Let_def)
  moreover have "put_slot s p e = e"
    using put_slot_current [of s e] by (simp only: assms(1))
  ultimately show ?thesis
    using assms impl_fixed [OF assms(2), where ps = "providers_from e" and pm = pm and fs = fs and x = t
        and used = "lastUsedProvider e"]
    by (simp add: value_in_def Let_def)
qed

lemma mean_loop_sums:
  assumes "get_slot Forecast e = p" "p \<noteq> []" "period_values ''PRECIP_MEAN'' p start ys = map Some vs"
    and "\<forall>y\<in>set ys. fst y \<le> x" "rest = [] \<or> At x < fst (hd rest)"
  shows "mean_loop fe (At x) (map (apfst At) ys @ rest) (Some (At start)) False tryHard s n e
       = (Some (foldl (fe_add fe) s (map (max0 fe) vs), n + length vs),
          if ys = [] then e else e\<lparr>lastUsedProvider := p\<rparr>)"
  using assms
proof (induction ys arbitrary: start vs s n e tryHard)
  case Nil
  then show ?case
    by (cases rest) auto
next
  case (Cons y ys)
  obtain t fs where y: "y = (t, fs)"
    by force
  obtain v ws where vs: "vs = v # ws" "stored fs (At start) p ''PRECIP_MEAN'' = Some v"
    "period_values ''PRECIP_MEAN'' p t ys = map Some ws"
    using Cons.prems(3) by (auto simp: y Cons_eq_map_conv)
  have le: "At t \<le> At x"
    using Cons.prems(4) by (simp add: y less_eq_vtime_def)
  have v: "mean_value fs (At t) (Some (At start)) False tryHard e
      = (Some v, False, Some (At start), e\<lparr>lastUsedProvider := p\<rparr>)"
    using value_in_stored [OF Cons.prems(1,2) vs(2), of tryHard] by (simp add: mean_value_def)
  have slot: "get_slot Forecast (e\<lparr>lastUsedProvider := p\<rparr>) = p"
    using Cons.prems(1) by simp
  show ?case
    using Cons.IH [OF slot Cons.prems(2) vs(3) _ Cons.prems(5)] Cons.prems(4) le v
    by (simp add: y vs(1))
qed

text \<open>
  When the provider of the forecast has the precipitation of every one of the consecutive
  periods from the start to the time of the element, \<open>PRECIP_MEAN\<close> is their sum, where a negative
  value counts as zero; it tells the start of the period, and uses that provider.
\<close>

theorem mean_sums_periods:
  assumes "le_time e = At x" "forecastProvider e = p" "p \<noteq> []"
    and "elements_at (At (x - h * fe_hour fe + fe_hour fe)) (timeSerie e) = map (apfst At) ys @ rest"
    and "ys \<noteq> []" "\<forall>y\<in>set ys. fst y \<le> x" "rest = [] \<or> At x < fst (hd rest)"
    and "period_values ''PRECIP_MEAN'' p (x - h * fe_hour fe) ys = map Some vs"
  shows "PRECIP_MEAN fe h tryHard e =
     (Some (max0 fe (foldl (fe_add fe) (fe_zero fe) (map (max0 fe) vs))), Some (At (x - h * fe_hour fe)),
      e\<lparr>lastUsedProvider := p\<rparr>)"
proof -
  have "get_slot Forecast e = p"
    using assms(2) by (simp add: get_slot_def)
  note loop = mean_loop_sums [OF this assms(3) assms(8) assms(6) assms(7), of fe tryHard "fe_zero fe" 0]
  have "length vs = length ys"
    using arg_cong [OF assms(8), of length] by simp
  then show ?thesis
    using loop assms(1,4,5) by (simp add: PRECIP_MEAN_def Let_def hours_back_def vminus_def sum_result_def)
qed

section \<open>The weights of PRECIP_MIN_MAX_MEAN\<close>

lemma insert_desc_length [simp]: "length (insert_desc fe x ys) = Suc (length ys)"
  by (induction ys) simp_all

lemma sort_desc_length: "sortVector fe v = Some w \<Longrightarrow> length w = length v"
proof -
  have "length (foldr (insert_desc fe) v []) = length v"
    by (induction v) simp_all
  then show "sortVector fe v = Some w \<Longrightarrow> length w = length v"
    by (auto simp: sortVector_def split: if_splits)
qed

lemma mmm_out_overrun:
  "mmm_out fe h rows = Inl er \<longleftrightarrow>
     er = Undefined_behaviour
     \<and> (h = 1 \<and> rows = [] \<or> h \<noteq> 1 \<and> h \<le> 6 \<and> 6 < length rows \<and> fe_max fe \<notin> set (mmm_difs fe rows))"
proof -
  have "length (mmm_difs fe rows) = length rows"
    by (simp add: mmm_difs_def)
  then show ?thesis
    using sort_desc_length [of fe "mmm_difs fe rows"]
    by (auto simp: mmm_out_def mmm_spread_def Let_def sortVector_def split: list.splits option.splits)
qed

lemma mmm_loop_length:
  "mmm_loop fe stop m ft eq th rows e = (Some rows', e1) \<Longrightarrow>
     length rows' = length rows + length (takeWhile (\<lambda>(t, _). t \<le> stop) m)"
proof (induction m arbitrary: ft eq th rows e)
  case (Cons a m)
  then show ?case
    by (cases a) (auto split: if_splits prod.splits option.splits)
qed simp

text \<open>At most one element an hour: no more elements than hours.\<close>

lemma hourly_count:
  fixes ks :: "int list"
  assumes "distinct ks" "0 < H" "\<forall>k\<in>set ks. a \<le> k \<and> k \<le> x \<and> k mod H = x mod H" "a = x - (h - 1) * H"
  shows "length ks \<le> nat h"
proof -
  have q: "\<exists>q\<ge>0. k = x - q * H \<and> q < h" if "k \<in> set ks" for k
  proof -
    have "H dvd x - k"
      using assms(3) that by (metis mod_eq_dvd_iff)
    then obtain q where q: "x - k = H * q" ..
    have "0 \<le> H * q" "H * q \<le> (h - 1) * H"
      using assms(3,4) that q by auto
    then have "0 \<le> q" "q \<le> h - 1"
      using assms(2) by (simp add: zero_le_mult_iff, simp add: mult.commute)
    then show ?thesis
      using q by (intro exI [of _ q]) (simp add: algebra_simps)
  qed
  have "set ks \<subseteq> (\<lambda>q. x - q * H) ` {0..<h}"
    using q by fastforce
  then have "card (set ks) \<le> card {0..<h}"
    by (meson card_image_le card_mono finite_atLeastLessThan_int finite_imageI le_trans)
  then show ?thesis
    using distinct_card [OF assms(1)] by simp
qed

lemma mmm_loop_nonempty:
  assumes "mmm_loop fe stop ((t, fs) # m) ft eq th [] e = (Some rows, e1)" "t \<le> stop"
  shows "rows \<noteq> []"
  using mmm_loop_length [OF assms(1)] assms(2) by auto

lemma elements_at_keys:
  assumes "om_wf ts" "k \<in> fst ` set (elements_at t ts)"
  shows "t \<le> k \<and> k \<in> fst ` set ts"
  using assms
proof (induction ts)
  case (Cons a ts)
  then show ?case
    by (cases a) (force simp: elements_at_def om_wf_def split: if_splits)
qed (simp add: elements_at_def)

lemma elements_at_sorted: "om_wf ts \<Longrightarrow> om_wf (elements_at t ts)"
  by (induction ts) (auto simp: elements_at_def om_wf_def)

lemma elements_at_first: "elements_at t ts = (k, fs) # m \<Longrightarrow> k = t"
  by (induction ts) (auto simp: elements_at_def split: if_splits)

lemma period_count:
  assumes wf: "om_wf ts" and H: "0 < H"
    and hourly: "\<forall>(k, _)\<in>set ts. case k of At y \<Rightarrow> y mod H = x mod H | _ \<Rightarrow> True"
  shows "length (takeWhile (\<lambda>(t, _). t \<le> At x) (elements_at (At (x - (h - 1) * H)) ts)) \<le> nat h"
proof -
  define m where "m = takeWhile (\<lambda>(t, _). t \<le> At x) (elements_at (At (x - (h - 1) * H)) ts)"
  define ks where "ks = map (\<lambda>(k, _). case k of At y \<Rightarrow> y | _ \<Rightarrow> 0) m"
  have k: "\<exists>y. k = At y \<and> x - (h - 1) * H \<le> y \<and> y \<le> x \<and> y mod H = x mod H" if "(k, fs) \<in> set m" for k fs
  proof -
    have "k \<le> At x" "(k, fs) \<in> set (elements_at (At (x - (h - 1) * H)) ts)"
      using that set_takeWhileD by (fastforce simp: m_def)+
    moreover from this have "At (x - (h - 1) * H) \<le> k" "(k, fs) \<in> set ts"
      using elements_at_keys [OF wf] by (force, auto simp: elements_at_def dest: set_dropWhileD)
    ultimately show ?thesis
      using hourly by (cases k) (auto simp: less_eq_vtime_def)
  qed
  have "om_wf m"
    using elements_at_sorted [OF wf] unfolding m_def om_wf_def sorted_wrt_map
    by (subst takeWhile_eq_take) (rule sorted_wrt_take)
  then have "distinct (map fst m)"
    by (auto simp: om_wf_def strict_sorted_iff)
  moreover have "map fst m = map At ks"
    using k by (force simp: ks_def)
  ultimately have "distinct ks"
    by (simp add: distinct_map)
  moreover have "\<forall>y\<in>set ks. x - (h - 1) * H \<le> y \<and> y \<le> x \<and> y mod H = x mod H"
    using k by (force simp: ks_def)
  ultimately show ?thesis
    using hourly_count [OF _ H] by (fastforce simp: ks_def m_def)
qed

lemma mmm_cases:
  assumes "le_time e = At x"
  shows "PRECIP_MIN_MAX_MEAN fe h th e = Inl er \<longleftrightarrow>
     (\<exists>m ms rows e1.
        elements_at (At (x - (h - 1) * fe_hour fe)) (timeSerie e) = m # ms
        \<and> mmm_loop fe (At x) (m # ms) (Some (At (x - h * fe_hour fe))) False th [] e = (Some rows, e1)
        \<and> mmm_out fe h rows = Inl er)"
proof -
  have *: "x - (h - 1) * fe_hour fe = x - h * fe_hour fe + fe_hour fe"
    by (simp add: algebra_simps)
  note [simp] = assms hours_back_def vminus_def bind_result_def Let_def and [simp del] = mmm_loop.simps
  show ?thesis
  proof (cases "elements_at (At (x - h * fe_hour fe + fe_hour fe)) (timeSerie e)")
    case Nil
    then show ?thesis
      by (simp add: * PRECIP_MIN_MAX_MEAN_def)
  next
    case (Cons m ms)
    obtain r e1 where loop: "mmm_loop fe (At x) (m # ms) (Some (At (x - h * fe_hour fe))) False th [] e = (r, e1)"
      by force
    show ?thesis
      by (cases r) (auto simp: * PRECIP_MIN_MAX_MEAN_def Cons loop split: sum.splits)
  qed
qed


text \<open>The rows of a provider for consecutive periods.\<close>

definition stored_row :: "'f from_serie \<Rightarrow> int \<Rightarrow> string \<Rightarrow> 'f mmm_row option" where
  "stored_row fs start p =
     (case (stored fs (At start) p ''PRECIP_MIN'', stored fs (At start) p ''PRECIP_MAX'',
            stored fs (At start) p ''PRECIP_MEAN'', stored fs (At start) p ''PRECIP_PROBABILITY'') of
        (Some a, Some b, Some c, Some d) \<Rightarrow> Some (a, b, c, d)
      | _ \<Rightarrow> None)"

fun period_rows :: "string \<Rightarrow> int \<Rightarrow> (int \<times> 'f from_serie) list \<Rightarrow> 'f mmm_row option list" where
  "period_rows p start [] = []"
| "period_rows p start ((t, fs) # m) = stored_row fs start p # period_rows p t m"

lemma mmm_value_stored:
  assumes "get_slot Forecast e = p" "p \<noteq> []" "stored_row fs start p = Some row"
  shows "mmm_value fe fs t (Some (At start)) False tryHard e = (Some (row, False), e\<lparr>lastUsedProvider := p\<rparr>)"
proof -
  obtain a b c d where row: "row = (a, b, c, d)" "stored fs (At start) p ''PRECIP_MIN'' = Some a"
    "stored fs (At start) p ''PRECIP_MAX'' = Some b" "stored fs (At start) p ''PRECIP_MEAN'' = Some c"
    "stored fs (At start) p ''PRECIP_PROBABILITY'' = Some d"
    using assms(3) by (auto simp: stored_row_def split: option.splits)
  have slot: "get_slot Forecast (e\<lparr>lastUsedProvider := p\<rparr>) = p"
    using assms(1) by simp
  show ?thesis
    using value_in_stored [OF assms(1,2) row(4), of tryHard] value_in_stored [OF slot assms(2) row(2), of False]
      value_in_stored [OF slot assms(2) row(3), of False] value_in_stored [OF slot assms(2) row(5), of False]
    by (simp add: mmm_value_def mean_value_def row(1) raw_def)
qed

lemma mmm_loop_rows:
  assumes "get_slot Forecast e = p" "p \<noteq> []" "period_rows p start ys = map Some rows"
    and "\<forall>y\<in>set ys. fst y \<le> x" "rest = [] \<or> At x < fst (hd rest)"
  shows "\<exists>e1. mmm_loop fe (At x) (map (apfst At) ys @ rest) (Some (At start)) False tryHard rs e = (Some (rs @ rows), e1)"
  using assms
proof (induction ys arbitrary: start rows rs e tryHard)
  case Nil
  then show ?case
    by (cases rest) auto
next
  case (Cons y ys)
  obtain t fs where y: "y = (t, fs)"
    by force
  obtain r ws where rows: "rows = r # ws" "stored_row fs start p = Some r" "period_rows p t ys = map Some ws"
    using Cons.prems(3) by (auto simp: y Cons_eq_map_conv)
  have le: "At t \<le> At x"
    using Cons.prems(4) by (simp add: y less_eq_vtime_def)
  have slot: "get_slot Forecast (e\<lparr>lastUsedProvider := p\<rparr>) = p"
    using Cons.prems(1) by simp
  show ?case
    using Cons.IH [OF slot Cons.prems(2) rows(3) _ Cons.prems(5), of False "rs @ [r]"] Cons.prems(4) le
      mmm_value_stored [OF Cons.prems(1,2) rows(2)]
    by (simp add: y rows(1))
qed

text \<open>
  \<open>PRECIP_MIN_MAX_MEAN\<close> of two to six hours reads past the end of its array of weights exactly
  when the provider has values for more than six consecutive periods there, as a table with two
  elements an hour has for four hours.
\<close>

theorem weights_overrun:
  assumes "le_time e = At x" "forecastProvider e = p" "p \<noteq> []" "1 < h" "h \<le> 6"
    and "elements_at (At (x - h * fe_hour fe + fe_hour fe)) (timeSerie e) = map (apfst At) ys @ rest"
    and "ys \<noteq> []" "\<forall>y\<in>set ys. fst y \<le> x" "rest = [] \<or> At x < fst (hd rest)"
    and "period_rows p (x - h * fe_hour fe) ys = map Some rows" "fe_max fe \<notin> set (mmm_difs fe rows)"
  shows "PRECIP_MIN_MAX_MEAN fe h tryHard e = Inl Undefined_behaviour \<longleftrightarrow> 6 < length rows"
proof -
  have "get_slot Forecast e = p"
    using assms(2) by (simp add: get_slot_def)
  then obtain e1 where loop: "mmm_loop fe (At x) (map (apfst At) ys @ rest) (Some (At (x - h * fe_hour fe)))
      False tryHard [] e = (Some rows, e1)"
    using mmm_loop_rows [OF _ assms(3,10,8,9), where rs = "[]"] by fastforce
  obtain m ms where m: "map (apfst At) ys @ rest = m # ms"
    using assms(7) by (cases ys) auto
  have "elements_at (At (x - (h - 1) * fe_hour fe)) (timeSerie e) = m # ms"
    using assms(6) m by (simp add: algebra_simps)
  then show ?thesis
    using mmm_cases [OF assms(1), where fe = fe and h = h and th = tryHard and er = Undefined_behaviour] assms(4,5,6,11) loop
    by (simp add: m mmm_out_overrun del: mmm_loop.simps)
qed

section \<open>Concrete tables\<close>

text \<open>A table with an element for every time up to one, and the start of each period.\<close>

definition rain :: "int \<Rightarrow> (string \<times> int pdata) list" where
  "rain v = [(''ec'', [(''PRECIP_MAX'', v + 1), (''PRECIP_MEAN'', v), (''PRECIP_MIN'', v - 1), (''PRECIP_PROBABILITY'', 50)])]"

definition rain_elem :: "(int \<Rightarrow> int) \<Rightarrow> int \<Rightarrow> int loc_elem" where
  "rain_elem start n =
     (loc_elem_new [item ''ec'' []] [] 0 \<lparr>lc_output = (\<lambda>_. True), lc_thunder = None\<rparr>)
       \<lparr>le_time := At n, forecastProvider := ''ec'',
        timeSerie := map (\<lambda>i. (At i, [(At (start i), rain (2 * i))])) [0..n]\<rparr>"

theorem mean_sums_periods_witness:
  "PRECIP_MEAN (int_fenv 1) 3 False (rain_elem (\<lambda>i. i - 1) 3) = (Some 12, Some (At 0), (rain_elem (\<lambda>i. i - 1) 3)\<lparr>lastUsedProvider := ''ec''\<rparr>)"
proof -
  have t: "le_time (rain_elem (\<lambda>i. i - 1) 3) = At 3" "forecastProvider (rain_elem (\<lambda>i. i - 1) 3) = ''ec''"
    by (simp_all add: rain_elem_def)
  have upt: "[0..3] = [0, 1, 2, 3::int]"
    by (simp add: upto.simps)
  have el: "elements_at (At (3 - 3 * fe_hour (int_fenv 1) + fe_hour (int_fenv 1))) (timeSerie (rain_elem (\<lambda>i. i - 1) 3))
      = map (apfst At) (map (\<lambda>i. (i, [(At (i - 1), rain (2 * i))])) [1, 2, 3]) @ []"
    by (simp add: rain_elem_def elements_at_def int_fenv_def upt)
  have pv: "period_values ''PRECIP_MEAN'' ''ec'' (3 - 3 * fe_hour (int_fenv 1))
      (map (\<lambda>i. (i, [(At (i - 1), rain (2 * i))])) [1, 2, 3]) = map Some [2, 4, 6]"
    by (simp add: stored_def rain_def int_fenv_def)
  show ?thesis
    using mean_sums_periods [OF t _ el _ _ _ pv, where tryHard = False] by (simp add: int_fenv_def max0_def)
qed


theorem weights_overrun_witness:
  "PRECIP_MIN_MAX_MEAN (int_fenv 2) 4 True (rain_elem (\<lambda>i. if i = 3 then 1 else i - 1) 9) = Inl Undefined_behaviour"
proof -
  let ?e = "rain_elem (\<lambda>i. if i = 3 then 1 else i - 1) 9"
  have t: "le_time ?e = At 9" "forecastProvider ?e = ''ec''"
    by (simp_all add: rain_elem_def)
  have upt: "[0..9] = [0, 1, 2, 3, 4, 5, 6, 7, 8, 9::int]"
    by (simp add: upto.simps)
  define ys where "ys = map (\<lambda>i. (i, [(At (if i = 3 then 1 else i - 1), rain (2 * i))])) [3, 4, 5, 6, 7, 8, 9]"
  have el: "elements_at (At (9 - 4 * fe_hour (int_fenv 2) + fe_hour (int_fenv 2))) (timeSerie ?e) = map (apfst At) ys @ []"
    by (simp add: rain_elem_def elements_at_def int_fenv_def upt ys_def)
  have rows: "period_rows ''ec'' (9 - 4 * fe_hour (int_fenv 2)) ys
      = map Some (map (\<lambda>v. (v - 1, v + 1, v, 50)) [6, 8, 10, 12, 14, 16, 18])"
    by (simp add: stored_row_def stored_def rain_def int_fenv_def ys_def)
  show ?thesis
    using weights_overrun [OF t _ _ _ el _ _ _ rows, where tryHard = True] by (simp add: ys_def int_fenv_def mmm_difs_def)
qed

end
