(* ===== verification/LocationData.thy ===== *)
theory LocationData
  imports LocationValues
begin

text \<open>
  \<open>src/src/mod_wdb2ts/LocationData.h\<close> and \<open>LocationData.cpp\<close>: the iteration over the times of a table,
  with the element of \<open>LocationElem\<close> as its current value, the removal of the times before the first
  useful one, and the height of the place. The iterator is the key it stands on, \<^const>\<open>None\<close> is
  \<open>end()\<close>; \<open>ld_serie\<close> is the table behind the pointer, nothing when that is null. The element and the
  object share the table: \<open>elem_changed\<close> is what a caller does that writes through the element.
\<close>

section \<open>The object\<close>

record 'f loc_data =
  ld_priority :: "provider_item list"
  ld_topography :: "string list"
  ld_serie :: "'f time_serie option"
  ld_it :: "vtime option"
  ld_elem :: "'f loc_elem"
  ld_timespan :: int
  ld_provider :: string

definition table :: "'f loc_data \<Rightarrow> 'f time_serie" where
  "table d = (case ld_serie d of None \<Rightarrow> [] | Some ts \<Rightarrow> ts)"

definition elem_changed :: "'f loc_elem \<Rightarrow> 'f loc_data \<Rightarrow> 'f loc_data" where
  "elem_changed e d = d\<lparr>ld_elem := e, ld_serie := Some (timeSerie e)\<rparr>"

section \<open>cleanup\<close>

text \<open>A time of the forecast: neither infinite nor that of the constant fields.\<close>

definition proper :: "vtime \<Rightarrow> bool" where
  "proper t \<longleftrightarrow> \<not> time_special (Some t) \<and> t \<noteq> constFieldTime"

definition has_data_set :: "provider_item \<Rightarrow> 'f from_serie \<Rightarrow> bool" where
  "has_data_set p fs \<longleftrightarrow>
     list_ex (\<lambda>(ft, pds). proper ft
                \<and> (case map_of pds (providerWithPlacename p) of None \<Rightarrow> False | Some pd \<Rightarrow> pdata_count pd > 1)) fs"

fun cleanup_time :: "provider_item list \<Rightarrow> 'f time_serie \<Rightarrow> vtime option" where
  "cleanup_time [] ts = None"
| "cleanup_time (p # ps) ts =
     (case find (\<lambda>(t, fs). proper t \<and> has_data_set p fs) ts of
        Some (t, _) \<Rightarrow> Some t
      | None \<Rightarrow> cleanup_time ps ts)"

fun erase_before :: "vtime \<Rightarrow> 'f time_serie \<Rightarrow> 'f time_serie" where
  "erase_before t0 [] = []"
| "erase_before t0 ((t, fs) # m) =
     (if \<not> proper t then (t, fs) # erase_before t0 m
      else if t < t0 then erase_before t0 m
      else (t, fs) # m)"

definition cleanup :: "provider_item list \<Rightarrow> 'f time_serie option \<Rightarrow> 'f time_serie option result" where
  "cleanup ps serie =
     (if ps = [] then Inr serie
      else (case serie of
              None \<Rightarrow> Inl Undefined_behaviour
            | Some ts \<Rightarrow> Inr (Some (case cleanup_time ps ts of None \<Rightarrow> ts | Some t0 \<Rightarrow> erase_before t0 ts))))"

definition first_key :: "('k \<times> 'v) list \<Rightarrow> 'k option" where
  "first_key m = (case m of [] \<Rightarrow> None | (k, _) # _ \<Rightarrow> Some k)"

definition loc_data_new ::
    "'f time_serie option \<Rightarrow> int \<Rightarrow> provider_item list \<Rightarrow> (string, string list) omap \<Rightarrow> string list \<Rightarrow> loc_config
       \<Rightarrow> 'f loc_data result" where
  "loc_data_new serie hight ps topo topos cfg =
     bind_result (cleanup ps serie) (\<lambda>ts.
       Inr \<lparr>ld_priority = ps, ld_topography = topos, ld_serie = ts, ld_it = Option.bind ts first_key,
            ld_elem = loc_elem_new ps topo hight cfg, ld_timespan = 0, ld_provider = []\<rparr>)"

section \<open>Iteration\<close>

definition hasDataForTime :: "vtime \<Rightarrow> vtime \<Rightarrow> string \<Rightarrow> 'f loc_data \<Rightarrow> bool" where
  "hasDataForTime fromtime totime prov d \<longleftrightarrow>
     Option.bind (Option.bind (map_of (table d) totime) (\<lambda>fs. map_of fs fromtime)) (\<lambda>pds. map_of pds prov) \<noteq> None"

text \<open>\<open>findFirstDataSet\<close> never looks at the first element.\<close>

definition findFirstDataSet :: "'f fenv \<Rightarrow> string \<Rightarrow> vtime option \<Rightarrow> 'f loc_data \<Rightarrow> vtime option" where
  "findFirstDataSet fe prov startAt d =
     map_option fst
       (find (\<lambda>(t, fs). (time_special startAt \<or> \<not> t < the startAt)
                        \<and> Option.bind (map_of fs (vminus t (ld_timespan d * fe_hour fe))) (\<lambda>pds. map_of pds prov) \<noteq> None)
          (tl (table d)))"

fun init_providers :: "'f fenv \<Rightarrow> vtime option \<Rightarrow> provider_item list \<Rightarrow> 'f loc_data \<Rightarrow> bool \<times> 'f loc_data" where
  "init_providers fe startAt [] d = (False, d)"
| "init_providers fe startAt (p # ps) d =
     (let it = findFirstDataSet fe (providerWithPlacename p) startAt d;
          d1 = d\<lparr>ld_it := it\<rparr>
      in if it = None then init_providers fe startAt ps d1
         else (True, d1\<lparr>ld_elem := (snd (startAtProvider [] (ld_elem d)))\<lparr>forecastProvider := providerWithPlacename p\<rparr>,
                        ld_provider := providerWithPlacename p\<rparr>))"

definition ld_init :: "'f fenv \<Rightarrow> vtime option \<Rightarrow> string \<Rightarrow> int \<Rightarrow> 'f loc_data \<Rightarrow> bool \<times> 'f loc_data" where
  "ld_init fe startAt prov timespan d =
     (if ld_serie d = None then (False, d)
      else (let d1 = d\<lparr>ld_provider := prov, ld_timespan := timespan\<rparr>
            in if prov = [] then init_providers fe startAt (ld_priority d1) d1
               else (let it = findFirstDataSet fe prov startAt d1;
                         d2 = d1\<lparr>ld_it := it\<rparr>
                     in if it = None then (False, d2)
                        else (True, d2\<lparr>ld_elem := (snd (startAtProvider prov (ld_elem d2)))\<lparr>forecastProvider := prov\<rparr>\<rparr>))))"

definition ld_hasNext :: "'f loc_data \<Rightarrow> bool" where
  "ld_hasNext d \<longleftrightarrow> ld_serie d \<noteq> None \<and> ld_it d \<noteq> None"

text \<open>\<open>++it\<close>: the next key.\<close>

definition key_after :: "vtime \<Rightarrow> 'f time_serie \<Rightarrow> vtime option" where
  "key_after t ts = map_option fst (find (\<lambda>(k, _). t < k) ts)"

definition ld_next :: "'f loc_data \<Rightarrow> ('f loc_elem \<times> 'f loc_data) result" where
  "ld_next d =
     (case (ld_it d, ld_serie d) of
        (Some t, Some ts) \<Rightarrow>
          let e = elem_init t ts (ld_elem d) in Inr (e, d\<lparr>ld_it := key_after t ts, ld_elem := e\<rparr>)
      | _ \<Rightarrow> Inl Undefined_behaviour)"

definition peek :: "'f loc_data \<Rightarrow> 'f loc_elem option \<times> 'f loc_data" where
  "peek d =
     (case (ld_it d, ld_serie d) of
        (Some t, Some ts) \<Rightarrow> let e = elem_init t ts (ld_elem d) in (Some e, d\<lparr>ld_elem := e\<rparr>)
      | _ \<Rightarrow> (None, d))"

section \<open>Height\<close>

fun model_heights :: "'f fenv \<Rightarrow> provider_item list \<Rightarrow> 'f loc_elem \<Rightarrow> (int option \<times> 'f loc_elem) result" where
  "model_heights fe [] e = Inr (None, e)"
| "model_heights fe (p # ps) e =
     bind_result (modeltopography fe (providerWithPlacename p) e) (\<lambda>(alt, e1).
       if alt \<noteq> None then Inr (alt, e1) else model_heights fe ps e1)"

definition hightFromModelTopo :: "'f fenv \<Rightarrow> 'f loc_data \<Rightarrow> (int option \<times> 'f loc_data) result" where
  "hightFromModelTopo fe d =
     (case peek (snd (ld_init fe None [] 0 d)) of
        (None, d1) \<Rightarrow> Inr (None, d1)
      | (Some e, d1) \<Rightarrow>
          bind_result (model_heights fe (ld_priority d1) e) (\<lambda>(alt, e1). Inr (alt, d1\<lparr>ld_elem := e1\<rparr>)))"

fun terrain_height :: "'f fenv \<Rightarrow> string list \<Rightarrow> 'f loc_elem \<Rightarrow> int option" where
  "terrain_height fe [] e = None"
| "terrain_height fe (p # ps) e = (case topography fe p e of Some h \<Rightarrow> Some h | None \<Rightarrow> terrain_height fe ps e)"

definition hightFromTopography :: "'f fenv \<Rightarrow> 'f loc_data \<Rightarrow> int option \<times> 'f loc_data" where
  "hightFromTopography fe d =
     (case peek (snd (ld_init fe None [] 0 d)) of
        (None, d1) \<Rightarrow> (None, d1)
      | (Some e, d1) \<Rightarrow> (terrain_height fe (ld_topography d1) e, d1))"

text \<open>An unknown altitude is \<open>INT_MIN\<close>.\<close>

definition computeAndSetHeight :: "'f fenv \<Rightarrow> int \<Rightarrow> 'f loc_data \<Rightarrow> (int \<times> 'f loc_data) result" where
  "computeAndSetHeight fe altitude d =
     (let unknown = (\<lambda>a. case a of None \<Rightarrow> int_min | Some h \<Rightarrow> h);
          (alt1, d1) = (if altitude = int_min \<or> altitude = int_max
                        then (let (a, d1) = hightFromTopography fe d in (unknown a, d1)) else (altitude, d))
      in bind_result (if alt1 = int_min
                      then bind_result (hightFromModelTopo fe d1) (\<lambda>(a, d2). Inr (unknown a, d2))
                      else Inr (alt1, d1))
           (\<lambda>(alt2, d2). Inr (alt2, d2\<lparr>ld_elem := (ld_elem d2)\<lparr>le_height := alt2\<rparr>\<rparr>)))"

section \<open>What cleanup keeps\<close>

lemma erase_before_filter: "om_wf ts \<Longrightarrow> erase_before t0 ts = filter (\<lambda>(t, _). proper t \<longrightarrow> t0 \<le> t) ts"
proof (induction ts)
  case (Cons a ts)
  obtain t fs where a: "a = (t, fs)"
    by force
  have "filter (\<lambda>(t, _). proper t \<longrightarrow> t0 \<le> t) ts = ts" if "t0 \<le> t"
    using Cons.prems that by (fastforce simp: a om_wf_def intro: filter_True)
  then show ?case
    using Cons by (auto simp: a om_wf_def)
qed simp

lemma cleanup_time_Some:
  "cleanup_time ps ts = Some t0 \<Longrightarrow> \<exists>p\<in>set ps. \<exists>fs. (t0, fs) \<in> set ts \<and> proper t0 \<and> has_data_set p fs"
  by (induction ps) (auto split: option.splits dest!: find_SomeD)

text \<open>
  The best provider: the first of the list with a data set of more than one value; \<open>t0\<close> is the
  first of its times.
\<close>

lemma cleanup_time_best:
  "cleanup_time (ps @ p # qs) ts = Some t0"
  if "\<forall>q\<in>set ps. \<forall>(t, fs)\<in>set ts. proper t \<longrightarrow> \<not> has_data_set q fs"
    and "find (\<lambda>(t, fs). proper t \<and> has_data_set p fs) ts = Some (t0, fs0)"
  using that(1)
proof (induction ps)
  case Nil
  then show ?case
    using that(2) by simp
next
  case (Cons q ps)
  have "find (\<lambda>(t, fs). proper t \<and> has_data_set q fs) ts = None"
    using Cons.prems by (fastforce simp: find_None_iff)
  then show ?case
    using Cons by simp
qed

lemma cleanup_time_None:
  "cleanup_time ps ts = None \<longleftrightarrow> (\<forall>p\<in>set ps. \<forall>(t, fs)\<in>set ts. proper t \<longrightarrow> \<not> has_data_set p fs)"
proof (induction ps)
  case (Cons p ps)
  have none: "find (\<lambda>(t, fs). proper t \<and> has_data_set p fs) ts = None
      \<longleftrightarrow> (\<forall>(t, fs)\<in>set ts. proper t \<longrightarrow> \<not> has_data_set p fs)"
    by (auto simp: find_None_iff)
  show ?case
  proof (cases "find (\<lambda>(t, fs). proper t \<and> has_data_set p fs) ts")
    case None
    moreover have "\<forall>(t, fs)\<in>set ts. proper t \<longrightarrow> \<not> has_data_set p fs"
      using None none by simp
    ultimately show ?thesis
      using Cons.IH by simp
  next
    case (Some a)
    moreover have "\<not> (\<forall>(t, fs)\<in>set ts. proper t \<longrightarrow> \<not> has_data_set p fs)"
      using Some none by simp
    ultimately show ?thesis
      by (cases a) auto
  qed
qed simp

section \<open>Iterating\<close>

text \<open>The elements that are still to come.\<close>

definition elements_left :: "'f loc_data \<Rightarrow> 'f time_serie" where
  "elements_left d = (case ld_it d of None \<Rightarrow> [] | Some t \<Rightarrow> filter (\<lambda>(k, _). t \<le> k) (table d))"

text \<open>The iterator stands on an element of the table.\<close>

definition it_ok :: "'f loc_data \<Rightarrow> bool" where
  "it_ok d \<longleftrightarrow> om_wf (table d) \<and> (case ld_it d of None \<Rightarrow> True | Some t \<Rightarrow> t \<in> fst ` set (table d))"

fun visit :: "nat \<Rightarrow> 'f loc_data \<Rightarrow> (vtime list \<times> 'f loc_data) result" where
  "visit 0 d = Inr ([], d)"
| "visit (Suc n) d =
     (if ld_hasNext d
      then bind_result (ld_next d) (\<lambda>(e, d1). bind_result (visit n d1) (\<lambda>(ts, d2). Inr (le_time e # ts, d2)))
      else Inr ([], d))"

lemma filter_ge_Cons:
  assumes "om_wf ts" "t \<in> fst ` set ts"
  shows "map fst (filter (\<lambda>(k, _). t \<le> k) ts) = t # map fst (filter (\<lambda>(k, _). t < k) ts)"
  using assms
proof (induction ts)
  case (Cons a ts)
  obtain k v where a: "a = (k, v)"
    by force
  have tail: "\<forall>k'\<in>fst ` set ts. k < k'" "om_wf ts"
    using Cons.prems(1) by (auto simp: a om_wf_def)
  show ?case
  proof (cases "k = t")
    case True
    then have "filter (\<lambda>(k, _). t \<le> k) ts = filter (\<lambda>(k, _). t < k) ts"
      using tail by (intro filter_cong) auto
    then show ?thesis
      by (simp add: a True)
  next
    case False
    then have "t \<in> fst ` set ts" "\<not> t \<le> k"
      using Cons.prems(2) tail by (auto simp: a)
    then show ?thesis
      using Cons.IH tail by (auto simp: a)
  qed
qed simp

lemma find_first_filter: "find P xs = (case filter P xs of [] \<Rightarrow> None | x # _ \<Rightarrow> Some x)"
  by (induction xs) auto

lemma filter_after_first:
  assumes "om_wf ts" "filter (\<lambda>(k, _). t < k) ts = (k0, v0) # m"
  shows "filter (\<lambda>(k, _). k0 \<le> k) ts = (k0, v0) # m"
proof -
  have wf: "om_wf (filter (\<lambda>(k, _). t < k) ts)"
    using assms(1) by (auto simp: om_wf_def sorted_wrt_map intro: sorted_wrt_filter)
  have "(k0, v0) \<in> set (filter (\<lambda>(k, _). t < k) ts)"
    unfolding assms(2) by simp
  then have "t < k0"
    by simp
  have "filter (\<lambda>(k, _). k0 \<le> k) (filter (\<lambda>(k, _). t < k) ts) = filter (\<lambda>(k, _). k0 \<le> k) ts"
    using \<open>t < k0\<close> by (auto intro!: filter_cong)
  moreover have "filter (\<lambda>(k, _). k0 \<le> k) ((k0, v0) # m) = (k0, v0) # m"
    using wf by (fastforce simp: assms(2) om_wf_def intro: filter_True)
  ultimately show ?thesis
    by (simp add: assms(2))
qed

lemma key_after_head:
  "key_after t ts = first_key (filter (\<lambda>(k, _). t < k) ts)"
  by (auto simp: key_after_def first_key_def find_first_filter split: list.splits)

lemma next_element:
  assumes "it_ok d" "ld_serie d \<noteq> None" "ld_it d = Some t"
  shows "\<exists>e d1. ld_next d = Inr (e, d1) \<and> le_time e = t \<and> it_ok d1 \<and> ld_serie d1 = ld_serie d
    \<and> map fst (elements_left d) = t # map fst (elements_left d1)"
proof -
  obtain ts where ts: "ld_serie d = Some ts" "table d = ts"
    using assms(2) by (auto simp: table_def)
  have wf: "om_wf ts" "t \<in> fst ` set ts"
    using assms(1,3) ts by (auto simp: it_ok_def)
  define d1 where "d1 = d\<lparr>ld_it := key_after t ts, ld_elem := elem_init t ts (ld_elem d)\<rparr>"
  have tab: "table d1 = ts" "ld_it d1 = key_after t ts"
    by (simp_all add: d1_def table_def ts)
  have nx: "ld_next d = Inr (elem_init t ts (ld_elem d), d1)"
    by (simp add: ld_next_def assms(3) ts(1) d1_def Let_def)
  have rest: "elements_left d1 = filter (\<lambda>(k, _). t < k) ts \<and> it_ok d1"
  proof (cases "filter (\<lambda>(k, _). t < k) ts")
    case Nil
    then show ?thesis
      using wf by (simp add: elements_left_def it_ok_def tab key_after_head first_key_def)
  next
    case (Cons a m)
    obtain k0 v0 where a: "a = (k0, v0)"
      by force
    have "(k0, v0) \<in> set ts"
      using Cons by (metis a filter_is_subset list.set_intros(1) subsetD)
    then show ?thesis
      using wf filter_after_first [OF wf(1) Cons [unfolded a]] Cons
      by (force simp: elements_left_def it_ok_def tab key_after_head first_key_def a)
  qed
  have "map fst (elements_left d) = t # map fst (filter (\<lambda>(k, _). t < k) ts)"
    using filter_ge_Cons [OF wf] by (simp add: elements_left_def assms(3) ts(2))
  then show ?thesis
    using nx rest by (auto simp: elem_init_def d1_def)
qed

lemma visit_left:
  assumes "it_ok d" "ld_serie d \<noteq> None" "length (elements_left d) \<le> n"
  shows "\<exists>d1. visit n d = Inr (map fst (elements_left d), d1) \<and> \<not> ld_hasNext d1"
  using assms
proof (induction n arbitrary: d)
  case 0
  then have "ld_it d = None"
    using filter_ge_Cons by (fastforce simp: elements_left_def it_ok_def split: option.splits)
  then show ?case
    using 0 by (simp add: ld_hasNext_def elements_left_def)
next
  case (Suc n)
  show ?case
  proof (cases "ld_it d")
    case None
    then show ?thesis
      by (simp add: ld_hasNext_def elements_left_def)
  next
    case (Some t)
    obtain e d1 where n: "ld_next d = Inr (e, d1)" "le_time e = t" "it_ok d1" "ld_serie d1 = ld_serie d"
      "map fst (elements_left d) = t # map fst (elements_left d1)"
      using next_element [OF Suc.prems(1,2) Some] by metis
    have "length (elements_left d1) \<le> n"
      using arg_cong [OF n(5), of length] Suc.prems(3) by simp
    then obtain d2 where "visit n d1 = Inr (map fst (elements_left d1), d2)" "\<not> ld_hasNext d2"
      using Suc.IH [OF n(3)] Suc.prems(2) n(4) by auto
    then show ?thesis
      using n Suc.prems(2) Some by (simp add: ld_hasNext_def)
  qed
qed

section \<open>Where the iteration starts\<close>

definition data_set_at :: "'f fenv \<Rightarrow> int \<Rightarrow> string \<Rightarrow> vtime option \<Rightarrow> vtime \<times> 'f from_serie \<Rightarrow> bool" where
  "data_set_at fe timespan prov startAt a =
     (case a of (t, fs) \<Rightarrow>
        (time_special startAt \<or> the startAt \<le> t)
        \<and> Option.bind (map_of fs (vminus t (timespan * fe_hour fe))) (\<lambda>pds. map_of pds prov) \<noteq> None)"

lemma findFirst_data_set:
  "findFirstDataSet fe prov startAt d = map_option fst (find (data_set_at fe (ld_timespan d) prov startAt) (tl (table d)))"
  unfolding findFirstDataSet_def data_set_at_def by (simp add: not_less)

lemma init_providers_result:
  assumes "init_providers fe startAt ps d = (b, d1)"
  shows "ld_serie d1 = ld_serie d \<and> ld_timespan d1 = ld_timespan d
    \<and> (if b then \<exists>p\<in>set ps. \<exists>fs m. ld_provider d1 = providerWithPlacename p
              \<and> findFirstDataSet fe (ld_provider d1) startAt d = ld_it d1 \<and> ld_it d1 \<noteq> None
              \<and> forecastProvider (ld_elem d1) = ld_provider d1
       else (ps \<noteq> [] \<longrightarrow> ld_it d1 = None) \<and> (\<forall>p\<in>set ps. findFirstDataSet fe (providerWithPlacename p) startAt d = None))"
  using assms
proof (induction ps arbitrary: d)
  case (Cons p ps)
  have same: "findFirstDataSet fe q startAt (d\<lparr>ld_it := i\<rparr>) = findFirstDataSet fe q startAt d" for q i
    by (simp add: findFirstDataSet_def table_def)
  show ?case
  proof (cases "findFirstDataSet fe (providerWithPlacename p) startAt d")
    case None
    then have "init_providers fe startAt ps (d\<lparr>ld_it := None\<rparr>) = (b, d1)"
      using Cons.prems by (simp add: Let_def)
    from Cons.IH [OF this] show ?thesis
      using None Cons.prems by (cases ps) (auto simp: same Let_def split: if_splits)
  next
    case (Some t)
    then show ?thesis
      using Cons.prems by (auto simp: Let_def findFirstDataSet_def table_def)
  qed
qed simp

section \<open>Properties\<close>

lemma find_least:
  assumes "om_wf ts" "(t0, fs0) \<in> set ts" "P (t0, fs0)" "\<forall>(t, fs)\<in>set ts. P (t, fs) \<longrightarrow> t0 \<le> t"
  shows "\<exists>fs1. find P ts = Some (t0, fs1)"
  using assms
proof (induction ts)
  case (Cons a ts)
  obtain k v where a: "a = (k, v)"
    by force
  show ?case
  proof (cases "P a")
    case True
    then have "t0 \<le> k" "k \<le> t0"
      using Cons.prems by (auto simp: a om_wf_def less_imp_le)
    then show ?thesis
      using True by (simp add: a)
  next
    case False
    then show ?thesis
      using Cons by (auto simp: a om_wf_def)
  qed
qed simp


lemma init_true:
  assumes "ld_init fe startAt prov timespan d = (True, d1)"
  shows "ld_serie d1 = ld_serie d \<and> ld_serie d \<noteq> None
    \<and> (if prov = [] then ld_provider d1 \<in> providerWithPlacename ` set (ld_priority d) else ld_provider d1 = prov)
    \<and> forecastProvider (ld_elem d1) = ld_provider d1
    \<and> ld_it d1 \<noteq> None
    \<and> ld_it d1 = map_option fst (find (data_set_at fe timespan (ld_provider d1) startAt) (tl (table d)))"
proof (cases "prov = []")
  case True
  then have "init_providers fe startAt (ld_priority d) (d\<lparr>ld_provider := prov, ld_timespan := timespan\<rparr>) = (True, d1)"
    using assms by (simp add: ld_init_def Let_def split: if_splits)
  from init_providers_result [OF this] show ?thesis
    using assms True by (auto simp: findFirst_data_set table_def ld_init_def split: if_splits)
next
  case False
  then show ?thesis
    using assms by (auto simp: ld_init_def Let_def findFirst_data_set table_def split: if_splits)
qed



section \<open>Concrete tables\<close>

text \<open>
  The constant fields, a time where \<open>ec\<close> has one value, and two where it has two; \<open>arome\<close> has none,
  and only \<open>ec\<close> has a model topography.
\<close>

definition sample_table :: "int time_serie" where
  "sample_table =
     [(At 0, [(At 0, [(''ec__MODEL_TOPO__'', [(''modeltopography'', 12)])])]),
      (At 1, [(At 1, [(''ec'', [(''T2M'', 1)])])]),
      (At 2, [(At 2, [(''ec'', [(''T2M'', 2), (''UU'', 80)])])]),
      (At 3, [(At 3, [(''ec'', [(''T2M'', 3), (''UU'', 70)])])])]"

definition sample_data :: "int loc_data" where
  "sample_data =
     \<lparr>ld_priority = [item ''arome'' [], item ''ec'' []], ld_topography = [], ld_serie = Some sample_table, ld_it = Some (At 0),
      ld_elem = loc_elem_new [item ''arome'' [], item ''ec'' []] [] int_min \<lparr>lc_output = (\<lambda>_. True), lc_thunder = None\<rparr>,
      ld_timespan = 0, ld_provider = []\<rparr>"

lemmas sample_simps = sample_table_def item_def providerWithPlacename_def proper_def constFieldTime_def time_special_def
  has_data_set_def less_eq_vtime_def less_vtime_def

lemma sample_wf: "om_wf sample_table"
  by (simp add: om_wf_def sample_simps)


lemma sample_init:
  "fst (ld_init (int_fenv 1) None [] 0 sample_data) = True"
  "ld_it (snd (ld_init (int_fenv 1) None [] 0 sample_data)) = Some (At 1)"
  "ld_serie (snd (ld_init (int_fenv 1) None [] 0 sample_data)) = Some sample_table"
  "ld_priority (snd (ld_init (int_fenv 1) None [] 0 sample_data)) = [item ''arome'' [], item ''ec'' []]"
  "modelTopoProviders (ld_elem (snd (ld_init (int_fenv 1) None [] 0 sample_data))) = []"
  by (simp_all add: ld_init_def sample_data_def findFirstDataSet_def table_def sample_simps int_fenv_def vminus_def
      startAtProvider_def loc_elem_new_def Let_def)



end
