(* ===== verification/Symbols.thy ===== *)
theory Symbols
  imports Providers StringUtil
begin

text \<open>
  Weather symbols over time: \<open>src/src/mod_wdb2ts/SymbolHolder.h\<close>, \<open>SymbolHolder.cpp\<close> (the symbols of
  one time span, their search, merging and the consistency of thunder between time spans) and
  \<open>SymbolContext.cpp\<close> (the collecting of symbols while a table is read), with the names of \<open>src/src/miutil/metfunctions.cpp\<close>. A symbol of \<open>puMet\<close> is a value
  of \<^typ>\<open>'s\<close>, what the code asks of it is an argument, \<open>symenv\<close>; times are whole seconds, as
  \<open>miTime\<close> has them, and a probability or temperature that is \<open>FLT_MAX\<close> is \<^const>\<open>None\<close>.
\<close>

section \<open>Symbols\<close>

record ('s, 'f) symenv =
  se_symbol :: "int \<Rightarrow> 's option"
  se_light :: "int \<Rightarrow> 'f \<Rightarrow> 's \<Rightarrow> 's"
  se_number :: "'s \<Rightarrow> int"
  se_name :: "'s \<Rightarrow> string"
  se_thunder :: "'s \<Rightarrow> bool"
  se_off :: "'s \<Rightarrow> 's"
  se_on :: "'s \<Rightarrow> 's"
  se_cold :: "'f \<Rightarrow> bool"
  se_cool :: "'f \<Rightarrow> bool"

record ('s, 'f) sym =
  sy_min :: int
  sy_max :: int
  sy_symbol :: 's
  sy_time :: int
  sy_prob :: "'f option"
  sy_without :: bool
  sy_old :: "'s option"

definition sym_new :: "int \<Rightarrow> int \<Rightarrow> 's \<Rightarrow> int \<Rightarrow> 'f option \<Rightarrow> bool \<Rightarrow> ('s, 'f) sym" where
  "sym_new mn mx s t prob wo =
     \<lparr>sy_min = mn, sy_max = mx, sy_symbol = s, sy_time = t, sy_prob = prob, sy_without = wo, sy_old = None\<rparr>"

definition sy_from :: "('s, 'f) sym \<Rightarrow> int" where
  "sy_from s = sy_time s + (- sy_min s - 1) * 3600"

definition sy_to :: "('s, 'f) sym \<Rightarrow> int" where
  "sy_to s = sy_time s + sy_max s * 3600"

definition sy_timespan :: "('s, 'f) sym \<Rightarrow> int" where
  "sy_timespan s = sy_max s + sy_min s + 1"

definition turnOffThunder :: "('s, 'f) symenv \<Rightarrow> ('s, 'f) sym \<Rightarrow> ('s, 'f) sym" where
  "turnOffThunder se s = s\<lparr>sy_symbol := se_off se (sy_symbol s)\<rparr>"

definition turnOnThunder :: "('s, 'f) symenv \<Rightarrow> ('s, 'f) sym \<Rightarrow> ('s, 'f) sym" where
  "turnOnThunder se s = s\<lparr>sy_symbol := se_on se (sy_symbol s)\<rparr>"

definition symbolidToName :: "int \<Rightarrow> string" where
  "symbolidToName i =
     (if i < 0 then []
      else case map_of [(1, ''SUN''), (16, ''SUN''), (2, ''LIGHTCLOUD''), (17, ''LIGHTCLOUD''), (3, ''PARTLYCLOUD''),
             (4, ''CLOUD''), (5, ''LIGHTRAINSUN''), (18, ''LIGHTRAINSUN''), (6, ''LIGHTRAINTHUNDERSUN''), (7, ''SLEETSUN''),
             (8, ''SNOWSUN''), (9, ''LIGHTRAIN''), (10, ''RAIN''), (11, ''RAINTHUNDER''), (12, ''SLEET''), (13, ''SNOW''),
             (14, ''SNOWTHUNDER''), (15, ''FOG''), (19, ''SNOWSUN''), (20, ''SLEETSUNTHUNDER''), (21, ''SNOWSUNTHUNDER''),
             (22, ''LIGHTRAINTHUNDER''), (23, ''SLEETTHUNDER'')] i of
           None \<Rightarrow> []
         | Some n \<Rightarrow> n)"

definition idname :: "('s, 'f) symenv \<Rightarrow> ('s, 'f) sym \<Rightarrow> string" where
  "idname se s = symbolidToName (se_number se (sy_symbol s))"

section \<open>The symbols of one time span\<close>

record ('s, 'f) holder =
  sh_symbols :: "('s, 'f) sym list"
  sh_min :: int
  sh_max :: int
  sh_index :: int

definition holder_new :: "int \<Rightarrow> int \<Rightarrow> ('s, 'f) holder" where
  "holder_new mn mx = \<lparr>sh_symbols = [], sh_min = mn, sh_max = mx, sh_index = -1\<rparr>"

definition holder_of_timespan :: "int \<Rightarrow> ('s, 'f) holder" where
  "holder_of_timespan timespan = holder_new (timespan - 1) 0"

definition holder_of_symbols :: "int \<Rightarrow> int \<Rightarrow> ('s \<times> int) list \<Rightarrow> bool \<Rightarrow> ('s, 'f) holder" where
  "holder_of_symbols mn mx syms wo =
     \<lparr>sh_symbols = map (\<lambda>(s, t). sym_new mn mx s t None wo) syms, sh_min = mn, sh_max = mx, sh_index = 0\<rparr>"

definition sh_timespan :: "('s, 'f) holder \<Rightarrow> int" where
  "sh_timespan h = sh_max h + sh_min h + 1"

text \<open>The insertion: before the first symbol that is not earlier.\<close>

fun insert_symbol :: "('s, 'f) sym \<Rightarrow> ('s, 'f) sym list \<Rightarrow> ('s, 'f) sym list" where
  "insert_symbol s [] = [s]"
| "insert_symbol s (x # xs) = (if sy_time x < sy_time s then x # insert_symbol s xs else s # x # xs)"

definition holder_addSymbol ::
    "('s, 'f) symenv \<Rightarrow> int \<Rightarrow> int \<Rightarrow> 'f \<Rightarrow> bool \<Rightarrow> 'f option \<Rightarrow> ('s, 'f) holder \<Rightarrow> ('s, 'f) holder" where
  "holder_addSymbol se t number lat wo prob h =
     (case se_symbol se number of
        None \<Rightarrow> h
      | Some s \<Rightarrow>
          let new = sym_new (sh_min h) (sh_max h) (se_light se t lat s) t prob wo
          in if sh_symbols h = [] then h\<lparr>sh_symbols := [new]\<rparr>
             else if sy_time (last (sh_symbols h)) < t then h\<lparr>sh_symbols := sh_symbols h @ [new]\<rparr>
             else h\<lparr>sh_symbols := insert_symbol new (sh_symbols h)\<rparr>)"

text \<open>\<open>findSymbol\<close> makes a \<open>miTime\<close> without the seconds of the time it looks for.\<close>

fun find_loop :: "int \<Rightarrow> ('s, 'f) sym list \<Rightarrow> ('s, 'f) sym option" where
  "find_loop t [] = None"
| "find_loop t (s # ss) = (if sy_from s = t then Some s else if t < sy_from s then None else find_loop t ss)"

definition findSymbol :: "int \<Rightarrow> ('s, 'f) holder \<Rightarrow> ('s, 'f) sym option" where
  "findSymbol t h = find_loop (t - t mod 60) (sh_symbols h)"

definition next_symbol :: "('s, 'f) holder \<Rightarrow> ('s, 'f) sym option \<times> ('s, 'f) holder" where
  "next_symbol h =
     (if sh_index h < 0 \<or> int (length (sh_symbols h)) \<le> sh_index h then (None, h)
      else (Some (sh_symbols h ! nat (sh_index h)), h\<lparr>sh_index := sh_index h + 1\<rparr>))"

text \<open>\<open>next\<close> with the fields of the symbol one by one: number, name, name of the number, time, from, to, probability.\<close>

definition next_fields ::
    "('s, 'f) symenv \<Rightarrow> ('s, 'f) holder
       \<Rightarrow> (int \<times> string \<times> string \<times> int \<times> int \<times> int \<times> 'f option) option \<times> ('s, 'f) holder" where
  "next_fields se h =
     (case next_symbol h of
        (None, h1) \<Rightarrow> (None, h1)
      | (Some s, h1) \<Rightarrow>
          (Some (se_number se (sy_symbol s), se_name se (sy_symbol s), idname se s, sy_time s, sy_from s, sy_to s, sy_prob s), h1))"

fun init_loop :: "int \<Rightarrow> ('s, 'f) sym list \<Rightarrow> int \<Rightarrow> bool \<times> int" where
  "init_loop t [] i = (False, i)"
| "init_loop t (s # ss) i = (if sy_from s < t then init_loop t ss (i + 1) else (True, i))"

definition initIndex :: "int option \<Rightarrow> ('s, 'f) holder \<Rightarrow> bool \<times> ('s, 'f) holder" where
  "initIndex fromt h =
     (case sh_symbols h of
        [] \<Rightarrow> (False, h)
      | s # _ \<Rightarrow>
          let t = (case fromt of None \<Rightarrow> sy_from s | Some t \<Rightarrow> t);
              (b, i) = init_loop t (sh_symbols h) 0
          in (b, h\<lparr>sh_index := i\<rparr>))"

section \<open>Ranges and thunder\<close>

text \<open>A range is two positions; an empty one is no symbol.\<close>

definition findSymbolsInRange :: "int \<Rightarrow> int \<Rightarrow> ('s, 'f) sym list \<Rightarrow> nat \<times> nat" where
  "findSymbolsInRange fromTime toTime ss =
     (case find_idx (\<lambda>s. sy_from s \<le> fromTime \<and> fromTime < sy_to s) ss of
        None \<Rightarrow> (length ss, length ss)
      | Some b \<Rightarrow>
          (case find_idx (\<lambda>s. sy_from s < toTime \<and> toTime \<le> sy_to s) (drop (b + 1) ss) of
             None \<Rightarrow> (length ss, length ss)
           | Some i \<Rightarrow> (b, b + 1 + i + 1)))"

definition covers :: "int \<Rightarrow> int \<Rightarrow> ('s, 'f) sym \<Rightarrow> bool" where
  "covers fromTime toTime s \<longleftrightarrow> sy_from s \<le> fromTime \<and> toTime \<le> sy_to s"

text \<open>The second loop: \<open>e\<close> is the end found so far, \<open>i\<close> the position looked at.\<close>

fun range_end :: "int \<Rightarrow> int \<Rightarrow> ('s, 'f) sym list \<Rightarrow> nat \<Rightarrow> nat \<Rightarrow> nat" where
  "range_end f t [] i e = e"
| "range_end f t (s # ss) i e = (if covers f t s then range_end f t ss (i + 1) i else i)"

definition findSymbolsIncludedRange :: "int \<Rightarrow> int \<Rightarrow> ('s, 'f) sym list \<Rightarrow> nat \<times> nat" where
  "findSymbolsIncludedRange fromTime toTime ss =
     (case find_idx (covers fromTime toTime) ss of
        None \<Rightarrow> (length ss, length ss)
      | Some b \<Rightarrow> (b, range_end fromTime toTime (drop (b + 1) ss) (b + 1) (b + 1)))"

definition on_in_range :: "('s, 'f) symenv \<Rightarrow> nat \<times> nat \<Rightarrow> ('s, 'f) sym list \<Rightarrow> ('s, 'f) sym list" where
  "on_in_range se r ss = map (\<lambda>(i, s). if fst r \<le> i \<and> i < snd r then turnOnThunder se s else s) (enumerate 0 ss)"

definition consistentCheckThunder :: "('s, 'f) symenv \<Rightarrow> ('s, 'f) holder \<Rightarrow> ('s, 'f) holder \<Rightarrow> ('s, 'f) holder" where
  "consistentCheckThunder se other h =
     (if sh_timespan h < sh_timespan other then h
      else (let off = map (\<lambda>s. turnOffThunder se (s\<lparr>sy_old := Some (sy_symbol s)\<rparr>)) (sh_symbols h)
            in h\<lparr>sh_symbols :=
                   fold (\<lambda>oth ss. if se_thunder se (sy_symbol oth)
                                 then on_in_range se (findSymbolsIncludedRange (sy_from oth) (sy_to oth) ss) ss else ss)
                     (sh_symbols other) off\<rparr>))"

text \<open>\<open>merge\<close>: \<open>std::merge\<close> takes the first list's symbol when the starts are equal; \<open>std::unique\<close> keeps the first of equal starts.\<close>

fun merge_symbols :: "('s, 'f) sym list \<Rightarrow> ('s, 'f) sym list \<Rightarrow> ('s, 'f) sym list" where
  "merge_symbols [] ys = ys"
| "merge_symbols (x # xs) [] = x # xs"
| "merge_symbols (x # xs) (y # ys) =
     (if sy_from y < sy_from x then y # merge_symbols (x # xs) ys else x # merge_symbols xs (y # ys))"

fun unique_symbols :: "('s, 'f) sym list \<Rightarrow> ('s, 'f) sym list" where
  "unique_symbols [] = []"
| "unique_symbols [x] = [x]"
| "unique_symbols (x # y # xs) =
     (if sy_from x = sy_from y then unique_symbols (x # xs) else x # unique_symbols (y # xs))"

definition merge_holders :: "('s, 'f) holder \<Rightarrow> ('s, 'f) holder \<Rightarrow> ('s, 'f) holder option" where
  "merge_holders a b =
     (if sh_timespan a \<noteq> sh_timespan b then None
      else Some \<lparr>sh_symbols = unique_symbols (merge_symbols (sh_symbols a) (sh_symbols b)),
                 sh_min = sh_min a, sh_max = sh_max a, sh_index = 0\<rparr>)"

section \<open>The symbols of the providers\<close>

type_synonym ('s, 'f) symbol_lists = "(string, ('s, 'f) holder list) omap"

fun first_of_timespan :: "int \<Rightarrow> int \<Rightarrow> ('s, 'f) holder list \<Rightarrow> ('s, 'f) sym option" where
  "first_of_timespan t timespan [] = None"
| "first_of_timespan t timespan (h # hs) =
     (case (if sh_timespan h = timespan then findSymbol t h else None) of
        Some s \<Rightarrow> Some s
      | None \<Rightarrow> first_of_timespan t timespan hs)"

text \<open>A probability from any provider and list that has one for the same start and time span.\<close>

definition probabilities :: "int \<Rightarrow> int \<Rightarrow> ('s, 'f) symbol_lists \<Rightarrow> 'f list" where
  "probabilities t timespan ls =
     List.map_filter (\<lambda>h. if sh_timespan h = timespan then Option.bind (findSymbol t h) sy_prob else None)
       (concat (map snd ls))"

definition setSymbolProbability :: "('s, 'f) symbol_lists \<Rightarrow> ('s, 'f) sym \<Rightarrow> ('s, 'f) sym" where
  "setSymbolProbability ls s =
     (case probabilities (sy_from s) (sy_timespan s) ls of [] \<Rightarrow> s | p # _ \<Rightarrow> s\<lparr>sy_prob := Some p\<rparr>)"

definition find_of_provider :: "string \<Rightarrow> int \<Rightarrow> int \<Rightarrow> ('s, 'f) symbol_lists \<Rightarrow> ('s, 'f) sym option" where
  "find_of_provider prov t timespan ls =
     (case map_of ls prov of
        None \<Rightarrow> None
      | Some hs \<Rightarrow> map_option (\<lambda>s. if sy_prob s = None then setSymbolProbability ls s else s) (first_of_timespan t timespan hs))"

text \<open>With the end of the period; an undefined time is \<^const>\<open>None\<close>.\<close>

definition find_of_period :: "string \<Rightarrow> int option \<Rightarrow> int option \<Rightarrow> ('s, 'f) symbol_lists \<Rightarrow> ('s, 'f) sym option" where
  "find_of_period prov fromtime totime ls =
     (case (fromtime, totime) of
        (Some f, Some t) \<Rightarrow> find_of_provider prov f (\<bar>t - f\<bar> div 3600) ls
      | _ \<Rightarrow> None)"

definition findAllFromtimes :: "int \<Rightarrow> string \<Rightarrow> ('s, 'f) symbol_lists \<Rightarrow> int list" where
  "findAllFromtimes t prov ls =
     (let hs = (if prov = [] then concat (map snd ls) else (case map_of ls prov of None \<Rightarrow> [] | Some l \<Rightarrow> l))
      in remdups (List.map_filter
           (\<lambda>h. let f = t - sh_timespan h * 3600 in if findSymbol f h \<noteq> None then Some f else None) hs))"

text \<open>
  \<open>consistentCheck\<close>: the lists of a provider, the shortest time span first, each against the one
  before as that is by then. The lists are shared, so they are changed in their places.
\<close>

fun thunder_chain :: "('s, 'f) symenv \<Rightarrow> ('s, 'f) holder \<Rightarrow> (nat \<times> ('s, 'f) holder) list \<Rightarrow> (nat \<times> ('s, 'f) holder) list" where
  "thunder_chain se prev [] = []"
| "thunder_chain se prev ((i, h) # hs) =
     (let h1 = consistentCheckThunder se prev h in (i, h1) # thunder_chain se h1 hs)"

definition checkThunder :: "('s, 'f) symenv \<Rightarrow> ('s, 'f) holder list \<Rightarrow> ('s, 'f) holder list" where
  "checkThunder se hs =
     (case sort_key (sh_timespan \<circ> snd) (enumerate 0 hs) of
        [] \<Rightarrow> hs
      | (i, h) # rest \<Rightarrow> fold (\<lambda>(j, h1) l. l[j := h1]) (thunder_chain se h rest) hs)"

definition consistentCheck :: "('s, 'f) symenv \<Rightarrow> ('s, 'f) symbol_lists \<Rightarrow> ('s, 'f) symbol_lists" where
  "consistentCheck se ls = map (\<lambda>(p, hs). (p, if length hs > 1 then checkThunder se hs else hs)) ls"

section \<open>Collecting symbols\<close>

record 'f sym_tmp =
  st_time :: "int option"
  st_number :: int
  st_latitude :: 'f
  st_prob :: "'f option"

record ('s, 'f) sym_context =
  sc_symbols :: "('s, 'f) symbol_lists option"
  sc_tmp :: "'f sym_tmp"
  sc_prevProvider :: string
  sc_prevTime :: "int option"
  sc_prevTemp :: "'f option"
  sc_first :: bool
  sc_useTemp :: bool

text \<open>The list of the time span is found or made, then it gets the symbol.\<close>

fun add_to_timespan ::
    "int \<Rightarrow> (('s, 'f) holder \<Rightarrow> ('s, 'f) holder) \<Rightarrow> ('s, 'f) holder \<Rightarrow> ('s, 'f) holder list \<Rightarrow> ('s, 'f) holder list" where
  "add_to_timespan timespan add new [] = [add new]"
| "add_to_timespan timespan add new (h # hs) =
     (if sh_timespan h = timespan then add h # hs else h # add_to_timespan timespan add new hs)"

definition doAddSymbol ::
    "('s, 'f) symenv \<Rightarrow> int \<Rightarrow> 'f option \<Rightarrow> int \<Rightarrow> string \<Rightarrow> 'f \<Rightarrow> int \<Rightarrow> bool \<Rightarrow> ('s, 'f) sym_context \<Rightarrow> ('s, 'f) sym_context" where
  "doAddSymbol se number prob t prov lat mn wo c =
     (let ls = (case sc_symbols c of None \<Rightarrow> [] | Some ls \<Rightarrow> ls);
          hs = (case map_of ls prov of None \<Rightarrow> [holder_new mn 0] | Some hs \<Rightarrow> hs);
          hs1 = add_to_timespan (mn + 1) (holder_addSymbol se t number lat wo prob) (holder_new mn 0) hs
      in c\<lparr>sc_symbols := Some (om_put prov hs1 ls), sc_prevProvider := prov\<rparr>)"

text \<open>A temperature below 0.5 is cold, one from 0.5 to below 1.5 is cool; the symbol number \<open>INT_MAX\<close> is none.\<close>

definition correctSymbol :: "('s, 'f) symenv \<Rightarrow> 'f option \<Rightarrow> int \<Rightarrow> int" where
  "correctSymbol se temp n =
     (if n = 5 \<or> n = 9 \<or> n = 10
      then (case temp of
              None \<Rightarrow> n
            | Some x \<Rightarrow> if se_cold se x then (if n = 5 then 8 else 13)
                        else if se_cool se x then (if n = 5 then 7 else 12) else n)
      else n)"

definition hours_of :: "int \<Rightarrow> int" where
  "hours_of d = (if d < 0 then - ((- d) div 3600) else d div 3600)"

definition flush_tmp :: "('s, 'f) symenv \<Rightarrow> string \<Rightarrow> int \<Rightarrow> ('s, 'f) sym_context \<Rightarrow> ('s, 'f) sym_context" where
  "flush_tmp se prov mn c =
     (let tmp = sc_tmp c
      in case st_time tmp of
           None \<Rightarrow> c
         | Some t \<Rightarrow>
             if \<not> sc_first c \<or> sc_prevProvider c \<noteq> prov then c
             else (let n = (if sc_useTemp c then correctSymbol se (sc_prevTemp c) (st_number tmp) else st_number tmp);
                       c1 = doAddSymbol se n (st_prob tmp) t prov (st_latitude tmp) mn (\<not> sc_useTemp c) c
                   in c1\<lparr>sc_tmp := tmp\<lparr>st_time := None, st_number := n\<rparr>\<rparr>))"

definition context_addSymbol ::
    "('s, 'f) symenv \<Rightarrow> int \<Rightarrow> 'f option \<Rightarrow> int \<Rightarrow> 'f option \<Rightarrow> int option \<Rightarrow> string \<Rightarrow> 'f
       \<Rightarrow> ('s, 'f) sym_context \<Rightarrow> ('s, 'f) sym_context" where
  "context_addSymbol se number prob t temp fromTime prov lat c =
     (let diff = (case fromTime of None \<Rightarrow> 0 | Some f \<Rightarrow> t - f)
      in if number = int_max then c
         else if sc_first c \<and> sc_prevTime c = None \<and> hours_of diff = 0
         then c\<lparr>sc_prevTime := Some t, sc_prevTemp := temp, sc_prevProvider := prov,
                sc_tmp := \<lparr>st_time = Some t, st_number = number, st_latitude = lat, st_prob = prob\<rparr>\<rparr>
         else (let h = (if hours_of diff = 0 then (case sc_prevTime c of None \<Rightarrow> 0 | Some p \<Rightarrow> t - p) else diff);
                   hrs = hours_of \<bar>h\<bar>;
                   mn = (if hrs > 0 then hrs - 1 else hrs);
                   c1 = (flush_tmp se prov mn (c\<lparr>sc_prevTime := Some t\<rparr>))\<lparr>sc_first := False\<rparr>;
                   n = (if sc_useTemp c1 then correctSymbol se (sc_prevTemp c1) number else number)
               in (doAddSymbol se n prob t prov lat mn (\<not> sc_useTemp c1) c1)\<lparr>sc_prevTemp := temp\<rparr>))"

text \<open>\<open>update\<close>, for a list that is not the context's own.\<close>

definition context_update :: "('s, 'f) sym_context \<Rightarrow> ('s, 'f) symbol_lists \<Rightarrow> ('s, 'f) symbol_lists" where
  "context_update c ls =
     (case sc_symbols c of None \<Rightarrow> ls | Some own \<Rightarrow> fold (\<lambda>(p, hs) m. om_put p hs m) own ls)"

section \<open>The order of the symbols\<close>

definition holder_ok :: "('s, 'f) holder \<Rightarrow> bool" where
  "holder_ok h \<longleftrightarrow>
     sorted (map sy_time (sh_symbols h))
     \<and> list_all (\<lambda>s. sy_min s = sh_min h \<and> sy_max s = sh_max h) (sh_symbols h)"

lemma holder_new_ok [simp]: "holder_ok (holder_new mn mx)"
  by (simp add: holder_ok_def holder_new_def)

lemma timespan_new [simp]: "sh_timespan (holder_new mn mx) = mx + mn + 1"
  by (simp add: sh_timespan_def holder_new_def)

lemma insert_symbol_sorted: "sorted (map sy_time ss) \<Longrightarrow> sorted (map sy_time (insert_symbol s ss))"
proof (induction ss)
  case (Cons x xs)
  have "set (map sy_time (insert_symbol s xs)) = insert (sy_time s) (sy_time ` set xs)"
    by (induction xs) auto
  with Cons show ?case
    by auto
qed simp

lemma insert_symbol_all: "list_all P (insert_symbol s ss) \<longleftrightarrow> P s \<and> list_all P ss"
  by (induction ss) auto

lemma sorted_snoc: "sorted (map sy_time ss) \<Longrightarrow> ss \<noteq> [] \<Longrightarrow> sy_time (last ss) < t \<Longrightarrow> sorted (map sy_time ss @ [t])"
  by (induction ss rule: rev_induct) (auto simp: sorted_append)

lemma holder_add_cases:
  "holder_addSymbol se t n lat wo prob h = h
   \<or> (\<exists>new. sy_time new = t \<and> sy_min new = sh_min h \<and> sy_max new = sh_max h
        \<and> (holder_addSymbol se t n lat wo prob h = h\<lparr>sh_symbols := [new]\<rparr> \<and> sh_symbols h = []
           \<or> holder_addSymbol se t n lat wo prob h = h\<lparr>sh_symbols := sh_symbols h @ [new]\<rparr>
              \<and> sh_symbols h \<noteq> [] \<and> sy_time (last (sh_symbols h)) < t
           \<or> holder_addSymbol se t n lat wo prob h = h\<lparr>sh_symbols := insert_symbol new (sh_symbols h)\<rparr>))"
proof (cases "se_symbol se n")
  case None
  then show ?thesis
    by (simp add: holder_addSymbol_def)
next
  case (Some s)
  then show ?thesis
    by (intro disjI2 exI [of _ "sym_new (sh_min h) (sh_max h) (se_light se t lat s) t prob wo"])
       (simp add: holder_addSymbol_def sym_new_def Let_def)
qed

lemma holder_add_ok:
  assumes "holder_ok h"
  shows "holder_ok (holder_addSymbol se t n lat wo prob h)"
    and "sh_timespan (holder_addSymbol se t n lat wo prob h) = sh_timespan h"
  using holder_add_cases [of se t n lat wo prob h] assms insert_symbol_sorted [of "sh_symbols h"]
    sorted_snoc [of "sh_symbols h" t]
  by (auto simp: holder_ok_def insert_symbol_all sh_timespan_def)

text \<open>A provider has one list for each time span.\<close>

definition lists_ok :: "('s, 'f) symbol_lists \<Rightarrow> bool" where
  "lists_ok ls \<longleftrightarrow> (\<forall>p hs. map_of ls p = Some hs \<longrightarrow> list_all holder_ok hs \<and> distinct (map sh_timespan hs))"

definition context_ok :: "('s, 'f) sym_context \<Rightarrow> bool" where
  "context_ok c \<longleftrightarrow> (case sc_symbols c of None \<Rightarrow> True | Some ls \<Rightarrow> lists_ok ls)"

lemma add_to_timespan_ok:
  assumes "list_all holder_ok hs" "distinct (map sh_timespan hs)" "holder_ok new" "sh_timespan new = ts"
    and "\<And>h. holder_ok h \<Longrightarrow> holder_ok (add h) \<and> sh_timespan (add h) = sh_timespan h"
  shows "list_all holder_ok (add_to_timespan ts add new hs) \<and> distinct (map sh_timespan (add_to_timespan ts add new hs))"
proof -
  have "set (map sh_timespan (add_to_timespan ts add new hs)) = insert ts (set (map sh_timespan hs))"
    if "list_all holder_ok hs" for hs
    using that assms(3,4,5) by (induction hs) auto
  then show ?thesis
    using assms by (induction hs) auto
qed

lemma doAddSymbol_ok:
  assumes "context_ok c"
  shows "context_ok (doAddSymbol se n prob t prov lat mn wo c)"
proof -
  define ls where "ls = (case sc_symbols c of None \<Rightarrow> [] | Some ls \<Rightarrow> ls)"
  define hs where "hs = (case map_of ls prov of None \<Rightarrow> [holder_new mn 0] | Some hs \<Rightarrow> hs)"
  have "lists_ok ls"
    using assms by (auto simp: context_ok_def ls_def lists_ok_def split: option.splits)
  then have "list_all holder_ok hs \<and> distinct (map sh_timespan hs)"
    by (auto simp: hs_def lists_ok_def split: option.splits)
  then have "list_all holder_ok (add_to_timespan (mn + 1) (holder_addSymbol se t n lat wo prob) (holder_new mn 0) hs)
      \<and> distinct (map sh_timespan (add_to_timespan (mn + 1) (holder_addSymbol se t n lat wo prob) (holder_new mn 0) hs))"
    by (intro add_to_timespan_ok) (simp_all add: holder_add_ok)
  then show ?thesis
    using \<open>lists_ok ls\<close>
    by (auto simp: doAddSymbol_def context_ok_def lists_ok_def Let_def simp flip: ls_def hs_def)
qed

lemma flush_ok: "context_ok c \<Longrightarrow> context_ok (flush_tmp se prov mn c)"
  using doAddSymbol_ok by (fastforce simp: flush_tmp_def context_ok_def Let_def split: option.splits)

text \<open>
  C20: However symbols are added to a context, in whatever order of their times, each provider keeps
  one list for each time span, and the symbols of a list stay in the order of their times.
\<close>

theorem context_keeps_order:
  assumes "context_ok c"
  shows "context_ok (context_addSymbol se number prob t temp fromTime prov lat c)"
proof -
  have frame: "context_ok (c1\<lparr>sc_first := a\<rparr>) = context_ok c1" "context_ok (c1\<lparr>sc_prevTime := b\<rparr>) = context_ok c1"
    "context_ok (c1\<lparr>sc_prevTemp := d\<rparr>) = context_ok c1" "context_ok (c1\<lparr>sc_prevProvider := e\<rparr>) = context_ok c1"
    "context_ok (c1\<lparr>sc_tmp := f\<rparr>) = context_ok c1" for c1 :: "('a, 'b) sym_context" and a b d e f
    by (simp_all add: context_ok_def)
  show ?thesis
    using assms by (simp add: context_addSymbol_def Let_def frame doAddSymbol_ok flush_ok)
qed

section \<open>Finding symbols\<close>

lemma holder_from_sorted: "holder_ok h \<Longrightarrow> sorted (map sy_from (sh_symbols h))"
proof -
  have "sorted (map sy_from ss)" if "sorted (map sy_time ss)" "list_all (\<lambda>s. sy_min s = mn) ss" for ss mn
    using that by (induction ss) (auto simp: sy_from_def list_all_iff)
  then show "holder_ok h \<Longrightarrow> sorted (map sy_from (sh_symbols h))"
    unfolding holder_ok_def by (auto simp: list_all_iff)
qed

lemma find_loop_sorted: "sorted (map sy_from ss) \<Longrightarrow> find_loop t ss = find (\<lambda>s. sy_from s = t) ss"
proof (induction ss)
  case (Cons s ss)
  have "find (\<lambda>s. sy_from s = t) ss = None" if "t < sy_from s"
    using that Cons.prems by (auto simp: find_None_iff)
  then show ?case
    using Cons by auto
qed simp

text \<open>
  \<open>findSymbol\<close> gives up at the first symbol that starts later, yet it finds the symbol of a list
  that starts at the minute asked for whenever there is one.
\<close>

theorem findSymbol_complete:
  assumes "holder_ok h"
  shows "findSymbol t h = find (\<lambda>s. sy_from s = t - t mod 60) (sh_symbols h)"
  unfolding findSymbol_def by (rule find_loop_sorted [OF holder_from_sorted [OF assms]])

section \<open>Merging\<close>

abbreviation at_start :: "int \<Rightarrow> ('s, 'f) sym list \<Rightarrow> ('s, 'f) sym option" where
  "at_start t ss \<equiv> find (\<lambda>s. sy_from s = t) ss"

lemma at_start_None: "\<forall>s\<in>set ss. t < sy_from s \<Longrightarrow> at_start t ss = None"
  by (auto simp: find_None_iff)

lemma merge_symbols_set: "set (merge_symbols xs ys) = set xs \<union> set ys"
  by (induction xs ys rule: merge_symbols.induct) auto

lemma merge_symbols_sorted:
  "sorted (map sy_from xs) \<Longrightarrow> sorted (map sy_from ys) \<Longrightarrow> sorted (map sy_from (merge_symbols xs ys))"
  by (induction xs ys rule: merge_symbols.induct) (auto simp: merge_symbols_set)

lemma merge_symbols_at:
  "sorted (map sy_from xs) \<Longrightarrow> sorted (map sy_from ys) \<Longrightarrow>
     at_start t (merge_symbols xs ys) = (case at_start t xs of None \<Rightarrow> at_start t ys | Some s \<Rightarrow> Some s)"
proof (induction xs ys rule: merge_symbols.induct)
  case (3 x xs y ys)
  show ?case
  proof (cases "sy_from y < sy_from x")
    case True
    then have "at_start t (x # xs) = None" if "sy_from y = t"
      using 3(3) that by (intro at_start_None) auto
    moreover have "at_start t (merge_symbols (x # xs) ys)
        = (case at_start t (x # xs) of None \<Rightarrow> at_start t ys | Some s \<Rightarrow> Some s)"
      using 3(1) [OF True] 3(3,4) by simp
    ultimately show ?thesis
      using True by (cases "sy_from y = t") (simp_all split: option.splits)
  next
    case False
    then show ?thesis
      using 3 by auto
  qed
qed (auto split: option.splits)

lemma unique_symbols_strict: "sorted (map sy_from xs) \<Longrightarrow> sorted_wrt (<) (map sy_from (unique_symbols xs))"
proof (induction xs rule: unique_symbols.induct)
  case (3 x y xs)
  have "set (unique_symbols zs) \<subseteq> set zs" for zs :: "('a, 'b) sym list"
    by (induction zs rule: unique_symbols.induct) auto
  then have "\<forall>z\<in>set (unique_symbols (y # xs)). sy_from y \<le> sy_from z"
    using 3(3) by fastforce
  then show ?case
    using 3 by auto
qed simp_all

lemma unique_symbols_at: "at_start t (unique_symbols xs) = at_start t xs"
  by (induction xs rule: unique_symbols.induct) auto

text \<open>
  C37: \<open>merge\<close> of two lists of the same time span gives, for every start, the symbol of the first list
  that starts then, and that of the second when the first has none; no start is there twice.
\<close>

theorem merge_precedence:
  assumes "holder_ok a" "holder_ok b" "sh_timespan a = sh_timespan b"
  shows "\<exists>m. merge_holders a b = Some m \<and> sh_timespan m = sh_timespan a
    \<and> sorted_wrt (<) (map sy_from (sh_symbols m))
    \<and> (\<forall>t. at_start t (sh_symbols m)
          = (case at_start t (sh_symbols a) of None \<Rightarrow> at_start t (sh_symbols b) | Some s \<Rightarrow> Some s))"
proof -
  note sorted = holder_from_sorted [OF assms(1)] holder_from_sorted [OF assms(2)]
  show ?thesis
    using unique_symbols_strict [OF merge_symbols_sorted [OF sorted]] merge_symbols_at [OF sorted] assms(3)
    by (simp add: merge_holders_def sh_timespan_def unique_symbols_at)
qed

section \<open>Thunder\<close>

lemma range_end_all:
  "list_all (covers f t) ss \<Longrightarrow> range_end f t ss i e = (if ss = [] then e else i + length ss - 1)"
  by (induction f t ss i e rule: range_end.induct) auto

text \<open>
  When the symbols that cover a period go on to the end of the list, \<open>findSymbolsIncludedRange\<close>
  leaves the last one out; with two or more of them the consistency check then leaves it without the
  thunder it should get.
\<close>

theorem range_misses_last:
  assumes "find_idx (covers f t) ss = Some b" "list_all (covers f t) (drop (b + 1) ss)" "b + 1 < length ss"
  shows "findSymbolsIncludedRange f t ss = (b, length ss - 1)"
  using assms by (simp add: findSymbolsIncludedRange_def range_end_all)

lemma turn_times [simp]:
  "sy_from (turnOnThunder se s) = sy_from s" "sy_to (turnOnThunder se s) = sy_to s"
  "sy_from (turnOffThunder se s) = sy_from s" "sy_to (turnOffThunder se s) = sy_to s"
  "sy_time (turnOnThunder se s) = sy_time s" "sy_time (turnOffThunder se s) = sy_time s"
  by (simp_all add: turnOnThunder_def turnOffThunder_def sy_from_def sy_to_def)

lemma covers_turn [simp]: "covers f t (turnOnThunder se s) = covers f t s"
  by (simp add: covers_def)

lemma range_end_covers:
  "e \<le> i \<Longrightarrow> i \<le> j \<Longrightarrow> j < range_end f t ss i e \<Longrightarrow> j - i < length ss \<and> covers f t (ss ! (j - i))"
proof (induction f t ss i e arbitrary: j rule: range_end.induct)
  case (2 f t s ss i e)
  show ?case
  proof (cases "j = i")
    case False
    then have "j - i = Suc (j - Suc i)"
      using 2(3) by simp
    then show ?thesis
      using 2 False by (auto split: if_splits)
  qed (use 2 in \<open>auto split: if_splits\<close>)
qed simp

lemma included_covers:
  assumes "findSymbolsIncludedRange f t ss = (b, e)" "b \<le> j" "j < e"
  shows "j < length ss \<and> covers f t (ss ! j)"
proof -
  obtain b0 where b0: "find_idx (covers f t) ss = Some b0" "b = b0" "e = range_end f t (drop (b0 + 1) ss) (b0 + 1) (b0 + 1)"
    using assms by (auto simp: findSymbolsIncludedRange_def split: option.splits)
  then have first: "b0 < length ss" "covers f t (ss ! b0)"
    by (auto simp: find_idx_Some)
  show ?thesis
  proof (cases "j = b0")
    case False
    then show ?thesis
      using range_end_covers [of "b0 + 1" "b0 + 1" j f t "drop (b0 + 1) ss"] assms(2,3) b0(2,3) by auto
  qed (use first in simp)
qed

lemma on_in_range_elem:
  assumes "r \<in> set (on_in_range se (findSymbolsIncludedRange f t ss) ss)"
  shows "r \<in> set ss \<or> covers f t r"
proof -
  obtain b e where be: "findSymbolsIncludedRange f t ss = (b, e)"
    by fastforce
  obtain j where "j < length ss" "r = (if b \<le> j \<and> j < e then turnOnThunder se (ss ! j) else ss ! j)"
    using assms by (auto simp: on_in_range_def be in_set_enumerate_eq)
  then show ?thesis
    using included_covers [OF be] by auto
qed

lemma on_in_range_times: "map sy_time (on_in_range se r ss) = map sy_time ss"
  by (rule nth_equalityI) (auto simp: on_in_range_def nth_enumerate_eq)

lemma thunder_fold:
  assumes "\<forall>r\<in>set ss. se_thunder se (sy_symbol r) \<longrightarrow> (\<exists>o1\<in>A. se_thunder se (sy_symbol o1) \<and> covers (sy_from o1) (sy_to o1) r)"
    and "set os \<subseteq> A"
  defines "ss1 \<equiv> fold (\<lambda>oth ss. if se_thunder se (sy_symbol oth)
      then on_in_range se (findSymbolsIncludedRange (sy_from oth) (sy_to oth) ss) ss else ss) os ss"
  shows "(\<forall>r\<in>set ss1. se_thunder se (sy_symbol r) \<longrightarrow> (\<exists>o1\<in>A. se_thunder se (sy_symbol o1) \<and> covers (sy_from o1) (sy_to o1) r))
    \<and> map sy_time ss1 = map sy_time ss"
  unfolding ss1_def using assms(1,2)
proof (induction os arbitrary: ss)
  case (Cons oth os)
  let ?ss = "if se_thunder se (sy_symbol oth) then on_in_range se (findSymbolsIncludedRange (sy_from oth) (sy_to oth) ss) ss else ss"
  have "\<forall>r\<in>set ?ss. se_thunder se (sy_symbol r) \<longrightarrow> (\<exists>o1\<in>A. se_thunder se (sy_symbol o1) \<and> covers (sy_from o1) (sy_to o1) r)"
    using Cons.prems on_in_range_elem [of _ se "sy_from oth" "sy_to oth" ss] by (auto split: if_splits)
  from Cons.IH [OF this] Cons.prems(2) show ?case
    by (auto simp: on_in_range_times)
qed simp

text \<open>
  C19: After the check against the symbols of a shorter time span, a symbol has thunder only if it
  covers the whole period of one of those that has thunder; the check changes no time.
\<close>

theorem thunder_justified:
  assumes "sh_timespan other \<le> sh_timespan h" "\<forall>s. \<not> se_thunder se (se_off se s)"
  shows "(\<forall>s\<in>set (sh_symbols (consistentCheckThunder se other h)). se_thunder se (sy_symbol s) \<longrightarrow>
      (\<exists>o1\<in>set (sh_symbols other). se_thunder se (sy_symbol o1) \<and> sy_from s \<le> sy_from o1 \<and> sy_to o1 \<le> sy_to s))
    \<and> map sy_time (sh_symbols (consistentCheckThunder se other h)) = map sy_time (sh_symbols h)"
proof -
  let ?off = "map (\<lambda>s. turnOffThunder se (s\<lparr>sy_old := Some (sy_symbol s)\<rparr>)) (sh_symbols h)"
  have "\<forall>r\<in>set ?off. \<not> se_thunder se (sy_symbol r)"
    using assms(2) by (auto simp: turnOffThunder_def)
  then show ?thesis
    using thunder_fold [of ?off se "set (sh_symbols other)" "sh_symbols other"] assms(1)
    by (simp add: consistentCheckThunder_def covers_def comp_def)
qed

section \<open>Concrete symbols\<close>

text \<open>A symbol is its number, with thunder when it is odd.\<close>

definition int_symenv :: "(int, int) symenv" where
  "int_symenv =
     \<lparr>se_symbol = Some, se_light = (\<lambda>t l s. s), se_number = (\<lambda>s. s), se_name = (\<lambda>s. []), se_thunder = odd,
      se_off = (\<lambda>s. 2 * (s div 2)), se_on = (\<lambda>s. 2 * (s div 2) + 1), se_cold = (\<lambda>t. t < 1), se_cool = (\<lambda>t. t = 1)\<rparr>"

definition sample_holder :: "int \<Rightarrow> (int \<times> int) list \<Rightarrow> (int, int) holder" where
  "sample_holder timespan syms = (holder_of_timespan timespan)\<lparr>sh_symbols := map (\<lambda>(t, s). sym_new (timespan - 1) 0 s t None True) syms\<rparr>"

definition sample_context :: "(int, int) sym_context" where
  "sample_context =
     \<lparr>sc_symbols = None, sc_tmp = \<lparr>st_time = None, st_number = 0, st_latitude = 0, st_prob = None\<rparr>, sc_prevProvider = [],
      sc_prevTime = None, sc_prevTemp = None, sc_first = True, sc_useTemp = False\<rparr>"

theorem context_keeps_order_witness:
  "context_ok (context_addSymbol int_symenv 3 None 7200 None (Some 0) ''ec'' 60
     (context_addSymbol int_symenv 4 None 10800 None (Some 3600) ''ec'' 60 sample_context))"
  by (intro context_keeps_order) (simp add: context_ok_def sample_context_def)

lemma sample_holder_ok: "sorted (map fst syms) \<Longrightarrow> holder_ok (sample_holder k syms)"
  by (auto simp: holder_ok_def sample_holder_def holder_of_timespan_def holder_new_def sym_new_def list_all_iff comp_def case_prod_unfold)

theorem findSymbol_complete_witness:
  "map_option sy_symbol (findSymbol 3600 (sample_holder 1 [(3600, 2), (7200, 3), (10800, 4)])) = Some 3"
proof -
  have "holder_ok (sample_holder 1 [(3600, 2), (7200, 3), (10800, 4)])"
    by (rule sample_holder_ok) simp
  from findSymbol_complete [OF this, of 3600] show ?thesis
    by (simp add: sample_holder_def holder_of_timespan_def holder_new_def sym_new_def sy_from_def)
qed

theorem merge_precedence_witness:
  "\<exists>m. merge_holders (sample_holder 1 [(3600, 2), (7200, 3)]) (sample_holder 1 [(7200, 5), (10800, 4)]) = Some m
     \<and> map_option sy_symbol (at_start 3600 (sh_symbols m)) = Some 3
     \<and> map_option sy_symbol (at_start 7200 (sh_symbols m)) = Some 4"
proof -
  have ok: "holder_ok (sample_holder 1 [(3600, 2), (7200, 3)])" "holder_ok (sample_holder 1 [(7200, 5), (10800, 4)])"
    by (rule sample_holder_ok, simp)+
  have ts: "sh_timespan (sample_holder 1 [(3600, 2), (7200, 3)]) = sh_timespan (sample_holder 1 [(7200, 5), (10800, 4)])"
    by (simp add: sample_holder_def sh_timespan_def holder_of_timespan_def holder_new_def)
  obtain m where m: "merge_holders (sample_holder 1 [(3600, 2), (7200, 3)]) (sample_holder 1 [(7200, 5), (10800, 4)]) = Some m"
    "\<forall>t. at_start t (sh_symbols m) = (case at_start t (sh_symbols (sample_holder 1 [(3600, 2), (7200, 3)])) of
        None \<Rightarrow> at_start t (sh_symbols (sample_holder 1 [(7200, 5), (10800, 4)])) | Some s \<Rightarrow> Some s)"
    using merge_precedence [OF ok ts] by blast
  from m(1) spec [OF m(2), of 3600] spec [OF m(2), of 7200] show ?thesis
    by (simp add: sample_holder_def holder_of_timespan_def holder_new_def sym_new_def sy_from_def)
qed

theorem range_misses_last_witness:
  "findSymbolsIncludedRange 0 3600 (sh_symbols (sample_holder 6 [(3600, 2), (7200, 2), (10800, 2)])) = (0, 2)"
proof -
  let ?ss = "sh_symbols (sample_holder 6 [(3600, 2), (7200, 2), (10800, 2)])"
  have ss: "?ss = map (\<lambda>(t, s). sym_new 5 0 s t None True) [(3600, 2), (7200, 2), (10800, 2)]"
    by (simp add: sample_holder_def)
  have "findSymbolsIncludedRange 0 3600 ?ss = (0, length ?ss - 1)"
    by (rule range_misses_last) (simp_all add: ss sym_new_def covers_def sy_from_def sy_to_def)
  then show ?thesis
    by (simp add: ss)
qed

theorem thunder_justified_witness:
  "let h = consistentCheckThunder int_symenv (sample_holder 1 [(3600, 2), (7200, 5)]) (sample_holder 2 [(3600, 7), (7200, 4)])
   in map sy_symbol (sh_symbols h) = [6, 5] \<and> map sy_time (sh_symbols h) = [3600, 7200]
      \<and> (\<exists>o1\<in>set (sh_symbols (sample_holder 1 [(3600, 2), (7200, 5)])).
            odd (sy_symbol o1) \<and> sy_from (sh_symbols h ! 1) \<le> sy_from o1 \<and> sy_to o1 \<le> sy_to (sh_symbols h ! 1))"
proof -
  let ?h = "consistentCheckThunder int_symenv (sample_holder 1 [(3600, 2), (7200, 5)]) (sample_holder 2 [(3600, 7), (7200, 4)])"
  have r: "map sy_symbol (sh_symbols ?h) = [6, 5]"
    by code_simp
  then have len: "length (sh_symbols ?h) = 2" "sy_symbol (sh_symbols ?h ! 1) = 5"
    by (auto simp: map_eq_Cons_conv)
  then have second: "sh_symbols ?h ! 1 \<in> set (sh_symbols ?h)"
    by simp
  have "sh_timespan (sample_holder 1 [(3600, 2), (7200, 5)]) \<le> sh_timespan (sample_holder 2 [(3600, 7), (7200, 4)])"
    "\<forall>s. \<not> se_thunder int_symenv (se_off int_symenv s)"
    by (simp_all add: sample_holder_def holder_of_timespan_def holder_new_def sh_timespan_def int_symenv_def)
  note T = thunder_justified [OF this]
  have "se_thunder int_symenv (sy_symbol (sh_symbols ?h ! 1))"
    by (simp only: len) (simp add: int_symenv_def)
  with T second obtain o1 where "o1 \<in> set (sh_symbols (sample_holder 1 [(3600, 2), (7200, 5)]))"
    "se_thunder int_symenv (sy_symbol o1)" "sy_from (sh_symbols ?h ! 1) \<le> sy_from o1" "sy_to o1 \<le> sy_to (sh_symbols ?h ! 1)"
    by blast
  moreover have "map sy_time (sh_symbols ?h) = [3600, 7200]"
    using T by (simp add: sample_holder_def sym_new_def)
  ultimately show ?thesis
    unfolding Let_def using r by (auto simp: int_symenv_def)
qed

end
