(* ===== verification/NextRun.thy ===== *)
theory NextRun
  imports Providers StringUtil RequestConf
begin

text \<open>
  When a model runs next: the periods of a day of \<open>src/src/mod_wdb2ts/configparser/NextRun.cc\<close>, and
  the metadata of a model of \<open>src/src/mod_wdb2ts/MetaModelConf.cpp\<close>. Times and durations are whole
  seconds; the clock is an argument. The loop over a day of \<open>parseNextrun1\<close> ends only for a
  positive step, so it is a partial function.
\<close>

section \<open>Periods of a day\<close>

abbreviation day :: int where
  "day \<equiv> 86400"

text \<open>\<open>TimePeriode\<close>: the end, and the length, negative when the period passes midnight.\<close>

datatype time_period = TimePeriode (getTo: int) (getDif: int)

definition timePeriode_new :: "int \<Rightarrow> int \<Rightarrow> time_period" where
  "timePeriode_new fromt tot = TimePeriode tot (if tot < fromt then - (day - fromt + tot) else tot - fromt)"

definition inPeriode :: "time_period \<Rightarrow> int \<Rightarrow> bool" where
  "inPeriode p t =
     (if getDif p < 0
      then (let d = (if getTo p < t then day - t + getTo p else getTo p - t) in getDif p \<le> - d)
      else (let d = getTo p - t in 0 \<le> d \<and> d \<le> getDif p))"

definition tp_less :: "time_period \<Rightarrow> time_period \<Rightarrow> bool" where
  "tp_less a b =
     (if getTo a < getTo b then True
      else if getTo a = getTo b then \<bar>getDif a\<bar> < \<bar>getDif b\<bar>
      else False)"

definition tp_eq :: "time_period \<Rightarrow> time_period \<Rightarrow> bool" where
  "tp_eq a b = (if getTo a = getTo b then \<bar>getDif a\<bar> = \<bar>getDif b\<bar> else False)"

text \<open>\<open>refto\<close>: the end of the period at or after a time, and its start. A time is a day and a clock.\<close>

definition refto :: "time_period \<Rightarrow> int \<Rightarrow> int \<times> int" where
  "refto p reftime =
     (let clock = reftime mod day;
          d = reftime - clock;
          r = (if inPeriode p clock then (if getDif p < 0 \<and> getTo p < clock then d + day else d) + getTo p
               else if getDif p < 0 then d + day + getTo p
               else (if getTo p < clock then d + day else d) + getTo p)
      in (r, if getDif p < 0 then r + getDif p else r - getDif p))"

text \<open>\<open>std::list::sort\<close>, which keeps the order of equal elements.\<close>

fun insert_period :: "time_period \<Rightarrow> time_period list \<Rightarrow> time_period list" where
  "insert_period p [] = [p]"
| "insert_period p (q # qs) = (if tp_less q p then q # insert_period p qs else p # q # qs)"

definition addTimePeriod :: "time_period \<Rightarrow> time_period list \<Rightarrow> time_period list" where
  "addTimePeriod p l = foldr insert_period (l @ [p]) []"

fun find_later :: "time_period \<Rightarrow> int \<Rightarrow> time_period list \<Rightarrow> time_period \<times> bool" where
  "find_later frst t [] = (frst, False)"
| "find_later frst t (p # ps) =
     (if inPeriode p t then (p, True)
      else if t < getTo p then (p, False)
      else find_later frst t ps)"

definition findTimePeriod :: "int \<Rightarrow> time_period list \<Rightarrow> (time_period \<times> bool) option" where
  "findTimePeriod t l =
     (case l of
        [] \<Rightarrow> None
      | p # ps \<Rightarrow> Some (if inPeriode p t then (p, True) else find_later p t ps))"

definition group_nextRun :: "int \<Rightarrow> time_period list \<Rightarrow> (int \<times> int) option" where
  "group_nextRun reqTime l = map_option (\<lambda>(p, _). refto p reqTime) (findTimePeriod (reqTime mod day) l)"

section \<open>Metadata of a model\<close>

datatype spec_type = Spec_error | Spec_undefined | Spec_absolute | Spec_relative

record meta_model =
  mm_name :: string
  mm_spec :: spec_type
  mm_nextrun :: "int list"

definition meta_model_new :: "string \<Rightarrow> meta_model" where
  "meta_model_new n = \<lparr>mm_name = n, mm_spec = Spec_undefined, mm_nextrun = []\<rparr>"

text \<open>\<open>now\<close> and the reference time, which may be undefined; the result may be too.\<close>

definition findNextrun :: "int \<Rightarrow> int option \<Rightarrow> meta_model \<Rightarrow> int option" where
  "findNextrun now rt m =
     (let clock = now mod day; midnight = now - clock
      in case mm_nextrun m of
           [] \<Rightarrow> None
         | frst # _ \<Rightarrow>
             (case mm_spec m of
                Spec_absolute \<Rightarrow>
                  (case find (\<lambda>d. \<not> d < clock) (mm_nextrun m) of
                     Some d \<Rightarrow> Some (midnight + d)
                   | None \<Rightarrow> Some (midnight + day + frst))
              | Spec_relative \<Rightarrow> map_option (\<lambda>t. t + frst) rt
              | _ \<Rightarrow> None))"

fun add_duration :: "int \<Rightarrow> int list \<Rightarrow> int list" where
  "add_duration d [] = [d]"
| "add_duration d (x # xs) = (if x < d then x # add_duration d xs else if x = d then x # xs else d # x # xs)"

definition addTimeDuration :: "int \<Rightarrow> meta_model \<Rightarrow> meta_model" where
  "addTimeDuration d m = m\<lparr>mm_nextrun := add_duration d (mm_nextrun m)\<rparr>"

definition isnumber :: "string \<Rightarrow> bool" where
  "isnumber s \<longleftrightarrow> list_all isdigit s"

text \<open>
  The two regular expressions: blanks, an optional plus and digits; blanks, a star or digits, a
  slash and digits. \<open>lexical_cast\<close> throws when the number is too large for an \<open>int\<close>.
\<close>

definition match_relative :: "string \<Rightarrow> string option" where
  "match_relative s =
     (let r = dropWhile (\<lambda>c. c = CHR '' '') s;
          ds = (if r \<noteq> [] \<and> hd r = CHR ''+'' then tl r else r)
      in if ds \<noteq> [] \<and> isnumber ds then Some ds else None)"

definition match_every :: "string \<Rightarrow> (string \<times> string) option" where
  "match_every s =
     (let r = dropWhile (\<lambda>c. c = CHR '' '') s;
          a = takeWhile (\<lambda>c. c \<noteq> CHR ''/'') r;
          b = drop (length a + 1) r
      in if length a < length r \<and> (a = ''*'' \<or> a \<noteq> [] \<and> isnumber a) \<and> b \<noteq> [] \<and> isnumber b then Some (a, b) else None)"

definition cast_int :: "string \<Rightarrow> int result" where
  "cast_int ds = (if int (digits_val ds) \<le> int_max then Inr (int (digits_val ds)) else Inl Bad_cast)"

text \<open>The loop \<open>for( i=offset; i<86400; i += every )\<close>: \<open>i\<close> is an \<open>int\<close>.\<close>

partial_function (option) every_loop :: "int \<Rightarrow> int \<Rightarrow> meta_model \<Rightarrow> meta_model result option" where
  "every_loop every i m =
     (if i < day
      then (let m1 = addTimeDuration i m
            in if int_max < i + every then Some (Inl Undefined_behaviour) else every_loop every (i + every) m1)
      else Some (Inr m))"

definition parseNextrun1 :: "string \<Rightarrow> meta_model \<Rightarrow> (spec_type \<times> meta_model) result option" where
  "parseNextrun1 s m =
     (case match_relative s of
        Some ds \<Rightarrow> Some (bind_result (cast_int ds) (\<lambda>n. Inr (Spec_relative, addTimeDuration n m)))
      | None \<Rightarrow>
          (case match_every s of
             None \<Rightarrow> Some (Inr (Spec_error, m))
           | Some (a, b) \<Rightarrow>
               (case bind_result (cast_int b) (\<lambda>every.
                       bind_result (if a = ''*'' then Inr 0 else cast_int a) (\<lambda>offset. Inr (every, offset))) of
                  Inl x \<Rightarrow> Some (Inl x)
                | Inr (every, offset) \<Rightarrow>
                    map_option (\<lambda>r. bind_result r (\<lambda>m1. Inr (Spec_absolute, m1))) (every_loop every offset m))))"

definition parseNextrun2 :: "string \<Rightarrow> string \<Rightarrow> meta_model \<Rightarrow> (spec_type \<times> meta_model) result" where
  "parseNextrun2 val1 val2 m =
     (let hh = trimstr val1; mm = trimstr val2
      in if hh = [] \<or> mm = [] then Inr (Spec_error, m)
         else if \<not> isnumber hh \<or> \<not> isnumber mm then Inr (Spec_error, m)
         else (case sscanf_d hh of
                 No_match \<Rightarrow> Inr (Spec_error, m)
               | Scan_overflow \<Rightarrow> Inl Undefined_behaviour
               | Scanned h \<Rightarrow>
                   (case sscanf_d mm of
                      No_match \<Rightarrow> Inr (Spec_error, m)
                    | Scan_overflow \<Rightarrow> Inl Undefined_behaviour
                    | Scanned n \<Rightarrow> Inr (Spec_absolute, addTimeDuration (h * 3600 + n * 60) m))))"

text \<open>What \<open>parseNextrun\<close> makes of the type of the next specification: a failure, or the type it has then.\<close>

definition join_spec :: "spec_type \<Rightarrow> spec_type \<Rightarrow> spec_type option" where
  "join_spec have new =
     (if new = Spec_error then None
      else if have = Spec_undefined then Some new
      else if have = Spec_absolute \<and> new \<noteq> have then None
      else if have = Spec_relative then None
      else Some have)"

definition fields :: "string \<Rightarrow> char \<Rightarrow> string list" where
  "fields s c = (case splitstr s c dquote of None \<Rightarrow> [] | Some l \<Rightarrow> l)"

fun nextrun_loop :: "string list \<Rightarrow> meta_model \<Rightarrow> (bool \<times> meta_model) result option" where
  "nextrun_loop [] m = Some (Inr (True, m))"
| "nextrun_loop (v # vs) m =
     (let tds = fields v (CHR '':'')
      in if length tds \<noteq> 1 \<and> length tds \<noteq> 2 then nextrun_loop vs m
         else (case (if length tds = 2 then Some (parseNextrun2 (tds ! 0) (tds ! 1) m) else parseNextrun1 (tds ! 0) m) of
                 None \<Rightarrow> None
               | Some (Inl x) \<Rightarrow> Some (Inl x)
               | Some (Inr (spec, m1)) \<Rightarrow>
                   (case join_spec (mm_spec m1) spec of
                      None \<Rightarrow> Some (Inr (False, m1))
                    | Some st \<Rightarrow> nextrun_loop vs (m1\<lparr>mm_spec := st\<rparr>))))"

definition parseNextrun :: "string \<Rightarrow> meta_model \<Rightarrow> (bool \<times> meta_model) result option" where
  "parseNextrun val m = nextrun_loop (fields val (CHR '','')) m"

fun conf_loop :: "string list \<Rightarrow> meta_model \<Rightarrow> (bool \<times> meta_model) result option" where
  "conf_loop [] m = Some (Inr (True, m))"
| "conf_loop (kv # kvs) m =
     (let l = fields kv (CHR ''='')
      in if length l \<noteq> 2 then conf_loop kvs m
         else (let key = trimstr (l ! 0); val = trimstr (l ! 1)
               in if val = [] \<or> key = [] then conf_loop kvs m
                  else if key = ''name'' then conf_loop kvs (m\<lparr>mm_name := val\<rparr>)
                  else if key = ''nextrun''
                  then (case parseNextrun val m of
                          None \<Rightarrow> None
                        | Some (Inl x) \<Rightarrow> Some (Inl x)
                        | Some (Inr (b, m1)) \<Rightarrow> if b then conf_loop kvs m1 else Some (Inr (False, m1)))
                  else Some (Inr (False, m))))"

definition parseConf :: "string \<Rightarrow> meta_model \<Rightarrow> (bool \<times> meta_model) result option" where
  "parseConf conf m = conf_loop (fields conf (CHR '';'')) m"

text \<open>\<open>configureMetaModelConf\<close>: the parameters named \<open>meta_model-\<close> and a list of providers.\<close>

definition meta_key :: string where
  "meta_key = ''meta_model-''"

fun meta_loop :: "(string \<times> val) list \<Rightarrow> (string, meta_model) omap \<Rightarrow> (string, meta_model) omap result option" where
  "meta_loop [] acc = Some (Inr acc)"
| "meta_loop ((k, v) # ps) acc =
     (if take (length meta_key) k \<noteq> meta_key then meta_loop ps acc
      else (case v of
              None \<Rightarrow> Some (Inl (Logic_error ''Value is undefined.''))
            | Some s \<Rightarrow>
                (case parseConf s (meta_model_new []) of
                   None \<Rightarrow> None
                 | Some (Inl x) \<Rightarrow> Some (Inl x)
                 | Some (Inr (b, m)) \<Rightarrow>
                     meta_loop ps
                       (if b then fold (\<lambda>it. om_put (providerWithPlacename it) m) (ProviderList_decode (drop (length meta_key) k) True) acc
                        else acc))))"

definition configureMetaModelConf :: "action_params \<Rightarrow> (string, meta_model) omap result option" where
  "configureMetaModelConf ps = meta_loop ps []"

section \<open>Periods\<close>

lemma inPeriode_cyclic:
  assumes "0 \<le> f" "f < day" "0 \<le> e" "e < day" "0 \<le> t" "t < day"
  shows "inPeriode (timePeriode_new f e) t \<longleftrightarrow> (if f \<le> e then f \<le> t \<and> t \<le> e else f \<le> t \<or> t \<le> e)"
  using assms by (auto simp: inPeriode_def timePeriode_new_def Let_def)

lemma day_mod: "0 \<le> x \<Longrightarrow> x < 86400 \<Longrightarrow> (k * 86400 + x) mod 86400 = x" for k x :: int
  by simp

text \<open>The end is today when it is not before the clock, else tomorrow.\<close>

lemma refto_cyclic:
  assumes "0 \<le> f" "f < day" "0 \<le> e" "e < day" "0 \<le> c" "c < day"
  shows "refto (timePeriode_new f e) (q * day + c)
    = (let r = (if e < c then (q + 1) * day + e else q * day + e) in (r, r - (if f \<le> e then e - f else day - f + e)))"
proof -
  have clock: "(q * day + c) mod day = c"
    by (rule day_mod [OF assms(5,6)])
  have ip: "inPeriode (timePeriode_new f e) c \<longleftrightarrow> (if f \<le> e then f \<le> c \<and> c \<le> e else f \<le> c \<or> c \<le> e)"
    by (rule inPeriode_cyclic [OF assms(1-6)])
  have gt: "getTo (timePeriode_new f e) = e"
    and gd: "getDif (timePeriode_new f e) = (if e < f then - (day - f + e) else e - f)"
    by (simp_all add: timePeriode_new_def)
  show ?thesis
    unfolding refto_def Let_def clock ip gt gd using assms by auto
qed

text \<open>
  C17: \<open>refto\<close> gives the first time from the one asked for on that is the end of the period, today
  or tomorrow, and the start that belongs to it; the time asked for lies between them exactly when
  its clock is in the period, also when the period passes midnight.
\<close>

theorem refto_next_end:
  assumes "0 \<le> f" "f < day" "0 \<le> e" "e < day"
  defines "p \<equiv> timePeriode_new f e"
  shows "t \<le> fst (refto p t) \<and> fst (refto p t) < t + day \<and> fst (refto p t) mod day = e
    \<and> snd (refto p t) mod day = f \<and> snd (refto p t) \<le> fst (refto p t) \<and> fst (refto p t) < snd (refto p t) + day
    \<and> (snd (refto p t) \<le> t \<longleftrightarrow> inPeriode p (t mod day))"
proof -
  define c q where "c = t mod day" and "q = t div day"
  have c: "0 \<le> c" "c < day" and t: "t = q * day + c"
    by (simp_all add: c_def q_def)
  define q1 where "q1 = (if e < c then q + 1 else q)"
  have r: "refto p t = (q1 * day + e, (if f \<le> e then q1 else q1 - 1) * day + f)"
    unfolding p_def t refto_cyclic [OF assms(1-4) c] by (auto simp: q1_def Let_def)
  have near: "t \<le> q1 * day + e" "q1 * day + e < t + day"
    using assms(1-4) c by (auto simp: q1_def t)
  have ip: "inPeriode p c \<longleftrightarrow> (if f \<le> e then f \<le> c \<and> c \<le> e else f \<le> c \<or> c \<le> e)"
    unfolding p_def by (rule inPeriode_cyclic [OF assms(1-4) c])
  have start: "(if f \<le> e then q1 else q1 - 1) * day + f \<le> t \<longleftrightarrow> inPeriode p c"
    unfolding ip q1_def t using assms(1-4) c by auto
  show ?thesis
    using near start assms(1-4)
    by (simp add: r day_mod del: mod_mult_self3 mod_mult_self4 flip: c_def)
qed

section \<open>Next run\<close>

lemma add_duration_set [simp]: "set (add_duration d ds) = insert d (set ds)"
  by (induction ds) auto

lemma add_duration_sorted: "sorted_wrt (<) ds \<Longrightarrow> sorted_wrt (<) (add_duration d ds)"
  by (induction ds) auto

lemma first_clock:
  assumes "sorted_wrt (<) (ds :: int list)" "find (\<lambda>d. \<not> d < c) ds = Some d"
  shows "d \<in> set ds \<and> c \<le> d \<and> (\<forall>x\<in>set ds. c \<le> x \<longrightarrow> d \<le> x)"
  using assms by (induction ds) (auto split: if_splits)

lemma clock_from: "k * day \<le> s \<Longrightarrow> s < (k + 1) * day \<Longrightarrow> s mod day = s - k * day"
  using day_mod [of "s - k * day" k] by simp

lemma clock_between:
  assumes "0 \<le> c" "0 \<le> d" "d < day" "k * day + c \<le> s" "s < k * day + d"
  shows "c \<le> s mod day \<and> s mod day < d"
  using clock_from [of k s] assms by simp

lemma clock_tomorrow:
  assumes "k * day + c \<le> s" "s < (k + 1) * day + d" "0 \<le> c" "0 \<le> d \<and> d < day" "\<forall>x\<in>A. x < c" "\<forall>x\<in>A. d \<le> x"
  shows "s mod day \<notin> A"
proof (cases "s < (k + 1) * day")
  case True
  then have "c \<le> s mod day"
    using clock_from [of k s] assms(1,3) by simp
  then show ?thesis
    using assms(5) by fastforce
next
  case False
  then have "s mod day < d"
    using clock_from [of "k + 1" s] assms(2,4) by simp
  then show ?thesis
    using assms(6) by fastforce
qed

text \<open>
  C18: With clock times, \<open>findNextrun\<close> gives the first time from now on that has one of them: none
  of them lies between, and when all have passed it is the first of tomorrow.
\<close>

theorem nextrun_is_next:
  assumes "mm_spec m = Spec_absolute" "sorted_wrt (<) (mm_nextrun m)" "mm_nextrun m \<noteq> []"
    and "\<forall>d\<in>set (mm_nextrun m). 0 \<le> d \<and> d < day"
  shows "\<exists>r. findNextrun now rt m = Some r \<and> now \<le> r \<and> r mod day \<in> set (mm_nextrun m)
    \<and> (\<forall>s\<in>{now..<r}. s mod day \<notin> set (mm_nextrun m))"
proof -
  define c k where "c = now mod day" and "k = now div day"
  have c: "0 \<le> c" "c < day" and now: "now = k * day + c"
    by (simp_all add: c_def k_def)
  have bounds: "0 \<le> x \<and> x < day" if "x \<in> set (mm_nextrun m)" for x
    using assms(4) that by blast
  show ?thesis
  proof (cases "find (\<lambda>d. \<not> d < c) (mm_nextrun m)")
    case (Some d)
    have d: "d \<in> set (mm_nextrun m)" "c \<le> d" "\<forall>x\<in>set (mm_nextrun m). c \<le> x \<longrightarrow> d \<le> x"
      using first_clock [OF assms(2) Some] by auto
    have "findNextrun now rt m = Some (k * day + d)"
      using assms(1,3) Some by (auto simp: findNextrun_def Let_def now c day_mod split: list.splits)
    moreover have "s mod day \<notin> set (mm_nextrun m)" if "k * day + c \<le> s" "s < k * day + d" for s
      using clock_between [OF _ _ _ that] d bounds [OF d(1)] c(1) by fastforce
    ultimately show ?thesis
      using d(1,2) bounds [OF d(1)] by (auto simp: now day_mod)
  next
    case None
    obtain d0 ds where ds: "mm_nextrun m = d0 # ds"
      using assms(3) by (cases "mm_nextrun m") auto
    have early: "x < c" if "x \<in> set (mm_nextrun m)" for x
      using None that by (auto simp: find_None_iff)
    have least: "d0 \<le> x" if "x \<in> set (mm_nextrun m)" for x
      using assms(2) that by (auto simp: ds)
    have d0: "d0 \<in> set (mm_nextrun m)"
      by (simp add: ds)
    have "findNextrun now rt m = Some ((k + 1) * day + d0)"
      using assms(1) None by (auto simp: findNextrun_def Let_def now c day_mod ds)
    moreover have "s mod day \<notin> set (mm_nextrun m)" if "k * day + c \<le> s" "s < (k + 1) * day + d0" for s
      using clock_tomorrow [OF that c(1) bounds [OF d0]] early least by blast
    ultimately show ?thesis
      using d0 bounds [OF d0] early [OF d0] c(2) day_mod [of d0 "k + 1"] by (auto simp: now)
  qed
qed

section \<open>Reading clock times\<close>

lemma every_loop_end: "day \<le> i \<Longrightarrow> every_loop every i m = Some (Inr m)"
  by (simp add: every_loop.simps)

lemma every_loop_step:
  "i < day \<Longrightarrow> i + every \<le> int_max \<Longrightarrow> every_loop every i m = every_loop every (i + every) (addTimeDuration i m)"
  by (simp add: every_loop.simps [of every i] Let_def)

text \<open>The clock times \<open>offset/every\<close> means.\<close>

definition every_times :: "int \<Rightarrow> int \<Rightarrow> int set" where
  "every_times every i = {x. i \<le> x \<and> x < day \<and> every dvd (x - i)}"

lemma every_times_step:
  assumes "0 < every" "i < day"
  shows "every_times every i = insert i (every_times every (i + every))"
proof -
  have "x = i \<or> i + every \<le> x" if "i \<le> x" "every dvd (x - i)" for x
    using zdvd_imp_le [OF that(2)] that(1) by linarith
  moreover have "every dvd (x - (i + every)) \<longleftrightarrow> every dvd (x - i)" for x
    using dvd_diff_left_iff [of every every "x - i"] by (simp add: algebra_simps)
  ultimately show ?thesis
    using assms by (auto simp: every_times_def)
qed

lemma every_loop_times:
  assumes "0 < every" "every + day \<le> int_max" "sorted_wrt (<) (mm_nextrun m)"
  shows "\<exists>m1. every_loop every i m = Some (Inr m1) \<and> set (mm_nextrun m1) = set (mm_nextrun m) \<union> every_times every i
    \<and> sorted_wrt (<) (mm_nextrun m1) \<and> mm_spec m1 = mm_spec m"
  using assms(3)
proof (induction "nat (day - i)" arbitrary: i m rule: less_induct)
  case less
  show ?case
  proof (cases "i < day")
    case True
    have "sorted_wrt (<) (mm_nextrun (addTimeDuration i m))"
      using less.prems by (simp add: addTimeDuration_def add_duration_sorted)
    then show ?thesis
      using less.hyps [of "i + every" "addTimeDuration i m"] True assms(1,2)
      by (simp add: every_loop_step every_times_step addTimeDuration_def)
  next
    case False
    then show ?thesis
      using less.prems by (auto simp: every_loop_end every_times_def)
  qed
qed

lemma every_loop_stuck:
  assumes "every_loop every i m = Some r"
  shows "every = 0 \<longrightarrow> day \<le> i"
proof (rule every_loop.raw_induct [where P = "\<lambda>every i m r. every = 0 \<longrightarrow> day \<le> i", OF _ assms])
  fix f :: "int \<Rightarrow> int \<Rightarrow> meta_model \<Rightarrow> meta_model result option" and every i m r
  assume "\<And>every i m r. f every i m = Some r \<Longrightarrow> every = 0 \<longrightarrow> day \<le> i"
    and "(if i < day
          then let m1 = addTimeDuration i m
               in if int_max < i + every then Some (Inl Undefined_behaviour) else f every (i + every) m1
          else Some (Inr m)) = Some r"
  then show "every = 0 \<longrightarrow> day \<le> i"
    by (fastforce simp: Let_def int_max_def split: if_splits)
qed

text \<open>
  C38: The loop over the clock times of \<open>offset/every\<close> ends exactly when the step is positive or the
  offset is past the day: \<open>*/0\<close> never returns.
\<close>

theorem every_loop_returns:
  assumes "0 \<le> every" "every + day \<le> int_max" "sorted_wrt (<) (mm_nextrun m)"
  shows "(\<exists>r. every_loop every i m = Some r) \<longleftrightarrow> 0 < every \<or> day \<le> i"
  using every_loop_times [OF _ assms(2,3), of i] every_loop_stuck [of every i m] every_loop_end [of i every m] assms(1)
  by (cases "0 < every") auto

text \<open>
  A specification \<open>*/n\<close> or \<open>k/n\<close> with a positive step gives the clock times k, k + n, ... of the
  day, each once and in order, beside those the model has; with them \<open>findNextrun\<close> is the next one.
\<close>

theorem every_spec_read:
  assumes "match_relative s = None" "match_every s = Some (a, b)" "cast_int b = Inr every"
    and "(if a = ''*'' then Inr 0 else cast_int a) = Inr offset"
    and "0 < every" "every + day \<le> int_max" "sorted_wrt (<) (mm_nextrun m)"
  shows "\<exists>m1. parseNextrun1 s m = Some (Inr (Spec_absolute, m1)) \<and> sorted_wrt (<) (mm_nextrun m1)
    \<and> set (mm_nextrun m1) = set (mm_nextrun m) \<union> every_times every offset"
  using every_loop_times [OF assms(5-7), of offset] assms(1-4) by (auto simp: parseNextrun1_def)

section \<open>The period of a time\<close>

text \<open>
  The nearest period is passed over: the first period of a group is asked only whether the
  time is in it, not whether it lies ahead, so with a second one ahead that one is taken.
\<close>

theorem first_period_passed:
  assumes "\<not> inPeriode p t" "\<not> inPeriode q t" "t < getTo p" "t < getTo q"
  shows "findTimePeriod t (p # q # ps) = Some (q, False)"
  using assms by (simp add: findTimePeriod_def)

section \<open>Concrete times\<close>

theorem refto_next_end_witness:
  "refto (timePeriode_new 79200 7200) 172800 = (180000, 165600) \<and> 180000 mod day = (7200 :: int)"
proof -
  have r: "refto (timePeriode_new 79200 7200) 172800 = (180000, 165600)"
    by code_simp
  from refto_next_end [of 79200 7200 172800] r show ?thesis
    by simp
qed

definition sample_meta :: meta_model where
  "sample_meta = \<lparr>mm_name = ''YR'', mm_spec = Spec_absolute, mm_nextrun = [50400, 64800]\<rparr>"

theorem nextrun_is_next_witness:
  "findNextrun 90000 None sample_meta = Some 136800 \<and> 90000 \<le> (136800 :: int) \<and> 100000 mod day \<notin> {50400, 64800}"
proof -
  have r: "findNextrun 90000 None sample_meta = Some 136800"
    by code_simp
  from nextrun_is_next [of sample_meta 90000 None] r show ?thesis
    by (auto simp: sample_meta_def dest: bspec [of _ _ 100000])
qed

theorem every_loop_returns_witness:
  "\<not> (\<exists>r. parseNextrun1 ''*/0'' (meta_model_new []) = Some r)"
proof -
  have "match_relative ''*/0'' = None" "match_every ''*/0'' = Some (''*'', ''0'')" "cast_int ''0'' = Inr 0"
    by code_simp+
  then show ?thesis
    using every_loop_returns [of 0 "meta_model_new []" 0]
    by (auto simp: parseNextrun1_def meta_model_new_def int_max_def)
qed

theorem every_spec_read_witness:
  "\<exists>m1. parseNextrun1 ''3600/21600'' (meta_model_new []) = Some (Inr (Spec_absolute, m1))
     \<and> set (mm_nextrun m1) = every_times 21600 3600 \<and> 25200 \<in> set (mm_nextrun m1)"
proof -
  have "match_relative ''3600/21600'' = None" "match_every ''3600/21600'' = Some (''3600'', ''21600'')"
    by code_simp+
  moreover have "cast_int ''21600'' = Inr 21600" "cast_int ''3600'' = Inr 3600"
    by (simp_all add: cast_int_def digits_val_def digit_val_def int_max_def)
  ultimately show ?thesis
    using every_spec_read [of "''3600/21600''" "''3600''" "''21600''" 21600 3600 "meta_model_new []"]
    by (auto simp: meta_model_new_def int_max_def every_times_def)
qed

theorem first_period_passed_witness:
  "findTimePeriod 18000 [timePeriode_new 21600 25200, timePeriode_new 43200 46800] = Some (timePeriode_new 43200 46800, False)
   \<and> group_nextRun 18000 [timePeriode_new 21600 25200, timePeriode_new 43200 46800] = Some (46800, 43200)
   \<and> refto (timePeriode_new 21600 25200) 18000 = (25200, 21600)"
proof (intro conjI)
  show "findTimePeriod 18000 [timePeriode_new 21600 25200, timePeriode_new 43200 46800] = Some (timePeriode_new 43200 46800, False)"
    by (rule first_period_passed) code_simp+
qed code_simp+

end
