(* ===== verification/WebQuery.thy ===== *)
theory WebQuery
  imports UrlQuery UrlParams Queries
begin

text \<open>
  The parameters of a public request: \<open>WebQuery\<close> of \<open>src/src/mod_wdb2ts/WebQuery.cpp\<close>, read from the
  query string by \<open>UrlQuery\<close>. The conversions of texts to \<open>float\<close> and \<open>int\<close> are arguments, as in
  \<open>UrlQuery\<close>; the points, the times and the calendar are those of \<open>UrlParams\<close> and \<open>Times\<close>. A member
  that a constructor leaves uninitialised is \<^const>\<open>None\<close>; the text of an exception of another library
  is not modelled.
\<close>

section \<open>The object\<close>

record web_query =
  wb_points :: "point list"
  wb_altitude :: int
  wb_from :: "vtime option"
  wb_to :: "vtime option"
  wb_reftime :: "vtime option"
  wb_dataprovider :: string
  wb_isPolygon :: "bool option"
  wb_nearestLand :: "bool option"
  wb_skip :: "int option"
  wb_urlQuery :: string
  wb_level :: level
  wb_status :: bool

definition web_query_new :: web_query where
  "web_query_new =
     \<lparr>wb_points = [], wb_altitude = int_min, wb_from = None, wb_to = None, wb_reftime = None, wb_dataprovider = [],
      wb_isPolygon = None, wb_nearestLand = None, wb_skip = None, wb_urlQuery = [], wb_level = level_undef, wb_status = False\<rparr>"

definition web_query_of ::
    "point list \<Rightarrow> int \<Rightarrow> vtime option \<Rightarrow> vtime option \<Rightarrow> vtime option \<Rightarrow> string \<Rightarrow> level \<Rightarrow> bool \<Rightarrow> int \<Rightarrow> bool \<Rightarrow> web_query" where
  "web_query_of pts alt fromt tot ref prov lvl isPolygon skip nearestLand =
     \<lparr>wb_points = pts, wb_altitude = alt, wb_from = fromt, wb_to = tot, wb_reftime = ref, wb_dataprovider = prov,
      wb_isPolygon = Some isPolygon, wb_nearestLand = Some nearestLand, wb_skip = Some skip, wb_urlQuery = [],
      wb_level = lvl, wb_status = False\<rparr>"

section \<open>Times and levels\<close>

text \<open>The start of the hour after now.\<close>

definition next_hour :: "'f wenv \<Rightarrow> int result" where
  "next_hour w =
     (let c = civil_of (wq_cal w) (wq_now w + ticks_of (wq_cal w) 3600)
      in ptime_of (wq_cal w) (c\<lparr>cminute := 0, csecond := 0\<rparr>))"

text \<open>\<open>n\<close> hours or days (\<open>t\<close> and \<open>d\<close>) from the next hour, or a time; a value that is neither gives the time of the caller.\<close>

definition decodeTimeduration :: "'f wenv \<Rightarrow> string \<Rightarrow> vtime option \<Rightarrow> vtime option result" where
  "decodeTimeduration w s valueOnError =
     bind_result (next_hour w) (\<lambda>start.
       if s = [] then Inl Undefined_behaviour
       else if last s = CHR ''t'' \<or> last s = CHR ''d''
       then (case (if length s = 1 then Scanned 1 else sscanf_d s) of
               No_match \<Rightarrow> Inr valueOnError
             | Scan_overflow \<Rightarrow> Inl Undefined_behaviour
             | Scanned n \<Rightarrow>
                 let k = (if last s = CHR ''d'' then n * 24 else n)
                 in if \<not> in_int k then Inl Undefined_behaviour
                    else Inr (Some (vtime.At (start + ticks_of (wq_cal w) (k * 3600)))))
       else (case ptimeFromIsoString (wq_cal w) (wq_now w) s of
               Inl Undefined_behaviour \<Rightarrow> Inl Undefined_behaviour
             | Inl _ \<Rightarrow> Inr valueOnError
             | Inr t \<Rightarrow> Inr (Some t)))"

definition level_of_unit :: "string \<Rightarrow> int \<Rightarrow> string \<Rightarrow> level result" where
  "level_of_unit lvlt h unit =
     (if unit = ''m''
      then (if h < 0 then Inr (level_of (- h) (- h) ''depth'' ''m'' Q_udef)
            else Inr (level_of h h ''height above ground'' ''m'' Q_udef))
      else if unit = ''Pa'' then Inr (level_of h h ''isobaric surface'' ''Pa'' Q_udef)
      else Inl (Logic_error (''Invalid level '' @ quote lvlt @ ''. Unsupported unit.'')))"

definition decodeLevel :: "string \<Rightarrow> level result" where
  "decodeLevel lvlt =
     (let lvl = trimstr lvlt;
          minus = (lvl \<noteq> [] \<and> hd lvl = CHR ''-'');
          rest = (if minus then tl lvl else lvl);
          buf = trimstr (takeWhile isdigit rest);
          unit = trimstr (drop (length buf) rest)
      in if lvl = [] then Inr level_undef
         else if buf = [] then Inl (Logic_error (''Invalid level '' @ quote lvlt @ '' expecting a number.''))
         else (case atoi buf of
                 None \<Rightarrow> Inl Undefined_behaviour
               | Some n \<Rightarrow> level_of_unit lvlt (if minus then - n else n) (if unit = [] then ''m'' else unit)))"

section \<open>The query\<close>

text \<open>The position: a polygon, or one point with an altitude.\<close>

definition decode_position ::
    "'f wenv \<Rightarrow> (string \<Rightarrow> 'f option) \<Rightarrow> (string \<Rightarrow> int option) \<Rightarrow> url_query \<Rightarrow> (point list result \<times> int) result" where
  "decode_position w cf ci uq =
     (if hasParam uq ''polygon''
      then Inr (bind_result (snd (decodePointList w (asString_def_val uq ''polygon'' [])))
                  (\<lambda>_. Inr (fst (decodePointList w (asString_def_val uq ''polygon'' [])))), int_min)
      else if hasParams uq [''long'', ''lat''] \<noteq> []
      then Inl (Logic_error (''Missing mandatory parameter  '' @ quote (hasParams uq [''long'', ''lat'']) @ ''.''))
      else bind_result (asFloat cf uq ''lat'') (\<lambda>lat.
             bind_result (asFloat cf uq ''long'') (\<lambda>lon.
               bind_result (asInt_def_val ci uq ''alt'' int_min) (\<lambda>alt.
                 Inr (bind_result (point_set (wq_denv w) lat lon) (\<lambda>p. Inr [p]), alt)))))"

text \<open>A time: a value that is none is undefined, and so is one that is not a time.\<close>

definition web_time :: "'f wenv \<Rightarrow> url_query \<Rightarrow> string \<Rightarrow> vtime option result" where
  "web_time w uq name =
     (let val = asString_def_val uq name []; isot = (\<lambda>s. bind_result (ptimeFromIsoString (wq_cal w) (wq_now w) s) (\<lambda>t. Inr (Some t)))
      in if val \<noteq> [] \<and> isot val = Inl Undefined_behaviour then Inl Undefined_behaviour
         else Inr (asPTime_def_val isot uq name None))"

definition decode_from :: "'f wenv \<Rightarrow> url_query \<Rightarrow> vtime option result" where
  "decode_from w uq =
     (if \<not> hasParam uq ''from'' then Inr None
      else if asString_def_val uq ''from'' [] = ''all'' then Inr (Some Neg_infin)
      else web_time w uq ''from'')"

definition decode_to :: "'f wenv \<Rightarrow> url_query \<Rightarrow> vtime option result" where
  "decode_to w uq =
     (if hasParam uq ''to'' then decodeTimeduration w (asString_def_val uq ''to'' []) (Some Pos_infin) else Inr None)"

text \<open>The reference time is asked for by \<open>refTime\<close> and read from \<open>fromTime\<close>.\<close>

definition decode_reftime :: "'f wenv \<Rightarrow> url_query \<Rightarrow> vtime option result" where
  "decode_reftime w uq = (if hasParam uq ''refTime'' then web_time w uq ''fromTime'' else Inr None)"

definition decode_skip :: "(string \<Rightarrow> int option) \<Rightarrow> url_query \<Rightarrow> int result" where
  "decode_skip ci uq =
     (if \<not> hasParam uq ''skip'' then Inr 0
      else if hasParam uq ''polygon''
      then bind_result (asInt_def_val ci uq ''skip'' 0) (\<lambda>n. Inr (if n < 0 then 0 else n))
      else Inr (-1))"

definition decode_level :: "url_query \<Rightarrow> level result" where
  "decode_level uq = (if hasParam uq ''level'' then decodeLevel (asString_def_val uq ''level'' []) else Inr level_undef)"

definition decode_params_of ::
    "'f wenv \<Rightarrow> (string \<Rightarrow> 'f option) \<Rightarrow> (string \<Rightarrow> int option) \<Rightarrow> string \<Rightarrow> string \<Rightarrow> url_query \<Rightarrow> web_query result" where
  "decode_params_of w cf ci query urlPath uq =
     bind_result (decode_position w cf ci uq) (\<lambda>(pts, alt).
     bind_result (decode_from w uq) (\<lambda>fromt.
     bind_result (decode_to w uq) (\<lambda>tot.
     bind_result (decode_reftime w uq) (\<lambda>ref.
     bind_result pts (\<lambda>pts.
     bind_result (decode_skip ci uq) (\<lambda>skip.
     bind_result (decode_level uq) (\<lambda>lvl.
     bind_result (asBool_def_val uq ''nearest_land'' False) (\<lambda>nearest.
       Inr ((web_query_of pts alt fromt tot ref
               (if hasParam uq ''dataprovider'' then asString_def_val uq ''dataprovider'' [] else [])
               lvl (hasParam uq ''polygon'') skip nearest)
            \<lparr>wb_urlQuery := (if urlPath = [] then query else urlPath @ ''?'' @ query)\<rparr>)))))))))"

definition rethrown :: "string \<Rightarrow> exn \<Rightarrow> exn" where
  "rethrown query x =
     (case x of
        Undefined_behaviour \<Rightarrow> Undefined_behaviour
      | Out_of_fuel \<Rightarrow> Out_of_fuel
      | _ \<Rightarrow> Logic_error (''WebQuery::decodeQuery: Exception, decode query: '' @ exn_text x @ [CHR 0x0A]
                          @ ''Query: '' @ query @ [CHR 0x0A]))"

definition web_decodeQuery ::
    "'f wenv \<Rightarrow> (string \<Rightarrow> 'f option) \<Rightarrow> (string \<Rightarrow> int option) \<Rightarrow> string \<Rightarrow> string \<Rightarrow> web_query result" where
  "web_decodeQuery w cf ci query urlPath =
     (case decode url_query_init query False of
        (uq, Inl x) \<Rightarrow> Inl (rethrown query x)
      | (uq, Inr _) \<Rightarrow>
          if hasParam uq ''status'' then Inr (web_query_new\<lparr>wb_status := True\<rparr>)
          else (case decode_params_of w cf ci query urlPath uq of
                  Inl x \<Rightarrow> Inl (rethrown query x)
                | Inr q \<Rightarrow> Inr q))"

definition web_isValid :: "web_query \<Rightarrow> bool" where
  "web_isValid q \<longleftrightarrow> wb_points q \<noteq> []"

definition web_point :: "web_query \<Rightarrow> point option" where
  "web_point q = (case wb_points q of [] \<Rightarrow> None | p # _ \<Rightarrow> Some p)"

definition setFromTimeIfNotSet :: "'f wenv \<Rightarrow> int \<Rightarrow> web_query \<Rightarrow> web_query result" where
  "setFromTimeIfNotSet w res q =
     (if res < 0 then Inr q
      else if wb_from q = None
      then bind_result (nearesTimeInTheFuture (wq_cal w) (wq_now w) res None 0) (\<lambda>t. Inr (q\<lparr>wb_from := Some (vtime.At t)\<rparr>))
      else Inr q)"

section \<open>Durations\<close>

lemma sscanf_d_prefix:
  assumes "\<not> isdigit c" "int n \<le> int_max"
  shows "sscanf_d (dec_nat n @ [c]) = Scanned (int n)"
proof -
  obtain d ds where d: "dec_nat n = d # ds"
    using dec_nat_digits [of n] by (cases "dec_nat n") auto
  have digits: "\<forall>x\<in>set (dec_nat n). isdigit x"
    using dec_nat_digits [of n] by simp
  then have "isdigit d"
    by (simp add: d)
  then have start: "\<not> isspace d" "d \<noteq> CHR ''-''" "d \<noteq> CHR ''+''"
    by (auto simp: isdigit_def isspace_def)
  have "takeWhile isdigit (dec_nat n @ [c]) = dec_nat n"
    using digits assms(1) by (simp add: takeWhile_append2)
  then have "scan_digits False (dec_nat n @ [c]) = Scanned (int n)"
    using assms(2) dec_nat_digits [of n] by (simp add: scan_digits_def in_int_def int_min_def Let_def)
  then show ?thesis
    using start by (simp add: sscanf_d_def d)
qed

text \<open>
  The text \<open>nt\<close> or \<open>nd\<close> of a request's \<open>to\<close> gives the time that many hours or days after the
  start of the next hour, and nothing of the caller's default.
\<close>

theorem duration_from_next_hour:
  assumes "next_hour w = Inr t" "int n * 24 \<le> int_max" "u = CHR ''t'' \<or> u = CHR ''d''"
  shows "decodeTimeduration w (dec_nat n @ [u]) v
    = Inr (Some (vtime.At (t + ticks_of (wq_cal w) (int n * (if u = CHR ''d'' then 24 else 1) * 3600))))"
proof -
  have ne: "dec_nat n \<noteq> []"
    using dec_nat_digits [of n] by auto
  have u: "\<not> isdigit u"
    using assms(3) by (auto simp: isdigit_def)
  have "sscanf_d (dec_nat n @ [u]) = Scanned (int n)"
    by (rule sscanf_d_prefix [OF u]) (use assms(2) in simp)
  then show ?thesis
    using assms ne by (auto simp: decodeTimeduration_def in_int_def int_min_def)
qed

section \<open>The query that is read\<close>

lemma web_decoded:
  assumes "web_decodeQuery w cf ci query urlPath = Inr q" "\<not> wb_status q"
  obtains uq pts alt fromt tot ref skip lvl nearest where "fst (decode url_query_init query False) = uq"
    "decode_position w cf ci uq = Inr (Inr pts, alt)" "decode_from w uq = Inr fromt" "decode_to w uq = Inr tot"
    "decode_reftime w uq = Inr ref" "decode_skip ci uq = Inr skip" "decode_level uq = Inr lvl"
    "wb_points q = pts" "wb_altitude q = alt" "wb_from q = fromt" "wb_to q = tot" "wb_reftime q = ref" "wb_level q = lvl"
    "wb_isPolygon q = Some (hasParam uq ''polygon'')" "wb_nearestLand q = Some nearest" "wb_skip q = Some skip"
  using assms
  by (auto simp: web_decodeQuery_def decode_params_of_def bind_result_Inr_iff web_query_of_def
      split: prod.splits sum.splits if_splits)

lemma point_list_nonempty: "decodePointList w s = (pts, Inr ()) \<Longrightarrow> pts \<noteq> []"
  by (auto simp: decodePointList_def split: prod.splits sum.splits if_splits)

text \<open>
  C21: A request that is read and is not one for the status has all its members, and a position: the
  points of a polygon with no altitude and a \<open>skip\<close> that is not negative, or a single point with a
  \<open>skip\<close> of 0 or -1.
\<close>

theorem web_query_shape:
  assumes "web_decodeQuery w cf ci query urlPath = Inr q" "\<not> wb_status q"
  shows "web_isValid q \<and> wb_nearestLand q \<noteq> None
    \<and> (wb_isPolygon q = Some True \<and> wb_altitude q = int_min \<and> (\<exists>n\<ge>0. wb_skip q = Some n)
       \<or> wb_isPolygon q = Some False \<and> length (wb_points q) = 1 \<and> wb_skip q \<in> {Some 0, Some (-1)})"
proof (rule web_decoded [OF assms])
  fix uq pts alt fromt tot ref skip lvl nearest
  assume d: "decode_position w cf ci uq = Inr (Inr pts, alt)" "decode_skip ci uq = Inr skip"
    "wb_points q = pts" "wb_altitude q = alt" "wb_isPolygon q = Some (hasParam uq ''polygon'')"
    "wb_nearestLand q = Some nearest" "wb_skip q = Some skip"
  show ?thesis
  proof (cases "hasParam uq ''polygon''")
    case True
    then have "pts \<noteq> []" "alt = int_min" "0 \<le> skip"
      using d(1,2) point_list_nonempty [of w "asString_def_val uq ''polygon'' []" pts]
      by (auto simp: decode_position_def decode_skip_def bind_result_Inr_iff prod_eq_iff split: if_splits)
    then show ?thesis
      using d True by (simp add: web_isValid_def)
  next
    case False
    then have "length pts = 1" "skip = 0 \<or> skip = -1"
      using d(1,2) by (auto simp: decode_position_def decode_skip_def bind_result_Inr_iff split: if_splits)
    then show ?thesis
      using d False by (auto simp: web_isValid_def)
  qed
qed

text \<open>
  The reference time of a request is lost: whatever \<open>refTime\<close> it has, without a parameter
  \<open>fromTime\<close> the reference time that is read is undefined.
\<close>

theorem reftime_lost:
  assumes "web_decodeQuery w cf ci query urlPath = Inr q"
    and "\<not> hasParam (fst (decode url_query_init query False)) ''fromTime''"
  shows "wb_reftime q = None"
proof (cases "wb_status q")
  case True
  then show ?thesis
    using assms(1) by (auto simp: web_decodeQuery_def decode_params_of_def bind_result_Inr_iff web_query_of_def web_query_new_def
      split: prod.splits sum.splits if_splits)
next
  case False
  show ?thesis
  proof (rule web_decoded [OF assms(1) False])
    fix uq ref assume "fst (decode url_query_init query False) = uq" "decode_reftime w uq = Inr ref" "wb_reftime q = ref"
    then show ?thesis
      using assms(2)
      by (auto simp: decode_reftime_def web_time_def asPTime_def_val_def asPTime_def asString_def hasParam_def Let_def split: if_splits)
  qed
qed

section \<open>Levels\<close>

text \<open>
  A level that is read is the undefined one, or a single height: above ground, a depth, or a pressure.
\<close>

theorem decodeLevel_single:
  assumes "decodeLevel s = Inr l"
  shows "l = level_undef
    \<or> lfrom l = lto l \<and> (lname l = ''isobaric surface'' \<and> lunit l = ''Pa''
        \<or> lname l \<in> {''height above ground'', ''depth''} \<and> lunit l = ''m'' \<and> 0 \<le> lfrom l)"
  using assms by (auto simp: decodeLevel_def level_of_unit_def level_of_def Let_def split: if_splits option.splits)

section \<open>A concrete request\<close>

definition sample_query :: string where
  "sample_query = ''lat=6;long=1;to=2t;refTime=1971-03-01T10:20:30Z''"

definition sample_float :: "string \<Rightarrow> int option" where
  "sample_float s = (if s \<noteq> [] \<and> list_all isdigit s then Some (int (digits_val s)) else None)"

theorem duration_from_next_hour_witness:
  "decodeTimeduration sample_wenv (dec_nat 2 @ ''d'') None = Inr (Some (vtime.At 176400))"
  using duration_from_next_hour [of sample_wenv 3600 2 "CHR ''d''" None]
  by (simp add: next_hour_def sample_wenv_def simple_calendar_def int_max_def)

definition sample_params :: url_query where
  "sample_params =
     \<lparr>params = [(''lat'', ''6''), (''long'', ''1''), (''refTime'', ''1971-03-01T10:20:30Z''), (''to'', ''2t'')],
      seperator = 59, path = []\<rparr>"

lemma sample_params_decoded: "decode url_query_init sample_query False = (sample_params, Inr ())"
  by code_simp

lemma sample_to: "decodeTimeduration sample_wenv ''2t'' v = Inr (Some (vtime.At 10800))"
  by code_simp

lemma sample_point: "point_set (wq_denv sample_wenv) 6 1 = Inr (Point 60000000 10000000)"
  by (simp add: sample_wenv_def sample_denv_def point_set_def)

lemma sample_read:
  "\<exists>q. web_decodeQuery sample_wenv sample_float sample_float sample_query [] = Inr q \<and> \<not> wb_status q \<and> length (wb_points q) = 1"
proof -
  have params: "hasParam sample_params ''polygon'' = False" "hasParam sample_params ''from'' = False"
    "hasParam sample_params ''to'' = True" "hasParam sample_params ''status'' = False"
    "hasParam sample_params ''skip'' = False" "hasParam sample_params ''level'' = False"
    "hasParam sample_params ''dataprovider'' = False" "hasParam sample_params ''refTime'' = True"
    "map_of (params sample_params) ''long'' = Some ''1''" "map_of (params sample_params) ''lat'' = Some ''6''" "asString_def_val sample_params ''to'' [] = ''2t''"
    "asBool_def_val sample_params ''nearest_land'' False = Inr False" "asInt_def_val sample_float sample_params ''alt'' int_min = Inr int_min"
    "asFloat sample_float sample_params ''lat'' = Inr 6" "asFloat sample_float sample_params ''long'' = Inr 1"
    "web_time sample_wenv sample_params ''fromTime'' = Inr None"
    by code_simp+
  show ?thesis
    by (simp add: web_decodeQuery_def sample_params_decoded decode_params_of_def decode_position_def decode_from_def decode_to_def
        decode_reftime_def decode_skip_def decode_level_def web_query_of_def params sample_to sample_point)
qed

theorem web_query_shape_witness:
  "\<exists>q. web_decodeQuery sample_wenv sample_float sample_float sample_query [] = Inr q \<and> web_isValid q"
proof -
  obtain q where "web_decodeQuery sample_wenv sample_float sample_float sample_query [] = Inr q" "\<not> wb_status q"
    using sample_read by blast
  then show ?thesis
    using web_query_shape by blast
qed

theorem reftime_lost_witness:
  "\<exists>q. web_decodeQuery sample_wenv sample_float sample_float sample_query [] = Inr q \<and> wb_reftime q = None
     \<and> map_of (params sample_params) ''refTime'' = Some ''1971-03-01T10:20:30Z''"
proof -
  obtain q where q: "web_decodeQuery sample_wenv sample_float sample_float sample_query [] = Inr q"
    using sample_read by blast
  have "\<not> hasParam (fst (decode url_query_init sample_query False)) ''fromTime''"
    by (simp add: sample_params_decoded hasParam_def sample_params_def)
  from reftime_lost [OF q this] q show ?thesis
    by (simp add: sample_params_def)
qed

theorem decodeLevel_single_witness: "\<exists>l. decodeLevel ''-5m'' = Inr l \<and> lfrom l = lto l"
proof -
  have l: "decodeLevel ''-5m'' = Inr \<lparr>lfrom = 5, lto = 5, lname = ''depth'', lunit = ''m'', lqual = Q_udef\<rparr>"
    by code_simp
  from decodeLevel_single [OF l] l show ?thesis
    by (auto simp: level_undef_def)
qed

end
