(* ===== verification/HandlerConf.thy ===== *)
theory HandlerConf
  imports Providers StringUtil RequestConf Times
begin

text \<open>
  The configuration of the request handlers: \<open>src/src/miutil/EnableTimePeriod.cpp\<close> (the part of the year
  in which symbols may have thunder), \<open>src/src/mod_wdb2ts/ConfigUtils.cpp\<close> (single settings and the
  parameters of the output), \<open>configdata.cpp\<close> (when an answer expires), \<open>PrecipitationConfig.cpp\<close> and
  \<open>SymbolConf.cpp\<close>, \<open>SymbolConfConfigure.cpp\<close> (settings by provider, with the memory of their
  lookups). A setting is an action parameter of \<open>RequestConf\<close>. The last day of a month is an
  argument, as are the clock, the calendar and the random numbers.
\<close>

section \<open>Texts without regard to case\<close>

definition tolower_c :: "char \<Rightarrow> char" where
  "tolower_c c = (if 65 \<le> code c \<and> code c \<le> 90 then char_of (code c + 32) else c)"

text \<open>The text \<open>strcasecmp\<close> compares.\<close>

definition icase :: "string \<Rightarrow> string" where
  "icase s = map tolower_c (c_str s)"

section \<open>A part of the year\<close>

record enable_period =
  ep_fromDay :: int
  ep_fromMonth :: int
  ep_toDay :: int
  ep_toMonth :: int

definition enable_period_of :: "int \<Rightarrow> int \<Rightarrow> int \<Rightarrow> int \<Rightarrow> enable_period" where
  "enable_period_of fd fm td tm = \<lparr>ep_fromDay = fd, ep_fromMonth = fm, ep_toDay = td, ep_toMonth = tm\<rparr>"

definition enable_all :: enable_period where
  "enable_all = enable_period_of 0 (-1) (-1) (-1)"

definition enable_invalid :: enable_period where
  "enable_invalid = enable_period_of (-1) (-1) (-1) (-1)"

definition ep_valid :: "enable_period \<Rightarrow> bool" where
  "ep_valid p \<longleftrightarrow> ep_fromDay p > -1"

definition ep_months :: "string list" where
  "ep_months = [''Jan'', ''Feb'', ''Mar'', ''Apr'', ''May'', ''Jun'', ''Jul'', ''Aug'', ''Sep'', ''Oct'', ''Nov'', ''Dec'']"

definition getMonth :: "string \<Rightarrow> int" where
  "getMonth month = (case find_idx (\<lambda>m. icase m = icase month) ep_months of None \<Rightarrow> 0 | Some i \<Rightarrow> int i + 1)"

text \<open>\<open>boost::split\<close> at each of the characters: one field more than there are of them.\<close>

fun split_at :: "char \<Rightarrow> string \<Rightarrow> string list" where
  "split_at c [] = [[]]"
| "split_at c (x # xs) =
     (if x = c then [] # split_at c xs
      else (case split_at c xs of [] \<Rightarrow> [[x]] | f # fs \<Rightarrow> (x # f) # fs))"

definition period_of_fields :: "string list \<Rightarrow> string list \<Rightarrow> enable_period" where
  "period_of_fields a b =
     (case (a, b) of
        ([fm, fd], [tm, td]) \<Rightarrow>
          (let m1 = getMonth (boost_trim fm); m2 = getMonth (boost_trim tm)
           in case (lexical_int (boost_trim fd), lexical_int (boost_trim td)) of
                (Some d1, Some d2) \<Rightarrow>
                  if d1 < 1 \<or> d1 > 31 \<or> d2 < 1 \<or> d2 > 31 \<or> m1 < 1 \<or> m1 > 12 \<or> m2 < 1 \<or> m2 > 12 then enable_invalid
                  else enable_period_of d1 m1 d2 m2
              | _ \<Rightarrow> enable_invalid)
      | _ \<Rightarrow> enable_invalid)"

definition enable_parse :: "string \<Rightarrow> enable_period" where
  "enable_parse s =
     (let duration = boost_trim s
      in if map tolower_c duration = ''all'' then enable_all
         else (case split_at (CHR ''/'') duration of
                 [a, b] \<Rightarrow> period_of_fields (split_at (CHR ''-'') (boost_trim a)) (split_at (CHR ''-'') (boost_trim b))
               | _ \<Rightarrow> enable_invalid))"

text \<open>A date is year, month and day; \<open>eom\<close> gives the last day of a month. A date that is none makes \<open>boost\<close> throw.\<close>

type_synonym ymd = "int \<times> int \<times> int"

definition mk_date :: "(int \<Rightarrow> int \<Rightarrow> int) \<Rightarrow> int \<Rightarrow> int \<Rightarrow> int \<Rightarrow> ymd result" where
  "mk_date eom y m d =
     (if 1400 \<le> y \<and> y \<le> 9999 \<and> 1 \<le> m \<and> m \<le> 12 \<and> 1 \<le> d \<and> d \<le> eom y m then Inr (y, m, d) else Inl (Range_error ''date''))"

definition date_less :: "ymd \<Rightarrow> ymd \<Rightarrow> bool" where
  "date_less a b \<longleftrightarrow>
     (case (a, b) of ((y1, m1, d1), (y2, m2, d2)) \<Rightarrow> y1 < y2 \<or> y1 = y2 \<and> (m1 < m2 \<or> m1 = m2 \<and> d1 < d2))"

datatype date_period = Empty_period | Every_day | Date_period ymd ymd

definition outer :: "enable_period \<Rightarrow> bool" where
  "outer p \<longleftrightarrow> ep_fromMonth p > ep_toMonth p \<or> (ep_fromMonth p = ep_toMonth p \<and> ep_fromDay p > ep_toDay p)"

definition enabledPeriod :: "(int \<Rightarrow> int \<Rightarrow> int) \<Rightarrow> int \<Rightarrow> enable_period \<Rightarrow> date_period result" where
  "enabledPeriod eom year p =
     (if ep_fromDay p < 0 then Inr Empty_period
      else if ep_fromDay p = 0 then Inr Every_day
      else (let last = (if outer p then year + 1 else year)
            in bind_result (mk_date eom year (ep_toMonth p) 1) (\<lambda>_.
               bind_result (mk_date eom last (ep_fromMonth p) 1) (\<lambda>_.
               let tDay = (if ep_toDay p > eom year (ep_toMonth p) then eom year (ep_toMonth p) else ep_toDay p);
                   fDay = (if ep_fromDay p > eom last (ep_fromMonth p) then eom last (ep_fromMonth p) else ep_fromDay p)
               in bind_result (mk_date eom year (ep_fromMonth p) fDay) (\<lambda>a.
                  bind_result (mk_date eom last (ep_toMonth p) tDay) (\<lambda>b. Inr (Date_period a b)))))))"

text \<open>A period of \<open>boost\<close> is without its end, and null when the end is not after the start.\<close>

definition isEnabled :: "(int \<Rightarrow> int \<Rightarrow> int) \<Rightarrow> enable_period \<Rightarrow> ymd \<Rightarrow> int \<Rightarrow> bool result" where
  "isEnabled eom p t year =
     (if \<not> ep_valid p then Inr False
      else bind_result (enabledPeriod eom year p) (\<lambda>r.
        case r of
          Empty_period \<Rightarrow> Inr True
        | Every_day \<Rightarrow> Inr True
        | Date_period a b \<Rightarrow> Inr (if \<not> date_less a b then True else \<not> date_less t a \<and> date_less t b)))"

section \<open>Single settings\<close>

definition configEnableThunderInSymbols :: "action_params \<Rightarrow> enable_period result" where
  "configEnableThunderInSymbols ps =
     (case map_of ps ''symbols_enable_thunder'' of
        None \<Rightarrow> Inr enable_all
      | Some None \<Rightarrow> Inl (Logic_error ''Value is undefined.'')
      | Some (Some s) \<Rightarrow> Inr (enable_parse s))"

definition configModelResolution :: "action_params \<Rightarrow> int \<Rightarrow> int" where
  "configModelResolution ps d =
     (case map_of ps ''model_resolution'' of
        None \<Rightarrow> d
      | Some v \<Rightarrow> (case Option.bind v lexical_int of None \<Rightarrow> d | Some n \<Rightarrow> n))"

text \<open>\<open>as<bool>\<close>: the first letter decides; a value that is undefined or empty gives the default.\<close>

definition as_bool :: "val \<Rightarrow> bool \<Rightarrow> bool" where
  "as_bool v d = (case v of Some (c # cs) \<Rightarrow> c = CHR ''t'' \<or> c = CHR ''T'' | _ \<Rightarrow> d)"

definition configForcast :: "action_params \<Rightarrow> bool" where
  "configForcast ps = (case map_of ps ''forecast'' of None \<Rightarrow> True | Some v \<Rightarrow> as_bool v True)"

datatype no_data = NotDefined | ServiceUnavailable | NotFound

definition no_data_decode :: "action_params \<Rightarrow> no_data result" where
  "no_data_decode ps =
     (case map_of ps ''no_data'' of
        None \<Rightarrow> Inr NotDefined
      | Some None \<Rightarrow> Inl (Logic_error ''Value is undefined.'')
      | Some (Some s) \<Rightarrow>
          Inr (if icase s = icase ''NOT_FOUND'' then NotFound
               else if icase s = icase ''SERVICE_UNAVAILABLE'' then ServiceUnavailable else NotDefined))"

definition doThrow :: "no_data \<Rightarrow> bool" where
  "doThrow r \<longleftrightarrow> r \<noteq> NotDefined"

section \<open>The parameters of the output\<close>

text \<open>The map orders its keys without regard to case; a key is kept in lower case here.\<close>

type_synonym imap = "(string, bool) omap"

function paramFlag :: "bool \<Rightarrow> string \<Rightarrow> bool \<times> string" where
  "paramFlag flag param =
     (case trimstr param of
        [] \<Rightarrow> (flag, [])
      | c # cs \<Rightarrow> if c = CHR ''-'' then paramFlag False cs
                  else if c = CHR ''+'' then paramFlag True cs
                  else (flag, c # cs))"
  by pat_completeness auto

lemma trimstr_length: "length (trimstr s) \<le> length s"
proof -
  have "length (trimstr s) \<le> length (rev (dropWhile (\<lambda>c. c \<in> set trim_set) s))"
    unfolding trimstr_strip strip_def by (metis length_dropWhile_le length_rev)
  also have "\<dots> \<le> length s"
    by (simp add: length_dropWhile_le)
  finally show ?thesis .
qed

lemma trimstr_Cons_shorter: "trimstr s = c # cs \<Longrightarrow> length cs < length s"
  using trimstr_length [of s] by simp

termination paramFlag
  by (relation "measure (length \<circ> snd)") (auto dest: trimstr_Cons_shorter)

declare paramFlag.simps [simp del]

definition setParam_flag :: "string \<Rightarrow> bool \<Rightarrow> imap \<Rightarrow> bool \<times> imap" where
  "setParam_flag param flag m =
     (case map_of m (icase param) of None \<Rightarrow> (False, m) | Some _ \<Rightarrow> (True, om_put (icase param) flag m))"

definition setParam :: "string \<Rightarrow> imap \<Rightarrow> bool \<times> imap" where
  "setParam param m = (let (flag, name) = paramFlag True param in setParam_flag name flag m)"

definition addOutputParam :: "string \<Rightarrow> bool \<Rightarrow> imap \<Rightarrow> imap" where
  "addOutputParam param f m = om_put (icase param) f m"

definition useParam :: "string \<Rightarrow> imap \<Rightarrow> bool" where
  "useParam param m = (case map_of m (icase param) of None \<Rightarrow> True | Some b \<Rightarrow> b)"

definition default_params :: imap where
  "default_params =
     fold (\<lambda>(p, f). addOutputParam p f)
       [(''dewpointTemperature'', False), (''symbol:T.WB'', True), (''seaIceingIndex'', False),
        (''significantSwellWaveHeight'', False), (''meanSwellWavePeriode'', False), (''meanSwellWaveDirection'', False),
        (''peakSwellWavePeriode'', False), (''peakSwellWaveDirection'', False), (''meanTotalWavePeriode'', False),
        (''maximumTotalWaveHeight'', False)] []"

definition decodeOutputParams :: "action_params \<Rightarrow> imap result" where
  "decodeOutputParams ps =
     (case map_of ps ''output_params'' of
        None \<Rightarrow> Inr default_params
      | Some None \<Rightarrow> Inl (Logic_error ''Value is undefined.'')
      | Some (Some s) \<Rightarrow>
          Inr (fold (\<lambda>v m. snd (setParam (compres v '':'') m)) (split_fields s (CHR '';'') dquote) default_params))"

section \<open>When an answer expires\<close>

datatype expire_ref = Expire_now | Nearest_model_time

record expire_config =
  ec_ref :: expire_ref
  ec_resolution :: int
  ec_rand :: int
  ec_expire :: int
  ec_seed :: int

definition get_int :: "action_params \<Rightarrow> string \<Rightarrow> int \<Rightarrow> int" where
  "get_int ps key d =
     (case getStr ps key of
        Inl e \<Rightarrow> d
      | Inr s \<Rightarrow> (case lexical_int s of None \<Rightarrow> d | Some n \<Rightarrow> n))"

definition readConf :: "int \<Rightarrow> action_params \<Rightarrow> expire_config" where
  "readConf seed ps =
     (let expire = get_int ps ''expire'' int_max
      in \<lparr>ec_ref = (if expire = int_max then Nearest_model_time else Expire_now),
          ec_resolution = get_int ps ''model_resolution'' 3600, ec_rand = get_int ps ''expire_rand'' 0,
          ec_expire = expire, ec_seed = seed\<rparr>)"

text \<open>\<open>rnd\<close> is \<open>rand_r\<close>: a number that is not negative, and the next seed.\<close>

definition expire_time ::
    "calendar \<Rightarrow> int \<Rightarrow> (int \<Rightarrow> int \<times> int) \<Rightarrow> int \<Rightarrow> expire_config \<Rightarrow> (int \<times> expire_config) result" where
  "expire_time cal now rnd ref c =
     bind_result (case ec_ref c of
                    Nearest_model_time \<Rightarrow> nearesTimeInTheFuture cal now (ec_resolution c) (Some ref) 0
                  | Expire_now \<Rightarrow> Inr (ref + ticks_of cal (ec_expire c)))
       (\<lambda>t. if ec_rand c > 0
            then (let (n, seed) = rnd (ec_seed c) in Inr (t + ticks_of cal (n mod ec_rand c), c\<lparr>ec_seed := seed\<rparr>))
            else Inr (t, c))"

section \<open>Settings by provider\<close>

text \<open>
  The lookup of both lists: the provider as it is given, then without its place, then the default;
  what is found under another name is kept under the one asked for.
\<close>

definition cached_get :: "'v \<Rightarrow> string \<Rightarrow> (string, 'v) omap \<Rightarrow> 'v \<times> (string, 'v) omap" where
  "cached_get d p m =
     (case map_of m p of
        Some v \<Rightarrow> (v, m)
      | None \<Rightarrow>
          (case map_of m (provider (ProviderItem_decode p)) of
             Some v \<Rightarrow> (v, om_put p v m)
           | None \<Rightarrow> (d, om_put p d m)))"

datatype precip_type = PrecipMulti | PrecipSequence

record precip_elem =
  pe_type :: precip_type
  pe_hours :: "int list"

record precip_config =
  pc_default :: precip_elem
  pc_list :: "(string, precip_elem) omap"

definition precip_new :: precip_config where
  "precip_new = \<lparr>pc_default = \<lparr>pe_type = PrecipSequence, pe_hours = []\<rparr>, pc_list = []\<rparr>"

text \<open>The copy constructor copies nothing.\<close>

definition precip_copy :: "precip_config \<Rightarrow> precip_config" where
  "precip_copy c = precip_new"

fun decode_hours :: "string list \<Rightarrow> int list option result" where
  "decode_hours [] = Inr (Some [])"
| "decode_hours (s # ss) =
     (case sscanf_d (c_str s) of
        No_match \<Rightarrow> Inr None
      | Scan_overflow \<Rightarrow> Inl Undefined_behaviour
      | Scanned n \<Rightarrow> bind_result (decode_hours ss) (\<lambda>r. Inr (map_option ((#) n) r)))"

definition precip_decodeValue :: "string \<Rightarrow> precip_elem option result" where
  "precip_decodeValue val =
     (let pp = split_fields val (CHR '':'') dquote;
          ty = (if hd pp = ''multi'' then Some PrecipMulti else if hd pp = ''sequence'' then Some PrecipSequence else None)
      in if length pp > 2 then Inr None
         else case ty of
                None \<Rightarrow> Inr None
              | Some ty \<Rightarrow>
                  if length pp = 1
                  then Inr (Some \<lparr>pe_type = ty, pe_hours = (if ty = PrecipMulti then [1, 2, 3, 6] else [1, 3, 6, 12, 24])\<rparr>)
                  else bind_result (decode_hours (split_fields (pp ! 1) (CHR '','') dquote))
                         (\<lambda>r. Inr (map_option (\<lambda>hs. \<lparr>pe_type = ty, pe_hours = hs\<rparr>) r)))"

definition precip_get :: "string \<Rightarrow> precip_config \<Rightarrow> precip_elem \<times> precip_config" where
  "precip_get p c = (let (v, l) = cached_get (pc_default c) p (pc_list c) in (v, c\<lparr>pc_list := l\<rparr>))"

text \<open>An element whose value is not accepted is passed over; an undefined value throws.\<close>

definition asString_val :: "val \<Rightarrow> string result" where
  "asString_val v = (case v of None \<Rightarrow> Inl (Logic_error ''Value is undefined.'') | Some s \<Rightarrow> Inr s)"

definition precip_key :: string where
  "precip_key = ''precipitation-''"

fun precip_loop :: "(string \<times> val) list \<Rightarrow> (string, precip_elem) omap \<Rightarrow> (string, precip_elem) omap result" where
  "precip_loop [] l = Inr l"
| "precip_loop ((k, v) # ps) l =
     (if take (length precip_key) k \<noteq> precip_key then precip_loop ps l
      else bind_result (asString_val v) (\<lambda>s. bind_result (precip_decodeValue s) (\<lambda>r.
             case r of
               None \<Rightarrow> precip_loop ps l
             | Some e \<Rightarrow> precip_loop ps (om_put (drop (length precip_key) k) e l))))"

text \<open>The result \<^const>\<open>None\<close> is the null pointer.\<close>

definition precip_configure :: "action_params \<Rightarrow> precip_config option result" where
  "precip_configure ps =
     bind_result (case map_of ps ''precipitation'' of
                    None \<Rightarrow> Inr (Some \<lparr>pe_type = PrecipSequence, pe_hours = [1, 3, 6, 12, 24]\<rparr>)
                  | Some v \<Rightarrow> bind_result (asString_val v) precip_decodeValue)
       (\<lambda>d. case d of
              None \<Rightarrow> Inr None
            | Some e \<Rightarrow> bind_result (precip_loop ps []) (\<lambda>l. Inr (Some \<lparr>pc_default = e, pc_list = l\<rparr>)))"

section \<open>Symbols by provider\<close>

record symbol_conf =
  sf_min :: int
  sf_max :: int
  sf_precip :: int

definition symbol_conf_of :: "int \<Rightarrow> int \<Rightarrow> int \<Rightarrow> symbol_conf" where
  "symbol_conf_of mn mx h = \<lparr>sf_min = mn, sf_max = mx, sf_precip = h\<rparr>"

text \<open>\<open>sscanf\<close> of a field of digits; an empty field leaves the variable as it was.\<close>

definition scan_field :: "string \<Rightarrow> int \<Rightarrow> int result" where
  "scan_field s d = (case sscanf_d s of No_match \<Rightarrow> Inr d | Scan_overflow \<Rightarrow> Inl Undefined_behaviour | Scanned n \<Rightarrow> Inr n)"

definition symbol_conf_fields :: "string list \<Rightarrow> symbol_conf option result" where
  "symbol_conf_fields vals =
     (case vals of
        [v] \<Rightarrow>
          if \<not> list_all isdigit v then Inr None
          else bind_result (scan_field v int_max) (\<lambda>h. Inr (Some (symbol_conf_of int_min int_max h)))
      | [a, b, c] \<Rightarrow>
          (let x = trimstr a; y = trimstr b; z = trimstr c
           in if x = [] \<or> y = [] \<or> z = [] then Inr None
              else if \<not> list_all isdigit x \<or> \<not> list_all isdigit y \<or> \<not> list_all isdigit z then Inr None
              else bind_result (scan_field x 0) (\<lambda>mn. bind_result (scan_field y 0) (\<lambda>mx.
                   bind_result (scan_field z int_max) (\<lambda>h. Inr (Some (symbol_conf_of mn mx h))))))
      | _ \<Rightarrow> Inr None)"

text \<open>The loop over the pairs of parentheses; \<open>s\<close> is the text from where the next is looked for.\<close>

function symbol_conf_loop :: "string \<Rightarrow> symbol_conf list \<Rightarrow> (bool \<times> symbol_conf list) result" where
  "symbol_conf_loop s conf =
     (case find_idx (\<lambda>c. c = CHR ''('') s of
        None \<Rightarrow> Inr (True, conf)
      | Some i \<Rightarrow>
          (case find_idx (\<lambda>c. c = CHR '')'') (drop (i + 1) s) of
             None \<Rightarrow> Inr (False, conf)
           | Some j \<Rightarrow>
               bind_result (symbol_conf_fields (split_fields (take j (drop (i + 1) s)) (CHR '','') dquote)) (\<lambda>r.
                 case r of
                   None \<Rightarrow> Inr (False, conf)
                 | Some c \<Rightarrow> symbol_conf_loop (drop (i + 1 + j) s) (conf @ [c]))))"
  by pat_completeness auto
termination
  by (relation "measure (length \<circ> fst)") (auto simp: find_idx_Some)

declare symbol_conf_loop.simps [simp del]

definition symbol_conf_parse :: "string \<Rightarrow> (bool \<times> symbol_conf list) result" where
  "symbol_conf_parse buf = symbol_conf_loop buf []"

record symconf_provider =
  sp_default :: "symbol_conf list"
  sp_maxHours :: int
  sp_list :: "(string, symbol_conf list) omap"

definition symconf_new :: symconf_provider where
  "symconf_new = \<lparr>sp_default = [], sp_maxHours = 0, sp_list = []\<rparr>"

definition symconf_clear :: "symconf_provider \<Rightarrow> symconf_provider" where
  "symconf_clear c = c\<lparr>sp_maxHours := 0, sp_list := []\<rparr>"

definition setDefaultConf :: "symbol_conf list \<Rightarrow> symconf_provider \<Rightarrow> symconf_provider" where
  "setDefaultConf conf c = c\<lparr>sp_default := conf\<rparr>"

definition symconf_get :: "string \<Rightarrow> symconf_provider \<Rightarrow> symbol_conf list \<times> symconf_provider" where
  "symconf_get p c = (let (v, l) = cached_get (sp_default c) p (sp_list c) in (v, c\<lparr>sp_list := l\<rparr>))"

definition conf_hours :: "symbol_conf \<Rightarrow> int result" where
  "conf_hours c =
     (if sf_min c \<noteq> int_max \<and> sf_max c \<noteq> int_max
      then (let h = sf_min c + sf_max c in if \<not> in_int h then Inl Undefined_behaviour else Inr (if h = 0 then 1 else h))
      else Inr (if sf_precip c \<noteq> int_max then sf_precip c else 0))"

fun max_hours :: "symbol_conf list \<Rightarrow> int \<Rightarrow> int result" where
  "max_hours [] m = Inr m"
| "max_hours (c # cs) m = bind_result (conf_hours c) (\<lambda>h. max_hours cs (if h > m then h else m))"

definition symconf_add :: "string \<Rightarrow> symbol_conf list \<Rightarrow> symconf_provider \<Rightarrow> symconf_provider result" where
  "symconf_add p conf c =
     bind_result (max_hours conf (sp_maxHours c)) (\<lambda>h. Inr (c\<lparr>sp_maxHours := h, sp_list := om_put p conf (sp_list c)\<rparr>))"

definition symbol_key :: string where
  "symbol_key = ''symbol_provider-''"

fun symconf_loop :: "(string \<times> val) list \<Rightarrow> symconf_provider \<Rightarrow> symconf_provider result" where
  "symconf_loop [] c = Inr c"
| "symconf_loop ((k, v) # ps) c =
     (if take (length symbol_key) k \<noteq> symbol_key then symconf_loop ps c
      else bind_result (asString_val v) (\<lambda>s. bind_result (symbol_conf_parse s) (\<lambda>(ok, conf).
             if ok
             then bind_result (symconf_add (providerWithPlacename (decodeItem (drop (length symbol_key) k))) conf c) (symconf_loop ps)
             else symconf_loop ps c)))"

definition configureSymbolconf :: "action_params \<Rightarrow> symconf_provider \<Rightarrow> symconf_provider result" where
  "configureSymbolconf ps c = symconf_loop ps (symconf_clear c)"

text \<open>
  \<open>symbolConfProviderSetPlacename\<close>: a provider without a place gets the places it has reference
  times for; \<open>rts\<close> gives the names of those, or \<^const>\<open>None\<close> when the database fails.
\<close>

fun add_places :: "provider_item list \<Rightarrow> symbol_conf list \<Rightarrow> symconf_provider \<Rightarrow> symconf_provider result" where
  "add_places [] conf c = Inr c"
| "add_places (it # its) conf c = bind_result (symconf_add (providerWithPlacename it) conf c) (add_places its conf)"

fun set_places ::
    "(string \<Rightarrow> string list option) \<Rightarrow> (string \<times> symbol_conf list) list \<Rightarrow> symconf_provider \<Rightarrow> symconf_provider result" where
  "set_places rts [] c = Inr c"
| "set_places rts ((p, conf) # l) c =
     (let it = decodeItem p
      in if placename it \<noteq> []
         then bind_result (symconf_add (providerWithPlacename it) conf c) (set_places rts l)
         else (case rts (provider it) of
                 None \<Rightarrow> set_places rts l c
               | Some names \<Rightarrow>
                   bind_result (add_places (concat (map (\<lambda>n. ProviderList_decode n False) names)) conf c) (set_places rts l)))"

definition symbolConfProviderSetPlacename ::
    "(string \<Rightarrow> string list option) \<Rightarrow> symconf_provider \<Rightarrow> symconf_provider result" where
  "symbolConfProviderSetPlacename rts c = set_places rts (sp_list c) symconf_new"

text \<open>\<open>conn\<close> tells whether a connection was made.\<close>

definition symbolConfProviderWithPlacename ::
    "bool \<Rightarrow> (string \<Rightarrow> string list option) \<Rightarrow> action_params \<Rightarrow> symconf_provider result" where
  "symbolConfProviderWithPlacename conn rts ps =
     (if \<not> conn then Inr symconf_new
      else bind_result (configureSymbolconf ps symconf_new) (symbolConfProviderSetPlacename rts))"

section \<open>The part of the year\<close>

text \<open>A specification that is read is invalid, for the whole year, or has days and months in their ranges.\<close>

definition ep_ranges :: "enable_period \<Rightarrow> bool" where
  "ep_ranges p \<longleftrightarrow>
     1 \<le> ep_fromDay p \<and> ep_fromDay p \<le> 31 \<and> 1 \<le> ep_toDay p \<and> ep_toDay p \<le> 31
     \<and> 1 \<le> ep_fromMonth p \<and> ep_fromMonth p \<le> 12 \<and> 1 \<le> ep_toMonth p \<and> ep_toMonth p \<le> 12"

lemma enable_parse_ranges: "enable_parse s = enable_invalid \<or> enable_parse s = enable_all \<or> ep_ranges (enable_parse s)"
proof -
  have "period_of_fields a b = enable_invalid \<or> ep_ranges (period_of_fields a b)" for a b
    by (auto simp: period_of_fields_def Let_def ep_ranges_def enable_period_of_def split: list.splits option.splits)
  then show ?thesis
    by (auto simp: enable_parse_def Let_def split: list.splits)
qed

definition months_ok :: "(int \<Rightarrow> int \<Rightarrow> int) \<Rightarrow> bool" where
  "months_ok eom \<longleftrightarrow> (\<forall>y m. 1 \<le> m \<and> m \<le> 12 \<longrightarrow> 28 \<le> eom y m \<and> eom y m \<le> 31)"

text \<open>The first day, snapped to the last of its month in the year of the end, and the end, snapped in the year of the start.\<close>

definition first_day :: "(int \<Rightarrow> int \<Rightarrow> int) \<Rightarrow> int \<Rightarrow> enable_period \<Rightarrow> int" where
  "first_day eom year p = min (ep_fromDay p) (eom (if outer p then year + 1 else year) (ep_fromMonth p))"

definition end_day :: "(int \<Rightarrow> int \<Rightarrow> int) \<Rightarrow> int \<Rightarrow> enable_period \<Rightarrow> int" where
  "end_day eom year p = min (ep_toDay p) (eom year (ep_toMonth p))"

lemma enabledPeriod_ranges:
  assumes "ep_ranges p" "months_ok eom" "1400 \<le> year" "year < 9999"
  shows "enabledPeriod eom year p =
    (if outer p \<and> (eom year (ep_fromMonth p) < first_day eom year p \<or> eom (year + 1) (ep_toMonth p) < end_day eom year p)
     then Inl (Range_error ''date'')
     else Inr (Date_period (year, ep_fromMonth p, first_day eom year p)
                (if outer p then year + 1 else year, ep_toMonth p, end_day eom year p)))"
proof -
  have r: "1 \<le> ep_fromDay p" "1 \<le> ep_toDay p" "1 \<le> ep_fromMonth p" "ep_fromMonth p \<le> 12" "1 \<le> ep_toMonth p" "ep_toMonth p \<le> 12"
    using assms(1) by (simp_all add: ep_ranges_def)
  have e: "28 \<le> eom y (ep_fromMonth p)" "28 \<le> eom y (ep_toMonth p)" for y
    using assms(2) r by (simp_all add: months_ok_def)
  have e1: "1 \<le> eom y (ep_fromMonth p)" "1 \<le> eom y (ep_toMonth p)" for y
    using e [of y] by simp_all
  have f: "first_day eom year p = (if ep_fromDay p > eom (if outer p then year + 1 else year) (ep_fromMonth p)
      then eom (if outer p then year + 1 else year) (ep_fromMonth p) else ep_fromDay p)"
    and t: "end_day eom year p = (if ep_toDay p > eom year (ep_toMonth p) then eom year (ep_toMonth p) else ep_toDay p)"
    by (simp_all add: first_day_def end_day_def)
  have days: "1 \<le> first_day eom year p" "1 \<le> end_day eom year p" "first_day eom year p \<le> eom (if outer p then year + 1 else year) (ep_fromMonth p)"
    "end_day eom year p \<le> eom year (ep_toMonth p)"
    using r e1 by (simp_all add: first_day_def end_day_def)
  have last: "1400 \<le> (if outer p then year + 1 else year)" "(if outer p then year + 1 else year) \<le> 9999"
    using assms(3,4) by auto
  show ?thesis
    unfolding enabledPeriod_def Let_def mk_date_def f [symmetric] t [symmetric]
    using r e1 days last assms(3,4) by (cases "outer p") auto
qed

text \<open>
  Within a year, with the days after the end of a month taken as its last, a time is enabled from
  the first day up to, but without, the last; when the last is not after the first, always.
\<close>

theorem enabled_within_year:
  assumes "ep_ranges p" "months_ok eom" "1400 \<le> year" "year < 9999" "\<not> outer p"
  shows "isEnabled eom p t year = Inr
    (let a = (year, ep_fromMonth p, first_day eom year p); b = (year, ep_toMonth p, end_day eom year p)
     in \<not> date_less a b \<or> \<not> date_less t a \<and> date_less t b)"
  using assms(1,5) by (simp add: isEnabled_def enabledPeriod_ranges [OF assms(1-4)] ep_valid_def ep_ranges_def Let_def)

text \<open>
  A part of the year that passes the new year is taken from the given year into the next: no day
  of the given year before its first day is enabled, so a winter ends with the year.
\<close>

theorem winter_ends_with_year:
  assumes "ep_ranges p" "months_ok eom" "1400 \<le> year" "year < 9999" "outer p"
    and "isEnabled eom p t year = Inr b" "date_less t (year, ep_fromMonth p, first_day eom year p)"
  shows "\<not> b"
  using assms(1,5-7)
  by (auto simp: isEnabled_def enabledPeriod_ranges [OF assms(1-4)] ep_valid_def ep_ranges_def date_less_def split: if_splits)

text \<open>
  C39: The test of a time throws exactly when the part of the year passes the new year and one of its
  days, snapped to a month of the wrong year, is not in the month of its own: the 29th of February.
\<close>

theorem enabled_throws_iff:
  assumes "ep_ranges p" "months_ok eom" "1400 \<le> year" "year < 9999"
  shows "(\<exists>e. isEnabled eom p t year = Inl e) \<longleftrightarrow>
    outer p \<and> (eom year (ep_fromMonth p) < first_day eom year p \<or> eom (year + 1) (ep_toMonth p) < end_day eom year p)"
  using assms(1) by (auto simp: isEnabled_def enabledPeriod_ranges [OF assms(1-4)] ep_valid_def ep_ranges_def)

section \<open>Lookups that remember\<close>

text \<open>
  A lookup by provider may store what it finds. The contract: its result is the meaning of the table,
  and the meaning stays.
\<close>

fun lookups :: "(string \<Rightarrow> 'm \<Rightarrow> 'v \<times> 'm) \<Rightarrow> string list \<Rightarrow> 'm \<Rightarrow> 'v list \<times> 'm" where
  "lookups look [] m = ([], m)"
| "lookups look (p # ps) m = (let (v, m1) = look p m; (vs, m2) = lookups look ps m1 in (v # vs, m2))"

locale provider_lookup =
  fixes look :: "string \<Rightarrow> 'm \<Rightarrow> 'v \<times> 'm"
    and means :: "'m \<Rightarrow> string \<Rightarrow> 'v"
  assumes look_value: "fst (look p m) = means m p"
    and look_keeps: "means (snd (look p m)) = means m"
begin

lemma lookups_keep: "means (snd (lookups look ps m)) = means m"
  by (induction ps arbitrary: m) (auto simp: Let_def case_prod_beta look_keeps)

lemma lookups_means: "fst (lookups look ps m) = map (means m) ps"
  by (induction ps arbitrary: m) (auto simp: Let_def case_prod_beta look_value look_keeps)

end

definition provider_value :: "'v \<Rightarrow> (string, 'v) omap \<Rightarrow> string \<Rightarrow> 'v" where
  "provider_value d m p =
     (case map_of m p of
        Some v \<Rightarrow> v
      | None \<Rightarrow> (case map_of m (provider (ProviderItem_decode p)) of Some v \<Rightarrow> v | None \<Rightarrow> d))"

lemma decoded_provider [simp]:
  "provider (ProviderItem_decode (provider (ProviderItem_decode p))) = provider (ProviderItem_decode p)"
proof (cases "find_idx (\<lambda>c. c = LB) p")
  case (Some i)
  then have "take i p = takeWhile (\<lambda>c. c \<noteq> LB) p"
    by (rule find_idx_takeWhile)
  then have "LB \<notin> set (take i p)"
    by (auto dest: set_takeWhileD)
  moreover have "set (boost_trim s) \<subseteq> set s" for s
    by (auto simp: boost_trim_def dest!: set_dropWhileD)
  ultimately have "LB \<notin> set (boost_trim (take i p))"
    by blast
  then have "find_idx (\<lambda>c. c = LB) (boost_trim (take i p)) = None"
    by (auto simp: find_idx_None)
  with Some show ?thesis
    by (simp add: ProviderItem_decode_def item_def)
qed (simp add: ProviderItem_decode_def item_def)

lemma cached_get_value: "fst (cached_get d p m) = provider_value d m p"
  by (simp add: cached_get_def provider_value_def split: option.splits)

lemma cached_get_keeps: "provider_value d (snd (cached_get d p m)) = provider_value d m"
proof
  fix q
  show "provider_value d (snd (cached_get d p m)) q = provider_value d m q"
    by (auto simp: cached_get_def provider_value_def split: option.splits if_splits)
qed

interpretation precip: provider_lookup precip_get "\<lambda>c. provider_value (pc_default c) (pc_list c)"
  by unfold_locales (simp_all add: precip_get_def case_prod_beta Let_def cached_get_value cached_get_keeps)

interpretation symconf: provider_lookup symconf_get "\<lambda>c. provider_value (sp_default c) (sp_list c)"
  by unfold_locales (simp_all add: symconf_get_def case_prod_beta Let_def cached_get_value cached_get_keeps)

text \<open>
  C22: The lookups of the precipitation and the symbols of a provider remember what they find, yet in
  any order and however often they are made each gives what the configuration says: the setting of
  the provider, else that of the provider without its place, else the default.
\<close>

theorem remembered_lookups:
  "fst (lookups precip_get ps c) = map (provider_value (pc_default c) (pc_list c)) ps
   \<and> fst (lookups symconf_get qs s) = map (provider_value (sp_default s) (sp_list s)) qs"
  by (simp add: precip.lookups_means symconf.lookups_means)

section \<open>Output parameters\<close>

text \<open>What an entry of the list says: a name and its flag.\<close>

definition output_entry :: "string \<Rightarrow> string \<times> bool" where
  "output_entry v = (let (flag, name) = paramFlag True (compres v '':'') in (icase name, flag))"

lemma setParam_map_of:
  "map_of (snd (setParam (compres v '':'') m)) =
     (if map_of m (fst (output_entry v)) = None then map_of m else (map_of m)(fst (output_entry v) \<mapsto> snd (output_entry v)))"
  by (auto simp: setParam_def setParam_flag_def output_entry_def Let_def case_prod_beta split: option.splits)

lemma fold_setParam:
  "map_of (fold (\<lambda>v m. snd (setParam (compres v '':'') m)) vs m) k =
     (if map_of m k = None then None
      else (case map_of (rev (map output_entry vs)) k of None \<Rightarrow> map_of m k | Some f \<Rightarrow> Some f))"
proof (induction vs arbitrary: m)
  case (Cons v vs)
  obtain n f where e: "output_entry v = (n, f)"
    by fastforce
  show ?case
    by (simp add: Cons.IH setParam_map_of e map_add_def split: option.splits)
qed simp

text \<open>
  Of the parameters of the output those that have a default are used as the last entry of the
  configuration that names them says, in whatever case, or by default; any other is used.
\<close>

theorem output_params_last:
  assumes "map_of ps ''output_params'' = Some (Some s)"
  shows "\<exists>m. decodeOutputParams ps = Inr m \<and>
    (\<forall>q. useParam q m =
       (case map_of default_params (icase q) of
          None \<Rightarrow> True
        | Some d \<Rightarrow> (case map_of (rev (map output_entry (split_fields s (CHR '';'') dquote))) (icase q) of None \<Rightarrow> d | Some f \<Rightarrow> f)))"
  using assms by (simp add: decodeOutputParams_def useParam_def fold_setParam split: option.splits)

section \<open>Expiry\<close>

text \<open>An answer with a fixed time to live expires then, or up to the random offset later.\<close>

theorem expire_bounds:
  assumes "ec_ref c = Expire_now" "expire_time cal now rnd ref c = Inr (t, c')" "\<And>s. ticks_of cal s = k * s" "0 \<le> k"
  shows "ref + k * ec_expire c \<le> t \<and> t \<le> ref + k * ec_expire c + k * max 0 (ec_rand c - 1)"
proof (cases "ec_rand c > 0")
  case True
  obtain n where t: "t = ref + k * ec_expire c + k * (n mod ec_rand c)"
    using assms(1-3) True by (auto simp: expire_time_def case_prod_beta split: prod.splits)
  have "0 \<le> n mod ec_rand c" "n mod ec_rand c \<le> ec_rand c - 1"
    using True by (simp_all add: pos_mod_bound zle_diff1_eq)
  then show ?thesis
    using True assms(4) by (auto simp: t intro: mult_left_mono)
next
  case False
  then show ?thesis
    using assms by (auto simp: expire_time_def)
qed

section \<open>Symbol specifications\<close>

text \<open>A specification as the configuration has it: the minimum, the maximum and the hours.\<close>

definition conf_text :: "nat \<times> nat \<times> nat \<Rightarrow> string" where
  "conf_text x = ''('' @ join (CHR '','') [dec_nat (fst x), dec_nat (fst (snd x)), dec_nat (snd (snd x))] @ '')''"

definition conf_value :: "nat \<times> nat \<times> nat \<Rightarrow> symbol_conf" where
  "conf_value x = symbol_conf_of (int (fst x)) (int (fst (snd x))) (int (snd (snd x)))"

lemma trimstr_digits: "\<forall>c\<in>set s. isdigit c \<Longrightarrow> trimstr s = s"
  unfolding trimstr_strip by (rule strip_no_trim) (auto simp: trim_set_def isdigit_def)

lemma trimstr_dec_nat [simp]: "trimstr (dec_nat n) = dec_nat n"
  using dec_nat_digits [of n] by (simp add: trimstr_digits)

lemma dec_nat_without: "\<not> isdigit c \<Longrightarrow> c \<notin> set (dec_nat n)"
  using dec_nat_digits [of n] by auto

lemma scan_dec_nat: "int n \<le> int_max \<Longrightarrow> scan_field (dec_nat n) d = Inr (int n)"
  using sscanf_d_digits [of "dec_nat n"] dec_nat_digits [of n] by (simp add: scan_field_def)

lemma conf_fields_read:
  assumes "int (fst x) \<le> int_max" "int (fst (snd x)) \<le> int_max" "int (snd (snd x)) \<le> int_max"
  shows "symbol_conf_fields (split_fields (join (CHR '','') [dec_nat (fst x), dec_nat (fst (snd x)), dec_nat (snd (snd x))])
      (CHR '','') dquote) = Inr (Some (conf_value x))"
proof -
  have "\<not> isdigit (CHR '','')" "\<not> isdigit dquote"
    by (simp_all add: isdigit_def)
  then have "split_fields (join (CHR '','') [dec_nat (fst x), dec_nat (fst (snd x)), dec_nat (snd (snd x))]) (CHR '','') dquote
      = [dec_nat (fst x), dec_nat (fst (snd x)), dec_nat (snd (snd x))]"
    unfolding split_fields_def by (subst fields_join) (auto simp: dec_nat_without)
  then show ?thesis
    using assms dec_nat_digits by (simp add: symbol_conf_fields_def Let_def scan_dec_nat conf_value_def list_all_iff)
qed

lemma symbol_conf_step:
  assumes "CHR ''('' \<notin> set p" "CHR '')'' \<notin> set b" "symbol_conf_fields (split_fields b (CHR '','') dquote) = Inr (Some c)"
  shows "symbol_conf_loop (p @ ''('' @ b @ '')'' @ r) conf = symbol_conf_loop ('')'' @ r) (conf @ [c])"
proof -
  have "find_idx (\<lambda>x. x = CHR ''('') (p @ ''('' @ b @ '')'' @ r) = Some (length p)"
    using assms(1) by (induction p) auto
  moreover have "find_idx (\<lambda>x. x = CHR '')'') (b @ '')'' @ r) = Some (length b)"
    using assms(2) by (induction b) auto
  ultimately show ?thesis
    using assms(3) by (subst symbol_conf_loop.simps) simp
qed

text \<open>
  The specifications of the symbols of a provider, written one after the other, are read as they
  are, in their order.
\<close>

theorem symbol_conf_roundtrip:
  assumes "\<forall>x\<in>set xs. int (fst x) \<le> int_max \<and> int (fst (snd x)) \<le> int_max \<and> int (snd (snd x)) \<le> int_max"
  shows "symbol_conf_parse (concat (map conf_text xs)) = Inr (True, map conf_value xs)"
proof -
  have "symbol_conf_loop (p @ concat (map conf_text xs)) conf = Inr (True, conf @ map conf_value xs)"
    if "CHR ''('' \<notin> set p" for p conf
    using assms that
  proof (induction xs arbitrary: p conf)
    case Nil
    then have "find_idx (\<lambda>c. c = CHR ''('') p = None"
      by (auto simp: find_idx_None)
    then show ?case
      by (subst symbol_conf_loop.simps) simp
  next
    case (Cons x xs)
    let ?b = "join (CHR '','') [dec_nat (fst x), dec_nat (fst (snd x)), dec_nat (snd (snd x))]"
    have "CHR '')'' \<notin> set ?b"
      by (auto simp: dec_nat_without isdigit_def)
    from symbol_conf_step [OF Cons.prems(2) this conf_fields_read] Cons.IH [of "'')''" "conf @ [conf_value x]"] Cons.prems
    show ?case
      by (simp add: conf_text_def del: join.simps)
  qed
  from this [of "[]" "[]"] show ?thesis
    by (simp add: symbol_conf_parse_def)
qed

section \<open>Concrete settings\<close>

definition sample_eom :: "int \<Rightarrow> int \<Rightarrow> int" where
  "sample_eom y m = (if m = 2 then (if y mod 4 = 0 then 29 else 28) else 30)"

lemma sample_eom_ok: "months_ok sample_eom"
  by (simp add: months_ok_def sample_eom_def)

theorem enabled_within_year_witness:
  "isEnabled sample_eom (enable_period_of 1 4 31 9) (2024, 9, 29) 2024 = Inr True
   \<and> isEnabled sample_eom (enable_period_of 1 4 31 9) (2024, 9, 30) 2024 = Inr False"
  using enabled_within_year [OF _ sample_eom_ok, of "enable_period_of 1 4 31 9" 2024]
  by (simp add: ep_ranges_def enable_period_of_def outer_def first_day_def end_day_def sample_eom_def date_less_def)

lemma sample_winter: "enable_parse '' Dec-01 / feb-29 '' = enable_period_of 1 12 29 2"
  by code_simp

theorem winter_ends_with_year_witness:
  "isEnabled sample_eom (enable_period_of 1 12 28 2) (2024, 1, 10) 2024 = Inr False"
proof -
  have "isEnabled sample_eom (enable_period_of 1 12 28 2) (2024, 1, 10) 2024 \<noteq> Inr True"
    using winter_ends_with_year [OF _ sample_eom_ok, of "enable_period_of 1 12 28 2" 2024 "(2024, 1, 10)" True]
    by (auto simp: ep_ranges_def enable_period_of_def outer_def first_day_def sample_eom_def date_less_def)
  moreover have "\<exists>b. isEnabled sample_eom (enable_period_of 1 12 28 2) (2024, 1, 10) 2024 = Inr b"
    by (simp add: isEnabled_def enabledPeriod_def mk_date_def ep_valid_def enable_period_of_def outer_def sample_eom_def Let_def)
  ultimately show ?thesis
    by auto
qed

theorem enabled_throws_iff_witness:
  "\<exists>e. isEnabled sample_eom (enable_parse '' Dec-01 / feb-29 '') (2024, 12, 10) 2024 = Inl e"
  using enabled_throws_iff [OF _ sample_eom_ok, of "enable_period_of 1 12 29 2" 2024 "(2024, 12, 10)"]
  by (simp add: sample_winter ep_ranges_def enable_period_of_def outer_def first_day_def end_day_def sample_eom_def)

definition sample_output :: action_params where
  "sample_output = [(''output_params'', Some ''-symbol:T.WB; +seaIceingIndex;symbol::T.wb; - seaiceingindex'')]"

theorem output_params_last_witness:
  "\<exists>m. decodeOutputParams sample_output = Inr m \<and> useParam ''symbol:T.WB'' m \<and> \<not> useParam ''seaIceingIndex'' m"
proof -
  let ?s = "''-symbol:T.WB; +seaIceingIndex;symbol::T.wb; - seaiceingindex''"
  have "map_of sample_output ''output_params'' = Some (Some ?s)"
    by (simp add: sample_output_def)
  from output_params_last [OF this] obtain m where m: "decodeOutputParams sample_output = Inr m"
    "\<forall>q. useParam q m = (case map_of default_params (icase q) of None \<Rightarrow> True
        | Some d \<Rightarrow> (case map_of (rev (map output_entry (split_fields ?s (CHR '';'') dquote))) (icase q) of None \<Rightarrow> d | Some f \<Rightarrow> f))"
    by blast
  have e: "map output_entry (split_fields ?s (CHR '';'') dquote)
      = [(''symbol:t.wb'', False), (''seaiceingindex'', True), (''symbol:t.wb'', True), (''seaiceingindex'', False)]"
    by code_simp
  have k: "icase ''symbol:T.WB'' = ''symbol:t.wb''" "icase ''seaIceingIndex'' = ''seaiceingindex''"
    "map_of default_params ''symbol:t.wb'' = Some True" "map_of default_params ''seaiceingindex'' = Some False"
    by code_simp+
  show ?thesis
    using m(1) spec [OF m(2), of "''symbol:T.WB''"] spec [OF m(2), of "''seaIceingIndex''"] by (simp add: e k)
qed

theorem expire_bounds_witness:
  "\<exists>t c'. expire_time simple_calendar 0 (\<lambda>s. (s * 7, s + 1)) 1000 (readConf 5 [(''expire'', Some ''600''), (''expire_rand'', Some ''60'')])
       = Inr (t, c') \<and> 1600 \<le> t \<and> t \<le> 1659"
proof -
  have c: "readConf 5 [(''expire'', Some ''600''), (''expire_rand'', Some ''60'')]
      = \<lparr>ec_ref = Expire_now, ec_resolution = 3600, ec_rand = 60, ec_expire = 600, ec_seed = 5\<rparr>"
    by (simp add: readConf_def get_int_def getStr_def asString_or_def lexical_int_def digits_val_def digit_val_def isdigit_def
        in_int_def int_min_def int_max_def Let_def)
  obtain t c' where "expire_time simple_calendar 0 (\<lambda>s. (s * 7, s + 1)) 1000
      \<lparr>ec_ref = Expire_now, ec_resolution = 3600, ec_rand = 60, ec_expire = 600, ec_seed = 5\<rparr> = Inr (t, c')"
    by (simp add: expire_time_def)
  from expire_bounds [OF _ this, of 1] this show ?thesis
    unfolding c by (simp add: simple_calendar_def)
qed

theorem symbol_conf_roundtrip_witness:
  "symbol_conf_parse ''(2,0,3)(0,6,1)'' = Inr (True, [symbol_conf_of 2 0 3, symbol_conf_of 0 6 1])"
  using symbol_conf_roundtrip [of "[(2, 0, 3), (0, 6, 1)]"]
  by (simp add: conf_text_def conf_value_def dec_nat.simps digit_chars int_max_def)

end
