(* ===== verification/UpdateHandler.thy ===== *)
theory UpdateHandler
  imports UrlQuery Notes ReftimeNote HandlerConf
begin

text \<open>
  The update of reference times by a request:
  \<open>src/src/mod_wdb2ts/contenthandlers/LocationForecast/LocationForecastUpdateHandler.cpp\<close>. The handler
  reads what the request asks for, takes the table of reference times from its note, changes it
  through \<open>Providers\<close> and stores the note again; the handlers that answer forecasts are told by
  \<open>Notes\<close>. The notes are those the handlers share, with their dynamic type as a constructor. The
  database, the clock, the disk and the protocols of the databases are arguments.
\<close>

section \<open>Reading a request\<close>

definition word_char :: "char \<Rightarrow> bool" where
  "word_char c \<longleftrightarrow> isalnum c \<or> c = CHR ''_''"

text \<open>\<open>(en|di)\w*\<close>, without regard to case.\<close>

definition match_enable :: "string \<Rightarrow> bool" where
  "match_enable s \<longleftrightarrow>
     map tolower_c (take 2 s) \<in> {''en'', ''di''} \<and> list_all word_char s"

text \<open>\<open>*, *([\-+]?\d+)\<close>: blanks, a comma, blanks and a number; the text of the number.\<close>

definition match_version :: "string \<Rightarrow> string option" where
  "match_version s =
     (case dropWhile (\<lambda>c. c = CHR '' '') s of
        [] \<Rightarrow> None
      | c # r \<Rightarrow>
          if c \<noteq> CHR '','' then None
          else (let num = dropWhile (\<lambda>c. c = CHR '' '') r;
                    ds = (if num \<noteq> [] \<and> (hd num = CHR ''-'' \<or> hd num = CHR ''+'') then tl num else num)
                in if ds \<noteq> [] \<and> list_all isdigit ds then Some num else None))"

text \<open>\<open>(0)? *, *([\-+]?\d+)\<close>: whether the 0 is there, and the number.\<close>

definition match_only_version :: "string \<Rightarrow> (bool \<times> string) option" where
  "match_only_version s =
     (let zero = (s \<noteq> [] \<and> hd s = CHR ''0'')
      in map_option (Pair zero) (match_version (if zero then tl s else s)))"

definition time_keywords :: "string list" where
  "time_keywords = [''today'', ''now'', ''tomorrow'', ''infinity'', ''-infinity'', ''yesterday'', ''epoch'']"

text \<open>The forms of a time, with \<open>d\<close> for a digit and \<open>S\<close> for a blank or a \<open>T\<close>.\<close>

definition time_forms :: "string list" where
  "time_forms =
     concat (map (\<lambda>t. [t, t @ ''z'']) [''dddd-dd-ddSdd'', ''dddd-dd-ddSdd:dd'', ''dddd-dd-ddSdd:dd:dd''])"

definition form_char :: "char \<Rightarrow> char \<Rightarrow> bool" where
  "form_char p c \<longleftrightarrow>
     (if p = CHR ''d'' then isdigit c
      else if p = CHR ''S'' then c = CHR '' '' \<or> tolower_c c = CHR ''t''
      else tolower_c c = p)"

definition match_time :: "string \<Rightarrow> bool" where
  "match_time s \<longleftrightarrow>
     list_ex (\<lambda>k. map tolower_c s = k) time_keywords \<or> list_ex (\<lambda>f. list_all2 form_char f s) time_forms"

text \<open>The times have no comma, so the version starts with the blanks before the first one.\<close>

definition match_time_version :: "string \<Rightarrow> string option option" where
  "match_time_version s =
     (case find_idx (\<lambda>c. c = CHR '','') s of
        None \<Rightarrow> if match_time s then Some None else None
      | Some i \<Rightarrow>
          (let t = rev (dropWhile (\<lambda>c. c = CHR '' '') (rev (take i s)))
           in if match_time t then map_option Some (match_version (drop i s)) else None))"

text \<open>The version is read by \<open>lexical_cast\<close>, whose exception nothing catches.\<close>

definition version_of :: "string \<Rightarrow> int result" where
  "version_of s = (case lexical_int s of None \<Rightarrow> Inl Bad_cast | Some n \<Rightarrow> Inr n)"

definition decodeQueryValue ::
    "calendar \<Rightarrow> int \<Rightarrow> string \<Rightarrow> string \<Rightarrow> reftimes \<Rightarrow> (bool \<times> reftimes) result" where
  "decodeQueryValue cal now prov val m =
     (if prov = [] then Inr (False, m)
      else let t = provider_times_init; put = (\<lambda>t. om_put prov t m)
      in if val = [] then Inr (True, put (t\<lparr>reftimeUpdateRequest := True\<rparr>))
         else if match_enable val
         then Inr (True, put (t\<lparr>disableEnableRequest := True, disabled := (tolower_c (hd val) = CHR ''d'')\<rparr>))
         else (case match_only_version val of
                 Some (zero, num) \<Rightarrow>
                   bind_result (version_of num) (\<lambda>v.
                     Inr (True, put (t\<lparr>dataversion := v, dataversionRequest := True, reftimeUpdateRequest := zero\<rparr>)))
               | None \<Rightarrow>
                   (case match_time_version val of
                      None \<Rightarrow> Inr (False, put t)
                    | Some num \<Rightarrow>
                        bind_result (case num of
                                       None \<Rightarrow> Inr t
                                     | Some n \<Rightarrow> bind_result (version_of n) (\<lambda>v. Inr (t\<lparr>dataversion := v, dataversionRequest := True\<rparr>)))
                          (\<lambda>t1. case ptimeFromIsoString cal now val of
                                  Inr r \<Rightarrow> Inr (True, put (t1\<lparr>refTime := of_vtime r, reftimeUpdateRequest := True\<rparr>))
                                | Inl Undefined_behaviour \<Rightarrow> Inl Undefined_behaviour
                                | Inl _ \<Rightarrow> Inr (False, put t1)))))"

fun upd_keys ::
    "calendar \<Rightarrow> int \<Rightarrow> url_query \<Rightarrow> string list \<Rightarrow> reftimes \<Rightarrow> (bool \<times> reftimes) result" where
  "upd_keys cal now uq [] m = Inr (True, m)"
| "upd_keys cal now uq (k # ks) m =
     (let key = boost_trim k; val = boost_trim (asString_def_val uq k [])
      in if key = [] then Inr (False, m)
         else bind_result (decodeQueryValue cal now (providerWithPlacename (decodeItem key)) val m)
                (\<lambda>(ok, m1). if ok then upd_keys cal now uq ks m1 else Inr (False, m1)))"

text \<open>The result: whether the query is valid, what it asks for, and \<open>debug\<close>.\<close>

definition upd_decodeQuery :: "calendar \<Rightarrow> int \<Rightarrow> string \<Rightarrow> (bool \<times> reftimes \<times> bool) result" where
  "upd_decodeQuery cal now query =
     (if query = [] then Inr (True, [], False)
      else (case decode url_query_init query False of
              (uq, Inl Undefined_behaviour) \<Rightarrow> Inl Undefined_behaviour
            | (uq, Inl x) \<Rightarrow> Inr (False, [], False)
            | (uq, Inr _) \<Rightarrow>
                if ''debug'' \<in> set (keys uq) then Inr (True, [], True)
                else bind_result (upd_keys cal now uq (keys uq) []) (\<lambda>(ok, m). Inr (ok, m, False))))"

section \<open>The handler\<close>

datatype upd_note = Note_string string | Note_providers "provider_item list" | Note_reftimes reftimes

record upd_handler =
  uh_wdbDB :: string
  uh_updateid :: string
  uh_wciProtocol :: int

definition upd_handler_new :: upd_handler where
  "upd_handler_new = \<lparr>uh_wdbDB = [], uh_updateid = [], uh_wciProtocol = -1\<rparr>"

definition upd_configure :: "action_params \<Rightarrow> string \<Rightarrow> upd_handler \<Rightarrow> upd_handler result" where
  "upd_configure ps db h =
     (case map_of ps ''updateid'' of
        None \<Rightarrow> Inr (h\<lparr>uh_wdbDB := db\<rparr>)
      | Some v \<Rightarrow> bind_result (asString_val v) (\<lambda>s. Inr (h\<lparr>uh_updateid := s, uh_wdbDB := db\<rparr>)))"

text \<open>The rest of the application: \<open>ue_proto\<close> gives the protocol of a database, \<open>ue_conn\<close> whether there is a connection to it.\<close>

record upd_env =
  ue_world :: "upd_note note_world"
  ue_wci :: wci
  ue_cal :: calendar
  ue_now :: int
  ue_fmt :: "int \<Rightarrow> string"
  ue_proto :: "string \<Rightarrow> int"
  ue_conn :: "string \<Rightarrow> bool"

definition reftime_note :: "upd_handler \<Rightarrow> string" where
  "reftime_note h = uh_updateid h @ ''.LocationProviderReftimeList''"

definition upd_getProviderReftimes :: "upd_note note_manager \<Rightarrow> upd_handler \<Rightarrow> reftimes" where
  "upd_getProviderReftimes m h =
     (case map_option tag (getNote m (reftime_note h)) of Some (Note_reftimes r) \<Rightarrow> r | _ \<Rightarrow> [])"

definition getWdbId :: "upd_note note_manager \<Rightarrow> upd_handler \<Rightarrow> string" where
  "getWdbId m h =
     (if uh_wdbDB h \<noteq> [] then uh_wdbDB h
      else if uh_updateid h = [] then []
      else (case map_option tag (getNote m (uh_updateid h @ ''.LocationForecastWdbId'')) of Some (Note_string s) \<Rightarrow> s | _ \<Rightarrow> []))"

definition getProviderPriorityList :: "upd_env \<Rightarrow> upd_note note_manager \<Rightarrow> upd_handler \<Rightarrow> string \<Rightarrow> provider_item list option" where
  "getProviderPriorityList e m h wdb =
     (case map_option tag (getNote m (uh_updateid h @ ''.LocationProviderPriority'')) of
        Some (Note_string s) \<Rightarrow> Some (configureProviderList (ue_conn e wdb) (ue_wci e) (ue_now e) [(''provider_priority'', s)])
      | _ \<Rightarrow> None)"

text \<open>The overload without a database, which the handler does not call.\<close>

definition getProviderPriorityList_note :: "upd_note note_manager \<Rightarrow> upd_handler \<Rightarrow> provider_item list" where
  "getProviderPriorityList_note m h =
     (case map_option tag (getNote m (uh_updateid h @ ''.LocationProviderList'')) of Some (Note_providers l) \<Rightarrow> l | _ \<Rightarrow> [])"

definition latest_request :: "reftimes \<Rightarrow> string \<Rightarrow> provider_times" where
  "latest_request old p =
     provider_times_init\<lparr>disabled := (case reftime_disabled old p of None \<Rightarrow> False | Some d \<Rightarrow> d),
       dataversion := (case reftime_dataversion old p of None \<Rightarrow> -1 | Some v \<Rightarrow> v), reftimeUpdateRequest := True\<rparr>"

definition checkProviders :: "provider_item list \<Rightarrow> reftimes \<Rightarrow> reftimes \<Rightarrow> bool \<times> reftimes" where
  "checkProviders pl old req =
     (let unknown = (\<lambda>k. findProviderWithoutPlacename pl k = None);
          req1 = map (\<lambda>(k, t). (k, if unknown k then t\<lparr>dataversion := int_max\<rparr> else t)) req
      in if list_ex (\<lambda>(k, t). unknown k) req then (False, req1)
         else if req = [] then (True, fold (\<lambda>p r. om_put p (latest_request old p) r) (providerWithoutPlacename pl) [])
         else (True, req1))"

definition checkAgainstExistingProviders :: "reftimes \<Rightarrow> reftimes \<Rightarrow> reftimes" where
  "checkAgainstExistingProviders existing new = filter (\<lambda>(k, t). map_of existing k \<noteq> None) new"

definition entry_differs :: "provider_times \<Rightarrow> provider_times option \<Rightarrow> bool" where
  "entry_differs t u =
     (case u of
        None \<Rightarrow> True
      | Some u \<Rightarrow> refTime t \<noteq> refTime u \<or> dataversion t \<noteq> dataversion u \<or> disabled t \<noteq> disabled u)"

definition updateStatus :: "reftimes \<Rightarrow> reftimes \<Rightarrow> string" where
  "updateStatus old new =
     (if list_ex (\<lambda>(k, t). entry_differs t (map_of new k)) old then ''Updated''
      else if list_ex (\<lambda>(k, t). map_of old k = None) new then ''Updated''
      else ''NoNewDataRefTime'')"

text \<open>The protocol is asked for once, and again as long as the answer is not positive.\<close>

definition upd_protocol :: "upd_env \<Rightarrow> upd_handler \<Rightarrow> int \<times> upd_handler" where
  "upd_protocol e h =
     (if uh_wciProtocol h < 0
      then (let p = ue_proto e (uh_wdbDB h) in if p \<le> 0 then (1, h) else (p, h\<lparr>uh_wciProtocol := p\<rparr>))
      else (uh_wciProtocol h, h))"

datatype upd_response =
    Invalid_query
  | Internal_error
  | No_data exn
  | Done string

type_synonym upd_result = "upd_handler \<times> upd_note note_manager \<times> (string \<times> string) option \<times> upd_response"

text \<open>The part with a connection, from the table \<open>old\<close>.\<close>

definition upd_run ::
    "upd_env \<Rightarrow> upd_handler \<Rightarrow> upd_note note_manager \<Rightarrow> provider_item list \<Rightarrow> reftimes \<Rightarrow> reftimes \<Rightarrow> int \<Rightarrow> upd_result result" where
  "upd_run e h m pl old req proto =
     (case updateProviderRefTimes_init (ue_wci e) (ue_now e) (ue_fmt e) [] pl proto of
        (Inl x, _) \<Rightarrow> Inr (h, m, None, Internal_error)
      | (Inr False, _) \<Rightarrow> Inr (h, m, None, Done (updateStatus old old))
      | (Inr True, existing) \<Rightarrow>
          (case updateProviderRefTimes (ue_wci e) (ue_now e) (ue_fmt e) req old proto of
             (Inl x, _) \<Rightarrow> Inr (h, m, None, No_data x)
           | (Inr _, new0) \<Rightarrow>
               (let new = checkAgainstExistingProviders existing new0
                in bind_result (setNote (ue_world e) m (reftime_note h) (Note_reftimes new)) (\<lambda>(m1, d).
                     Inr (h, m1, d, Done (updateStatus old new))))))"

definition upd_get :: "upd_env \<Rightarrow> string \<Rightarrow> upd_handler \<Rightarrow> upd_note note_manager \<Rightarrow> upd_result result" where
  "upd_get e query h m =
     bind_result (upd_decodeQuery (ue_cal e) (ue_now e) query) (\<lambda>(ok, req, debug).
       if \<not> ok then Inr (h, m, None, Invalid_query)
       else if uh_updateid h = [] then Inr (h, m, None, Internal_error)
       else (case checkForUpdatedNotes (ue_world e) m None of
               (m1, _, Inl x) \<Rightarrow> Inl x
             | (m1, _, Inr _) \<Rightarrow>
                 (let old = upd_getProviderReftimes m1 h; wdb = getWdbId m1 h
                  in if debug
                     then bind_result (setNote (ue_world e) m1 (reftime_note h) (Note_reftimes old)) (\<lambda>(m2, d).
                            Inr (h, m2, d, Done ''Updated''))
                     else (case getProviderPriorityList e m1 h wdb of
                             None \<Rightarrow> Inr (h, m1, None, Internal_error)
                           | Some pl \<Rightarrow>
                               (case checkProviders pl old req of
                                  (False, _) \<Rightarrow> Inr (h, m1, None, Invalid_query)
                                | (True, req1) \<Rightarrow>
                                    (let (proto, h1) = upd_protocol e h
                                     in if \<not> ue_conn e wdb then Inr (h1, m1, None, Internal_error)
                                        else upd_run e h1 m1 pl old req1 proto))))))"

section \<open>The forms of a value\<close>

lemma match_version_dec:
  assumes "s = dec_nat n \<or> s = ''-'' @ dec_nat n"
  shows "match_version ('','' @ s) = Some s"
proof -
  obtain d ds where d: "dec_nat n = d # ds" "isdigit d" "list_all isdigit ds"
    using dec_nat_digits [of n] dec_nat_nonempty [of n] by (cases "dec_nat n") (auto simp: list_all_iff)
  then have "d \<noteq> CHR '' ''" "d \<noteq> CHR ''-''" "d \<noteq> CHR ''+''"
    by (auto simp: isdigit_def)
  note d1 = d(2,3) this
  from assms show ?thesis
  proof
    assume s: "s = dec_nat n"
    show ?thesis
      unfolding s d(1) by (simp add: match_version_def d1)
  next
    assume s: "s = ''-'' @ dec_nat n"
    show ?thesis
      unfolding s d(1) by (simp add: match_version_def d1)
  qed
qed

lemma lexical_dec: "int n \<le> int_max \<Longrightarrow> lexical_int (dec_nat n) = Some (int n)"
  "int n \<le> int_max \<Longrightarrow> lexical_int (''-'' @ dec_nat n) = Some (- int n)"
proof -
  obtain d ds where d: "dec_nat n = d # ds"
    using dec_nat_nonempty [of n] by (cases "dec_nat n") auto
  have digits: "\<forall>c\<in>set (dec_nat n). isdigit c"
    by (rule dec_nat_digits)
  then have c: "d \<noteq> CHR ''-''" "d \<noteq> CHR ''+''"
    by (auto simp: d isdigit_def)
  show "int n \<le> int_max \<Longrightarrow> lexical_int (dec_nat n) = Some (int n)"
    using digits c digits_val_dec_nat [of n] by (simp add: lexical_int_def d in_int_def int_min_def Let_def)
  show "int n \<le> int_max \<Longrightarrow> lexical_int (''-'' @ dec_nat n) = Some (- int n)"
    using digits digits_val_dec_nat [of n] dec_nat_nonempty [of n]
    by (simp add: lexical_int_def in_int_def int_min_def int_max_def Let_def)
qed

text \<open>
  What a value of an update request asks for: no value a new reference time; a comma and a number
  a data version and nothing else; with a 0 before it also the latest reference time; a word that
  starts with en or di that the provider is enabled or disabled. The entry is new in each case.
\<close>

theorem update_value_forms:
  assumes "prov \<noteq> []" "int n \<le> int_max"
  shows "decodeQueryValue cal now prov [] m = Inr (True, om_put prov (provider_times_init\<lparr>reftimeUpdateRequest := True\<rparr>) m)"
    and "decodeQueryValue cal now prov ('','' @ dec_nat n) m
      = Inr (True, om_put prov (provider_times_init\<lparr>dataversion := int n, dataversionRequest := True\<rparr>) m)"
    and "decodeQueryValue cal now prov (''0,-'' @ dec_nat n) m
      = Inr (True, om_put prov (provider_times_init\<lparr>dataversion := - int n, dataversionRequest := True, reftimeUpdateRequest := True\<rparr>) m)"
    and "list_all word_char s \<Longrightarrow> decodeQueryValue cal now prov (''en'' @ s) m
      = Inr (True, om_put prov (provider_times_init\<lparr>disableEnableRequest := True, disabled := False\<rparr>) m)"
    and "list_all word_char s \<Longrightarrow> decodeQueryValue cal now prov (''di'' @ s) m
      = Inr (True, om_put prov (provider_times_init\<lparr>disableEnableRequest := True, disabled := True\<rparr>) m)"
proof -
  have e: "\<not> match_enable ('','' @ t)" "\<not> match_enable (''0,'' @ t)" for t
    by (auto simp: match_enable_def word_char_def isalnum_def isdigit_def tolower_c_def)
  have w: "word_char (CHR ''e'')" "word_char (CHR ''n'')" "word_char (CHR ''d'')" "word_char (CHR ''i'')"
    by (simp_all add: word_char_def isalnum_def)
  have tl: "tolower_c (CHR ''e'') = CHR ''e''" "tolower_c (CHR ''n'') = CHR ''n''" "tolower_c (CHR ''d'') = CHR ''d''"
    "tolower_c (CHR ''i'') = CHR ''i''"
    by (simp_all add: tolower_c_def)
  have v: "match_only_version ('','' @ dec_nat n) = Some (False, dec_nat n)"
    "match_only_version (''0,-'' @ dec_nat n) = Some (True, ''-'' @ dec_nat n)"
    using match_version_dec [of "dec_nat n" n] match_version_dec [of "''-'' @ dec_nat n" n]
    by (simp_all add: match_only_version_def)
  show "decodeQueryValue cal now prov [] m = Inr (True, om_put prov (provider_times_init\<lparr>reftimeUpdateRequest := True\<rparr>) m)"
    using assms(1) by (simp add: decodeQueryValue_def)
  show "decodeQueryValue cal now prov ('','' @ dec_nat n) m
      = Inr (True, om_put prov (provider_times_init\<lparr>dataversion := int n, dataversionRequest := True\<rparr>) m)"
    using assms e(1) [of "dec_nat n"] v(1) lexical_dec(1) [OF assms(2)]
    by (simp add: decodeQueryValue_def version_of_def provider_times_init_def)
  show "decodeQueryValue cal now prov (''0,-'' @ dec_nat n) m
      = Inr (True, om_put prov (provider_times_init\<lparr>dataversion := - int n, dataversionRequest := True, reftimeUpdateRequest := True\<rparr>) m)"
    using assms e(2) [of "''-'' @ dec_nat n"] v(2) lexical_dec(2) [OF assms(2)]
    by (simp add: decodeQueryValue_def version_of_def)
  show "list_all word_char s \<Longrightarrow> decodeQueryValue cal now prov (''en'' @ s) m
      = Inr (True, om_put prov (provider_times_init\<lparr>disableEnableRequest := True, disabled := False\<rparr>) m)"
    "list_all word_char s \<Longrightarrow> decodeQueryValue cal now prov (''di'' @ s) m
      = Inr (True, om_put prov (provider_times_init\<lparr>disableEnableRequest := True, disabled := True\<rparr>) m)"
    using assms(1) w tl by (simp_all add: decodeQueryValue_def match_enable_def)
qed

section \<open>The status that is reported\<close>

text \<open>What of an entry a listener sees.\<close>

definition seen :: "provider_times \<Rightarrow> ptime \<times> int \<times> bool" where
  "seen t = (refTime t, dataversion t, disabled t)"

definition same_times :: "reftimes \<Rightarrow> reftimes \<Rightarrow> bool" where
  "same_times a b \<longleftrightarrow> (\<forall>k. map_option seen (map_of a k) = map_option seen (map_of b k))"

lemma om_wf_entries: "om_wf m \<Longrightarrow> (k, t) \<in> set m \<longleftrightarrow> map_of m k = Some t"
  by (simp add: om_wf_def strict_sorted_iff)

lemma entry_differs_seen: "entry_differs t u \<longleftrightarrow> map_option seen u \<noteq> Some (seen t)"
  by (auto simp: entry_differs_def seen_def split: option.splits)

lemma same_entry:
  "map_option seen a = map_option seen b \<longleftrightarrow>
     \<not> ((\<exists>t. a = Some t \<and> map_option seen b \<noteq> Some (seen t)) \<or> (b \<noteq> None \<and> a = None))"
  by (cases a; cases b) auto

lemma updateStatus_same:
  assumes "om_wf old"
  shows "updateStatus old new = (if same_times old new then ''NoNewDataRefTime'' else ''Updated'')"
proof -
  have "list_ex (\<lambda>(k, t). entry_differs t (map_of new k)) old \<longleftrightarrow> (\<exists>k t. (k, t) \<in> set old \<and> entry_differs t (map_of new k))"
    by (auto simp: list_ex_iff)
  then have changed: "list_ex (\<lambda>(k, t). entry_differs t (map_of new k)) old
      \<longleftrightarrow> (\<exists>k t. map_of old k = Some t \<and> map_option seen (map_of new k) \<noteq> Some (seen t))"
    unfolding om_wf_entries [OF assms] entry_differs_seen .
  have "list_ex (\<lambda>(k, t). map_of old k = None) new \<longleftrightarrow> (\<exists>k\<in>fst ` set new. map_of old k = None)"
    by (simp add: list_ex_iff case_prod_beta)
  then have added: "list_ex (\<lambda>(k, t). map_of old k = None) new \<longleftrightarrow> (\<exists>k. map_of new k \<noteq> None \<and> map_of old k = None)"
    by (simp only: map_of_eq_None_iff not_not Bex_def)
  have "same_times old new \<longleftrightarrow>
      \<not> (list_ex (\<lambda>(k, t). entry_differs t (map_of new k)) old \<or> list_ex (\<lambda>(k, t). map_of old k = None) new)"
    unfolding changed added same_times_def same_entry by (simp only: not_ex ex_disj_distrib [symmetric])
  then show ?thesis
    by (cases "same_times old new") (simp_all add: updateStatus_def disj_imp)
qed

text \<open>The note as it is kept, also when \<open>getNote\<close> does not give it yet.\<close>

definition note_held :: "'n note_manager \<Rightarrow> string \<Rightarrow> 'n option" where
  "note_held m nm =
     (case map_of (persistentNotes m) nm of
        Some p \<Rightarrow> Some (tag (pnote p))
      | None \<Rightarrow> map_option tag (map_of (plain_notes m) nm))"

lemma setNote_held: "setNote w m nm n = Inr (m1, d) \<Longrightarrow> note_held m1 nm = Some n"
  by (auto simp: setNote_def note_held_def Let_def split: option.splits if_splits)

definition notes_read :: "upd_env \<Rightarrow> upd_note note_manager \<Rightarrow> upd_note note_manager" where
  "notes_read e m = fst (checkForUpdatedNotes (ue_world e) m None)"

definition old_times :: "upd_env \<Rightarrow> upd_handler \<Rightarrow> upd_note note_manager \<Rightarrow> reftimes" where
  "old_times e h m = upd_getProviderReftimes (notes_read e m) h"

lemma upd_get_cases:
  assumes "upd_get e query h m = Inr (h1, m1, d, r)"
  obtains (early) "m1 \<in> {m, notes_read e m}" "d = None" "r \<in> {Invalid_query, Internal_error}"
  | (debug) req where "upd_decodeQuery (ue_cal e) (ue_now e) query = Inr (True, req, True)"
      "setNote (ue_world e) (notes_read e m) (reftime_note h) (Note_reftimes (old_times e h m)) = Inr (m1, d)" "r = Done ''Updated''"
  | (run) req pl proto h2 where "reftime_note h2 = reftime_note h"
      "upd_run e h2 (notes_read e m) pl (old_times e h m) req proto = Inr (h1, m1, d, r)"
proof -
  obtain ok req dbg where q: "upd_decodeQuery (ue_cal e) (ue_now e) query = Inr (ok, req, dbg)"
    using assms by (auto simp: upd_get_def bind_result_Inr_iff)
  obtain x calls where c: "checkForUpdatedNotes (ue_world e) m None = (notes_read e m, x, calls)"
    by (cases "checkForUpdatedNotes (ue_world e) m None") (simp add: notes_read_def)
  obtain proto h2 where p: "upd_protocol e h = (proto, h2)"
    by fastforce
  then have h2: "reftime_note h2 = reftime_note h"
    by (auto simp: upd_protocol_def reftime_note_def Let_def split: if_splits)
  note get = assms [unfolded upd_get_def q c p bind_result_simps old_times_def [symmetric] Let_def prod.case]
  show ?thesis
  proof (cases "\<not> ok \<or> uh_updateid h = []")
    case True
    then show ?thesis
      using get by (intro early) (auto split: if_splits)
  next
    case False
    then obtain cs where calls: "calls = Inr cs"
      using get by (cases calls) auto
    note run1 = get [unfolded calls sum.case]
    show ?thesis
    proof (cases dbg)
      case True
      then show ?thesis
        using run1 False q by (intro debug) (auto simp: bind_result_Inr_iff)
    next
      case no_debug: False
      show ?thesis
      proof (cases "getProviderPriorityList e (notes_read e m) h (getWdbId (notes_read e m) h)")
        case None
        then show ?thesis
          using run1 False no_debug by (intro early) auto
      next
        case (Some pl)
        then show ?thesis
          using run1 False no_debug h2 early run
          by (cases "checkProviders pl (old_times e h m) req") (auto split: if_splits bool.splits)
      qed
    qed
  qed
qed

text \<open>
  C23: What the update request reports is true: \<open>NoNewDataRefTime\<close> exactly when the table of reference
  times after it, which the note then holds, has the reference times, data versions and disabled
  providers it had before. Only a request for \<open>debug\<close> reports an update without one.
\<close>

theorem update_status_true:
  assumes "upd_get e query h m = Inr (h1, m1, d, Done st)" "om_wf (old_times e h m)"
    and "\<And>req. upd_decodeQuery (ue_cal e) (ue_now e) query \<noteq> Inr (True, req, True)"
  shows "\<exists>new. (m1 = notes_read e m \<and> new = old_times e h m \<or> note_held m1 (reftime_note h) = Some (Note_reftimes new))
    \<and> st = (if same_times (old_times e h m) new then ''NoNewDataRefTime'' else ''Updated'')"
  using assms(1)
proof (cases rule: upd_get_cases)
  case early
  then show ?thesis
    by simp
next
  case (debug req)
  then show ?thesis
    using assms(3) by blast
next
  case (run req pl proto h2)
  from run(2) show ?thesis
    by (auto simp: upd_run_def updateStatus_same [OF assms(2)] bind_result_Inr_iff run(1) Let_def
        split: prod.splits sum.splits bool.splits dest!: setNote_held)
qed

text \<open>
  An update request that fails changes nothing: the notes are those it found, apart from the ones
  it read from disk, and nothing is written.
\<close>

theorem failed_update_keeps_notes:
  assumes "upd_get e query h m = Inr (h1, m1, d, r)" "\<nexists>st. r = Done st"
  shows "m1 \<in> {m, notes_read e m} \<and> d = None"
  using assms(1)
proof (cases rule: upd_get_cases)
  case (run req pl proto h2)
  from run(2) assms(2) show ?thesis
    by (auto simp: upd_run_def bind_result_Inr_iff Let_def split: prod.splits sum.splits bool.splits)
qed (use assms(2) in auto)

text \<open>
  A request for a provider that is not in the priority list is refused as a whole, also when it
  asks for others that are: no connection is made and no note is changed.
\<close>

theorem unknown_provider_refused:
  assumes "upd_decodeQuery (ue_cal e) (ue_now e) query = Inr (True, req, False)" "uh_updateid h \<noteq> []"
    and "snd (snd (checkForUpdatedNotes (ue_world e) m None)) = Inr calls"
    and "getProviderPriorityList e (notes_read e m) h (getWdbId (notes_read e m) h) = Some pl"
    and "k \<in> fst ` set req" "findProviderWithoutPlacename pl k = None"
  shows "upd_get e query h m = Inr (h, notes_read e m, None, Invalid_query)"
proof -
  have "list_ex (\<lambda>(k, t). findProviderWithoutPlacename pl k = None) req"
    using assms(5,6) by (force simp: list_ex_iff)
  then have "fst (checkProviders pl (old_times e h m) req) = False"
    by (simp add: checkProviders_def)
  then show ?thesis
    using assms(1-4) by (auto simp: upd_get_def notes_read_def old_times_def Let_def split: prod.splits sum.splits)
qed

section \<open>A concrete request\<close>

definition upd_world :: "upd_note note_world" where
  "upd_world =
     \<lparr>file_mtime = (\<lambda>f. None), file_read = (\<lambda>f. None), save_note = (\<lambda>n. Some (True, [])),
      load_note = (\<lambda>n s. Inr None)\<rparr>"

definition sample_upd :: upd_env where
  "sample_upd =
     \<lparr>ue_world = upd_world, ue_wci = (\<lambda>q. Inr [([], Some 7)]), ue_cal = simple_calendar, ue_now = 9, ue_fmt = dec_int,
      ue_proto = (\<lambda>db. 5), ue_conn = (\<lambda>db. True)\<rparr>"

definition upd_sample_handler :: upd_handler where
  "upd_sample_handler = \<lparr>uh_wdbDB = ''db'', uh_updateid = ''u'', uh_wciProtocol = -1\<rparr>"

definition upd_sample_notes :: "upd_note note_manager" where
  "upd_sample_notes =
     \<lparr>persistentNotePath = [], persistentNotes = [],
      plain_notes = [(''u.LocationProviderPriority'', \<lparr>tag = Note_string ''met'', nversion = 0\<rparr>),
        (''u.LocationProviderReftimeList'', \<lparr>tag = Note_reftimes [(''met'', provider_times_init)], nversion = 0\<rparr>)]\<rparr>"

theorem update_value_forms_witness:
  "decodeQueryValue simple_calendar 0 ''met'' '',7'' [] = Inr (True, [(''met'', provider_times_init\<lparr>dataversion := 7, dataversionRequest := True\<rparr>)])"
  using update_value_forms(2) [of "''met''" 7 simple_calendar 0 "[]"] by (simp add: int_max_def dec_nat.simps digit_chars)

lemma upd_sample_times:
  "providerWithPlacename (item ''met'' []) = ''met''" "decodeItem ''met'' = item ''met'' []"
  "providerWithoutPlacename [item ''met'' []] = [''met'']"
  by code_simp+

lemma upd_sample_getProviderReftimes:
  "getProviderReftimes (ue_wci sample_upd) 9 ''met'' spec v
     = Inr (True, [(''met'', provider_times_init\<lparr>refTime := Some 7, updatedTime := Some 9\<rparr>)])"
  by (simp add: getProviderReftimes_def provider_reftime_def sample_upd_def reftime_row_def upd_sample_times)

lemma upd_sample_parts:
  "upd_decodeQuery simple_calendar 9 ''met='' = Inr (True, [(''met'', provider_times_init\<lparr>reftimeUpdateRequest := True\<rparr>)], False)"
  "notes_read sample_upd upd_sample_notes = upd_sample_notes"
  "snd (snd (checkForUpdatedNotes upd_world upd_sample_notes None)) = Inr []"
  "getProviderPriorityList sample_upd upd_sample_notes upd_sample_handler ''db'' = Some [item ''met'' []]"
  "upd_getProviderReftimes upd_sample_notes upd_sample_handler = [(''met'', provider_times_init)]"
  "updateProviderRefTimes (ue_wci sample_upd) 9 dec_int [(''met'', provider_times_init\<lparr>reftimeUpdateRequest := True\<rparr>)]
     [(''met'', provider_times_init)] 5
   = (Inr True, [(''met'', provider_times_init\<lparr>refTime := Some 7, updatedTime := Some 9\<rparr>)])"
  by code_simp+

definition upd_sample_new :: reftimes where
  "upd_sample_new = [(''met'', provider_times_init\<lparr>refTime := Some 7, updatedTime := Some 9\<rparr>)]"

definition upd_sample_after :: "upd_note note_manager" where
  "upd_sample_after = upd_sample_notes\<lparr>plain_notes := [(''u.LocationProviderPriority'', \<lparr>tag = Note_string ''met'', nversion = 0\<rparr>),
        (''u.LocationProviderReftimeList'', \<lparr>tag = Note_reftimes upd_sample_new, nversion = 1\<rparr>)]\<rparr>"

lemma upd_sample_init:
  "updateProviderRefTimes_init (ue_wci sample_upd) 9 fmt [] [item ''met'' []] proto = (Inr True, upd_sample_new)"
  by (simp add: updateProviderRefTimes_init_def upd_sample_times upd_sample_getProviderReftimes omap.put_all_def upd_sample_new_def)

lemma upd_sample_set:
  "setNote upd_world upd_sample_notes (reftime_note upd_sample_handler) (Note_reftimes upd_sample_new) = Inr (upd_sample_after, None)"
  "checkAgainstExistingProviders upd_sample_new upd_sample_new = upd_sample_new"
  "updateStatus [(''met'', provider_times_init)] upd_sample_new = ''Updated''"
  "checkProviders [item ''met'' []] [(''met'', provider_times_init)] [(''met'', provider_times_init\<lparr>reftimeUpdateRequest := True\<rparr>)]
   = (True, [(''met'', provider_times_init\<lparr>reftimeUpdateRequest := True\<rparr>)])"
  "getWdbId upd_sample_notes upd_sample_handler = ''db''"
  "upd_protocol sample_upd upd_sample_handler = (5, upd_sample_handler\<lparr>uh_wciProtocol := 5\<rparr>)"
  by code_simp+

lemma upd_sample_get:
  "upd_get sample_upd ''met='' upd_sample_handler upd_sample_notes = Inr (upd_sample_handler\<lparr>uh_wciProtocol := 5\<rparr>, upd_sample_after, None, Done ''Updated'')"
proof -
  have fields: "ue_cal sample_upd = simple_calendar" "ue_now sample_upd = 9" "ue_fmt sample_upd = dec_int" "ue_world sample_upd = upd_world"
    "ue_conn sample_upd db" "uh_updateid upd_sample_handler = ''u''" "reftime_note (upd_sample_handler\<lparr>uh_wciProtocol := 5\<rparr>) = reftime_note upd_sample_handler" for db
    by (simp_all add: sample_upd_def upd_sample_handler_def reftime_note_def)
  have check: "checkForUpdatedNotes upd_world upd_sample_notes None = (upd_sample_notes, None, Inr [])"
    by code_simp
  have run: "upd_run sample_upd (upd_sample_handler\<lparr>uh_wciProtocol := 5\<rparr>) upd_sample_notes [item ''met'' []] [(''met'', provider_times_init)]
      [(''met'', provider_times_init\<lparr>reftimeUpdateRequest := True\<rparr>)] 5
    = Inr (upd_sample_handler\<lparr>uh_wciProtocol := 5\<rparr>, upd_sample_after, None, Done ''Updated'')"
    by (simp add: upd_run_def fields upd_sample_init upd_sample_parts(6) upd_sample_new_def [symmetric] upd_sample_set)
  show ?thesis
    by (simp add: upd_get_def fields upd_sample_parts check upd_sample_set run)
qed

theorem update_status_true_witness:
  "\<exists>new. (upd_sample_after = upd_sample_notes \<and> new = old_times sample_upd upd_sample_handler upd_sample_notes
      \<or> note_held upd_sample_after (reftime_note upd_sample_handler) = Some (Note_reftimes new))
    \<and> ''Updated'' = (if same_times (old_times sample_upd upd_sample_handler upd_sample_notes) new then ''NoNewDataRefTime'' else ''Updated'')"
proof -
  have wf: "om_wf (old_times sample_upd upd_sample_handler upd_sample_notes)"
    by (simp add: old_times_def upd_sample_parts om_wf_def)
  have f: "ue_cal sample_upd = simple_calendar" "ue_now sample_upd = 9"
    by (simp_all add: sample_upd_def)
  show ?thesis
    using update_status_true [OF upd_sample_get wf] by (simp add: f upd_sample_parts(1,2))
qed

theorem failed_update_keeps_notes_witness:
  "upd_get sample_upd ''xx='' upd_sample_handler upd_sample_notes = Inr (upd_sample_handler, upd_sample_notes, None, Invalid_query)
   \<and> upd_sample_notes \<in> {upd_sample_notes, notes_read sample_upd upd_sample_notes} \<and> (None :: (string \<times> string) option) = None"
proof -
  have get: "upd_get sample_upd ''xx='' upd_sample_handler upd_sample_notes = Inr (upd_sample_handler, upd_sample_notes, None, Invalid_query)"
    by code_simp
  show ?thesis
    using failed_update_keeps_notes [OF get] get by simp
qed

theorem unknown_provider_refused_witness:
  "upd_get sample_upd ''met=&xx=di'' upd_sample_handler upd_sample_notes = Inr (upd_sample_handler, notes_read sample_upd upd_sample_notes, None, Invalid_query)"
proof -
  have q: "upd_decodeQuery (ue_cal sample_upd) (ue_now sample_upd) ''met=&xx=di''
      = Inr (True, [(''met'', provider_times_init\<lparr>reftimeUpdateRequest := True\<rparr>),
          (''xx'', provider_times_init\<lparr>disableEnableRequest := True, disabled := True\<rparr>)], False)"
    by code_simp
  have calls: "snd (snd (checkForUpdatedNotes (ue_world sample_upd) upd_sample_notes None)) = Inr []"
    by code_simp
  have pl: "getProviderPriorityList sample_upd (notes_read sample_upd upd_sample_notes) upd_sample_handler
      (getWdbId (notes_read sample_upd upd_sample_notes) upd_sample_handler) = Some [item ''met'' []]"
    by (simp only: upd_sample_parts upd_sample_set)
  have unknown: "findProviderWithoutPlacename [item ''met'' []] ''xx'' = None"
    by code_simp
  show ?thesis
    by (rule unknown_provider_refused [OF q _ calls pl _ unknown]) (simp_all add: upd_sample_handler_def)
qed

end
