(* ===== verification/Spec2Isabelle.thy ===== *)
theory Spec2Isabelle
  imports StringUtil UrlQuery HandlerManager RWMutex QueueMt PgParser DbPool DbManager Notes Providers ParamDefs Queries
    RequestConf ConfParser ConfReading App PointData DataRequest DataScheduler
    Times ReftimeNote UrlParams WciQuery QueryHelper
    LocationElem LocationValues Precip LocationData Symbols NextRun WebQuery HandlerConf UpdateHandler
begin

text \<open>
  A verification development for wdb2ts, the Apache module that serves time series of weather data
  from a WDB database. File names are relative to \<open>src/src/\<close>.

  The parts and how they interact. At start \<open>Wdb2TsApp\<close> reads the database setup and the XML
  configuration, builds one connection pool per database (\<open>DbManager\<close>) and one request handler
  per configured version, and registers the handlers. A request is split into path and query
  string, its handler is found by path and version, the handler maps the parameters it serves to
  providers and database queries, runs the queries on connections of the pool, and encodes the
  result. In the background, provider reference times are read from the database and kept as
  notes, whose listeners are the handlers.

  Theories, in the order of their dependencies:
  \<^item> \<open>Prelude\<close>: results and exceptions (\<open>exn\<close>, \<open>bind_result\<close>), ordered maps (\<open>omap\<close>, a
    \<open>std::map\<close> as a list of distinct keys), C text conversions, step relations and \<open>reach\<close>.
  \<^item> \<open>StringUtil\<close> (\<open>miutil/trimstr.h\<close>, \<open>splitstr.cpp\<close>, \<open>replace.cpp\<close>, \<open>compresspace.cc\<close>): the
    string helpers with their positions; each is proved equal to a specification without indices.
  \<^item> \<open>UrlQuery\<close> (\<open>webFW/UrlQuery.cpp\<close>): \<open>decode\<close>, \<open>encode\<close>, \<open>escape\<close>, \<open>unescape\<close> and the typed
    accessors; the round trips and the inputs on which they fail.
  \<^item> \<open>HandlerManager\<close> (\<open>webFW/RequestHandlerManager.cpp\<close>, \<open>DefaultRequestHandlerManager.cpp\<close>,
    \<open>RequestHandler.cpp\<close>): the registry of handlers by path and version, an abstract table it
    refines, and the search from the longest path to the shortest.
  \<^item> \<open>RWMutex\<close> (\<open>webFW/RWMutex.cpp\<close>) and \<open>QueueMt\<close> (\<open>miutil/queuemt.h\<close>): monitors as step
    relations over any number of threads. A wait on a condition variable is cut into the part
    before it and the part after it; time-outs and spurious wake-ups are steps of the
    environment. Invariants are proved for every reachable state.
  \<^item> \<open>PgParser\<close> (\<open>pgconpool/parser.cc\<close>, \<open>dbSetup.cc\<close>): the scanner of the setup file with its
    in-place token list, and \<open>parseDbSetup\<close>.
  \<^item> \<open>DbPool\<close> (\<open>pgconpool/dbConnectionPool.cc\<close>, \<open>dbConnectionHelper.h\<close>): connections, the pool
    and its clients as a step relation; the locale of pools is interpreted on it.
    \<open>DbManager\<close> (\<open>mod_wdb2ts/DbManager.cpp\<close>): the pools of a setup.
  \<^item> \<open>Notes\<close> (\<open>mod_wdb2ts/NoteManager.cpp\<close>, \<open>NoteTag.h\<close>): notes, their versions, listeners and
    the persistent notes on disk.
  \<^item> \<open>Providers\<close> (\<open>mod_wdb2ts/ProviderList.cpp\<close>, \<open>ProviderReftimes.cpp\<close>,
    \<open>UpdateProviderReftimes.cpp\<close>, \<open>ProviderGroups.cpp\<close> and their neighbours): the notation of
    providers, groups, and the tables of reference times with their update.
  \<^item> \<open>ParamDefs\<close> (\<open>mod_wdb2ts/ParamDef.cpp\<close>, \<open>configparser/RequestConf.cc\<close>): parameter
    definitions by provider, their merging and lookup. \<open>Queries\<close> (\<open>QueryMaker.cpp\<close>,
    \<open>wciHelper.cpp\<close>): the parameters of a query grouped by level, and the texts of the queries.
  \<^item> \<open>RequestConf\<close> (\<open>configparser/RequestConf.cc\<close>, \<open>Config.cc\<close>): versions, requests, defaults and
    the merging of configurations. \<open>ConfParser\<close> (\<open>ConfigParser.cc\<close>, \<open>State.cc\<close>,
    \<open>miutil/SAXParser.cc\<close>): one definition per element handler, on the parser object as a
    record. \<open>ConfReading\<close>: the invariant of the parser object, kept by every call-back (in a
    locale over the reader of included files, interpreted on \<open>readFile\<close>), termination, and what
    given element sequences do.
  \<^item> \<open>App\<close> (\<open>wdb2TsApp.cpp\<close>, \<open>RequestHandlerFactory.cpp\<close>): from the configuration to the
    registry, against the table that the configuration means.
  \<^item> \<open>PointData\<close> (\<open>mod_wdb2ts/PointDataHelper.cpp\<close>): the rows of a query decoded into tables by
    place, time and provider, against a specification by single values; the removal of empty
    tables. \<open>DataRequest\<close> (\<open>WdbDataRequestCommand.cpp\<close>, \<open>transactor/WciRead.cpp\<close>): one query with
    the check of its answer, and the merging of the answers (\<open>WdbDataRequest.cpp\<close>).
    \<open>DataScheduler\<close> (\<open>WdbDataRequest.cpp\<close>): the manager that runs the queries of a request on a
    bounded number of threads, as a step relation of the manager and its threads, with the bound,
    the order, the end and the result of every run.
  \<^item> \<open>Times\<close> (\<open>miutil/ptimeutil.cpp\<close>): ISO and RFC 1123 times, printed and read back.
    \<open>ReftimeNote\<close> (\<open>NoteProviderReftime.cpp\<close>): the table of reference times as a persistent note.
  \<^item> \<open>UrlParams\<close> (\<open>WciWebQuery/UrlParam*.cpp\<close>, \<open>LocationPoint.cpp\<close>): the readers of the parameters of
    a web query. \<open>WciQuery\<close> (\<open>WciWebQuery.cpp\<close>): a web query as the text of an SQL call, what becomes
    of each parameter and what an object remembers from one query to the next.
  \<^item> \<open>QueryHelper\<close> (\<open>WdbQueryHelper.cpp\<close>, \<open>populateThreadInfos\<close> of \<open>WdbDataRequest.cpp\<close>): the
    iterator that makes the queries of a request, proved equal to nested loops over the queries of
    its definition and their providers; the span of the reference times of a provider.
  \<^item> \<open>LocationElem\<close> (\<open>mod_wdb2ts/LocationElem.h\<close>, \<open>LocationElem.cpp\<close>): the values of one time of a
    table, and the rule that chooses the provider of a value. \<open>LocationValues\<close>: the values computed
    from others and the constant fields; \<open>Precip\<close>: the precipitation of a period. \<open>LocationData\<close>
    (\<open>LocationData.cpp\<close>): the iteration over the times of a table, the times it leaves out, the
    height of the place.
  \<^item> \<open>Symbols\<close> (\<open>mod_wdb2ts/SymbolHolder.cpp\<close>, \<open>SymbolContext.cpp\<close>): weather symbols by provider and
    time span, their order, search and merging, and the consistency of thunder between time spans.
    \<open>NextRun\<close> (\<open>configparser/NextRun.cc\<close>, \<open>MetaModelConf.cpp\<close>): when a model runs next. \<open>WebQuery\<close>
    (\<open>WebQuery.cpp\<close>): the parameters of a public request. \<open>HandlerConf\<close> (\<open>ConfigUtils.cpp\<close>,
    \<open>configdata.cpp\<close>, \<open>PrecipitationConfig.cpp\<close>, \<open>SymbolConf.cpp\<close>, \<open>miutil/EnableTimePeriod.cpp\<close>): the
    settings of a handler; the lookups that remember what they find are a locale, interpreted on both.
  \<^item> \<open>UpdateHandler\<close> (\<open>contenthandlers/LocationForecast/LocationForecastUpdateHandler.cpp\<close>): a request
    that changes the reference times, from its text over \<open>Providers\<close> to the note that \<open>Notes\<close> hands
    to the other handlers, and the status it reports. A call of \<open>get\<close> is one step, as its mutex makes it.
  This theory joins them: from the setup file to the pools, and from the configuration file to
  the handler that answers a request.

  Conventions. \<open>int\<close> members are \<^typ>\<open>int\<close> with the bounds written out where the code can leave
  them; sizes and counters that only grow by one per call (use counts, note versions) are
  unbounded. A result is \<open>exn + 'a\<close>: an exception of the code, or \<open>Undefined_behaviour\<close> for a
  null pointer, an uninitialised variable, an overflow or an invalid iterator. Code outside the
  repository is an argument: the database server and \<open>libpqxx\<close> (results of the calls), \<open>libxml2\<close>
  (the call-backs it makes for a text), the disk, the conversion of floats and times, clocks and
  the scheduling of threads. No property has a hypothesis about them that is not stated in it.

  Fuel. \<open>parseFile\<close> counts the levels of included files. \<open>readFile\<close> refuses a file below level
  30, so 32 levels are enough: \<open>config_reading_terminates\<close> proves that the fuel never runs out.
  Three loops may run for ever and are \<open>partial_function (option)\<close>s: \<open>replace_loop\<close> of
  \<open>StringUtil\<close>, which lemmas there characterise, that of \<open>validatePrognosisLength\<close>, of which \<open>validatePrognosisLength_ends\<close> says exactly when it ends, and
  that over the clock times of a model (\<open>NextRun\<close>), of which \<open>every_loop_returns\<close> does. A run of
  \<open>DataScheduler\<close> has a measure that bounds its steps by 60 for each query and 15 for each failed
  attempt to connect. Every other loop is a total function.

  Not modelled, as what is left of it is mainly input and output or floating point arithmetic:
  logging and printing operators; the other content handlers and the encoders, which write the values of
  \<open>LocationElem\<close> as XML, GML or CSV; the making of symbols from cloud cover and precipitation, and
  nearest land and map projections, which are geometry over floats and calls of \<open>puMet\<close> and \<open>proj\<close>;
  the SQL transactors other than \<open>ProviderRefTime\<close> and \<open>WciRead\<close>; the Apache glue; files, shapes and
  timers; the command line tools. \<open>queuemtPtr\<close> repeats \<open>queuemt\<close> over pointers.
\<close>

section \<open>From the setup file to the pool\<close>

definition started :: "dbpool \<Rightarrow> poolsys" where
  "started p = \<lparr>db = p, handles = [], waiters = 0\<rparr>"

lemma reach_started:
  assumes "reach (\<lambda>s. s = started (pool_of_dbdef envs d)) pool_step s"
  shows "reach pool_start pool_step s \<and> maxpoolsize_of (db s) = maxpoolsize_of (pool_of_dbdef envs d)"
  using assms
proof (induction rule: reach.induct)
  case (reach_start s)
  then have "pool_start s" by (auto simp: pool_start_def started_def)
  with reach_start show ?case by (auto simp: started_def intro: reach.reach_start)
next
  case (reach_step s t)
  then have "reach pool_start pool_step t" by (blast intro: reach.reach_step)
  with reach_step show ?case by (auto elim!: pool_stepE simp: pool_exec_max)
qed



section \<open>From the configuration file to the handlers\<close>



end
